(* ===== verification/Prelude.thy ===== *)
theory Prelude
  imports Main "HOL-Library.Word" "HOL-Library.Char_ord" "HOL-Library.List_Lexorder"
begin

text \<open>
  Shared vocabulary of the development: Go's \<open>uint32\<close> as a 32-bit word, the error and
  result types, decimal rendering as \<open>fmt\<close> does it, and the generic facts on words,
  integer ranges and lists that the component theories use. Ledger sequences are
  \<open>u32\<close> in Go code and \<open>int\<close> in the \<open>bigint\<close> columns of the database
  (\<open>int64(x)\<close> of a \<open>uint32\<close> is \<open>uint x\<close>).
\<close>

section \<open>Types and collections\<close>

type_synonym u32 = "32 word"
type_synonym i32 = "32 word"

named_theorems u32_arith \<open>reading word arithmetic without wrap-around as integer arithmetic\<close>
named_theorems range_simps \<open>sets of ledgers named by ranges\<close>

definition maxU32 :: u32 where
  "maxU32 = 4294967295"

section \<open>Words read as integers\<close>

lemma u32_le_iff [u32_arith]: "(a::u32) \<le> b \<longleftrightarrow> uint a \<le> uint b"
  by (simp add: word_le_def)

lemma u32_less_iff [u32_arith]: "(a::u32) < b \<longleftrightarrow> uint a < uint b"
  by (simp add: word_less_def)

lemma u32_eq_iff: "(a::u32) = b \<longleftrightarrow> uint a = uint b"
  by (simp add: word_uint_eq_iff)

lemma u32_uint_bounds: "0 \<le> uint (a::u32) \<and> uint a < 4294967296"
  using uint_lt2p [of a] by simp

lemma u32_add:
  assumes "uint (a::u32) + uint b < 4294967296"
  shows "uint (a + b) = uint a + uint b"
  using assms by (simp add: uint_plus_if')

lemma u32_sub:
  assumes "uint (b::u32) \<le> uint a"
  shows "uint (a - b) = uint a - uint b"
  using assms by (simp add: uint_sub_if')

lemma u32_Suc [u32_arith]: "(a::u32) < b \<Longrightarrow> uint (a + 1) = uint a + 1"
  using u32_add [of a 1] u32_uint_bounds [of b] by (simp add: u32_less_iff)

lemma u32_pred [u32_arith]: "(a::u32) < b \<Longrightarrow> uint (b - 1) = uint b - 1"
  using u32_sub [of 1 b] u32_uint_bounds [of a] by (simp add: u32_less_iff)

lemma u32_pred_pos: "0 < uint (b::u32) \<Longrightarrow> uint (b - 1) = uint b - 1"
  using u32_sub [of 1 b] by simp

lemma uint_maxU32 [simp]: "uint maxU32 = 4294967295"
  by (simp add: maxU32_def)

lemma u32_le_maxU32 [simp]: "(a::u32) \<le> maxU32"
  using u32_uint_bounds [of a] by (simp add: u32_le_iff)

lemma u32_uint_max: "uint (max (a::u32) b) = max (uint a) (uint b)"
  by (simp add: max_def u32_le_iff)

lemma u32_uint_min: "uint (min (a::u32) b) = min (uint a) (uint b)"
  by (simp add: min_def u32_le_iff)

text \<open>\<open>uint32(v)\<close> of a \<open>bigint\<close> that came from a \<open>uint32\<close> gives it back.\<close>

lemma u32_of_column: "0 \<le> i \<Longrightarrow> i < 4294967296 \<Longrightarrow> uint (word_of_int i :: u32) = i"
  by (simp add: uint_word_of_int_eq take_bit_eq_mod)

lemma word_of_int_uint_u32 [simp]: "(word_of_int (uint (a::u32)) :: u32) = a"
  by simp

section \<open>Decimal rendering\<close>

text \<open>\<open>%d\<close> of a non-negative integer, most significant digit first.\<close>

definition digit_char :: "nat \<Rightarrow> char" where
  "digit_char d = char_of (48 + d)"

fun dec :: "nat \<Rightarrow> string" where
  "dec n = (if n < 10 then [digit_char n] else dec (n div 10) @ [digit_char (n mod 10)])"

declare dec.simps [simp del]

definition dec_int :: "int \<Rightarrow> string" where
  "dec_int i = (if i < 0 then CHR ''-'' # dec (nat (- i)) else dec (nat i))"

definition digit_val :: "char \<Rightarrow> nat" where
  "digit_val c = of_char c - 48"

definition undec :: "string \<Rightarrow> nat" where
  "undec s = foldl (\<lambda>a c. 10 * a + digit_val c) 0 s"

lemma digit_val_char [simp]: "d < 10 \<Longrightarrow> digit_val (digit_char d) = d"
  by (simp add: digit_val_def digit_char_def)

lemma undec_dec [simp]: "undec (dec n) = n"
proof (induction n rule: dec.induct)
  case (1 n)
  show ?case
  proof (cases "n < 10")
    case True
    then show ?thesis by (subst dec.simps) (simp add: undec_def)
  next
    case False
    with 1 have "undec (dec (n div 10)) = n div 10" by simp
    with False show ?thesis by (subst dec.simps) (simp add: undec_def)
  qed
qed

lemma dec_inject [simp]: "dec m = dec n \<longleftrightarrow> m = n"
  using undec_dec by metis

lemma dec_nonempty [simp]: "dec n \<noteq> []"
  by (subst dec.simps) simp

lemma digit_char_not_colon: "d < 10 \<Longrightarrow> digit_char d \<noteq> CHR '':''"
proof
  assume "d < 10" and "digit_char d = CHR '':''"
  then have "digit_val (CHR '':'') = d" by (metis digit_val_char)
  moreover have "digit_val (CHR '':'') = 10" by (simp add: digit_val_def)
  ultimately show False using \<open>d < 10\<close> by simp
qed

lemma dec_no_colon: "CHR '':'' \<notin> set (dec n)"
proof (induction n rule: dec.induct)
  case (1 n)
  show ?case
  proof (cases "n < 10")
    case True
    then show ?thesis using digit_char_not_colon [of n] by (subst dec.simps) auto
  next
    case False
    with 1 show ?thesis
      using digit_char_not_colon [of "n mod 10"] by (subst dec.simps) auto
  qed
qed

lemma dec_int_inject: "0 \<le> i \<Longrightarrow> 0 \<le> j \<Longrightarrow> dec_int i = dec_int j \<longleftrightarrow> i = j"
  by (auto simp: dec_int_def)

text \<open>Splitting at the first separator is unique.\<close>

lemma append_sep_inject:
  assumes "c \<notin> set xs" and "c \<notin> set ys"
  shows "xs @ c # zs = ys @ c # ws \<longleftrightarrow> xs = ys \<and> zs = ws"
  using assms
proof (induction xs arbitrary: ys)
  case Nil
  then show ?case by (cases ys) auto
next
  case (Cons x xs)
  then show ?case by (cases ys) auto
qed

text \<open>\<open>strings.ToLower\<close> on ASCII.\<close>

definition ToLower :: "string \<Rightarrow> string" where
  "ToLower = map (\<lambda>c. if 65 \<le> (of_char c :: nat) \<and> (of_char c :: nat) \<le> 90 then char_of ((of_char c :: nat) + 32) else c)"

section \<open>Lists\<close>

text \<open>\<open>ORDER BY\<close> and \<open>sort.Slice\<close> by a key: a stable insertion sort.\<close>

abbreviation sort_on :: "('a \<Rightarrow> 'k::linorder) \<Rightarrow> 'a list \<Rightarrow> 'a list" where
  "sort_on \<equiv> sort_key"

lemma distinct_map_filter_unique:
  assumes "distinct (map f xs)" and "x \<in> set xs" and "y \<in> set xs" and "f x = f y"
  shows "x = y"
  using assms by (meson distinct_map inj_onD)

lemma list_ex_iff_set: "list_ex P xs \<longleftrightarrow> (\<exists>x\<in>set xs. P x)"
  by (auto simp: list_ex_iff)

end
