(* ===== verification/Ranges.thy ===== *)
theory Ranges
  imports Prelude
begin

text \<open>
  The range arithmetic of the gap store: \<open>uncoveredRanges\<close> of
  \<^verbatim>\<open>internal/store/store.go\<close> (on \<open>bigint\<close> values), \<open>normalizePlan\<close> and
  \<open>partition\<close> of \<^verbatim>\<open>internal/store/plan.go\<close> (on \<open>uint32\<close> values, wrap-around
  included). A range is read as the set of ledgers it names; the lemmas relate each
  routine to that reading.
\<close>

section \<open>Data\<close>

datatype HealMode = HealModeReplay | HealModeDeferred

record Interval =
  iv_From :: u32
  iv_To :: u32

record piece =
  p_from :: u32
  p_to :: u32
  p_mode :: HealMode

definition checkpointFrequency :: u32 where
  "checkpointFrequency = 64"

abbreviation rng :: "int \<times> int \<Rightarrow> int set" where
  "rng r \<equiv> {fst r..snd r}"

definition ranges :: "(int \<times> int) list \<Rightarrow> int set" where
  "ranges rs = (\<Union>r\<in>set rs. rng r)"

definition iv_set :: "Interval \<Rightarrow> int set" where
  "iv_set iv = {uint (iv_From iv)..uint (iv_To iv)}"

definition plan_set :: "Interval list \<Rightarrow> int set" where
  "plan_set p = (\<Union>iv\<in>set p. iv_set iv)"

definition piece_set :: "piece \<Rightarrow> int set" where
  "piece_set p = {uint (p_from p)..uint (p_to p)}"

definition pieces_set :: "HealMode \<Rightarrow> piece list \<Rightarrow> int set" where
  "pieces_set m ps = (\<Union>p\<in>{p \<in> set ps. p_mode p = m}. piece_set p)"

section \<open>Subtracting a set of gaps from a range\<close>

fun uncovered_loop :: "int \<Rightarrow> int \<Rightarrow> (int \<times> int) list \<Rightarrow> (int \<times> int) list" where
  "uncovered_loop cursor to [] = (if cursor \<le> to then [(cursor, to)] else [])"
| "uncovered_loop cursor to ((c0, c1) # cs) =
     (if cursor > to then []
      else if c1 < c0 then uncovered_loop cursor to cs
      else (if c0 > cursor
            then [(cursor, if c0 - 1 > to then to else c0 - 1)] else []) @
           uncovered_loop (if c1 + 1 > cursor then c1 + 1 else cursor) to cs)"

definition uncoveredRanges :: "int \<Rightarrow> int \<Rightarrow> (int \<times> int) list \<Rightarrow> (int \<times> int) list" where
  "uncoveredRanges from to covered = uncovered_loop from to covered"

text \<open>Ascending ranges, each non-empty, no two touching each other's ledgers.\<close>

fun ascending :: "int \<Rightarrow> (int \<times> int) list \<Rightarrow> bool" where
  "ascending lo [] \<longleftrightarrow> True"
| "ascending lo ((f, t) # rs) \<longleftrightarrow> lo \<le> f \<and> f \<le> t \<and> ascending (t + 1) rs"

lemma ranges_simps [simp]:
  "ranges [] = {}"
  "ranges (r # rs) = rng r \<union> ranges rs"
  "ranges (rs @ ss) = ranges rs \<union> ranges ss"
  by (auto simp: ranges_def)

lemma uncovered_loop_set:
  assumes "sorted (map fst cs)"
  shows "ranges (uncovered_loop cursor to cs) = {cursor..to} - ranges cs"
  using assms
proof (induction cursor to cs rule: uncovered_loop.induct)
  case (1 cursor to)
  then show ?case by auto
next
  case (2 cursor to c0 c1 cs)
  then have le: "\<And>f t. (f, t) \<in> set cs \<Longrightarrow> c0 \<le> f" by auto
  have sub: "ranges cs \<subseteq> {c0..}"
    using le by (fastforce simp: ranges_def)
  consider "to < cursor" | "cursor \<le> to" "c1 < c0" | "cursor \<le> to" "c0 \<le> c1" by linarith
  then show ?case
  proof cases
    case 3
    define nxt where "nxt = (if c1 + 1 > cursor then c1 + 1 else cursor)"
    have IH: "ranges (uncovered_loop nxt to cs) = {nxt..to} - ranges cs"
      using 2 3 by (simp add: nxt_def)
    have step: "uncovered_loop cursor to ((c0, c1) # cs) =
        (if c0 > cursor then [(cursor, if c0 - 1 > to then to else c0 - 1)] else []) @
        uncovered_loop nxt to cs"
      using 3 by (simp add: nxt_def)
    have nxt: "nxt = max cursor (c1 + 1)" by (simp add: nxt_def)
    show ?thesis
    proof (rule set_eqI)
      fix x
      have low: "x \<in> ranges cs \<Longrightarrow> c0 \<le> x" using sub by auto
      have mem: "x \<in> ranges (uncovered_loop nxt to cs) \<longleftrightarrow>
          nxt \<le> x \<and> x \<le> to \<and> x \<notin> ranges cs"
        by (simp add: IH)
      show "x \<in> ranges (uncovered_loop cursor to ((c0, c1) # cs)) \<longleftrightarrow>
          x \<in> {cursor..to} - ranges ((c0, c1) # cs)"
        unfolding step using 3 low mem nxt
        by (cases "x \<in> ranges cs"; cases "c0 > cursor") auto
    qed
  qed (use 2 in auto)
qed

lemma ascending_mono: "ascending lo rs \<Longrightarrow> lo' \<le> lo \<Longrightarrow> ascending lo' rs"
  by (cases rs) auto

lemma uncovered_loop_ascending: "ascending cursor (uncovered_loop cursor to cs)"
proof (induction cursor to cs rule: uncovered_loop.induct)
  case (2 cursor to c0 c1 cs)
  let ?next = "if c1 + 1 > cursor then c1 + 1 else cursor"
  have IH: "cursor \<le> to \<Longrightarrow> c0 \<le> c1 \<Longrightarrow> ascending ?next (uncovered_loop ?next to cs)"
    using 2(2) by simp
  show ?case
  proof (cases "cursor \<le> to \<and> c0 \<le> c1")
    case True
    with IH have A: "ascending ?next (uncovered_loop ?next to cs)" by simp
    have B: "ascending cursor (uncovered_loop ?next to cs)"
      by (rule ascending_mono [OF A]) simp
    have C: "c0 > cursor \<Longrightarrow>
        ascending ((if c0 - 1 > to then to else c0 - 1) + 1) (uncovered_loop ?next to cs)"
      by (rule ascending_mono [OF A]) (use True in auto)
    show ?thesis using True B C by (simp add: not_less)
  next
    case False
    then show ?thesis using 2(1) by auto
  qed
qed simp

lemma ascending_separated:
  "ascending lo rs \<Longrightarrow> i < j \<Longrightarrow> j < length rs \<Longrightarrow> snd (rs ! i) < fst (rs ! j)"
proof (induction lo rs arbitrary: i j rule: ascending.induct)
  case (2 lo f t rs)
  have low: "ascending l qs \<Longrightarrow> k < length qs \<Longrightarrow> l \<le> fst (qs ! k)" for l qs k
  proof (induction l qs arbitrary: k rule: ascending.induct)
    case (2 l f t qs)
    then show ?case by (cases k) force+
  qed simp
  from 2 show ?case
    by (cases i; cases j) (use low [of "t + 1" rs] in \<open>fastforce\<close>)+
qed simp

lemma ascending_nonempty: "ascending lo rs \<Longrightarrow> (f, t) \<in> set rs \<Longrightarrow> lo \<le> f \<and> f \<le> t"
  by (induction lo rs rule: ascending.induct) (fastforce)+

section \<open>Cutting a gap along a replay plan\<close>

definition max32 :: "u32 \<Rightarrow> u32 \<Rightarrow> u32" where
  "max32 a b = (if a > b then a else b)"

definition min32 :: "u32 \<Rightarrow> u32 \<Rightarrow> u32" where
  "min32 a b = (if a < b then a else b)"

fun partition_loop :: "u32 \<Rightarrow> u32 \<Rightarrow> Interval list \<Rightarrow> piece list" where
  "partition_loop cur to [] = [\<lparr>p_from = cur, p_to = to, p_mode = HealModeDeferred\<rparr>]"
| "partition_loop cur to (iv # plan) =
     (if iv_To iv < cur then partition_loop cur to plan
      else if iv_From iv > to then [\<lparr>p_from = cur, p_to = to, p_mode = HealModeDeferred\<rparr>]
      else let start = max32 (iv_From iv) cur; stop = min32 (iv_To iv) to in
        (if start > cur
         then [\<lparr>p_from = cur, p_to = start - 1, p_mode = HealModeDeferred\<rparr>] else []) @
        \<lparr>p_from = start, p_to = stop, p_mode = HealModeReplay\<rparr> #
        (if stop = to then [] else partition_loop (stop + 1) to plan))"

definition partition :: "u32 \<Rightarrow> u32 \<Rightarrow> Interval list \<Rightarrow> piece list" where
  "partition from to plan = partition_loop from to plan"

definition iv_valid :: "Interval \<Rightarrow> bool" where
  "iv_valid iv \<longleftrightarrow> iv_From iv \<le> iv_To iv"

text \<open>
  \<open>tiles f t ps\<close>: the pieces cover the range \<open>f..t\<close> left to right, each where the
  previous one stopped, none empty.
\<close>

fun tiles :: "int \<Rightarrow> int \<Rightarrow> piece list \<Rightarrow> bool" where
  "tiles f t [] \<longleftrightarrow> f = t + 1"
| "tiles f t (p # ps) \<longleftrightarrow>
     uint (p_from p) = f \<and> f \<le> uint (p_to p) \<and> uint (p_to p) \<le> t \<and> tiles (uint (p_to p) + 1) t ps"

lemma uint_max32 [u32_arith]: "uint (max32 a b) = max (uint a) (uint b)"
  by (simp add: max32_def u32_less_iff)

lemma uint_min32 [u32_arith]: "uint (min32 a b) = min (uint a) (uint b)"
  by (simp add: min32_def u32_less_iff)

text \<open>Where an interval of the plan meets the range it is cut to a replay piece inside both, and what
is left of the range starts one ledger after it.\<close>

lemma cut_bounds:
  assumes "iv_valid iv" and "cur \<le> to" and "\<not> iv_To iv < cur" and "\<not> iv_From iv > to"
  shows "uint (max32 (iv_From iv) cur) = max (uint (iv_From iv)) (uint cur)"
    and "uint (min32 (iv_To iv) to) = min (uint (iv_To iv)) (uint to)"
    and "uint cur \<le> uint (max32 (iv_From iv) cur)"
    and "uint (max32 (iv_From iv) cur) \<le> uint (min32 (iv_To iv) to)"
    and "uint (min32 (iv_To iv) to) \<le> uint to"
  using assms by (auto simp: u32_arith iv_valid_def u32_le_iff u32_less_iff)

lemma cut_rest:
  fixes stop to :: u32
  assumes "uint stop \<le> uint to" and "stop \<noteq> to"
  shows "stop < to" and "uint (stop + 1) = uint stop + 1" and "stop + 1 \<le> to"
proof -
  show lt: "stop < to" using assms by (simp add: u32_less_iff u32_eq_iff)
  show "uint (stop + 1) = uint stop + 1" "stop + 1 \<le> to"
    using u32_Suc [OF lt] lt by (simp_all add: u32_le_iff u32_less_iff)
qed

lemma partition_loop_tiles:
  assumes "cur \<le> to" and "\<forall>iv\<in>set plan. iv_valid iv"
  shows "tiles (uint cur) (uint to) (partition_loop cur to plan)"
  using assms
proof (induction cur to plan rule: partition_loop.induct)
  case (2 cur to iv plan)
  define start where "start = max32 (iv_From iv) cur"
  define stop where "stop = min32 (iv_To iv) to"
  have iv: "iv_valid iv" using 2 by simp
  show ?case
  proof (cases "iv_To iv < cur \<or> iv_From iv > to")
    case True
    then show ?thesis using 2 by (auto simp: u32_le_iff)
  next
    case False
    then have cut: "\<not> iv_To iv < cur" "\<not> iv_From iv > to" by auto
    note se = cut_bounds(3-5) [OF iv 2(3) cut, folded start_def stop_def]
    have pred: "start > cur \<Longrightarrow> uint (start - 1) = uint start - 1"
      by (rule u32_pred)
    have tl: "tiles (uint stop + 1) (uint to)
        (if stop = to then [] else partition_loop (stop + 1) to plan)"
    proof (cases "stop = to")
      case False
      with cut_rest [OF se(3)] 2 cut show ?thesis by (auto simp: start_def stop_def)
    qed simp
    show ?thesis
      using False se pred tl
      by (auto simp: Let_def start_def [symmetric] stop_def [symmetric] u32_less_iff)
  qed
qed (simp add: u32_le_iff)

lemma tiles_sets:
  "tiles f t ps \<Longrightarrow> (\<Union>p\<in>set ps. piece_set p) = {f..t}"
proof (induction f t ps rule: tiles.induct)
  case (2 f t p ps)
  then have "(\<Union>q\<in>set ps. piece_set q) = {uint (p_to p) + 1..t}" by simp
  with 2 show ?case by (auto simp: piece_set_def)
qed auto

lemma tiles_low: "tiles f t ps \<Longrightarrow> p \<in> set ps \<Longrightarrow> f \<le> uint (p_from p) \<and> uint (p_to p) \<le> t
    \<and> uint (p_from p) \<le> uint (p_to p)"
  by (induction f t ps rule: tiles.induct) fastforce+

lemma tiles_distinct: "tiles f t ps \<Longrightarrow> distinct (map (\<lambda>p. uint (p_from p)) ps)"
proof (induction f t ps rule: tiles.induct)
  case (2 f t p ps)
  then have "\<forall>q\<in>set ps. uint (p_from p) < uint (p_from q)"
    using tiles_low [of "uint (p_to p) + 1" t ps] by force
  with 2 show ?case by force
qed simp

lemma tiles_disjoint:
  assumes "tiles f t ps" and "p \<in> set ps" and "q \<in> set ps" and "p \<noteq> q"
  shows "piece_set p \<inter> piece_set q = {}"
  using assms
proof (induction f t ps rule: tiles.induct)
  case (2 f t r ps)
  then have "\<forall>q\<in>set ps. piece_set r \<inter> piece_set q = {}"
    using tiles_low [of "uint (p_to r) + 1" t ps] by (fastforce simp: piece_set_def)
  with 2 show ?case by (auto simp: Int_commute)
qed simp

lemma tiles_last:
  "tiles f t ps \<Longrightarrow> ps \<noteq> [] \<Longrightarrow> uint (p_to (last ps)) = t"
proof (induction f t ps rule: tiles.induct)
  case (2 f t p ps)
  then show ?case by (cases ps) auto
qed simp

text \<open>Cutting a piece again along the same plan gives the piece back.\<close>

lemma partition_loop_self:
  assumes "cur \<le> to" and "\<forall>iv\<in>set plan. iv_valid iv" and "p \<in> set (partition_loop cur to plan)"
  shows "partition_loop (p_from p) (p_to p) plan = [p]"
  using assms
proof (induction cur to plan rule: partition_loop.induct)
  case (2 cur to iv plan)
  define start where "start = max32 (iv_From iv) cur"
  define stop where "stop = min32 (iv_To iv) to"
  have iv: "iv_valid iv" using 2 by simp
  have tl: "tiles (uint cur) (uint to) (partition_loop cur to (iv # plan))"
    using 2 by (intro partition_loop_tiles) auto
  then have pb: "uint cur \<le> uint (p_from p)" "uint (p_from p) \<le> uint (p_to p)"
    using tiles_low 2(5) by blast+
  consider (skip) "iv_To iv < cur" | (brk) "\<not> iv_To iv < cur" "iv_From iv > to"
    | (cut) "\<not> iv_To iv < cur" "\<not> iv_From iv > to" by blast
  then show ?case
  proof cases
    case skip
    then have "iv_To iv < p_from p" using pb by (simp add: u32_less_iff)
    moreover have "partition_loop (p_from p) (p_to p) plan = [p]"
      using skip 2 by simp
    ultimately show ?thesis by simp
  next
    case brk
    with 2(5) have "p = \<lparr>p_from = cur, p_to = to, p_mode = HealModeDeferred\<rparr>" by simp
    with brk show ?thesis by simp
  next
    case cut
    note se = cut_bounds [OF iv 2(3) cut, folded start_def stop_def]
    consider (pre) "start > cur" "p = \<lparr>p_from = cur, p_to = start - 1, p_mode = HealModeDeferred\<rparr>"
      | (hd) "p = \<lparr>p_from = start, p_to = stop, p_mode = HealModeReplay\<rparr>"
      | (tl) "stop \<noteq> to" "p \<in> set (partition_loop (stop + 1) to plan)"
      using 2(5) cut by (auto simp: Let_def start_def [symmetric] stop_def [symmetric] split: if_splits)
    then show ?thesis
    proof cases
      case pre
      then have "uint (start - 1) = uint start - 1" by (intro u32_pred)
      moreover have "uint start = uint (iv_From iv)"
        using pre se by (simp add: u32_less_iff)
      ultimately have "iv_From iv > start - 1" by (simp add: u32_less_iff)
      then show ?thesis using pre cut by simp
    next
      case hd
      have "max32 (iv_From iv) start = start" and "min32 (iv_To iv) stop = stop"
        using se by (auto simp: u32_eq_iff u32_arith)
      moreover have "\<not> iv_To iv < start" "\<not> iv_From iv > stop"
        using se iv cut by (auto simp: iv_valid_def u32_le_iff u32_less_iff)
      ultimately show ?thesis using hd by (simp add: Let_def)
    next
      case tl
      note suc = cut_rest [OF se(5) tl(1)]
      have "tiles (uint (stop + 1)) (uint to) (partition_loop (stop + 1) to plan)"
        using suc(3) 2 by (intro partition_loop_tiles) auto
      then have "uint stop + 1 \<le> uint (p_from p)" using tiles_low tl(2) suc(2) by metis
      moreover have "uint stop = uint (iv_To iv)" using suc(1) se by (simp add: u32_less_iff)
      ultimately have "iv_To iv < p_from p" by (simp add: u32_less_iff)
      moreover have "partition_loop (p_from p) (p_to p) plan = [p]"
        using 2(2) [OF _ _ start_def stop_def] cut tl suc(3) 2(4) by simp
      ultimately show ?thesis by simp
    qed
  qed
qed auto

text \<open>Which pieces are replayed: on a plan in ascending order, exactly the planned ledgers.\<close>

lemma pieces_set_simps [simp]:
  "pieces_set m [] = {}"
  "pieces_set m (p # ps) = (if p_mode p = m then piece_set p else {}) \<union> pieces_set m ps"
  "pieces_set m (ps @ qs) = pieces_set m ps \<union> pieces_set m qs"
  by (auto simp: pieces_set_def)

lemma plan_set_simps [simp]:
  "plan_set [] = {}"
  "plan_set (iv # p) = iv_set iv \<union> plan_set p"
  by (auto simp: plan_set_def)

lemma partition_loop_replay:
  assumes "cur \<le> to" and "\<forall>iv\<in>set plan. iv_valid iv" and "sorted (map iv_From plan)"
  shows "pieces_set HealModeReplay (partition_loop cur to plan) =
      plan_set plan \<inter> {uint cur..uint to}"
  using assms
proof (induction cur to plan rule: partition_loop.induct)
  case (2 cur to iv plan)
  define start where "start = max32 (iv_From iv) cur"
  define stop where "stop = min32 (iv_To iv) to"
  have iv: "iv_valid iv" using 2 by simp
  have low: "plan_set plan \<subseteq> {uint (iv_From iv)..}"
    using 2(5) by (fastforce simp: plan_set_def iv_set_def u32_le_iff)
  consider (skip) "iv_To iv < cur" | (brk) "\<not> iv_To iv < cur" "iv_From iv > to"
    | (cut) "\<not> iv_To iv < cur" "\<not> iv_From iv > to" by blast
  then show ?case
  proof cases
    case skip
    then have "iv_set iv \<inter> {uint cur..uint to} = {}"
      by (auto simp: iv_set_def u32_less_iff)
    with skip 2 show ?thesis by auto
  next
    case brk
    then have "(iv_set iv \<union> plan_set plan) \<inter> {uint cur..uint to} = {}"
      using low by (fastforce simp: iv_set_def u32_less_iff)
    with brk show ?thesis by simp
  next
    case cut
    note se = cut_bounds [OF iv 2(3) cut, folded start_def stop_def]
    have rest: "pieces_set HealModeReplay
          (if stop = to then [] else partition_loop (stop + 1) to plan) =
        plan_set plan \<inter> {uint stop + 1..uint to}"
    proof (cases "stop = to")
      case False
      with cut_rest [OF se(5)] show ?thesis
        using 2(2) [OF cut start_def stop_def False] 2(4) 2(5) by simp
    qed auto
    have step: "pieces_set HealModeReplay (partition_loop cur to (iv # plan)) =
        {uint start..uint stop} \<union> plan_set plan \<inter> {uint stop + 1..uint to}"
      using cut rest by (simp add: Let_def start_def [symmetric] stop_def [symmetric] piece_set_def)
    show ?thesis
    proof (rule set_eqI)
      fix x
      have "x \<in> plan_set plan \<Longrightarrow> uint (iv_From iv) \<le> x" using low by auto
      then show "x \<in> pieces_set HealModeReplay (partition_loop cur to (iv # plan)) \<longleftrightarrow>
          x \<in> plan_set (iv # plan) \<inter> {uint cur..uint to}"
        unfolding step using se
        by (cases "x \<in> plan_set plan") (auto simp: iv_set_def)
    qed
  qed
qed simp

section \<open>Normalizing a replay plan\<close>

text \<open>One iteration of the padding loop: widen, then snap outwards to checkpoints.\<close>

definition pad_snap :: "u32 \<Rightarrow> Interval \<Rightarrow> Interval" where
  "pad_snap padding iv =
     (let from0 = (if iv_From iv > padding then iv_From iv - padding else 1);
          to0 = (if iv_To iv < maxU32 - padding then iv_To iv + padding else maxU32);
          from1 = from0 - from0 mod checkpointFrequency;
          from2 = (if from1 = 0 then 1 else from1);
          pad = checkpointFrequency - 1 - to0 mod checkpointFrequency;
          to1 = (if to0 < maxU32 - pad then to0 + pad else maxU32)
      in \<lparr>iv_From = from2, iv_To = to1\<rparr>)"

text \<open>The merging loop, with \<open>prev\<close> the last interval already merged.\<close>

fun merge_plan :: "Interval \<Rightarrow> Interval list \<Rightarrow> Interval list" where
  "merge_plan prev [] = [prev]"
| "merge_plan prev (iv # ivs) =
     (if iv_From iv \<le> iv_To prev + 1
      then merge_plan (if iv_To iv > iv_To prev then prev\<lparr>iv_To := iv_To iv\<rparr> else prev) ivs
      else prev # merge_plan iv ivs)"

definition normalizePlan :: "Interval list \<Rightarrow> u32 \<Rightarrow> Interval list" where
  "normalizePlan ins padding =
     (case sort_on iv_From (map (pad_snap padding) ins) of
        [] \<Rightarrow> []
      | iv # ivs \<Rightarrow> merge_plan iv ivs)"

lemma pad_snap_From:
  "uint (iv_From (pad_snap padding iv)) =
     (let f = (if uint (iv_From iv) > uint padding then uint (iv_From iv) - uint padding else 1)
      in max 1 (f - f mod 64))"
proof -
  define f0 where "f0 = (if iv_From iv > padding then iv_From iv - padding else 1)"
  have f0: "uint f0 = (if uint (iv_From iv) > uint padding
      then uint (iv_From iv) - uint padding else 1)"
    by (simp add: f0_def u32_less_iff u32_sub)
  have md: "uint (f0 mod checkpointFrequency) = uint f0 mod 64"
    by (simp add: checkpointFrequency_def uint_mod)
  have pos: "0 \<le> uint f0 - uint f0 mod 64"
    using u32_uint_bounds [of f0] by (simp add: zmod_le_nonneg_dividend)
  then have sub: "uint (f0 - f0 mod checkpointFrequency) = uint f0 - uint f0 mod 64"
    using u32_sub [of "f0 mod checkpointFrequency" f0] md by simp
  have "iv_From (pad_snap padding iv) =
      (if f0 - f0 mod checkpointFrequency = 0 then 1 else f0 - f0 mod checkpointFrequency)"
    by (simp add: pad_snap_def Let_def f0_def)
  then have "uint (iv_From (pad_snap padding iv)) = max 1 (uint f0 - uint f0 mod 64)"
    using pos by (auto simp: sub u32_eq_iff)
  then show ?thesis by (simp add: f0 Let_def)
qed

lemma pad_snap_To:
  "uint (iv_To (pad_snap padding iv)) =
     (let t = min 4294967295 (uint (iv_To iv) + uint padding) in t + (63 - t mod 64))"
proof -
  define t0 where "t0 = (if iv_To iv < maxU32 - padding then iv_To iv + padding else maxU32)"
  have "uint (maxU32 - padding) = 4294967295 - uint padding"
    using u32_sub [of padding maxU32] u32_uint_bounds [of padding] by simp
  then have t0: "uint t0 = min 4294967295 (uint (iv_To iv) + uint padding)"
    by (auto simp: t0_def u32_less_iff u32_add)
  define pad where "pad = checkpointFrequency - 1 - t0 mod checkpointFrequency"
  have md: "uint (t0 mod checkpointFrequency) = uint t0 mod 64"
    by (simp add: checkpointFrequency_def uint_mod)
  have cf: "checkpointFrequency - 1 = (63 :: u32)" by (simp add: checkpointFrequency_def)
  have pad: "uint pad = 63 - uint t0 mod 64"
    unfolding pad_def cf using u32_sub [of "t0 mod checkpointFrequency" 63] md by simp
  then have mp: "uint (maxU32 - pad) = 4294967295 - uint pad"
    using u32_sub [of pad maxU32] u32_uint_bounds [of pad] by simp
  have top: "uint t0 + (63 - uint t0 mod 64) \<le> 4294967295"
  proof -
    have "uint t0 div 64 \<le> 67108863" using u32_uint_bounds [of t0] by linarith
    moreover have "uint t0 = 64 * (uint t0 div 64) + uint t0 mod 64" by simp
    ultimately show ?thesis by linarith
  qed
  have "iv_To (pad_snap padding iv) = (if t0 < maxU32 - pad then t0 + pad else maxU32)"
    by (simp add: pad_snap_def Let_def t0_def pad_def)
  then have "uint (iv_To (pad_snap padding iv)) = uint t0 + (63 - uint t0 mod 64)"
    using top by (auto simp: u32_less_iff mp pad u32_add)
  then show ?thesis by (simp add: t0 Let_def)
qed

text \<open>A snapped interval holds the padded request.\<close>

lemma pad_snap_covers:
  "{max 1 (uint (iv_From iv) - uint padding)..min 4294967295 (uint (iv_To iv) + uint padding)}
     \<subseteq> iv_set (pad_snap padding iv)"
proof -
  define f where "f = (if uint (iv_From iv) > uint padding
    then uint (iv_From iv) - uint padding else 1)"
  define t where "t = min 4294967295 (uint (iv_To iv) + uint padding)"
  have "0 \<le> f mod 64" "t mod 64 < 64" by simp_all
  then have "max 1 (f - f mod 64) \<le> max 1 (uint (iv_From iv) - uint padding)"
    and "t \<le> t + (63 - t mod 64)"
    by (auto simp: f_def)
  then show ?thesis
    using pad_snap_From [of padding iv] pad_snap_To [of padding iv]
    by (auto simp: iv_set_def Let_def f_def [symmetric] t_def [symmetric])
qed

lemma pad_snap_valid:
  assumes "iv_From iv \<le> iv_To iv"
  shows "iv_valid (pad_snap padding iv)"
proof -
  define f where "f = (if uint (iv_From iv) > uint padding
    then uint (iv_From iv) - uint padding else 1)"
  define t where "t = min 4294967295 (uint (iv_To iv) + uint padding)"
  have b: "0 \<le> uint padding" "0 \<le> uint (iv_From iv)" "uint (iv_To iv) < 4294967296"
    using u32_uint_bounds by simp_all
  have "uint (iv_From iv) \<le> uint (iv_To iv)" using assms by (simp add: u32_le_iff)
  then have "f = 1 \<or> 1 \<le> f \<and> f \<le> t" and "0 \<le> t"
    using b unfolding f_def t_def min_def by (simp_all split: if_split; linarith)+
  moreover have "t + (63 - t mod 64) = 64 * (t div 64) + 63"
    using mult_div_mod_eq [of 64 t] by linarith
  moreover have "0 \<le> t \<Longrightarrow> 0 \<le> t div 64" by simp
  moreover have "t \<le> t + (63 - t mod 64)" by simp
  moreover have "max 1 (f - f mod 64) \<le> max 1 f" by simp
  ultimately have "max 1 (f - f mod 64) \<le> t + (63 - t mod 64)" by linarith
  then show ?thesis
    using pad_snap_From [of padding iv] pad_snap_To [of padding iv]
    by (simp add: iv_valid_def u32_le_iff Let_def f_def [symmetric] t_def [symmetric])
qed

lemma pad_snap_aligned:
  "(uint (iv_From (pad_snap padding iv)) = 1 \<or> uint (iv_From (pad_snap padding iv)) mod 64 = 0)
    \<and> uint (iv_To (pad_snap padding iv)) mod 64 = 63"
proof -
  have "(max 1 (f - f mod 64) = 1 \<or> max 1 (f - f mod 64) mod 64 = 0)" for f :: int
    by (simp add: max_def minus_mod_eq_mult_div)
  moreover have "(t + (63 - t mod 64)) mod 64 = 63" for t :: int
  proof -
    have "t + (63 - t mod 64) = 63 + 64 * (t div 64)"
      using mult_div_mod_eq [of 64 t] by linarith
    then have "(t + (63 - t mod 64)) mod 64 = (63 + 64 * (t div 64)) mod 64" by (rule arg_cong)
    also have "\<dots> = 63" by simp
    finally show ?thesis .
  qed
  ultimately show ?thesis
    by (simp add: pad_snap_From pad_snap_To Let_def)
qed

lemma pad_snap_From_pos: "1 \<le> uint (iv_From (pad_snap padding iv))"
  by (simp add: pad_snap_From Let_def)

text \<open>
  Two neighbours of a merged plan leave a ledger between them; the exception is an interval
  that ends at the last ledger, where the successor \<open>last.To+1\<close> has wrapped to 0.
\<close>

fun separated :: "Interval list \<Rightarrow> bool" where
  "separated (a # b # ivs) \<longleftrightarrow>
     (iv_To a = maxU32 \<or> uint (iv_To a) + 1 < uint (iv_From b)) \<and> separated (b # ivs)"
| "separated ivs \<longleftrightarrow> True"

lemma iv_To_succ: "iv_To a \<noteq> maxU32 \<Longrightarrow> uint (iv_To a + 1) = uint (iv_To a) + 1"
  using u32_uint_bounds [of "iv_To a"] by (intro u32_Suc [of _ maxU32])
    (auto simp: u32_less_iff u32_eq_iff)

lemma merge_plan_hd:
  "\<exists>t rest. merge_plan prev ivs = \<lparr>iv_From = iv_From prev, iv_To = t\<rparr> # rest"
proof (induction prev ivs rule: merge_plan.induct)
  case (1 prev)
  show ?case by (cases prev) simp
next
  case (2 prev iv ivs)
  show ?case
  proof (cases "iv_From iv \<le> iv_To prev + 1")
    case True
    with 2(1) [OF True] show ?thesis by (auto split: if_splits)
  next
    case False
    then show ?thesis by (cases prev) simp
  qed
qed

lemma merge_plan_correct:
  assumes "sorted (map iv_From (prev # ivs))" and "\<forall>iv\<in>set (prev # ivs). iv_valid iv"
    and "\<forall>iv\<in>set ivs. 1 \<le> uint (iv_From iv)"
  shows "plan_set (merge_plan prev ivs) = plan_set (prev # ivs)
    \<and> (\<forall>iv\<in>set (merge_plan prev ivs). iv_valid iv)
    \<and> sorted (map iv_From (merge_plan prev ivs)) \<and> separated (merge_plan prev ivs)"
  using assms
proof (induction prev ivs rule: merge_plan.induct)
  case (1 prev)
  then show ?case by simp
next
  case (2 prev iv ivs)
  have o: "uint (iv_From prev) \<le> uint (iv_From iv)" and v: "uint (iv_From prev) \<le> uint (iv_To prev)"
    and v': "uint (iv_From iv) \<le> uint (iv_To iv)"
    using 2 by (auto simp: iv_valid_def u32_le_iff)
  show ?case
  proof (cases "iv_From iv \<le> iv_To prev + 1")
    case True
    define nxt where "nxt = (if iv_To iv > iv_To prev then prev\<lparr>iv_To := iv_To iv\<rparr> else prev)"
    have ne: "iv_To prev \<noteq> maxU32"
    proof
      assume "iv_To prev = maxU32"
      then have "iv_To prev + 1 = 0" by (simp add: maxU32_def)
      with True have "uint (iv_From iv) \<le> 0" by (simp add: u32_le_iff)
      with 2(5) show False by simp
    qed
    have touch: "uint (iv_From iv) \<le> uint (iv_To prev) + 1"
      using True iv_To_succ [OF ne] by (simp add: u32_le_iff)
    have set: "iv_set nxt = iv_set prev \<union> iv_set iv"
      using o v v' touch by (auto simp: nxt_def iv_set_def u32_less_iff)
    have F: "iv_From nxt = iv_From prev" and "iv_valid nxt"
      using o v v' by (auto simp: nxt_def iv_valid_def u32_le_iff u32_less_iff)
    then have "sorted (map iv_From (nxt # ivs))" "\<forall>iv\<in>set (nxt # ivs). iv_valid iv"
      using 2 by auto
    then have "plan_set (merge_plan nxt ivs) = plan_set (nxt # ivs)
        \<and> (\<forall>iv\<in>set (merge_plan nxt ivs). iv_valid iv)
        \<and> sorted (map iv_From (merge_plan nxt ivs)) \<and> separated (merge_plan nxt ivs)"
      by (rule 2(1) [OF True, folded nxt_def]) (use 2(5) in simp)
    moreover have "merge_plan prev (iv # ivs) = merge_plan nxt ivs"
      using True by (simp add: nxt_def)
    ultimately show ?thesis using set by (simp add: Un_assoc)
  next
    case False
    then have IH: "plan_set (merge_plan iv ivs) = plan_set (iv # ivs)
        \<and> (\<forall>iv\<in>set (merge_plan iv ivs). iv_valid iv)
        \<and> sorted (map iv_From (merge_plan iv ivs)) \<and> separated (merge_plan iv ivs)"
      using 2 by simp
    obtain t rest where hd: "merge_plan iv ivs = \<lparr>iv_From = iv_From iv, iv_To = t\<rparr> # rest"
      using merge_plan_hd by blast
    have sep: "iv_To prev = maxU32 \<or> uint (iv_To prev) + 1 < uint (iv_From iv)"
      using False iv_To_succ [of prev] by (cases "iv_To prev = maxU32") (simp_all add: u32_le_iff)
    have "\<forall>x\<in>set (merge_plan iv ivs). iv_From iv \<le> iv_From x"
      using IH hd by auto
    then have "sorted (map iv_From (prev # merge_plan iv ivs))"
      using IH 2(3) by fastforce
    moreover have "merge_plan prev (iv # ivs) = prev # merge_plan iv ivs"
      using False by simp
    moreover have "separated (prev # merge_plan iv ivs)" using IH sep hd by simp
    ultimately show ?thesis using IH 2(4) by simp
  qed
qed

lemma normalizePlan_correct:
  assumes "\<forall>iv\<in>set ins. iv_From iv \<le> iv_To iv"
  shows "plan_set (normalizePlan ins padding) = (\<Union>iv\<in>set ins. iv_set (pad_snap padding iv))
    \<and> (\<forall>iv\<in>set (normalizePlan ins padding). iv_valid iv)
    \<and> sorted (map iv_From (normalizePlan ins padding)) \<and> separated (normalizePlan ins padding)"
proof -
  define out where "out = sort_on iv_From (map (pad_snap padding) ins)"
  have set: "set out = pad_snap padding ` set ins" by (simp add: out_def)
  have srt: "sorted (map iv_From out)" by (simp add: out_def)
  show ?thesis
  proof (cases out)
    case Nil
    then show ?thesis using set by (simp add: normalizePlan_def out_def [symmetric])
  next
    case (Cons iv ivs)
    have "\<forall>x\<in>set (iv # ivs). \<exists>y\<in>set ins. x = pad_snap padding y"
      using set Cons by auto
    then have "\<forall>x\<in>set (iv # ivs). iv_valid x" "\<forall>x\<in>set ivs. 1 \<le> uint (iv_From x)"
      using assms pad_snap_valid pad_snap_From_pos by fastforce+
    then have "plan_set (merge_plan iv ivs) = plan_set (iv # ivs)
        \<and> (\<forall>iv\<in>set (merge_plan iv ivs). iv_valid iv)
        \<and> sorted (map iv_From (merge_plan iv ivs)) \<and> separated (merge_plan iv ivs)"
      using srt Cons by (intro merge_plan_correct) simp_all
    moreover have "plan_set (iv # ivs) = (\<Union>iv\<in>set ins. iv_set (pad_snap padding iv))"
      using set Cons by (auto simp: plan_set_def)
    ultimately show ?thesis using Cons by (simp add: normalizePlan_def out_def [symmetric])
  qed
qed

text \<open>Merging invents no boundary.\<close>

lemma merge_plan_ends:
  "iv \<in> set (merge_plan prev ivs) \<Longrightarrow>
     iv_From iv \<in> iv_From ` set (prev # ivs) \<and> iv_To iv \<in> iv_To ` set (prev # ivs)"
proof (induction prev ivs rule: merge_plan.induct)
  case (2 prev x ivs)
  define nxt where "nxt = (if iv_To x > iv_To prev then prev\<lparr>iv_To := iv_To x\<rparr> else prev)"
  have ends: "iv_From nxt = iv_From prev" "iv_To nxt \<in> {iv_To prev, iv_To x}"
    by (auto simp: nxt_def)
  show ?case
  proof (cases "iv_From x \<le> iv_To prev + 1")
    case True
    then have "iv_From iv \<in> iv_From ` set (nxt # ivs) \<and> iv_To iv \<in> iv_To ` set (nxt # ivs)"
      using 2(1) [OF True, folded nxt_def] 2(3) by (simp add: nxt_def)
    then show ?thesis using ends by auto
  next
    case False
    then have "iv = prev \<or> iv \<in> set (merge_plan x ivs)" using 2(3) by simp
    then show ?thesis using 2(2) [OF False] by auto
  qed
qed simp

lemma normalizePlan_aligned:
  assumes "iv \<in> set (normalizePlan ins padding)"
  shows "(uint (iv_From iv) = 1 \<or> uint (iv_From iv) mod 64 = 0) \<and> uint (iv_To iv) mod 64 = 63"
proof (cases "sort_on iv_From (map (pad_snap padding) ins)")
  case Nil
  then show ?thesis using assms by (simp add: normalizePlan_def)
next
  case (Cons x ivs)
  then have set: "set (x # ivs) = pad_snap padding ` set ins"
    using set_sort [of iv_From "map (pad_snap padding) ins"] by simp
  have "iv_From iv \<in> iv_From ` set (x # ivs) \<and> iv_To iv \<in> iv_To ` set (x # ivs)"
    using assms Cons merge_plan_ends by (simp add: normalizePlan_def)
  then show ?thesis unfolding set using pad_snap_aligned by (metis (no_types, lifting) imageE)
qed

section \<open>Properties\<close>

text \<open>\<open>uncoveredRanges\<close> is set difference. On covered ranges in ascending order (the
  \<open>ORDER BY from_sequence\<close> of its caller) it returns exactly the ledgers of \<open>from..to\<close> that no
  covered range names, as non-empty ranges in ascending order that do not overlap.\<close>

theorem uncoveredRanges_difference:
  assumes "sorted (map fst covered)"
  shows "ranges (uncoveredRanges from to covered) = {from..to} - ranges covered
    \<and> (\<forall>(f, t)\<in>set (uncoveredRanges from to covered). f \<le> t)
    \<and> (\<forall>i j. i < j \<longrightarrow> j < length (uncoveredRanges from to covered) \<longrightarrow>
          snd (uncoveredRanges from to covered ! i) < fst (uncoveredRanges from to covered ! j))"
  unfolding uncoveredRanges_def
  using uncovered_loop_set [OF assms] uncovered_loop_ascending
    ascending_nonempty [OF uncovered_loop_ascending] ascending_separated [OF uncovered_loop_ascending]
  by blast

theorem uncoveredRanges_difference_witness:
  "ranges (uncoveredRanges 10 50 [(5, 12), (20, 29), (25, 40)]) = {10..50} - ranges [(5, 12), (20, 29), (25, 40)]
    \<and> uncoveredRanges 10 50 [(5, 12), (20, 29), (25, 40)] = [(13, 19), (41, 50)]"
  using uncoveredRanges_difference [of "[(5, 12), (20, 29), (25, 40)]" 10 50]
  by (simp add: uncoveredRanges_def)

text \<open>\<open>normalizePlan\<close> grows and never shrinks a plan. Every requested interval is covered
  with its padding (clamped to the ledgers \<open>uint32\<close> can name), every interval of the result
  starts and ends on a checkpoint boundary, and the result is ascending with no two intervals
  that could be merged.\<close>

theorem normalizePlan_covers:
  assumes "\<forall>iv\<in>set ins. iv_From iv \<le> iv_To iv"
  shows "(\<forall>iv\<in>set ins.
        {max 1 (uint (iv_From iv) - uint padding)..min 4294967295 (uint (iv_To iv) + uint padding)}
          \<subseteq> plan_set (normalizePlan ins padding))
    \<and> (\<forall>iv\<in>set (normalizePlan ins padding). iv_From iv \<le> iv_To iv
        \<and> (uint (iv_From iv) = 1 \<or> uint (iv_From iv) mod 64 = 0) \<and> uint (iv_To iv) mod 64 = 63)
    \<and> sorted (map iv_From (normalizePlan ins padding)) \<and> separated (normalizePlan ins padding)"
proof -
  note N = normalizePlan_correct [OF assms, of padding]
  have "{max 1 (uint (iv_From iv) - uint padding)..min 4294967295 (uint (iv_To iv) + uint padding)}
      \<subseteq> plan_set (normalizePlan ins padding)" if "iv \<in> set ins" for iv
    using pad_snap_covers [of iv padding] N that by blast
  then show ?thesis using N normalizePlan_aligned by (auto simp: iv_valid_def)
qed

theorem normalizePlan_covers_witness:
  "{90..110} \<subseteq> plan_set (normalizePlan [\<lparr>iv_From = 100, iv_To = 100\<rparr>, \<lparr>iv_From = 500, iv_To = 600\<rparr>] 10)"
  using normalizePlan_covers [of "[\<lparr>iv_From = 100, iv_To = 100\<rparr>, \<lparr>iv_From = 500, iv_To = 600\<rparr>]" 10]
  by simp

end
