(* ===== verification/Store_Db.thy ===== *)
theory Store_Db
  imports Ranges
begin

text \<open>
  The data of \<^verbatim>\<open>internal/store\<close>: the Go structs that cross its boundary and the
  Postgres tables behind it (\<^verbatim>\<open>internal/store/migrations\<close>), one list of rows per
  table, with the SQL statements the package uses as list operations. A nullable text
  column whose Go side is \<open>""\<close> is kept as that string (the reads go through
  \<open>COALESCE(c, '')\<close>). Text columns compare by character code.
\<close>

section \<open>Errors\<close>

text \<open>
  Every error a transaction can end with because of what the database holds. A failed
  connection or a cancelled context is not a value here: such a transaction rolls back,
  which leaves the database as it was.
\<close>

datatype store_error =
    UniqueViolation string
  | InvertedRange u32 u32
  | GapVanished string
  | BackfillVanished string
  | ErrNoCursor
  | ErrNoBackfill
  | ErrNoContract
  | Panic string

definition andThen :: "'e + 'a \<Rightarrow> ('a \<Rightarrow> 'e + 'b) \<Rightarrow> 'e + 'b" where
  "andThen r f = (case r of Inl e \<Rightarrow> Inl e | Inr a \<Rightarrow> f a)"

lemma andThen_simps [simp]:
  "andThen (Inl e) f = Inl e"
  "andThen (Inr a) f = f a"
  by (simp_all add: andThen_def)

lemma andThen_Inr: "andThen r f = Inr b \<longleftrightarrow> (\<exists>a. r = Inr a \<and> f a = Inr b)"
  by (cases r) auto

text \<open>A loop whose body may fail, stopping at the first error.\<close>

fun each :: "('a \<Rightarrow> 's \<Rightarrow> 'e + 's) \<Rightarrow> 'a list \<Rightarrow> 's \<Rightarrow> 'e + 's" where
  "each f [] s = Inr s"
| "each f (x # xs) s = andThen (f x s) (each f xs)"

lemma each_append: "each f (xs @ ys) s = andThen (each f xs s) (each f ys)"
  by (induction xs arbitrary: s) (auto simp: andThen_def split: sum.splits)

text \<open>An invariant every successful iteration keeps holds after the loop.\<close>

lemma each_invariant:
  assumes "each f xs s = Inr s'" and "P s"
    and "\<And>x s s'. x \<in> set xs \<Longrightarrow> P s \<Longrightarrow> f x s = Inr s' \<Longrightarrow> P s'"
  shows "P s'"
  using assms by (induction xs arbitrary: s) (auto simp: andThen_Inr)

text \<open>A loop none of whose iterations can fail ends with a value.\<close>

lemma each_total:
  assumes "P s" and "\<And>x s. x \<in> set xs \<Longrightarrow> P s \<Longrightarrow> \<exists>s'. f x s = Inr s' \<and> P s'"
  shows "\<exists>s'. each f xs s = Inr s' \<and> P s'"
  using assms
proof (induction xs arbitrary: s)
  case (Cons x xs)
  then obtain s1 where "f x s = Inr s1" "P s1" by fastforce
  with Cons show ?case by fastforce
qed simp

section \<open>Structs\<close>

record Contract =
  ct_Network :: string
  ct_ContractID :: string
  ct_Source :: string
  ct_Kinds :: "string list"
  ct_Classification :: "string option"
  ct_RegisteredAt :: int

record Event =
  ev_ID :: string
  ev_ContractID :: string
  ev_LedgerSequence :: u32
  ev_ClosedAt :: int
  ev_TxHash :: string
  ev_TxIndex :: int
  ev_OpIndex :: int
  ev_EventIndex :: int
  ev_EventName :: string
  ev_Topics :: "string list"
  ev_ValueXDR :: string
  ev_RawXDR :: string

record StateChange =
  sc_ID :: string
  sc_ContractID :: string
  sc_LedgerSequence :: u32
  sc_ClosedAt :: int
  sc_TxHash :: string
  sc_TxIndex :: int
  sc_OpIndex :: int
  sc_ChangeIndex :: int
  sc_ChangeType :: string
  sc_KeyXDR :: string
  sc_Durability :: string
  sc_PreXDR :: string
  sc_PostXDR :: string

record StateEntry =
  se_ContractID :: string
  se_KeyXDR :: string
  se_Durability :: string
  se_ValueXDR :: string
  se_Deleted :: bool
  se_LastLedger :: u32
  se_ClosedAt :: int

record Transfer =
  tr_ID :: string
  tr_ContractID :: string
  tr_LedgerSequence :: u32
  tr_ClosedAt :: int
  tr_TxHash :: string
  tr_TxIndex :: int
  tr_OpIndex :: int
  tr_EventIndex :: int
  tr_TransferType :: string
  tr_FromAddress :: string
  tr_ToAddress :: string
  tr_ToMuxedID :: string
  tr_Amount :: string
  tr_Asset :: string

record TrustlineChange =
  tc_ID :: string
  tc_ContractID :: string
  tc_AccountID :: string
  tc_Asset :: string
  tc_LedgerSequence :: u32
  tc_ClosedAt :: int
  tc_TxHash :: string
  tc_TxIndex :: int
  tc_OpIndex :: int
  tc_ChangeIndex :: int
  tc_ChangeType :: string
  tc_PreBalance :: "int option"
  tc_PostBalance :: "int option"
  tc_PreLimit :: "int option"
  tc_PostLimit :: "int option"
  tc_Flags :: u32

record TrustlineEntry =
  te_ContractID :: string
  te_AccountID :: string
  te_Asset :: string
  te_Balance :: "int option"
  te_Limit :: "int option"
  te_Flags :: u32
  te_Deleted :: bool
  te_LastLedger :: u32
  te_ClosedAt :: int

record Movement =
  mv_ContractID :: string
  mv_TransferID :: string
  mv_Role :: string
  mv_TokenContractID :: string
  mv_TransferType :: string
  mv_Counterparty :: string
  mv_Amount :: string
  mv_RawXDR :: string
  mv_LedgerSequence :: u32
  mv_ClosedAt :: int

record Cursor =
  cu_Sequence :: u32
  cu_Hash :: string

record LedgerRecord =
  lr_Sequence :: u32
  lr_Hash :: string
  lr_PreviousHash :: string
  lr_ClosedAt :: int

record Gap =
  g_ID :: string
  g_From :: u32
  g_To :: u32
  g_Reason :: string
  g_HealNextTo :: u32
  g_HealMode :: HealMode
  g_RecordedAt :: int

record Backfill =
  b_ContractID :: string
  b_TargetFrom :: u32
  b_NextTo :: u32
  b_Done :: bool
  b_ClampedAt :: "u32 option"
  b_CoveredKinds :: "string list"

record BackfillJob =
  j_Backfill :: Backfill
  j_Contract :: Contract

definition KindEvents :: string where "KindEvents = ''events''"
definition KindState :: string where "KindState = ''state''"
definition KindTransfers :: string where "KindTransfers = ''transfers''"
definition KindTrustlines :: string where "KindTrustlines = ''trustlines''"
definition KindMovements :: string where "KindMovements = ''movements''"

definition SourceAPI :: string where "SourceAPI = ''api''"

definition HasKind :: "Contract \<Rightarrow> string \<Rightarrow> bool" where
  "HasKind c kind \<longleftrightarrow> kind \<in> set (ct_Kinds c)"

section \<open>Tables\<close>

text \<open>Data rows carry the network column beside the struct they store.\<close>

type_synonym 'a netrow = "string \<times> 'a"

record gap_row =
  gr_id :: string
  gr_network :: string
  gr_from :: int
  gr_to :: int
  gr_reason :: string
  gr_recorded_at :: int
  gr_resolved_at :: "int option"
  gr_heal_next_to :: "int option"
  gr_heal_mode :: HealMode

record backfill_row =
  br_network :: string
  br_contract_id :: string
  br_target_from :: int
  br_next_to :: int
  br_done :: bool
  br_clamped_at :: "int option"
  br_covered_kinds :: "string list"
  br_updated_at :: int

record cursor_row =
  cr_network :: string
  cr_last_sequence :: int
  cr_last_hash :: string

record hash_row =
  hr_sequence :: int
  hr_hash :: string
  hr_previous_hash :: string
  hr_closed_at :: int

record db =
  t_events :: "Event netrow list"
  t_state_changes :: "StateChange netrow list"
  t_state_entries :: "StateEntry netrow list"
  t_transfers :: "Transfer netrow list"
  t_trustline_changes :: "TrustlineChange netrow list"
  t_trustline_entries :: "TrustlineEntry netrow list"
  t_movements :: "Movement netrow list"
  t_cursor :: "cursor_row list"
  t_ledger_hashes :: "hash_row list"
  t_gaps :: "gap_row list"
  t_contracts :: "Contract list"
  t_backfill :: "backfill_row list"

definition empty_db :: db where
  "empty_db = \<lparr>t_events = [], t_state_changes = [], t_state_entries = [], t_transfers = [],
     t_trustline_changes = [], t_trustline_entries = [], t_movements = [], t_cursor = [],
     t_ledger_hashes = [], t_gaps = [], t_contracts = [], t_backfill = []\<rparr>"

section \<open>SQL statements as list operations\<close>

definition sql_update :: "('r \<Rightarrow> bool) \<Rightarrow> ('r \<Rightarrow> 'r) \<Rightarrow> 'r list \<Rightarrow> 'r list" where
  "sql_update p f tbl = map (\<lambda>r. if p r then f r else r) tbl"

definition sql_delete :: "('r \<Rightarrow> bool) \<Rightarrow> 'r list \<Rightarrow> 'r list" where
  "sql_delete p tbl = filter (\<lambda>r. \<not> p r) tbl"

definition sql_count :: "('r \<Rightarrow> bool) \<Rightarrow> 'r list \<Rightarrow> nat" where
  "sql_count p tbl = length (filter p tbl)"

lemma set_sql_update: "set (sql_update p f tbl) = (\<lambda>r. if p r then f r else r) ` set tbl"
  by (simp add: sql_update_def)

lemma in_sql_update: "q \<in> set (sql_update p f tbl) \<longleftrightarrow>
    (\<exists>r\<in>set tbl. q = (if p r then f r else r))"
  by (auto simp: set_sql_update)

lemma set_sql_delete [simp]: "set (sql_delete p tbl) = {r \<in> set tbl. \<not> p r}"
  by (auto simp: sql_delete_def)

lemma sql_update_map:
  assumes "\<And>r. p r \<Longrightarrow> g (f r) = g r"
  shows "map g (sql_update p f tbl) = map g tbl"
  using assms by (simp add: sql_update_def)

lemma sql_update_none: "\<forall>r\<in>set tbl. \<not> p r \<Longrightarrow> sql_update p f tbl = tbl"
  by (simp add: sql_update_def map_idI)

lemma sql_count_zero: "sql_count p tbl = 0 \<longleftrightarrow> (\<forall>r\<in>set tbl. \<not> p r)"
  by (simp add: sql_count_def filter_empty_conv)

end
