(* ===== verification/Store_Gaps.thy ===== *)
theory Store_Gaps
  imports Store_Db
begin

text \<open>
  The gap ledger of \<^verbatim>\<open>internal/store\<close>: recording unserved ranges (\<open>RecordGap\<close> in
  \<^verbatim>\<open>store.go\<close>) and listing them (\<^verbatim>\<open>heal.go\<close>). A gap is a promise that a range
  is missing; the lemmas say which ledgers a table declares and owes, and that recording a
  range adds exactly that range.
\<close>

section \<open>Operations\<close>

text \<open>\<open>fmt.Sprintf("gap:%s:%d:%d", network, from, to)\<close>.\<close>

definition gapID :: "string \<Rightarrow> int \<Rightarrow> int \<Rightarrow> string" where
  "gapID network from to =
     ''gap:'' @ network @ CHR '':'' # dec_int from @ CHR '':'' # dec_int to"

definition scanGap :: "gap_row \<Rightarrow> Gap" where
  "scanGap r = \<lparr>g_ID = gr_id r, g_From = word_of_int (gr_from r), g_To = word_of_int (gr_to r),
     g_Reason = gr_reason r,
     g_HealNextTo = (case gr_heal_next_to r of
        None \<Rightarrow> word_of_int (gr_to r) | Some h \<Rightarrow> word_of_int h),
     g_HealMode = gr_heal_mode r, g_RecordedAt = gr_recorded_at r\<rparr>"

definition open_gap :: "string \<Rightarrow> gap_row \<Rightarrow> bool" where
  "open_gap network r \<longleftrightarrow> gr_network r = network \<and> gr_resolved_at r = None"

text \<open>\<open>to_sequence >= $from AND from_sequence <= $to\<close>.\<close>

definition overlaps :: "int \<Rightarrow> int \<Rightarrow> gap_row \<Rightarrow> bool" where
  "overlaps from to r \<longleftrightarrow> gr_to r \<ge> from \<and> gr_from r \<le> to"

text \<open>
  \<open>INSERT INTO gaps ... ON CONFLICT (id) DO UPDATE SET ... WHERE ...\<close>: a row with the id
  is updated when the condition holds and left alone otherwise; a row with another id but the
  same network and range violates the second uniqueness constraint.
\<close>

definition upsert_gap ::
  "(gap_row \<Rightarrow> bool) \<Rightarrow> (gap_row \<Rightarrow> gap_row) \<Rightarrow> gap_row \<Rightarrow> gap_row list \<Rightarrow> store_error + gap_row list"
where
  "upsert_gap cond upd r tbl =
     (if list_ex (\<lambda>q. gr_id q = gr_id r) tbl
      then Inr (sql_update (\<lambda>q. gr_id q = gr_id r \<and> cond q) upd tbl)
      else if list_ex (\<lambda>q. gr_network q = gr_network r \<and> gr_from q = gr_from r \<and> gr_to q = gr_to r) tbl
      then Inl (UniqueViolation (gr_id r))
      else Inr (tbl @ [r]))"

definition rewind_partly_healed :: "string \<Rightarrow> int \<Rightarrow> int \<Rightarrow> gap_row list \<Rightarrow> gap_row list" where
  "rewind_partly_healed network from to tbl =
     sql_update (\<lambda>r. open_gap network r \<and> overlaps from to r \<and>
         (case gr_heal_next_to r of None \<Rightarrow> False | Some h \<Rightarrow> h < gr_to r))
       (\<lambda>r. r\<lparr>gr_heal_next_to := Some (gr_to r)\<rparr>) tbl"

definition covering_gaps :: "string \<Rightarrow> int \<Rightarrow> int \<Rightarrow> gap_row list \<Rightarrow> (int \<times> int) list" where
  "covering_gaps network from to tbl =
     map (\<lambda>r. (gr_from r, gr_to r))
       (sort_on gr_from (filter (\<lambda>r. open_gap network r \<and> overlaps from to r) tbl))"

definition record_hole ::
  "string \<Rightarrow> string \<Rightarrow> int \<Rightarrow> int \<times> int \<Rightarrow> gap_row list \<Rightarrow> store_error + gap_row list"
where
  "record_hole network reason now hole tbl =
     upsert_gap (\<lambda>q. gr_resolved_at q \<noteq> None)
       (\<lambda>q. q\<lparr>gr_resolved_at := None, gr_heal_next_to := Some (snd hole),
              gr_heal_mode := HealModeReplay, gr_reason := reason\<rparr>)
       \<lparr>gr_id = gapID network (fst hole) (snd hole), gr_network = network,
        gr_from = fst hole, gr_to = snd hole, gr_reason = reason, gr_recorded_at = now,
        gr_resolved_at = None, gr_heal_next_to = None, gr_heal_mode = HealModeReplay\<rparr> tbl"

definition RecordGap ::
  "string \<Rightarrow> u32 \<Rightarrow> u32 \<Rightarrow> string \<Rightarrow> int \<Rightarrow> db \<Rightarrow> store_error + db"
where
  "RecordGap network from to reason now d =
     (if to < from then Inl (InvertedRange from to)
      else let tbl = rewind_partly_healed network (uint from) (uint to) (t_gaps d);
               covered = covering_gaps network (uint from) (uint to) tbl
           in andThen (each (record_hole network reason now)
                         (uncoveredRanges (uint from) (uint to) covered) tbl)
                (\<lambda>tbl'. Inr (d\<lparr>t_gaps := tbl'\<rparr>)))"

definition OpenGaps :: "string \<Rightarrow> db \<Rightarrow> nat" where
  "OpenGaps network d = sql_count (open_gap network) (t_gaps d)"

definition ListOpenGaps :: "string \<Rightarrow> db \<Rightarrow> Gap list" where
  "ListOpenGaps network d =
     map scanGap (sort_on (\<lambda>r. - gr_to r)
       (filter (\<lambda>r. open_gap network r \<and> gr_heal_mode r = HealModeReplay) (t_gaps d)))"

section \<open>What a gap table promises\<close>

text \<open>
  The highest ledger of a gap still missing, the ledgers it declares, and the ledgers it still
  owes. Over a table: what is declared missing and what the healer or a later plan still has
  to produce.
\<close>

definition heal_top :: "gap_row \<Rightarrow> int" where
  "heal_top r = (case gr_heal_next_to r of None \<Rightarrow> gr_to r | Some h \<Rightarrow> h)"

definition declares :: "string \<Rightarrow> gap_row \<Rightarrow> int set" where
  "declares network r = (if open_gap network r then {gr_from r..gr_to r} else {})"

definition owes :: "string \<Rightarrow> gap_row \<Rightarrow> int set" where
  "owes network r = (if open_gap network r then {gr_from r..heal_top r} else {})"

definition declared :: "string \<Rightarrow> gap_row list \<Rightarrow> int set" where
  "declared network tbl = (\<Union>r\<in>set tbl. declares network r)"

definition owed :: "string \<Rightarrow> gap_row list \<Rightarrow> int set" where
  "owed network tbl = (\<Union>r\<in>set tbl. owes network r)"

text \<open>Well-formed rows: the id names the range, the columns came from \<open>uint32\<close> values,
  the heal watermark lies between the floor and the top, and an open row still owes something.\<close>

definition wf_gap :: "gap_row \<Rightarrow> bool" where
  "wf_gap r \<longleftrightarrow> gr_id r = gapID (gr_network r) (gr_from r) (gr_to r) \<and>
     0 \<le> gr_from r \<and> gr_from r \<le> gr_to r \<and> gr_to r < 4294967296 \<and>
     gr_from r - 1 \<le> heal_top r \<and> 0 \<le> heal_top r \<and> heal_top r \<le> gr_to r \<and>
     (gr_resolved_at r = None \<longrightarrow> gr_from r \<le> heal_top r)"

definition open_disjoint :: "string \<Rightarrow> gap_row list \<Rightarrow> bool" where
  "open_disjoint network tbl \<longleftrightarrow>
     (\<forall>q\<in>set tbl. \<forall>r\<in>set tbl. gr_id q \<noteq> gr_id r \<longrightarrow>
        declares network q \<inter> declares network r = {})"

definition wf_gaps :: "gap_row list \<Rightarrow> bool" where
  "wf_gaps tbl \<longleftrightarrow> (\<forall>r\<in>set tbl. wf_gap r) \<and> distinct (map gr_id tbl)"

lemma dec_int_no_colon: "0 \<le> i \<Longrightarrow> CHR '':'' \<notin> set (dec_int i)"
  by (simp add: dec_int_def dec_no_colon)

lemma gapID_inject:
  assumes "0 \<le> f" "0 \<le> t" "0 \<le> f'" "0 \<le> t'"
  shows "gapID n f t = gapID n' f' t' \<longleftrightarrow> n = n' \<and> f = f' \<and> t = t'"
proof
  assume "gapID n f t = gapID n' f' t'"
  then have "(n @ CHR '':'' # dec_int f) @ CHR '':'' # dec_int t =
      (n' @ CHR '':'' # dec_int f') @ CHR '':'' # dec_int t'"
    by (simp add: gapID_def)
  then have "rev (dec_int t) @ CHR '':'' # rev (n @ CHR '':'' # dec_int f) =
      rev (dec_int t') @ CHR '':'' # rev (n' @ CHR '':'' # dec_int f')"
    by (metis append.assoc append_Cons append_Nil rev.simps(2) rev_append)
  then have t: "dec_int t = dec_int t'" and
    rest: "rev (dec_int f) @ CHR '':'' # rev n = rev (dec_int f') @ CHR '':'' # rev n'"
    using assms dec_int_no_colon by (auto simp: append_sep_inject)
  from rest have "dec_int f = dec_int f'" and "n = n'"
    using assms dec_int_no_colon by (auto simp: append_sep_inject)
  with t assms show "n = n' \<and> f = f' \<and> t = t'" by (simp add: dec_int_inject)
qed simp

lemma wf_gap_id_eq:
  assumes "wf_gap q" and "wf_gap r"
  shows "gr_id q = gr_id r \<longleftrightarrow>
    gr_network q = gr_network r \<and> gr_from q = gr_from r \<and> gr_to q = gr_to r"
  using assms gapID_inject by (auto simp: wf_gap_def)

lemma declared_simps [simp]:
  "declared n [] = {}"
  "declared n (r # tbl) = declares n r \<union> declared n tbl"
  "declared n (tbl @ tbl') = declared n tbl \<union> declared n tbl'"
  by (auto simp: declared_def)

lemma owed_simps [simp]:
  "owed n [] = {}"
  "owed n (r # tbl) = owes n r \<union> owed n tbl"
  "owed n (tbl @ tbl') = owed n tbl \<union> owed n tbl'"
  by (auto simp: owed_def)

lemma owes_subset_declares: "wf_gap r \<Longrightarrow> owes n r \<subseteq> declares n r"
  by (auto simp: owes_def declares_def wf_gap_def)

lemma owed_subset_declared: "wf_gaps tbl \<Longrightarrow> owed n tbl \<subseteq> declared n tbl"
  using owes_subset_declares by (fastforce simp: owed_def declared_def wf_gaps_def)

section \<open>Upserting a gap\<close>

text \<open>On a well-formed table the second uniqueness constraint never fires.\<close>

lemma upsert_gap_wf:
  assumes "wf_gaps tbl" and "wf_gap r"
  shows "upsert_gap cond upd r tbl =
    (if \<exists>q\<in>set tbl. gr_id q = gr_id r
     then Inr (sql_update (\<lambda>q. gr_id q = gr_id r \<and> cond q) upd tbl) else Inr (tbl @ [r]))"
  using assms wf_gap_id_eq by (fastforce simp: upsert_gap_def list_ex_iff wf_gaps_def)

text \<open>An update of one row's status that keeps its identity keeps the table well-formed.\<close>

lemma wf_gaps_update:
  assumes "wf_gaps tbl" and "\<And>r. r \<in> set tbl \<Longrightarrow> p r \<Longrightarrow> wf_gap (f r) \<and> gr_id (f r) = gr_id r"
  shows "wf_gaps (sql_update p f tbl)"
proof -
  have "map gr_id (sql_update p f tbl) = map gr_id tbl"
    using assms(2) by (auto simp: sql_update_def)
  then show ?thesis
    using assms by (auto simp: wf_gaps_def in_sql_update)
qed

lemma open_disjoint_update:
  assumes "open_disjoint n tbl"
    and "\<And>r. r \<in> set tbl \<Longrightarrow> p r \<Longrightarrow> declares n (f r) = declares n r \<and> gr_id (f r) = gr_id r"
  shows "open_disjoint n (sql_update p f tbl)"
proof -
  have eq: "declares n (if p r then f r else r) = declares n r"
    "gr_id (if p r then f r else r) = gr_id r" if "r \<in> set tbl" for r
    using assms(2) [OF that] by auto
  show ?thesis
    using assms(1) unfolding open_disjoint_def set_sql_update ball_simps(9)
    by (simp add: eq)
qed

lemma declared_sql_update:
  "declared n (sql_update p f tbl) = (\<Union>r\<in>set tbl. declares n (if p r then f r else r))"
  unfolding declared_def set_sql_update image_image ..

lemma owed_sql_update:
  "owed n (sql_update p f tbl) = (\<Union>r\<in>set tbl. owes n (if p r then f r else r))"
  unfolding owed_def set_sql_update image_image ..

lemma declared_update:
  assumes "\<And>r. r \<in> set tbl \<Longrightarrow> p r \<Longrightarrow> declares n (f r) = declares n r"
  shows "declared n (sql_update p f tbl) = declared n tbl"
  unfolding declared_sql_update unfolding declared_def
  by (rule SUP_cong) (use assms in auto)

lemma owed_update:
  assumes "\<And>r. r \<in> set tbl \<Longrightarrow> p r \<Longrightarrow> owes n (f r) = owes n r"
  shows "owed n (sql_update p f tbl) = owed n tbl"
  unfolding owed_sql_update unfolding owed_def
  by (rule SUP_cong) (use assms in auto)

lemma owed_update_mono:
  assumes "\<And>r. r \<in> set tbl \<Longrightarrow> p r \<Longrightarrow> owes n r \<subseteq> owes n (f r)"
  shows "owed n tbl \<subseteq> owed n (sql_update p f tbl)"
  unfolding owed_sql_update unfolding owed_def
  by (rule SUP_subset_mono) (use assms in auto)

text \<open>
  The row an upsert opens: appended, or a row already there under the same id brought back.
  In both cases the table promises what it promised and the new range.
\<close>

lemma opening_row:
  assumes wf: "wf_gaps tbl" and disj: "open_disjoint n tbl" and q: "q \<in> set tbl"
    and closed: "\<not> open_gap n q" and upd: "wf_gap (f q)" "gr_id (f q) = gr_id q"
    and cond: "cond q" and new: "owes n (f q) = R" "declares n (f q) = R" and R: "R \<inter> declared n tbl = {}"
  shows "let tbl' = sql_update (\<lambda>r. gr_id r = gr_id q \<and> cond r) f tbl in
     wf_gaps tbl' \<and> open_disjoint n tbl' \<and> declared n tbl' = declared n tbl \<union> R
     \<and> owed n tbl' = owed n tbl \<union> R"
proof -
  have uniq: "r = q" if "r \<in> set tbl" "gr_id r = gr_id q" for r
    using wf that q distinct_map_filter_unique unfolding wf_gaps_def by metis
  let ?g = "\<lambda>r. if gr_id r = gr_id q \<and> cond r then f r else r"
  have g: "?g r = (if r = q then f q else r)" if "r \<in> set tbl" for r
    using uniq that cond by auto
  have wf': "wf_gaps (sql_update (\<lambda>r. gr_id r = gr_id q \<and> cond r) f tbl)"
    using wf by (rule wf_gaps_update) (use uniq upd in auto)
  have none: "declares n q = {}" "owes n q = {}"
    using closed by (simp_all add: declares_def owes_def)
  have "(\<Union>r\<in>set tbl. declares n (?g r)) = (\<Union>r\<in>set tbl. if r = q then R else declares n r)"
    by (rule SUP_cong) (use g new in auto)
  also have "\<dots> = declared n tbl \<union> R"
    using q none by (auto simp: declared_def split: if_splits)
  finally have dec: "declared n (sql_update (\<lambda>r. gr_id r = gr_id q \<and> cond r) f tbl) = declared n tbl \<union> R"
    by (simp only: declared_sql_update)
  have "(\<Union>r\<in>set tbl. owes n (?g r)) = (\<Union>r\<in>set tbl. if r = q then R else owes n r)"
    by (rule SUP_cong) (use g new in auto)
  also have "\<dots> = owed n tbl \<union> R"
    using q none by (auto simp: owed_def split: if_splits)
  finally have ow: "owed n (sql_update (\<lambda>r. gr_id r = gr_id q \<and> cond r) f tbl) = owed n tbl \<union> R"
    by (simp only: owed_sql_update)
  have apart: "R \<inter> declares n r = {}" if "r \<in> set tbl" for r
    using R that by (auto simp: declared_def)
  have "declares n (?g r) \<inter> declares n (?g s) = {}"
    if rs: "r \<in> set tbl" "s \<in> set tbl" "gr_id (?g r) \<noteq> gr_id (?g s)" for r s
  proof -
    have "r \<noteq> s" using rs by auto
    moreover have "gr_id r \<noteq> gr_id s" using rs g upd by (auto split: if_splits)
    ultimately show ?thesis
      using rs g [of r] g [of s] new apart disj by (auto simp: open_disjoint_def split: if_splits)
  qed
  then have "open_disjoint n (sql_update (\<lambda>r. gr_id r = gr_id q \<and> cond r) f tbl)"
    unfolding open_disjoint_def set_sql_update by blast
  with wf' dec ow show ?thesis by (simp add: Let_def)
qed

lemma appending_row:
  assumes wf: "wf_gaps tbl" and disj: "open_disjoint n tbl" and r: "wf_gap r"
    and fresh: "\<forall>q\<in>set tbl. gr_id q \<noteq> gr_id r"
    and new: "owes n r = R" "declares n r = R" and R: "R \<inter> declared n tbl = {}"
  shows "wf_gaps (tbl @ [r]) \<and> open_disjoint n (tbl @ [r]) \<and> declared n (tbl @ [r]) = declared n tbl \<union> R
     \<and> owed n (tbl @ [r]) = owed n tbl \<union> R"
proof -
  have "R \<inter> declares n q = {}" if "q \<in> set tbl" for q
    using R that by (auto simp: declared_def)
  then have "open_disjoint n (tbl @ [r])"
    using disj new by (auto simp: open_disjoint_def)
  moreover have "wf_gaps (tbl @ [r])" using wf r fresh by (auto simp: wf_gaps_def)
  ultimately show ?thesis using new by simp
qed

section \<open>Recording a gap\<close>

text \<open>A hole in the declared ranges is declared and owed in full once recorded.\<close>

lemma record_hole_correct:
  assumes wf: "wf_gaps tbl" and disj: "open_disjoint n tbl"
    and b: "0 \<le> f" "f \<le> t" "t < 4294967296" and apart: "{f..t} \<inter> declared n tbl = {}"
  shows "\<exists>tbl'. record_hole n reason now (f, t) tbl = Inr tbl' \<and> wf_gaps tbl' \<and> open_disjoint n tbl'
     \<and> declared n tbl' = declared n tbl \<union> {f..t} \<and> owed n tbl' = owed n tbl \<union> {f..t}"
proof -
  define r where "r = \<lparr>gr_id = gapID n f t, gr_network = n, gr_from = f, gr_to = t,
    gr_reason = reason, gr_recorded_at = now, gr_resolved_at = None, gr_heal_next_to = None,
    gr_heal_mode = HealModeReplay\<rparr>"
  define upd :: "gap_row \<Rightarrow> gap_row" where "upd = (\<lambda>q. q\<lparr>gr_resolved_at := None, gr_heal_next_to := Some t,
    gr_heal_mode := HealModeReplay, gr_reason := reason\<rparr>)"
  have r: "wf_gap r" "owes n r = {f..t}" "declares n r = {f..t}"
    using b by (simp_all add: r_def wf_gap_def heal_top_def owes_def declares_def open_gap_def)
  have eq: "record_hole n reason now (f, t) tbl =
      (if \<exists>q\<in>set tbl. gr_id q = gr_id r
       then Inr (sql_update (\<lambda>q. gr_id q = gr_id r \<and> gr_resolved_at q \<noteq> None) upd tbl)
       else Inr (tbl @ [r]))"
    unfolding record_hole_def fst_conv snd_conv r_def [symmetric] upd_def [symmetric]
    by (rule upsert_gap_wf [OF wf r(1)])
  show ?thesis
  proof (cases "\<exists>q\<in>set tbl. gr_id q = gr_id r")
    case True
    then obtain q where q: "q \<in> set tbl" "gr_id q = gr_id r" by blast
    then have same: "gr_network q = n" "gr_from q = f" "gr_to q = t" "wf_gap q"
      using wf wf_gap_id_eq [of q r] r(1) by (auto simp: r_def wf_gaps_def)
    have closed: "\<not> open_gap n q"
    proof
      assume "open_gap n q"
      then have "{f..t} \<subseteq> declared n tbl"
        using q same by (auto simp: declared_def declares_def)
      moreover have "f \<in> {f..t}" using b by simp
      ultimately show False using apart by blast
    qed
    have u: "wf_gap (upd q)" "gr_id (upd q) = gr_id q" "owes n (upd q) = {f..t}"
      "declares n (upd q) = {f..t}"
      using same b by (simp_all add: upd_def wf_gap_def heal_top_def owes_def declares_def open_gap_def)
    have "gr_resolved_at q \<noteq> None" using closed same by (simp add: open_gap_def)
    then show ?thesis
      using opening_row [where f = upd and q = q and cond = "\<lambda>q. gr_resolved_at q \<noteq> None", OF wf disj q(1) closed u(1,2) _ u(3,4) apart]
        eq q(2) True by (auto simp: Let_def)
  next
    case False
    then show ?thesis
      using appending_row [OF wf disj r(1) _ r(2,3) apart] eq by auto
  qed
qed

lemma ascending_low: "ascending lo rs \<Longrightarrow> ranges rs \<subseteq> {lo..}"
proof (induction lo rs rule: ascending.induct)
  case (2 lo f t rs)
  then have "ranges rs \<subseteq> {t + 1..}" by simp
  with 2 show ?case by auto
qed simp

lemma record_holes_correct:
  assumes "wf_gaps tbl" and "open_disjoint n tbl" and "ascending lo hs" and "0 \<le> lo"
    and "\<forall>(f, t)\<in>set hs. t < 4294967296" and "ranges hs \<inter> declared n tbl = {}"
  shows "\<exists>tbl'. each (record_hole n reason now) hs tbl = Inr tbl' \<and> wf_gaps tbl' \<and> open_disjoint n tbl'
     \<and> declared n tbl' = declared n tbl \<union> ranges hs \<and> owed n tbl' = owed n tbl \<union> ranges hs"
  using assms
proof (induction lo hs arbitrary: tbl rule: ascending.induct)
  case (2 lo f t rs)
  have "{f..t} \<inter> declared n tbl = {}" using 2 by auto
  then obtain tbl1 where one: "record_hole n reason now (f, t) tbl = Inr tbl1" "wf_gaps tbl1"
    "open_disjoint n tbl1" "declared n tbl1 = declared n tbl \<union> {f..t}"
    "owed n tbl1 = owed n tbl \<union> {f..t}"
    using record_hole_correct [of tbl n f t reason now] 2 by auto
  have "ranges rs \<subseteq> {t + 1..}" using 2 ascending_low by auto
  moreover have "ranges rs \<inter> declared n tbl = {}" using 2(7) by auto
  ultimately have apart: "ranges rs \<inter> declared n tbl1 = {}" unfolding one(4) by fastforce
  have "ascending (t + 1) rs" "0 \<le> t + 1" "\<forall>(f, t)\<in>set rs. t < 4294967296"
    using 2(4-6) by auto
  then obtain tbl2 where "each (record_hole n reason now) rs tbl1 = Inr tbl2" "wf_gaps tbl2"
    "open_disjoint n tbl2" "declared n tbl2 = declared n tbl1 \<union> ranges rs"
    "owed n tbl2 = owed n tbl1 \<union> ranges rs"
    using 2(1) [OF one(2,3) _ _ _ apart] by blast
  with one show ?case by (auto simp: Un_assoc)
qed simp

text \<open>Rewinding the partly healed gaps a range touches.\<close>

lemma rewind_correct:
  fixes n :: string and lo hi :: int
  assumes wf: "wf_gaps tbl" and disj: "open_disjoint n tbl"
  defines "tbl' \<equiv> rewind_partly_healed n lo hi tbl"
  shows "wf_gaps tbl'" and "open_disjoint n tbl'" and "declared n tbl' = declared n tbl"
    and "owed n tbl \<subseteq> owed n tbl'"
    and "\<And>r. r \<in> set tbl' \<Longrightarrow> open_gap n r \<Longrightarrow> overlaps lo hi r \<Longrightarrow> owes n r = declares n r"
proof -
  let ?f = "\<lambda>r. r\<lparr>gr_heal_next_to := Some (gr_to r)\<rparr>"
  have f: "wf_gap (?f r)" "gr_id (?f r) = gr_id r" "declares n (?f r) = declares n r"
    "owes n r \<subseteq> owes n (?f r)" if "wf_gap r" for r
    using that by (auto simp: wf_gap_def heal_top_def declares_def owes_def open_gap_def)
  have rows: "\<And>r. r \<in> set tbl \<Longrightarrow> wf_gap r" using wf by (simp add: wf_gaps_def)
  show "wf_gaps tbl'" unfolding tbl'_def rewind_partly_healed_def
    by (rule wf_gaps_update [OF wf]) (use f rows in blast)
  show "open_disjoint n tbl'" unfolding tbl'_def rewind_partly_healed_def
    by (rule open_disjoint_update [OF disj]) (use f rows in blast)
  show "declared n tbl' = declared n tbl" unfolding tbl'_def rewind_partly_healed_def
    by (rule declared_update) (use f rows in blast)
  show "owed n tbl \<subseteq> owed n tbl'" unfolding tbl'_def rewind_partly_healed_def
    by (rule owed_update_mono) (use f rows in blast)
  show "owes n r = declares n r" if r: "r \<in> set tbl'" "open_gap n r" "overlaps lo hi r" for r
  proof -
    let ?p = "\<lambda>r. open_gap n r \<and> overlaps lo hi r \<and>
      (case gr_heal_next_to r of None \<Rightarrow> False | Some h \<Rightarrow> h < gr_to r)"
    obtain r0 where r0: "r0 \<in> set tbl" "r = (if ?p r0 then ?f r0 else r0)"
      using r(1) unfolding tbl'_def rewind_partly_healed_def in_sql_update by blast
    have "heal_top r = gr_to r"
    proof (cases "?p r0")
      case True
      then show ?thesis using r0(2) by (simp add: heal_top_def)
    next
      case False
      then have "r = r0" using r0(2) by (simp only: if_False)
      then have "wf_gap r" and "\<not> (case gr_heal_next_to r of None \<Rightarrow> False | Some h \<Rightarrow> h < gr_to r)"
        using False r r0(1) rows by auto
      then show ?thesis by (auto simp: heal_top_def wf_gap_def split: option.splits)
    qed
    then show ?thesis by (simp add: owes_def declares_def)
  qed
qed

lemma covering_gaps_ranges:
  assumes wf: "wf_gaps tbl"
  shows "sorted (map fst (covering_gaps n from to tbl))"
    and "{from..to} - ranges (covering_gaps n from to tbl) = {from..to} - declared n tbl"
proof -
  have "map fst (covering_gaps n from to tbl) =
      map gr_from (sort_on gr_from (filter (\<lambda>r. open_gap n r \<and> overlaps from to r) tbl))"
    by (simp add: covering_gaps_def)
  then show "sorted (map fst (covering_gaps n from to tbl))" by simp
  have "ranges (covering_gaps n from to tbl) =
      (\<Union>r\<in>{r \<in> set tbl. open_gap n r \<and> overlaps from to r}. {gr_from r..gr_to r})"
    by (auto simp: ranges_def covering_gaps_def)
  moreover have "{from..to} \<inter> declared n tbl \<subseteq>
      (\<Union>r\<in>{r \<in> set tbl. open_gap n r \<and> overlaps from to r}. {gr_from r..gr_to r})"
    by (fastforce simp: declared_def declares_def overlaps_def split: if_splits)
  moreover have "(\<Union>r\<in>{r \<in> set tbl. open_gap n r \<and> overlaps from to r}. {gr_from r..gr_to r})
      \<subseteq> declared n tbl"
    by (auto simp: declared_def declares_def)
  ultimately show "{from..to} - ranges (covering_gaps n from to tbl) = {from..to} - declared n tbl"
    by blast
qed

lemma RecordGap_correct:
  assumes wf: "wf_gaps (t_gaps d)" and disj: "open_disjoint n (t_gaps d)" and le: "from \<le> to"
  shows "\<exists>tbl. RecordGap n from to reason now d = Inr (d\<lparr>t_gaps := tbl\<rparr>)
    \<and> wf_gaps tbl \<and> open_disjoint n tbl
    \<and> declared n tbl = declared n (t_gaps d) \<union> {uint from..uint to}
    \<and> owed n (t_gaps d) \<union> {uint from..uint to} \<subseteq> owed n tbl"
proof -
  define t1 where "t1 = rewind_partly_healed n (uint from) (uint to) (t_gaps d)"
  define hs where "hs = uncoveredRanges (uint from) (uint to)
    (covering_gaps n (uint from) (uint to) t1)"
  note rw = rewind_correct [OF wf disj, where lo = "uint from" and hi = "uint to", folded t1_def]
  have hs: "ranges hs = {uint from..uint to} - declared n t1"
    using covering_gaps_ranges [OF rw(1)] by (simp add: hs_def uncoveredRanges_def uncovered_loop_set)
  have asc: "ascending (uint from) hs"
    by (simp add: hs_def uncoveredRanges_def uncovered_loop_ascending)
  have top: "\<forall>(f, t)\<in>set hs. t < 4294967296"
  proof (clarify)
    fix f t assume "(f, t) \<in> set hs"
    then have "f \<le> t" and "t \<in> ranges hs"
      using ascending_nonempty [OF asc] by (force simp: ranges_def)+
    with hs have "t \<le> uint to" by simp
    then show "t < 4294967296" using u32_uint_bounds [of to] by simp
  qed
  obtain tbl where tbl: "each (record_hole n reason now) hs t1 = Inr tbl" "wf_gaps tbl"
    "open_disjoint n tbl" "declared n tbl = declared n t1 \<union> ranges hs"
    "owed n tbl = owed n t1 \<union> ranges hs"
    using record_holes_correct [OF rw(1,2) asc _ top, of reason now] hs by auto
  have "{uint from..uint to} \<inter> declared n t1 \<subseteq> owed n t1"
  proof
    fix x assume "x \<in> {uint from..uint to} \<inter> declared n t1"
    then obtain r where r: "r \<in> set t1" "x \<in> declares n r" "uint from \<le> x" "x \<le> uint to"
      by (auto simp: declared_def)
    then have "open_gap n r" "overlaps (uint from) (uint to) r"
      by (auto simp: declares_def overlaps_def split: if_splits)
    then show "x \<in> owed n t1" using rw(5) r by (auto simp: owed_def)
  qed
  then have "owed n (t_gaps d) \<union> {uint from..uint to} \<subseteq> owed n tbl"
    using tbl(5) rw(4) hs by auto
  moreover have "RecordGap n from to reason now d = Inr (d\<lparr>t_gaps := tbl\<rparr>)"
    using le tbl(1) by (simp add: RecordGap_def t1_def hs_def Let_def not_less [symmetric])
  moreover have "declared n tbl = declared n (t_gaps d) \<union> {uint from..uint to}"
    using tbl(4) hs rw(3) by auto
  ultimately show ?thesis using tbl(2,3) by blast
qed

section \<open>Properties\<close>

text \<open>A table with two gaps, for the concrete instances of the properties.\<close>

definition demo_gap :: "string \<Rightarrow> int \<Rightarrow> int \<Rightarrow> gap_row" where
  "demo_gap n f t = \<lparr>gr_id = gapID n f t, gr_network = n, gr_from = f, gr_to = t,
     gr_reason = ''unserved'', gr_recorded_at = 0, gr_resolved_at = None,
     gr_heal_next_to = None, gr_heal_mode = HealModeReplay\<rparr>"

definition demo_db :: db where
  "demo_db = empty_db\<lparr>t_gaps := [demo_gap ''testnet'' 1000 1199, demo_gap ''testnet'' 2000 2999]\<rparr>"

lemma demo_gap_wf: "0 \<le> f \<Longrightarrow> f \<le> t \<Longrightarrow> t < 4294967296 \<Longrightarrow> wf_gap (demo_gap n f t)"
  by (simp add: demo_gap_def wf_gap_def heal_top_def)

lemma demo_db_ok:
  "wf_gaps (t_gaps demo_db)" "open_disjoint ''testnet'' (t_gaps demo_db)"
  "owed ''testnet'' (t_gaps demo_db) = {1000..1199} \<union> {2000..2999}"
proof -
  have ne: "gapID n 1000 1199 \<noteq> gapID n 2000 2999" for n by (simp add: gapID_inject)
  show "wf_gaps (t_gaps demo_db)"
    using demo_gap_wf ne by (simp add: demo_db_def wf_gaps_def) (simp add: demo_gap_def)
  show "open_disjoint ''testnet'' (t_gaps demo_db)"
    by (auto simp: demo_db_def open_disjoint_def declares_def demo_gap_def open_gap_def)
  show "owed ''testnet'' (t_gaps demo_db) = {1000..1199} \<union> {2000..2999}"
    by (auto simp: demo_db_def owes_def demo_gap_def open_gap_def heal_top_def)
qed

text \<open>C5: an unserved range is declared in full and only once. On a well-formed gap table
  \<open>RecordGap\<close> ends without error for every \<open>from \<le> to\<close>: afterwards exactly that range is
  declared on top of what was, all of it is owed, nothing that was owed stops being owed, and no
  two open gaps overlap. Only the gap table changes.\<close>

theorem RecordGap_declares_range:
  assumes "wf_gaps (t_gaps d)" and "open_disjoint n (t_gaps d)" and "from \<le> to"
  shows "\<exists>tbl. RecordGap n from to reason now d = Inr (d\<lparr>t_gaps := tbl\<rparr>)
    \<and> wf_gaps tbl \<and> open_disjoint n tbl
    \<and> declared n tbl = declared n (t_gaps d) \<union> {uint from..uint to}
    \<and> owed n (t_gaps d) \<union> {uint from..uint to} \<subseteq> owed n tbl"
  by (rule RecordGap_correct [OF assms])

theorem RecordGap_declares_range_witness:
  "\<exists>tbl. RecordGap ''testnet'' 1100 2500 ''wall'' 7 demo_db = Inr (demo_db\<lparr>t_gaps := tbl\<rparr>)
    \<and> {1000..2999} \<subseteq> declared ''testnet'' tbl"
proof -
  obtain tbl where "RecordGap ''testnet'' 1100 2500 ''wall'' 7 demo_db = Inr (demo_db\<lparr>t_gaps := tbl\<rparr>)"
    "declared ''testnet'' tbl = declared ''testnet'' (t_gaps demo_db) \<union> {1100..2500}"
    using RecordGap_declares_range [OF demo_db_ok(1,2), of 1100 2500 "''wall''" 7] by auto
  moreover have "{1000..1199} \<union> {2000..2999} \<subseteq> declared ''testnet'' (t_gaps demo_db)"
    using owed_subset_declared [OF demo_db_ok(1)] demo_db_ok(3) by blast
  ultimately have "{1000..1199} \<union> {2000..2999} \<union> {1100..2500} \<subseteq> declared ''testnet'' tbl"
    "RecordGap ''testnet'' 1100 2500 ''wall'' 7 demo_db = Inr (demo_db\<lparr>t_gaps := tbl\<rparr>)" by blast+
  moreover have "({1000..2999} :: int set) \<subseteq> {1000..1199} \<union> {2000..2999} \<union> {1100..2500}" by auto
  ultimately show ?thesis by blast
qed

end
