(* ===== verification/Store_Plan.thy ===== *)
theory Store_Plan
  imports Store_Gaps
begin

text \<open>
  Heal plans, \<^verbatim>\<open>internal/store/plan.go\<close>: cutting the open gaps along a replay plan
  (\<open>PlanHeal\<close>, \<open>splitGap\<close>) and handing them back to the healer (\<open>ReopenGaps\<close>).
  The lemmas show what a plan does to the ledgers still owed, and that applying it twice is
  applying it once.
\<close>

section \<open>Operations\<close>

definition lockOpenGaps :: "string \<Rightarrow> db \<Rightarrow> Gap list" where
  "lockOpenGaps network d =
     map scanGap (sort_on (\<lambda>r. - gr_to r) (filter (open_gap network) (t_gaps d)))"

definition record_piece ::
  "string \<Rightarrow> string \<Rightarrow> int \<Rightarrow> piece \<Rightarrow> gap_row list \<Rightarrow> store_error + gap_row list"
where
  "record_piece network reason now p tbl =
     upsert_gap (\<lambda>q. gr_resolved_at q = None)
       (\<lambda>q. q\<lparr>gr_heal_mode := p_mode p\<rparr>)
       \<lparr>gr_id = gapID network (uint (p_from p)) (uint (p_to p)), gr_network = network,
        gr_from = uint (p_from p), gr_to = uint (p_to p), gr_reason = reason,
        gr_recorded_at = now, gr_resolved_at = None,
        gr_heal_next_to = Some (uint (p_to p)), gr_heal_mode = p_mode p\<rparr> tbl"

definition splitGap :: "string \<Rightarrow> int \<Rightarrow> Gap \<Rightarrow> piece list \<Rightarrow> db \<Rightarrow> store_error + db" where
  "splitGap network now g pieces d =
     andThen (each (record_piece network (g_Reason g) now) pieces
                (sql_delete (\<lambda>r. gr_network r = network \<and> gr_id r = g_ID g) (t_gaps d)))
       (\<lambda>tbl. if pieces = [] then Inl (Panic ''index out of range'')
              else Inr (d\<lparr>t_gaps := tbl,
                t_backfill := sql_update
                  (\<lambda>b. br_network b = network \<and> br_clamped_at b = Some (uint (g_To g) + 1))
                  (\<lambda>b. b\<lparr>br_clamped_at := Some (uint (p_to (last pieces)) + 1), br_updated_at := now\<rparr>)
                  (t_backfill d)\<rparr>))"

text \<open>One iteration of the loop over the locked gaps.\<close>

definition plan_gap :: "string \<Rightarrow> int \<Rightarrow> Interval list \<Rightarrow> Gap \<Rightarrow> db \<Rightarrow> store_error + db" where
  "plan_gap network now plan g d =
     (if g_HealNextTo g < g_From g then Inr d
      else let pieces = partition (g_From g) (g_HealNextTo g) plan
           in if length pieces = 1 \<and> p_mode (hd pieces) = g_HealMode g then Inr d
              else splitGap network now g pieces d)"

record PlanResult =
  pr_ReplayGaps :: nat
  pr_DeferredGaps :: nat
  pr_ReplayLedgers :: int
  pr_DeferredLedgers :: int

definition gap_ledgers :: "string \<Rightarrow> HealMode \<Rightarrow> db \<Rightarrow> int" where
  "gap_ledgers network m d =
     (\<Sum>r\<leftarrow>filter (\<lambda>r. open_gap network r \<and> gr_heal_mode r = m) (t_gaps d). gr_to r - gr_from r + 1)"

definition DeferredGaps :: "string \<Rightarrow> db \<Rightarrow> nat \<times> int" where
  "DeferredGaps network d =
     (sql_count (\<lambda>r. open_gap network r \<and> gr_heal_mode r = HealModeDeferred) (t_gaps d),
      gap_ledgers network HealModeDeferred d)"

definition plan_counts :: "string \<Rightarrow> db \<Rightarrow> PlanResult" where
  "plan_counts network d =
     \<lparr>pr_ReplayGaps = sql_count (\<lambda>r. open_gap network r \<and> gr_heal_mode r = HealModeReplay) (t_gaps d),
      pr_DeferredGaps = sql_count (\<lambda>r. open_gap network r \<and> gr_heal_mode r = HealModeDeferred) (t_gaps d),
      pr_ReplayLedgers = gap_ledgers network HealModeReplay d,
      pr_DeferredLedgers = gap_ledgers network HealModeDeferred d\<rparr>"

definition PlanHeal ::
  "string \<Rightarrow> Interval list \<Rightarrow> u32 \<Rightarrow> int \<Rightarrow> db \<Rightarrow> store_error + (PlanResult \<times> db)"
where
  "PlanHeal network replay padding now d =
     (let plan = normalizePlan replay padding
      in andThen (each (plan_gap network now plan) (lockOpenGaps network d) d)
           (\<lambda>d'. Inr (plan_counts network d', d')))"

definition reopens :: "string \<Rightarrow> int \<Rightarrow> int \<Rightarrow> gap_row \<Rightarrow> bool" where
  "reopens network from to r \<longleftrightarrow> open_gap network r \<and> overlaps from to r \<and>
     (gr_heal_mode r = HealModeDeferred \<or> gr_heal_next_to r \<noteq> Some (gr_to r))"

definition ReopenGaps :: "string \<Rightarrow> u32 \<Rightarrow> u32 \<Rightarrow> db \<Rightarrow> nat \<times> db" where
  "ReopenGaps network from to d =
     (sql_count (reopens network (uint from) (uint to)) (t_gaps d),
      d\<lparr>t_gaps := sql_update (reopens network (uint from) (uint to))
          (\<lambda>r. r\<lparr>gr_heal_mode := HealModeReplay, gr_heal_next_to := Some (gr_to r)\<rparr>) (t_gaps d)\<rparr>)"

section \<open>Who owns the missing ledgers\<close>

definition owes_in :: "string \<Rightarrow> HealMode \<Rightarrow> gap_row \<Rightarrow> int set" where
  "owes_in n m r = (if gr_heal_mode r = m then owes n r else {})"

definition owed_in :: "string \<Rightarrow> HealMode \<Rightarrow> gap_row list \<Rightarrow> int set" where
  "owed_in n m tbl = (\<Union>r\<in>set tbl. owes_in n m r)"

text \<open>The ledgers of a plan that a mode gets.\<close>

definition share :: "HealMode \<Rightarrow> int set \<Rightarrow> int set" where
  "share m P = (case m of HealModeReplay \<Rightarrow> P | HealModeDeferred \<Rightarrow> - P)"

text \<open>No resolved gap of the network has its range inside what is still owed.\<close>

definition resolved_apart :: "string \<Rightarrow> gap_row list \<Rightarrow> bool" where
  "resolved_apart n tbl \<longleftrightarrow>
     (\<forall>q\<in>set tbl. gr_network q = n \<longrightarrow> gr_resolved_at q \<noteq> None \<longrightarrow>
        \<not> {gr_from q..gr_to q} \<subseteq> owed n tbl)"

text \<open>Every registration clamped at a wall waits for an open gap that ends there.\<close>

definition clamps_anchored :: "string \<Rightarrow> db \<Rightarrow> bool" where
  "clamps_anchored n d \<longleftrightarrow>
     (\<forall>b\<in>set (t_backfill d). br_network b = n \<longrightarrow> (\<forall>w. br_clamped_at b = Some w \<longrightarrow>
        (\<exists>r\<in>set (t_gaps d). open_gap n r \<and> gr_to r + 1 = w)))"

text \<open>A gap that the plan leaves alone.\<close>

definition settled :: "Interval list \<Rightarrow> gap_row \<Rightarrow> bool" where
  "settled plan r \<longleftrightarrow> (let g = scanGap r in
     g_HealNextTo g < g_From g \<or>
     (let ps = partition (g_From g) (g_HealNextTo g) plan in
        length ps = 1 \<and> p_mode (hd ps) = g_HealMode g))"

text \<open>
  The pieces a plan cuts an open gap into, and those of them whose range is that of a resolved gap:
  \<open>splitGap\<close> inserts each with \<open>ON CONFLICT ... WHERE gaps.resolved_at IS NULL\<close>, so such a piece is not
  recorded at all. \<open>dropped\<close> collects the ledgers a plan takes off the books this way.
\<close>

definition cuts :: "Interval list \<Rightarrow> gap_row \<Rightarrow> piece list" where
  "cuts plan r = (if settled plan r then []
     else partition (g_From (scanGap r)) (g_HealNextTo (scanGap r)) plan)"

definition taken :: "string \<Rightarrow> gap_row list \<Rightarrow> piece \<Rightarrow> bool" where
  "taken n tbl p \<longleftrightarrow> list_ex (\<lambda>q. gr_network q = n \<and> gr_resolved_at q \<noteq> None
     \<and> gr_from q = uint (p_from p) \<and> gr_to q = uint (p_to p)) tbl"

definition dropped_of :: "string \<Rightarrow> Interval list \<Rightarrow> gap_row list \<Rightarrow> gap_row \<Rightarrow> int set" where
  "dropped_of n plan tbl r = (\<Union>p\<in>set (filter (taken n tbl) (cuts plan r)). piece_set p)"

definition dropped :: "string \<Rightarrow> Interval list \<Rightarrow> gap_row list \<Rightarrow> int set" where
  "dropped n plan tbl = (\<Union>r\<in>set (filter (open_gap n) tbl). dropped_of n plan tbl r)"

definition piece_row :: "string \<Rightarrow> string \<Rightarrow> int \<Rightarrow> piece \<Rightarrow> gap_row" where
  "piece_row network reason now p =
     \<lparr>gr_id = gapID network (uint (p_from p)) (uint (p_to p)), gr_network = network,
      gr_from = uint (p_from p), gr_to = uint (p_to p), gr_reason = reason,
      gr_recorded_at = now, gr_resolved_at = None,
      gr_heal_next_to = Some (uint (p_to p)), gr_heal_mode = p_mode p\<rparr>"

lemma owed_in_simps [simp]:
  "owed_in n m [] = {}"
  "owed_in n m (r # tbl) = owes_in n m r \<union> owed_in n m tbl"
  "owed_in n m (tbl @ tbl') = owed_in n m tbl \<union> owed_in n m tbl'"
  by (auto simp: owed_in_def)

lemma owed_by_mode: "owed n tbl = owed_in n HealModeReplay tbl \<union> owed_in n HealModeDeferred tbl"
proof -
  have "owes n r = owes_in n HealModeReplay r \<union> owes_in n HealModeDeferred r" for r
    by (cases "gr_heal_mode r") (auto simp: owes_in_def)
  then show ?thesis by (auto simp: owed_def owed_in_def)
qed

lemma scanGap_wf:
  assumes "wf_gap r"
  shows "uint (g_From (scanGap r)) = gr_from r" "uint (g_To (scanGap r)) = gr_to r"
    "uint (g_HealNextTo (scanGap r)) = heal_top r" "g_HealMode (scanGap r) = gr_heal_mode r"
    "g_ID (scanGap r) = gr_id r"
  using assms by (auto simp: scanGap_def wf_gap_def heal_top_def u32_of_column split: option.splits)

lemma piece_row_wf:
  assumes "uint (p_from p) \<le> uint (p_to p)"
  shows "wf_gap (piece_row n reason now p)" "owes n (piece_row n reason now p) = piece_set p"
    "declares n (piece_row n reason now p) = piece_set p"
    "owes_in n m (piece_row n reason now p) = (if p_mode p = m then piece_set p else {})"
    "open_gap n (piece_row n reason now p)"
  using assms u32_uint_bounds [of "p_to p"]
  by (auto simp: piece_row_def wf_gap_def heal_top_def owes_def owes_in_def declares_def
      open_gap_def piece_set_def)

lemma piece_row_id_eq:
  "gapID n (uint (p_from p)) (uint (p_to p)) = gapID n (uint (p_from q)) (uint (p_to q)) \<longleftrightarrow>
     uint (p_from p) = uint (p_from q) \<and> uint (p_to p) = uint (p_to q)"
  using u32_uint_bounds by (simp add: gapID_inject)

text \<open>
  Recording the pieces of a split: a piece arrives when no row carries its id, and is silently
  skipped when a resolved row does.
\<close>

definition fresh_piece :: "string \<Rightarrow> gap_row list \<Rightarrow> piece \<Rightarrow> bool" where
  "fresh_piece n tbl p \<longleftrightarrow> (\<forall>q\<in>set tbl. gr_id q \<noteq> gapID n (uint (p_from p)) (uint (p_to p)))"

lemma piece_row_id [simp]: "gr_id (piece_row n reason now p) = gapID n (uint (p_from p)) (uint (p_to p))"
  by (simp add: piece_row_def)

lemma record_piece_wf:
  assumes "wf_gaps tbl" and "uint (p_from p) \<le> uint (p_to p)"
    and "\<forall>q\<in>set tbl. gr_id q = gapID n (uint (p_from p)) (uint (p_to p)) \<longrightarrow> gr_resolved_at q \<noteq> None"
  shows "record_piece n reason now p tbl =
    Inr (if fresh_piece n tbl p then tbl @ [piece_row n reason now p] else tbl)"
proof -
  have "sql_update (\<lambda>q. gr_id q = gapID n (uint (p_from p)) (uint (p_to p)) \<and> gr_resolved_at q = None) f tbl = tbl" for f
    using assms(3) by (intro sql_update_none) auto
  then show ?thesis
    unfolding record_piece_def piece_row_def [symmetric] fresh_piece_def
    using upsert_gap_wf [OF assms(1) piece_row_wf(1) [OF assms(2)], of "\<lambda>q. gr_resolved_at q = None"]
    by auto
qed

lemma record_pieces:
  assumes "wf_gaps tbl" and "tiles f t ps"
    and "\<forall>p\<in>set ps. \<forall>q\<in>set tbl. gr_id q = gapID n (uint (p_from p)) (uint (p_to p)) \<longrightarrow> gr_resolved_at q \<noteq> None"
  shows "each (record_piece n reason now) ps tbl =
    Inr (tbl @ map (piece_row n reason now) (filter (fresh_piece n tbl) ps))"
  using assms
proof (induction f t ps arbitrary: tbl rule: tiles.induct)
  case (2 f t p ps)
  let ?row = "piece_row n reason now"
  have p: "uint (p_from p) \<le> uint (p_to p)" using 2(3) by simp
  define tbl1 where "tbl1 = (if fresh_piece n tbl p then tbl @ [?row p] else tbl)"
  have one: "record_piece n reason now p tbl = Inr tbl1"
    using record_piece_wf [OF 2(2) p] 2(4) by (simp add: tbl1_def)
  have wf1: "wf_gaps tbl1"
    using 2(2) piece_row_wf(1) [OF p] by (auto simp: wf_gaps_def tbl1_def fresh_piece_def)
  have other: "gr_id (?row p) \<noteq> gr_id (?row q)" if "q \<in> set ps" for q
  proof -
    have "uint (p_from q) \<noteq> uint (p_from p)"
      using tiles_low [of "uint (p_to p) + 1" t ps q] 2(3) that by auto
    then show ?thesis using u32_uint_bounds by (simp add: gapID_inject)
  qed
  have "\<forall>q\<in>set ps. \<forall>r\<in>set tbl1. gr_id r = gapID n (uint (p_from q)) (uint (p_to q)) \<longrightarrow> gr_resolved_at r \<noteq> None"
    using 2(4) other by (auto simp: tbl1_def)
  then have "each (record_piece n reason now) ps tbl1 =
      Inr (tbl1 @ map ?row (filter (fresh_piece n tbl1) ps))"
    using 2(1) [OF wf1] 2(3) by simp
  moreover have "filter (fresh_piece n tbl1) ps = filter (fresh_piece n tbl) ps"
    by (rule filter_cong) (use other in \<open>auto simp: fresh_piece_def tbl1_def\<close>)
  ultimately show ?case using one by (simp add: tbl1_def)
qed simp

lemma piece_rows_sets:
  assumes "tiles f t ps"
  shows "owed_in n m (map (piece_row n reason now) ps) = pieces_set m ps"
    "declared n (map (piece_row n reason now) ps) = {f..t}"
    "wf_gaps (map (piece_row n reason now) ps)"
    "open_disjoint n (map (piece_row n reason now) ps)"
proof -
  have le: "uint (p_from p) \<le> uint (p_to p)" if "p \<in> set ps" for p
    using tiles_low [OF assms that] by simp
  note row = piece_row_wf [where n = n and reason = reason and now = now]
  show "owed_in n m (map (piece_row n reason now) ps) = pieces_set m ps"
    using le row(4) by (auto simp: owed_in_def pieces_set_def split: if_splits)
  show "declared n (map (piece_row n reason now) ps) = {f..t}"
    using tiles_sets [OF assms] le row(3) by (auto simp: declared_def)
  have "distinct (map (\<lambda>p. gr_id (piece_row n reason now p)) ps)"
    using tiles_distinct [OF assms] by (simp add: distinct_conv_nth piece_row_id_eq)
  then show "wf_gaps (map (piece_row n reason now) ps)"
    using le row(1) by (auto simp: wf_gaps_def o_def)
  show "open_disjoint n (map (piece_row n reason now) ps)"
    unfolding open_disjoint_def using tiles_disjoint [OF assms] le row(3) by fastforce
qed

section \<open>Splitting one gap\<close>

lemma owed_in_delete:
  assumes wf: "wf_gaps tbl" and disj: "open_disjoint n tbl" and r: "r \<in> set tbl"
    and net: "gr_network r = n"
  shows "owed_in n m (sql_delete (\<lambda>q. gr_network q = n \<and> gr_id q = gr_id r) tbl)
    = owed_in n m tbl - owes n r"
proof -
  have other: "owes n q \<inter> owes n r = {}" if "q \<in> set tbl" "gr_id q \<noteq> gr_id r" for q
    using that r disj wf owes_subset_declares unfolding open_disjoint_def wf_gaps_def by blast
  have same: "q = r" if "q \<in> set tbl" "gr_id q = gr_id r" for q
    using wf that r distinct_map_filter_unique unfolding wf_gaps_def by metis
  have sub: "owes_in n m q \<subseteq> owes n q" for q by (simp add: owes_in_def)
  show ?thesis
  proof (rule set_eqI)
    fix x
    show "x \<in> owed_in n m (sql_delete (\<lambda>q. gr_network q = n \<and> gr_id q = gr_id r) tbl) \<longleftrightarrow>
        x \<in> owed_in n m tbl - owes n r"
      using other same sub net unfolding owed_in_def by (auto, blast+)
  qed
qed

lemma wf_gaps_delete: "wf_gaps tbl \<Longrightarrow> wf_gaps (sql_delete p tbl)"
  by (auto simp: wf_gaps_def sql_delete_def distinct_map_filter)

lemma open_disjoint_subset: "open_disjoint n tbl \<Longrightarrow> set tbl' \<subseteq> set tbl \<Longrightarrow> open_disjoint n tbl'"
  unfolding open_disjoint_def by blast

lemma open_disjoint_append:
  assumes "open_disjoint n tbl" "open_disjoint n tbl'" "declared n tbl \<inter> declared n tbl' = {}"
  shows "open_disjoint n (tbl @ tbl')"
  using assms unfolding open_disjoint_def declared_def by (simp add: ball_Un) blast

text \<open>
  Splitting a gap at its remainder, whatever the resolved gaps are: the row goes, its fresh pieces
  arrive, the clamped registrations follow the top piece, and the table stays well-formed.
\<close>

lemma wf_gaps_append:
  "wf_gaps tbl \<Longrightarrow> wf_gaps tbl' \<Longrightarrow> \<forall>q\<in>set tbl. \<forall>r\<in>set tbl'. gr_id q \<noteq> gr_id r \<Longrightarrow> wf_gaps (tbl @ tbl')"
  by (auto simp: wf_gaps_def)

lemma wf_gaps_filter_map: "wf_gaps (map g ps) \<Longrightarrow> wf_gaps (map g (filter P ps))"
  by (simp add: wf_gaps_def distinct_map_filter)

lemma splitGap_keeps:
  fixes n :: string and d :: db and r :: gap_row
  assumes wf: "wf_gaps (t_gaps d)" and disj: "open_disjoint n (t_gaps d)"
    and r: "r \<in> set (t_gaps d)" "open_gap n r"
    and tl: "tiles (gr_from r) (heal_top r) ps" and ne: "ps \<noteq> []"
  defines "t0 \<equiv> sql_delete (\<lambda>q. gr_network q = n \<and> gr_id q = gr_id r) (t_gaps d)"
  shows "\<exists>d'. splitGap n now (scanGap r) ps d = Inr d' \<and> wf_gaps (t_gaps d') \<and> open_disjoint n (t_gaps d')
    \<and> t_gaps d' = t0 @ map (piece_row n (gr_reason r) now) (filter (fresh_piece n t0) ps)
    \<and> set t0 = set (t_gaps d) - {r}
    \<and> t_backfill d' = sql_update (\<lambda>b. br_network b = n \<and> br_clamped_at b = Some (gr_to r + 1))
        (\<lambda>b. b\<lparr>br_clamped_at := Some (heal_top r + 1), br_updated_at := now\<rparr>) (t_backfill d)"
proof -
  define rows where "rows = map (piece_row n (gr_reason r) now) ps"
  let ?new = "map (piece_row n (gr_reason r) now) (filter (fresh_piece n t0) ps)"
  have net: "gr_network r = n" using r by (simp add: open_gap_def)
  have wfr: "wf_gap r" using wf r by (simp add: wf_gaps_def)
  have same: "q = r" if "q \<in> set (t_gaps d)" "gr_id q = gr_id r" for q
    using wf that r distinct_map_filter_unique unfolding wf_gaps_def by metis
  have t0: "set t0 = set (t_gaps d) - {r}" using same net by (auto simp: t0_def)
  have wf0: "wf_gaps t0" using wf by (simp add: t0_def wf_gaps_delete)
  have apart: "declares n q \<inter> declares n r = {}" if "q \<in> set t0" for q
    using that t0 disj r same unfolding open_disjoint_def by blast
  have closed: "gr_resolved_at q \<noteq> None"
    if "p \<in> set ps" "q \<in> set t0" "gr_id q = gapID n (uint (p_from p)) (uint (p_to p))" for p q
  proof
    assume "gr_resolved_at q = None"
    have p: "uint (p_from p) \<le> uint (p_to p)" "piece_set p \<subseteq> declares n r" "piece_set p \<noteq> {}"
      using tiles_low [OF tl that(1)] owes_subset_declares [OF wfr, of n] r by (auto simp: piece_set_def owes_def)
    have "wf_gap q" using that(2) t0 wf by (auto simp: wf_gaps_def)
    then have "gr_network q = n" "{gr_from q..gr_to q} = piece_set p"
      using that(3) wf_gap_id_eq [OF _ piece_row_wf(1) [OF p(1), of n reason now], of q for reason now]
      by (auto simp: piece_row_def piece_set_def)
    then have "declares n q = piece_set p"
      using \<open>gr_resolved_at q = None\<close> by (simp add: declares_def open_gap_def)
    then show False using apart [OF that(2)] p by blast
  qed
  have g: "g_ID (scanGap r) = gr_id r" "g_Reason (scanGap r) = gr_reason r" by (simp_all add: scanGap_def)
  have "each (record_piece n (gr_reason r) now) ps t0 = Inr (t0 @ ?new)"
    using record_pieces [OF wf0 tl] closed by blast
  then obtain d' where d': "splitGap n now (scanGap r) ps d = Inr d'" "t_gaps d' = t0 @ ?new"
    "t_backfill d' = sql_update (\<lambda>b. br_network b = n \<and> br_clamped_at b = Some (gr_to r + 1))
        (\<lambda>b. b\<lparr>br_clamped_at := Some (heal_top r + 1), br_updated_at := now\<rparr>) (t_backfill d)"
    using ne tiles_last [OF tl ne] scanGap_wf [OF wfr] by (simp add: splitGap_def g t0_def)
  note rs = piece_rows_sets [OF tl, where n = n and reason = "gr_reason r" and now = now]
  have "wf_gaps (t0 @ ?new)"
    by (rule wf_gaps_append [OF wf0 wf_gaps_filter_map [OF rs(3)]]) (auto simp: fresh_piece_def)
  moreover have "open_disjoint n (t0 @ ?new)"
  proof (rule open_disjoint_append)
    show "open_disjoint n t0" using disj t0 by (auto intro: open_disjoint_subset)
    show "open_disjoint n ?new" using rs(4) by (rule open_disjoint_subset) auto
    have "declared n ?new \<subseteq> declared n (map (piece_row n (gr_reason r) now) ps)" by (auto simp: declared_def)
    also have "\<dots> \<subseteq> declares n r"
      using rs(2) owes_subset_declares [OF wfr, of n] r by (simp add: owes_def)
    finally show "declared n t0 \<inter> declared n ?new = {}" using apart by (auto simp: declared_def)
  qed
  ultimately show ?thesis using d' t0 by auto
qed

text \<open>A piece is fresh exactly when no resolved gap has its range.\<close>

lemma piece_taken:
  assumes wf: "wf_gaps (t_gaps d)" and disj: "open_disjoint n (t_gaps d)"
    and r: "r \<in> set (t_gaps d)" "open_gap n r"
    and tl: "tiles (gr_from r) (heal_top r) ps" and p: "p \<in> set ps" and t0: "set t0 = set (t_gaps d) - {r}"
  shows "fresh_piece n t0 p \<longleftrightarrow> \<not> taken n (t_gaps d) p"
proof -
  have wfr: "wf_gap r" using wf r by (simp add: wf_gaps_def)
  have ps: "uint (p_from p) \<le> uint (p_to p)" "piece_set p \<subseteq> declares n r" "piece_set p \<noteq> {}"
    using tiles_low [OF tl p] owes_subset_declares [OF wfr, of n] r by (auto simp: piece_set_def owes_def)
  have id: "gr_id q = gapID n (uint (p_from p)) (uint (p_to p)) \<longleftrightarrow>
      gr_network q = n \<and> gr_from q = uint (p_from p) \<and> gr_to q = uint (p_to p)" if "q \<in> set (t_gaps d)" for q
    using wf_gap_id_eq [OF _ piece_row_wf(1) [OF ps(1), of n reason now], of q for reason now] that wf
    by (simp add: piece_row_def wf_gaps_def)
  have resolved: "gr_resolved_at q \<noteq> None"
    if q: "q \<in> set (t_gaps d)" "q \<noteq> r" "gr_network q = n" "gr_from q = uint (p_from p)" "gr_to q = uint (p_to p)" for q
  proof
    assume "gr_resolved_at q = None"
    then have "declares n q = piece_set p" using q by (simp add: declares_def open_gap_def piece_set_def)
    moreover have "gr_id q \<noteq> gr_id r" using wf q r distinct_map_filter_unique unfolding wf_gaps_def by metis
    then have "declares n q \<inter> declares n r = {}" using disj q r unfolding open_disjoint_def by blast
    ultimately show False using ps by blast
  qed
  show ?thesis
  proof
    assume fresh: "fresh_piece n t0 p"
    show "\<not> taken n (t_gaps d) p"
    proof
      assume "taken n (t_gaps d) p"
      then obtain q where q: "q \<in> set (t_gaps d)" "gr_resolved_at q \<noteq> None" "gr_id q = gapID n (uint (p_from p)) (uint (p_to p))"
        using id unfolding taken_def list_ex_iff by blast
      then have "q \<noteq> r" using r(2) unfolding open_gap_def by metis
      then have "q \<in> set t0" using q(1) t0 by blast
      then show False using fresh q(3) by (auto simp: fresh_piece_def)
    qed
  next
    assume none: "\<not> taken n (t_gaps d) p"
    have "gr_id q \<noteq> gapID n (uint (p_from p)) (uint (p_to p))" if "q \<in> set t0" for q
    proof
      assume "gr_id q = gapID n (uint (p_from p)) (uint (p_to p))"
      moreover have "q \<in> set (t_gaps d)" "q \<noteq> r" using that t0 by auto
      ultimately show False using id [of q] resolved [of q] none unfolding taken_def list_ex_iff by metis
    qed
    then show "fresh_piece n t0 p" by (simp add: fresh_piece_def)
  qed
qed

text \<open>
  What a split leaves, exactly: the other rows owe what they owed, and the remainder is shared between
  the modes as the pieces say, save the pieces whose range is that of a resolved gap.
\<close>

lemma pieces_set_filter:
  "tiles f t ps \<Longrightarrow> pieces_set m (filter (\<lambda>p. \<not> P p) ps) = pieces_set m ps - (\<Union>p\<in>set (filter P ps). piece_set p)"
  using tiles_disjoint [of f t ps] by (fastforce simp: pieces_set_def)

lemma piece_rows_owed:
  "\<forall>p\<in>set ps. uint (p_from p) \<le> uint (p_to p) \<Longrightarrow> owed_in n m (map (piece_row n reason now) ps) = pieces_set m ps"
  by (induction ps) (auto simp: piece_row_wf(4))

lemma splitGap_exact:
  assumes wf: "wf_gaps (t_gaps d)" and disj: "open_disjoint n (t_gaps d)"
    and r: "r \<in> set (t_gaps d)" "open_gap n r"
    and tl: "tiles (gr_from r) (heal_top r) ps" and ne: "ps \<noteq> []"
  defines "kept \<equiv> filter (\<lambda>p. \<not> taken n (t_gaps d) p) ps"
  shows "\<exists>d'. splitGap n now (scanGap r) ps d = Inr d' \<and> wf_gaps (t_gaps d') \<and> open_disjoint n (t_gaps d')
    \<and> set (t_gaps d') = (set (t_gaps d) - {r}) \<union> piece_row n (gr_reason r) now ` set kept
    \<and> (\<forall>m. owed_in n m (t_gaps d') = (owed_in n m (t_gaps d) - owes n r) \<union> pieces_set m kept)
    \<and> t_backfill d' = sql_update (\<lambda>b. br_network b = n \<and> br_clamped_at b = Some (gr_to r + 1))
        (\<lambda>b. b\<lparr>br_clamped_at := Some (heal_top r + 1), br_updated_at := now\<rparr>) (t_backfill d)"
proof -
  define t0 where "t0 = sql_delete (\<lambda>q. gr_network q = n \<and> gr_id q = gr_id r) (t_gaps d)"
  obtain d' where d': "splitGap n now (scanGap r) ps d = Inr d'" "wf_gaps (t_gaps d')"
    "open_disjoint n (t_gaps d')"
    "t_gaps d' = t0 @ map (piece_row n (gr_reason r) now) (filter (fresh_piece n t0) ps)"
    "set t0 = set (t_gaps d) - {r}"
    "t_backfill d' = sql_update (\<lambda>b. br_network b = n \<and> br_clamped_at b = Some (gr_to r + 1))
        (\<lambda>b. b\<lparr>br_clamped_at := Some (heal_top r + 1), br_updated_at := now\<rparr>) (t_backfill d)"
    using splitGap_keeps [OF wf disj r tl ne, of now] unfolding t0_def by blast
  have net: "gr_network r = n" using r by (simp add: open_gap_def)
  have "fresh_piece n t0 p \<longleftrightarrow> \<not> taken n (t_gaps d) p" if "p \<in> set ps" for p
    using piece_taken [OF wf disj r tl that] d'(5) by simp
  then have gaps: "t_gaps d' = t0 @ map (piece_row n (gr_reason r) now) kept"
    using d'(4) by (simp add: kept_def cong: filter_cong)
  have "\<forall>p\<in>set kept. uint (p_from p) \<le> uint (p_to p)" using tiles_low [OF tl] by (simp add: kept_def)
  then have "owed_in n m (t_gaps d') = (owed_in n m (t_gaps d) - owes n r) \<union> pieces_set m kept" for m
    using owed_in_delete [OF wf disj r(1) net] by (simp add: gaps t0_def piece_rows_owed)
  moreover have "set (t_gaps d') = (set (t_gaps d) - {r}) \<union> piece_row n (gr_reason r) now ` set kept"
    by (simp add: gaps d'(5))
  ultimately show ?thesis using d'(1-3,6) by blast
qed

section \<open>Applying a plan\<close>

text \<open>The pieces of a remainder, mode by mode, are the plan's share of it.\<close>

lemma partition_share:
  assumes "f \<le> t" and "\<forall>iv\<in>set plan. iv_valid iv" and "sorted (map iv_From plan)"
  shows "pieces_set m (partition f t plan) = {uint f..uint t} \<inter> share m (plan_set plan)"
proof -
  have tl: "tiles (uint f) (uint t) (partition f t plan)"
    using partition_loop_tiles assms by (simp add: partition_def)
  have rep: "pieces_set HealModeReplay (partition f t plan) = plan_set plan \<inter> {uint f..uint t}"
    using partition_loop_replay assms by (simp add: partition_def)
  have all: "pieces_set HealModeReplay (partition f t plan) \<union>
      pieces_set HealModeDeferred (partition f t plan) = {uint f..uint t}"
  proof -
    have "p_mode p = HealModeReplay \<or> p_mode p = HealModeDeferred" for p :: piece
      by (cases "p_mode p") auto
    then show ?thesis unfolding tiles_sets [OF tl, symmetric] pieces_set_def by blast
  qed
  have none: "pieces_set HealModeReplay (partition f t plan) \<inter>
      pieces_set HealModeDeferred (partition f t plan) = {}"
    using tiles_disjoint [OF tl] by (fastforce simp: pieces_set_def)
  show ?thesis using rep all none by (cases m) (auto simp: share_def)
qed

lemma settled_piece_row:
  assumes "f \<le> t" and "\<forall>iv\<in>set plan. iv_valid iv" and "p \<in> set (partition f t plan)"
  shows "settled plan (piece_row n reason now p)"
proof -
  have "partition (p_from p) (p_to p) plan = [p]"
    using assms partition_loop_self by (simp add: partition_def)
  then show ?thesis by (simp add: settled_def piece_row_def scanGap_def)
qed

lemma share_union: "share HealModeReplay P \<union> share HealModeDeferred P = UNIV"
  by (auto simp: share_def)

text \<open>A settled gap already owes in each mode what the plan gives it there, and its rows in the
ledger are told from the others by their id.\<close>

lemma settled_owes_in:
  assumes wf: "wf_gap r" and r: "open_gap n r" and settled: "settled plan r"
    and plan: "\<forall>iv\<in>set plan. iv_valid iv" "sorted (map iv_From plan)"
  shows "owes_in n m r = owes n r \<inter> share m (plan_set plan)"
proof -
  let ?g = "scanGap r"
  let ?ps = "partition (g_From ?g) (g_HealNextTo ?g) plan"
  note sg = scanGap_wf [OF wf]
  have owesr: "owes n r = {gr_from r..heal_top r}" using r by (simp add: owes_def)
  show ?thesis
  proof (cases "g_HealNextTo ?g < g_From ?g")
    case True
    then have "owes n r = {}" using owesr sg by (simp add: u32_less_iff)
    then show ?thesis by (simp add: owes_in_def)
  next
    case False
    then obtain p where p: "?ps = [p]" "p_mode p = gr_heal_mode r"
      using settled sg by (auto simp: settled_def Let_def length_Suc_conv)
    have le: "g_From ?g \<le> g_HealNextTo ?g" using False by simp
    have "piece_set p = {gr_from r..heal_top r}"
      using tiles_sets [OF partition_loop_tiles [OF le plan(1)]] p sg by (simp add: partition_def)
    then have "owes_in n m r = pieces_set m ?ps" using p owesr by (simp add: owes_in_def)
    then show ?thesis using partition_share [OF le plan] sg owesr by simp
  qed
qed

lemma owed_in_member:
  assumes wf: "wf_gaps gaps" and disj: "open_disjoint n gaps" and r: "r \<in> set gaps" "open_gap n r"
  shows "owed_in n m gaps = (owed_in n m gaps - owes n r) \<union> owes_in n m r"
proof -
  have "q = r" if "q \<in> set gaps" "gr_id q = gr_id r" for q
    using wf that r distinct_map_filter_unique unfolding wf_gaps_def by metis
  then have "owed_in n m gaps =
      owed_in n m (sql_delete (\<lambda>q. gr_network q = n \<and> gr_id q = gr_id r) gaps) \<union> owes_in n m r"
    using r by (auto simp: owed_in_def)
  then show ?thesis using owed_in_delete [OF wf disj r(1), of m] r by (simp add: open_gap_def)
qed

lemma cuts_share:
  assumes wf: "wf_gap r" and r: "open_gap n r" and unsettled: "\<not> settled plan r"
    and plan: "\<forall>iv\<in>set plan. iv_valid iv"
  shows "g_From (scanGap r) \<le> g_HealNextTo (scanGap r)" "tiles (gr_from r) (heal_top r) (cuts plan r)" "cuts plan r \<noteq> []"
    "plan_gap n now plan (scanGap r) d = splitGap n now (scanGap r) (cuts plan r) d"
proof -
  show le: "g_From (scanGap r) \<le> g_HealNextTo (scanGap r)" using unsettled by (simp add: settled_def Let_def not_less)
  show tl: "tiles (gr_from r) (heal_top r) (cuts plan r)"
    using partition_loop_tiles [OF le plan] scanGap_wf [OF wf] unsettled by (simp add: cuts_def partition_def)
  show "cuts plan r \<noteq> []" using tl le scanGap_wf [OF wf] by (auto simp: u32_le_iff)
  show "plan_gap n now plan (scanGap r) d = splitGap n now (scanGap r) (cuts plan r) d"
    using unsettled by (auto simp: plan_gap_def settled_def cuts_def Let_def)
qed

text \<open>One gap meets the plan: its remainder is shared, everything else stays.\<close>

lemma plan_gap_exact:
  assumes wf: "wf_gaps (t_gaps d)" and disj: "open_disjoint n (t_gaps d)"
    and r: "r \<in> set (t_gaps d)" "open_gap n r"
    and plan: "\<forall>iv\<in>set plan. iv_valid iv" "sorted (map iv_From plan)"
  shows "\<exists>d' S. plan_gap n now plan (scanGap r) d = Inr d' \<and> wf_gaps (t_gaps d') \<and> open_disjoint n (t_gaps d')
    \<and> set (t_gaps d') = (set (t_gaps d) - {r}) \<union> S \<and> (\<forall>q\<in>S. open_gap n q \<and> settled plan q)
    \<and> (\<forall>m. owed_in n m (t_gaps d') =
          (owed_in n m (t_gaps d) - owes n r) \<union> (owes n r \<inter> share m (plan_set plan) - dropped_of n plan (t_gaps d) r))"
proof -
  have wfr: "wf_gap r" using wf r by (simp add: wf_gaps_def)
  show ?thesis
  proof (cases "settled plan r")
    case True
    then have same: "plan_gap n now plan (scanGap r) d = Inr d" "dropped_of n plan (t_gaps d) r = {}"
      by (auto simp: plan_gap_def settled_def dropped_of_def cuts_def Let_def)
    then show ?thesis
      using wf disj r True settled_owes_in [OF wfr r(2) True plan] owed_in_member [OF wf disj r]
      by (intro exI [of _ d] exI [of _ "{r}"]) auto
  next
    case False
    let ?kept = "filter (\<lambda>p. \<not> taken n (t_gaps d) p) (cuts plan r)"
    note cut = cuts_share [OF wfr r(2) False plan(1)]
    have "owes n r = {gr_from r..heal_top r}" using r by (simp add: owes_def)
    then have "pieces_set m (cuts plan r) = owes n r \<inter> share m (plan_set plan)" for m
      using partition_share [OF cut(1) plan] scanGap_wf [OF wfr] False by (simp add: cuts_def)
    then have "pieces_set m ?kept = owes n r \<inter> share m (plan_set plan) - dropped_of n plan (t_gaps d) r" for m
      using pieces_set_filter [OF cut(2)] by (simp add: dropped_of_def)
    moreover have "\<forall>q\<in>piece_row n (gr_reason r) now ` set ?kept. open_gap n q \<and> settled plan q"
      using settled_piece_row [OF cut(1) plan(1)] False by (auto simp: piece_row_def open_gap_def cuts_def)
    moreover obtain d' where "splitGap n now (scanGap r) (cuts plan r) d = Inr d'" "wf_gaps (t_gaps d')"
      "open_disjoint n (t_gaps d')" "set (t_gaps d') = (set (t_gaps d) - {r}) \<union> piece_row n (gr_reason r) now ` set ?kept"
      "\<forall>m. owed_in n m (t_gaps d') = (owed_in n m (t_gaps d) - owes n r) \<union> pieces_set m ?kept"
      using splitGap_exact [OF wf disj r cut(2,3), of now] by blast
    ultimately show ?thesis using cut(4)
      by (intro exI [of _ d'] exI [of _ "piece_row n (gr_reason r) now ` set ?kept"]) simp
  qed
qed

text \<open>All the open gaps meet the plan, one after the other. No resolved gap arrives on the way, so what
  the later splits drop is what they would have dropped at the start.\<close>

lemma dropped_of_cong:
  assumes "set tbl' = (set tbl - {r}) \<union> S" and "open_gap n r" and "\<forall>q\<in>S. open_gap n q"
  shows "dropped_of n plan tbl' q = dropped_of n plan tbl q"
proof -
  have "q \<in> set tbl' \<longleftrightarrow> q \<in> set tbl" if "gr_network q = n" "gr_resolved_at q \<noteq> None" for q
  proof -
    have "q \<noteq> r" "q \<notin> S" using that assms(2,3) unfolding open_gap_def by metis+
    then show ?thesis using assms(1) by blast
  qed
  then have "taken n tbl' p \<longleftrightarrow> taken n tbl p" for p
    unfolding taken_def list_ex_iff by metis
  then show ?thesis by (simp add: dropped_of_def)
qed

lemma dropped_of_owes:
  assumes "wf_gap r" and "open_gap n r" and "\<forall>iv\<in>set plan. iv_valid iv"
  shows "dropped_of n plan tbl r \<subseteq> owes n r"
proof (cases "settled plan r")
  case False
  have "owes n r = {gr_from r..heal_top r}" using assms(2) by (simp add: owes_def)
  then show ?thesis using tiles_sets [OF cuts_share(2) [OF assms(1,2) False assms(3)]] by (auto simp: dropped_of_def)
qed (simp add: dropped_of_def cuts_def)

lemma open_rows_apart:
  assumes "wf_gaps tbl" and "open_disjoint n tbl" and "q \<in> set tbl" and "r \<in> set tbl" and "q \<noteq> r"
  shows "owes n q \<inter> owes n r = {}"
proof -
  have "gr_id q \<noteq> gr_id r" using assms distinct_map_filter_unique unfolding wf_gaps_def by metis
  then have "declares n q \<inter> declares n r = {}" using assms unfolding open_disjoint_def by blast
  then show ?thesis using owes_subset_declares [of q n] owes_subset_declares [of r n] assms(1,3,4)
    unfolding wf_gaps_def by blast
qed

lemma plan_gaps_exact:
  assumes "wf_gaps (t_gaps d)" and "open_disjoint n (t_gaps d)"
    and "\<forall>r\<in>set rs. r \<in> set (t_gaps d) \<and> open_gap n r" and "distinct rs"
    and plan: "\<forall>iv\<in>set plan. iv_valid iv" "sorted (map iv_From plan)"
  shows "\<exists>d' S. each (plan_gap n now plan) (map scanGap rs) d = Inr d' \<and> wf_gaps (t_gaps d')
    \<and> open_disjoint n (t_gaps d')
    \<and> set (t_gaps d') = (set (t_gaps d) - set rs) \<union> S \<and> (\<forall>q\<in>S. open_gap n q \<and> settled plan q)
    \<and> (\<forall>m. owed_in n m (t_gaps d') = (owed_in n m (t_gaps d) - owed n rs)
          \<union> (owed n rs \<inter> share m (plan_set plan) - (\<Union>r\<in>set rs. dropped_of n plan (t_gaps d) r)))"
  using assms(1-4)
proof (induction rs arbitrary: d)
  case Nil
  then show ?case by (auto intro!: exI [of _ "{}"])
next
  case (Cons r rs)
  have r: "r \<in> set (t_gaps d)" "open_gap n r" using Cons.prems(3) by auto
  obtain d1 S1 where one: "plan_gap n now plan (scanGap r) d = Inr d1" "wf_gaps (t_gaps d1)"
    "open_disjoint n (t_gaps d1)" "set (t_gaps d1) = (set (t_gaps d) - {r}) \<union> S1"
    "\<forall>q\<in>S1. open_gap n q \<and> settled plan q"
    "\<forall>m. owed_in n m (t_gaps d1) = (owed_in n m (t_gaps d) - owes n r)
       \<union> (owes n r \<inter> share m (plan_set plan) - dropped_of n plan (t_gaps d) r)"
    using plan_gap_exact [OF Cons.prems(1,2) r plan, of now] by auto
  have "\<forall>q\<in>set rs. q \<in> set (t_gaps d1) \<and> open_gap n q" "distinct rs"
    using Cons.prems(3,4) one(4) by auto
  from Cons.IH [OF one(2,3) this] obtain d2 S2 where two:
    "each (plan_gap n now plan) (map scanGap rs) d1 = Inr d2" "wf_gaps (t_gaps d2)"
    "open_disjoint n (t_gaps d2)"
    "set (t_gaps d2) = (set (t_gaps d1) - set rs) \<union> S2" "\<forall>q\<in>S2. open_gap n q \<and> settled plan q"
    "\<forall>m. owed_in n m (t_gaps d2) = (owed_in n m (t_gaps d1) - owed n rs)
       \<union> (owed n rs \<inter> share m (plan_set plan) - (\<Union>q\<in>set rs. dropped_of n plan (t_gaps d1) q))"
    by blast
  have same: "dropped_of n plan (t_gaps d1) q = dropped_of n plan (t_gaps d) q" for q
    by (rule dropped_of_cong [OF one(4) r(2)]) (use one(5) in blast)
  have wf_row: "\<And>q. q \<in> set (r # rs) \<Longrightarrow> wf_gap q \<and> open_gap n q" using Cons.prems(1,3) by (auto simp: wf_gaps_def)
  have apart: "owes n r \<inter> owed n rs = {}"
    using open_rows_apart [OF Cons.prems(1,2)] Cons.prems(3,4) by (fastforce simp: owed_def)
  have lost: "dropped_of n plan (t_gaps d) r \<subseteq> owes n r" "(\<Union>q\<in>set rs. dropped_of n plan (t_gaps d) q) \<subseteq> owed n rs"
    using dropped_of_owes wf_row plan(1) by (fastforce simp: owed_def)+
  have "owed_in n m (t_gaps d2) = (owed_in n m (t_gaps d) - owed n (r # rs))
      \<union> (owed n (r # rs) \<inter> share m (plan_set plan) - (\<Union>q\<in>set (r # rs). dropped_of n plan (t_gaps d) q))" for m
    unfolding two(6) [rule_format] one(6) [rule_format] same using apart lost by auto
  moreover have "set (t_gaps d2) = (set (t_gaps d) - set (r # rs)) \<union> ((S1 - set rs) \<union> S2)"
    using one(4) two(4) by auto
  moreover have "\<forall>q\<in>(S1 - set rs) \<union> S2. open_gap n q \<and> settled plan q"
    using one(5) two(5) by blast
  moreover have "each (plan_gap n now plan) (map scanGap (r # rs)) d = Inr d2"
    using one(1) two(1) by simp
  ultimately show ?case using two(2,3) by blast
qed

lemma owed_open: "owed n (filter (open_gap n) tbl) = owed n tbl"
  by (auto simp: owed_def owes_def)

lemma owed_set_cong: "set a = set b \<Longrightarrow> owed n a = owed n b"
  by (simp add: owed_def)

text \<open>What applying a plan does to the tables.\<close>

lemma PlanHeal_exact:
  fixes padding :: u32
  assumes wf: "wf_gaps (t_gaps d)" and disj: "open_disjoint n (t_gaps d)"
    and ivs: "\<forall>iv\<in>set replay. iv_From iv \<le> iv_To iv"
  defines "P \<equiv> \<Union>iv\<in>set replay. iv_set (pad_snap padding iv)"
    and "D \<equiv> dropped n (normalizePlan replay padding) (t_gaps d)"
  shows "\<exists>d'. PlanHeal n replay padding now d = Inr (plan_counts n d', d') \<and> wf_gaps (t_gaps d')
    \<and> open_disjoint n (t_gaps d')
    \<and> owed_in n HealModeReplay (t_gaps d') = owed n (t_gaps d) \<inter> P - D
    \<and> owed_in n HealModeDeferred (t_gaps d') = owed n (t_gaps d) - P - D
    \<and> (\<forall>q\<in>set (t_gaps d'). open_gap n q \<longrightarrow> settled (normalizePlan replay padding) q)"
proof -
  let ?plan = "normalizePlan replay padding"
  define rs where "rs = sort_on (\<lambda>r. - gr_to r) (filter (open_gap n) (t_gaps d))"
  have plan: "plan_set ?plan = P" "\<forall>iv\<in>set ?plan. iv_valid iv" "sorted (map iv_From ?plan)"
    using normalizePlan_correct [OF ivs] by (simp_all add: P_def)
  have rs: "\<forall>r\<in>set rs. r \<in> set (t_gaps d) \<and> open_gap n r" "distinct rs" "owed n rs = owed n (t_gaps d)"
    using wf owed_open owed_set_cong [of rs "filter (open_gap n) (t_gaps d)"]
    by (auto simp: rs_def wf_gaps_def distinct_map)
  have D: "(\<Union>r\<in>set rs. dropped_of n ?plan (t_gaps d) r) = D" by (simp add: D_def dropped_def rs_def)
  obtain d' S where d': "each (plan_gap n now ?plan) (map scanGap rs) d = Inr d'" "wf_gaps (t_gaps d')"
    "open_disjoint n (t_gaps d')"
    "set (t_gaps d') = (set (t_gaps d) - set rs) \<union> S" "\<forall>q\<in>S. open_gap n q \<and> settled ?plan q"
    "\<forall>m. owed_in n m (t_gaps d') = (owed_in n m (t_gaps d) - owed n rs) \<union> (owed n rs \<inter> share m P - D)"
    using plan_gaps_exact [OF wf disj rs(1,2) plan(2,3), of now] unfolding plan(1) D by blast
  have "\<forall>q\<in>set (t_gaps d'). open_gap n q \<longrightarrow> settled ?plan q"
    using d'(4,5) by (auto simp: rs_def)
  moreover have "owed_in n m (t_gaps d') = owed n (t_gaps d) \<inter> share m P - D" for m
    using d'(6) rs(3) owed_by_mode [of n "t_gaps d"] by (cases m) auto
  moreover have "PlanHeal n replay padding now d = Inr (plan_counts n d', d')"
    using d'(1) by (simp add: PlanHeal_def lockOpenGaps_def rs_def)
  ultimately show ?thesis using d' by (auto simp: share_def)
qed

text \<open>Nothing is dropped while every resolved gap reaches outside what is still owed.\<close>

lemma dropped_apart:
  assumes "wf_gaps tbl" and "resolved_apart n tbl" and "\<forall>iv\<in>set plan. iv_valid iv"
  shows "dropped n plan tbl = {}"
proof -
  have "\<not> taken n tbl p" if r: "r \<in> set tbl" "open_gap n r" and p: "p \<in> set (cuts plan r)" for r p
  proof
    assume "taken n tbl p"
    then obtain q where q: "q \<in> set tbl" "gr_network q = n" "gr_resolved_at q \<noteq> None" "{gr_from q..gr_to q} = piece_set p"
      by (auto simp: taken_def list_ex_iff piece_set_def)
    have "wf_gap r" "\<not> settled plan r" using assms(1) r p by (auto simp: wf_gaps_def cuts_def split: if_splits)
    from tiles_low [OF cuts_share(2) [OF this(1) r(2) this(2) assms(3)] p]
    have "piece_set p \<subseteq> owes n r" using r by (auto simp: piece_set_def owes_def)
    then have "piece_set p \<subseteq> owed n tbl" using r by (auto simp: owed_def)
    then show False using assms(2) q unfolding resolved_apart_def by metis
  qed
  then show ?thesis by (fastforce simp: dropped_def dropped_of_def)
qed

lemma PlanHeal_correct:
  fixes padding :: u32
  assumes wf: "wf_gaps (t_gaps d)" and disj: "open_disjoint n (t_gaps d)"
    and apart: "resolved_apart n (t_gaps d)" and ivs: "\<forall>iv\<in>set replay. iv_From iv \<le> iv_To iv"
  defines "P \<equiv> \<Union>iv\<in>set replay. iv_set (pad_snap padding iv)"
  shows "\<exists>d'. PlanHeal n replay padding now d = Inr (plan_counts n d', d')
    \<and> owed_in n HealModeReplay (t_gaps d') = owed n (t_gaps d) \<inter> P
    \<and> owed_in n HealModeDeferred (t_gaps d') = owed n (t_gaps d) - P"
  using PlanHeal_exact [OF wf disj ivs, of padding now] dropped_apart [OF wf apart] normalizePlan_correct [OF ivs, of padding]
  by (auto simp: P_def)

lemma PlanHeal_settled:
  assumes "\<forall>q\<in>set (t_gaps d). open_gap n q \<longrightarrow> settled (normalizePlan replay padding) q"
  shows "PlanHeal n replay padding now d = Inr (plan_counts n d, d)"
proof -
  let ?plan = "normalizePlan replay padding"
  have one: "plan_gap n now ?plan (scanGap r) d = Inr d" if "settled ?plan r" for r
    using that by (auto simp: plan_gap_def settled_def Let_def)
  have "each (plan_gap n now ?plan) (map scanGap rs) d = Inr d"
    if "\<forall>r\<in>set rs. settled ?plan r" for rs
    using that by (induction rs) (simp_all add: one)
  then show ?thesis using assms by (simp add: PlanHeal_def lockOpenGaps_def)
qed

text \<open>The clamps follow the top piece of a split; one whose top piece is dropped stands at a wall no open
  gap ends at.\<close>

definition clamps_anchored_but :: "string \<Rightarrow> int set \<Rightarrow> db \<Rightarrow> bool" where
  "clamps_anchored_but n X d \<longleftrightarrow>
     (\<forall>b\<in>set (t_backfill d). br_network b = n \<longrightarrow> (\<forall>w. br_clamped_at b = Some w \<longrightarrow>
        (\<exists>r\<in>set (t_gaps d). open_gap n r \<and> gr_to r + 1 = w) \<or> w - 1 \<in> X))"

lemma clamps_anchored_but_none [simp]: "clamps_anchored_but n {} d \<longleftrightarrow> clamps_anchored n d"
  by (simp add: clamps_anchored_but_def clamps_anchored_def)

lemma clamps_anchored_but_mono: "clamps_anchored_but n X d \<Longrightarrow> X \<subseteq> Y \<Longrightarrow> clamps_anchored_but n Y d"
  unfolding clamps_anchored_but_def by blast

lemma split_top:
  assumes tl: "tiles (gr_from r) (heal_top r) ps" and ne: "ps \<noteq> []"
    and gaps: "set gaps = A \<union> piece_row n (gr_reason r) now ` set (filter (\<lambda>p. \<not> taken n tbl p) ps)"
  shows "(\<exists>q\<in>set gaps. open_gap n q \<and> gr_to q = heal_top r) \<or> heal_top r \<in> (\<Union>p\<in>set (filter (taken n tbl) ps). piece_set p)"
proof (cases "taken n tbl (last ps)")
  case True
  have "heal_top r \<in> piece_set (last ps)"
    using tiles_last [OF tl ne] tiles_low [OF tl last_in_set [OF ne]] by (simp add: piece_set_def)
  then show ?thesis using True last_in_set [OF ne] by auto
next
  case False
  then have "piece_row n (gr_reason r) now (last ps) \<in> set gaps" using gaps last_in_set [OF ne] by auto
  then show ?thesis using tiles_last [OF tl ne] by (auto simp: piece_row_def open_gap_def intro!: bexI [rotated])
qed

lemma plan_gap_anchored:
  assumes wf: "wf_gaps (t_gaps d)" and disj: "open_disjoint n (t_gaps d)"
    and r: "r \<in> set (t_gaps d)" "open_gap n r"
    and plan: "\<forall>iv\<in>set plan. iv_valid iv" and anch: "clamps_anchored_but n X d"
    and step: "plan_gap n now plan (scanGap r) d = Inr d'"
  shows "clamps_anchored_but n (X \<union> dropped_of n plan (t_gaps d) r) d'"
proof (cases "settled plan r")
  case True
  then have "plan_gap n now plan (scanGap r) d = Inr d" by (auto simp: plan_gap_def settled_def Let_def)
  then show ?thesis using step anch clamps_anchored_but_mono by auto
next
  case False
  have "wf_gap r" using wf r by (simp add: wf_gaps_def)
  note cut = cuts_share [OF this r(2) False plan]
  have gaps: "set (t_gaps d') = (set (t_gaps d) - {r})
      \<union> piece_row n (gr_reason r) now ` set (filter (\<lambda>p. \<not> taken n (t_gaps d) p) (cuts plan r))"
    and bf: "t_backfill d' = sql_update (\<lambda>b. br_network b = n \<and> br_clamped_at b = Some (gr_to r + 1))
        (\<lambda>b. b\<lparr>br_clamped_at := Some (heal_top r + 1), br_updated_at := now\<rparr>) (t_backfill d)"
    using splitGap_exact [OF wf disj r cut(2,3), of now] cut(4) step by auto
  note top = split_top [OF cut(2,3) gaps, folded dropped_of_def]
  show ?thesis
    unfolding clamps_anchored_but_def
  proof (intro ballI impI allI)
    fix b w assume b: "br_network b = n" "br_clamped_at b = Some w" and "b \<in> set (t_backfill d')"
    then obtain c where c: "c \<in> set (t_backfill d)"
      "b = (if br_network c = n \<and> br_clamped_at c = Some (gr_to r + 1)
            then c\<lparr>br_clamped_at := Some (heal_top r + 1), br_updated_at := now\<rparr> else c)"
      unfolding bf in_sql_update by blast
    show "(\<exists>q\<in>set (t_gaps d'). open_gap n q \<and> gr_to q + 1 = w) \<or> w - 1 \<in> X \<union> dropped_of n plan (t_gaps d) r"
    proof (cases "br_network c = n \<and> br_clamped_at c = Some (gr_to r + 1)")
      case True
      then show ?thesis using b c(2) top by auto
    next
      case False
      then have "b = c" using c(2) by (simp only: if_False)
      then have "w \<noteq> gr_to r + 1" "(\<exists>q\<in>set (t_gaps d). open_gap n q \<and> gr_to q + 1 = w) \<or> w - 1 \<in> X"
        using anch b c(1) False unfolding clamps_anchored_but_def by auto
      then show ?thesis using gaps by auto
    qed
  qed
qed

lemma plan_gaps_anchored:
  assumes "wf_gaps (t_gaps d)" and "open_disjoint n (t_gaps d)"
    and "\<forall>r\<in>set rs. r \<in> set (t_gaps d) \<and> open_gap n r" and "distinct rs" and "clamps_anchored_but n X d"
    and "each (plan_gap n now plan) (map scanGap rs) d = Inr d'"
    and plan: "\<forall>iv\<in>set plan. iv_valid iv" "sorted (map iv_From plan)"
  shows "clamps_anchored_but n (X \<union> (\<Union>r\<in>set rs. dropped_of n plan (t_gaps d) r)) d'"
  using assms(1-6)
proof (induction rs arbitrary: d X)
  case (Cons r rs)
  have r: "r \<in> set (t_gaps d)" "open_gap n r" using Cons.prems(3) by auto
  obtain d1 where one: "plan_gap n now plan (scanGap r) d = Inr d1"
    "each (plan_gap n now plan) (map scanGap rs) d1 = Inr d'"
    using Cons.prems(6) by (auto simp: andThen_Inr)
  obtain S where st: "wf_gaps (t_gaps d1)" "open_disjoint n (t_gaps d1)"
    "set (t_gaps d1) = (set (t_gaps d) - {r}) \<union> S" "\<forall>q\<in>S. open_gap n q"
    using plan_gap_exact [OF Cons.prems(1,2) r plan, of now] one(1) by auto
  have "dropped_of n plan (t_gaps d1) q = dropped_of n plan (t_gaps d) q" for q
    by (rule dropped_of_cong [OF st(3) r(2) st(4)])
  moreover have "\<forall>q\<in>set rs. q \<in> set (t_gaps d1) \<and> open_gap n q" "distinct rs" using Cons.prems(3,4) st(3) by auto
  from Cons.IH [OF st(1,2) this plan_gap_anchored [OF Cons.prems(1,2) r plan(1) Cons.prems(5) one(1)] one(2)]
  have "clamps_anchored_but n (X \<union> dropped_of n plan (t_gaps d) r \<union> (\<Union>q\<in>set rs. dropped_of n plan (t_gaps d1) q)) d'" .
  ultimately show ?case by (simp add: Un_assoc)
qed simp

lemma PlanHeal_anchored:
  assumes wf: "wf_gaps (t_gaps d)" and disj: "open_disjoint n (t_gaps d)"
    and ivs: "\<forall>iv\<in>set replay. iv_From iv \<le> iv_To iv"
    and anch: "clamps_anchored n d" and run: "PlanHeal n replay padding now d = Inr (res, d')"
  shows "clamps_anchored_but n (dropped n (normalizePlan replay padding) (t_gaps d)) d'"
proof -
  define rs where "rs = sort_on (\<lambda>r. - gr_to r) (filter (open_gap n) (t_gaps d))"
  have rs: "\<forall>r\<in>set rs. r \<in> set (t_gaps d) \<and> open_gap n r" "distinct rs"
    using wf by (auto simp: rs_def wf_gaps_def distinct_map)
  have plan: "\<forall>iv\<in>set (normalizePlan replay padding). iv_valid iv"
    "sorted (map iv_From (normalizePlan replay padding))" using normalizePlan_correct [OF ivs] by auto
  have "each (plan_gap n now (normalizePlan replay padding)) (map scanGap rs) d = Inr d'"
    using run by (auto simp: PlanHeal_def lockOpenGaps_def rs_def andThen_Inr)
  moreover have "clamps_anchored_but n {} d" using anch by simp
  ultimately show ?thesis using plan_gaps_anchored [OF wf disj rs _ _ plan, of "{}" now d'] by (simp add: dropped_def rs_def)
qed

section \<open>Handing gaps back to the healer\<close>

lemma ReopenGaps_wf:
  fixes n :: string and lo hi :: u32
  assumes wf: "wf_gaps (t_gaps d)" and disj: "open_disjoint n (t_gaps d)"
  defines "tbl' \<equiv> t_gaps (snd (ReopenGaps n lo hi d))"
  shows "wf_gaps tbl'" and "open_disjoint n tbl'" and "declared n tbl' = declared n (t_gaps d)"
    and "owed n (t_gaps d) \<subseteq> owed n tbl'"
    and "\<And>r. r \<in> set tbl' \<Longrightarrow> open_gap n r \<Longrightarrow> overlaps (uint lo) (uint hi) r \<Longrightarrow>
       gr_heal_mode r = HealModeReplay \<and> owes n r = declares n r"
proof -
  let ?p = "reopens n (uint lo) (uint hi)"
  let ?f = "\<lambda>r. r\<lparr>gr_heal_mode := HealModeReplay, gr_heal_next_to := Some (gr_to r)\<rparr>"
  have eq: "tbl' = sql_update ?p ?f (t_gaps d)" by (simp add: tbl'_def ReopenGaps_def)
  have f: "wf_gap (?f r)" "gr_id (?f r) = gr_id r" "declares n (?f r) = declares n r"
    "owes n r \<subseteq> owes n (?f r)" if "wf_gap r" for r
    using that by (auto simp: wf_gap_def heal_top_def declares_def owes_def open_gap_def)
  have rows: "\<And>r. r \<in> set (t_gaps d) \<Longrightarrow> wf_gap r" using wf by (simp add: wf_gaps_def)
  show "wf_gaps tbl'" unfolding eq by (rule wf_gaps_update [OF wf]) (use f rows in blast)
  show "open_disjoint n tbl'" unfolding eq
    by (rule open_disjoint_update [OF disj]) (use f rows in blast)
  show "declared n tbl' = declared n (t_gaps d)" unfolding eq
    by (rule declared_update) (use f rows in blast)
  show "owed n (t_gaps d) \<subseteq> owed n tbl'" unfolding eq
    by (rule owed_update_mono) (use f rows in blast)
  show "gr_heal_mode r = HealModeReplay \<and> owes n r = declares n r"
    if r: "r \<in> set tbl'" "open_gap n r" "overlaps (uint lo) (uint hi) r" for r
  proof -
    obtain r0 where r0: "r0 \<in> set (t_gaps d)" "r = (if ?p r0 then ?f r0 else r0)"
      using r(1) unfolding eq in_sql_update by blast
    have "gr_heal_mode r = HealModeReplay \<and> heal_top r = gr_to r"
    proof (cases "?p r0")
      case True
      then show ?thesis using r0(2) by (simp add: heal_top_def)
    next
      case False
      then have "r = r0" using r0(2) by simp
      with False r show ?thesis
        by (cases "gr_heal_mode r") (auto simp: reopens_def heal_top_def)
    qed
    then show ?thesis by (simp add: owes_def declares_def)
  qed
qed

section \<open>Properties\<close>

lemma demo_db_apart: "resolved_apart ''testnet'' (t_gaps demo_db)"
  by (auto simp: demo_db_def resolved_apart_def demo_gap_def)

text \<open>A gap partition never loses a ledger. The pieces of \<open>partition from to plan\<close> cover
  \<open>from..to\<close> left to right, without overlap and without an empty piece, and on a plan in
  ascending order the replay pieces are exactly the planned ledgers of the range, at every
  \<open>uint32\<close> value.\<close>

theorem partition_exact:
  assumes "from \<le> to" and "\<forall>iv\<in>set plan. iv_From iv \<le> iv_To iv" and "sorted (map iv_From plan)"
  shows "tiles (uint from) (uint to) (partition from to plan)
    \<and> pieces_set HealModeReplay (partition from to plan) = {uint from..uint to} \<inter> plan_set plan
    \<and> pieces_set HealModeDeferred (partition from to plan) = {uint from..uint to} - plan_set plan"
  using assms partition_share [of "from" to plan] partition_loop_tiles [of "from" to plan]
  by (auto simp: iv_valid_def share_def partition_def)

theorem partition_exact_witness:
  "tiles 1000 1199 (partition 1000 1199 [\<lparr>iv_From = 1024, iv_To = 1087\<rparr>])
    \<and> pieces_set HealModeReplay (partition 1000 1199 [\<lparr>iv_From = 1024, iv_To = 1087\<rparr>]) = {1024..1087}"
  using partition_exact [of 1000 1199 "[\<lparr>iv_From = 1024, iv_To = 1087\<rparr>]"]
  by (simp add: iv_set_def)

text \<open>C6: a heal plan shares out what is owed, and it is known exactly what it loses. On a well-formed gap
  table \<open>PlanHeal\<close> ends without error and keeps the open gaps disjoint; it leaves the planned ledgers
  (padded and snapped to checkpoints) to the healer and defers every other owed ledger, save those of the
  pieces whose range is that of a resolved gap, which stop being owed at all. There are no such pieces
  while every resolved gap reaches outside what is still owed.\<close>

theorem PlanHeal_shares_owed:
  assumes "wf_gaps (t_gaps d)" and "open_disjoint n (t_gaps d)"
    and "\<forall>iv\<in>set replay. iv_From iv \<le> iv_To iv"
  shows "\<exists>d'. PlanHeal n replay padding now d = Inr (plan_counts n d', d')
    \<and> wf_gaps (t_gaps d') \<and> open_disjoint n (t_gaps d')
    \<and> owed n (t_gaps d') = owed n (t_gaps d) - dropped n (normalizePlan replay padding) (t_gaps d)
    \<and> owed_in n HealModeReplay (t_gaps d') =
        owed n (t_gaps d') \<inter> (\<Union>iv\<in>set replay. iv_set (pad_snap padding iv))
    \<and> owed_in n HealModeDeferred (t_gaps d') =
        owed n (t_gaps d') - (\<Union>iv\<in>set replay. iv_set (pad_snap padding iv))
    \<and> (resolved_apart n (t_gaps d) \<longrightarrow> dropped n (normalizePlan replay padding) (t_gaps d) = {})"
proof -
  have "resolved_apart n (t_gaps d) \<longrightarrow> dropped n (normalizePlan replay padding) (t_gaps d) = {}"
    using dropped_apart [OF assms(1)] normalizePlan_correct [OF assms(3)] by blast
  then show ?thesis using PlanHeal_exact [OF assms, of padding now] by (fastforce simp: owed_by_mode)
qed

text \<open>Two tables: one with nothing resolved, and one where the middle piece of the split is a resolved gap.\<close>

definition demo_twin :: db where
  "demo_twin = empty_db\<lparr>t_gaps :=
     [(demo_gap ''testnet'' 1024 1087)\<lparr>gr_resolved_at := Some 1\<rparr>, demo_gap ''testnet'' 1000 1199]\<rparr>"

lemma demo_twin_ok: "wf_gaps (t_gaps demo_twin)" "open_disjoint ''testnet'' (t_gaps demo_twin)"
  "owed ''testnet'' (t_gaps demo_twin) = {1000..1199}"
  using demo_gap_wf [of 1000 1199 "''testnet''"] demo_gap_wf [of 1024 1087 "''testnet''"]
  by (auto simp: demo_twin_def wf_gaps_def demo_gap_def wf_gap_def heal_top_def gapID_inject open_disjoint_def
      declares_def open_gap_def owes_def)

lemma demo_twin_dropped:
  "dropped ''testnet'' (normalizePlan [\<lparr>iv_From = 1030, iv_To = 1040\<rparr>] 0) (t_gaps demo_twin) = {1024..1087}"
  by (simp add: dropped_def dropped_of_def cuts_def settled_def demo_twin_def demo_gap_def scanGap_def open_gap_def
      normalizePlan_def pad_snap_def checkpointFrequency_def maxU32_def partition_def max32_def min32_def taken_def
      piece_set_def)

theorem PlanHeal_shares_owed_witness:
  "(\<exists>d'. PlanHeal ''testnet'' [\<lparr>iv_From = 1030, iv_To = 1040\<rparr>] 0 7 demo_db = Inr (plan_counts ''testnet'' d', d')
      \<and> owed ''testnet'' (t_gaps d') = {1000..1199} \<union> {2000..2999})
   \<and> (\<exists>d'. PlanHeal ''testnet'' [\<lparr>iv_From = 1030, iv_To = 1040\<rparr>] 0 7 demo_twin = Inr (plan_counts ''testnet'' d', d')
      \<and> owed ''testnet'' (t_gaps d') = {1000..1199} - {1024..1087})"
proof -
  have ivs: "\<forall>iv\<in>set [\<lparr>iv_From = 1030, iv_To = 1040\<rparr>]. iv_From iv \<le> iv_To iv" by simp
  from PlanHeal_shares_owed [OF demo_db_ok(1,2) ivs, of 0 7] PlanHeal_shares_owed [OF demo_twin_ok(1,2) ivs, of 0 7]
  show ?thesis using demo_db_apart demo_db_ok(3) demo_twin_ok(3) demo_twin_dropped by auto
qed

text \<open>Applying the same plan again is a no-op: the second \<open>PlanHeal\<close>, at any later time,
  reports the same counts and leaves the whole database as the first one left it.\<close>

theorem PlanHeal_idempotent:
  assumes "wf_gaps (t_gaps d)" and "open_disjoint n (t_gaps d)"
    and "\<forall>iv\<in>set replay. iv_From iv \<le> iv_To iv"
    and "PlanHeal n replay padding now d = Inr (res, d')"
  shows "PlanHeal n replay padding later d' = Inr (res, d')"
  using PlanHeal_exact [OF assms(1-3), of padding now] assms(4) PlanHeal_settled by auto

theorem PlanHeal_idempotent_witness:
  "\<exists>res d'. PlanHeal ''testnet'' [\<lparr>iv_From = 1030, iv_To = 1040\<rparr>] 0 7 demo_db = Inr (res, d')
    \<and> PlanHeal ''testnet'' [\<lparr>iv_From = 1030, iv_To = 1040\<rparr>] 0 8 d' = Inr (res, d')"
proof -
  have ivs: "\<forall>iv\<in>set [\<lparr>iv_From = 1030, iv_To = 1040\<rparr>]. iv_From iv \<le> iv_To iv" by simp
  obtain res d' where "PlanHeal ''testnet'' [\<lparr>iv_From = 1030, iv_To = 1040\<rparr>] 0 7 demo_db = Inr (res, d')"
    using PlanHeal_exact [OF demo_db_ok(1,2) ivs, of 0 7] by auto
  then show ?thesis using PlanHeal_idempotent [OF demo_db_ok(1,2) ivs, of 0 7 res d' 8] by auto
qed

text \<open>A registration is owed the whole range it asks for. After \<open>ReopenGaps\<close> every
  declared ledger of the range is owed by a gap in replay mode, none of it is deferred, what was
  owed is still owed, and the open gaps declare what they declared.\<close>

theorem ReopenGaps_owes_range:
  assumes "wf_gaps (t_gaps d)" and "open_disjoint n (t_gaps d)"
    and "ReopenGaps n from to d = (k, d')"
  shows "wf_gaps (t_gaps d') \<and> open_disjoint n (t_gaps d')
    \<and> declared n (t_gaps d') = declared n (t_gaps d) \<and> owed n (t_gaps d) \<subseteq> owed n (t_gaps d')
    \<and> {uint from..uint to} \<inter> declared n (t_gaps d) \<subseteq> owed_in n HealModeReplay (t_gaps d')
    \<and> owed_in n HealModeDeferred (t_gaps d') \<inter> {uint from..uint to} = {}"
proof -
  note R = ReopenGaps_wf [OF assms(1,2), where lo = "from" and hi = to, unfolded assms(3) snd_conv]
  have touch: "open_gap n r \<and> overlaps (uint from) (uint to) r"
    if "x \<in> declares n r" "x \<in> {uint from..uint to}" for x r
    using that by (auto simp: declares_def overlaps_def split: if_splits)
  have "{uint from..uint to} \<inter> declared n (t_gaps d') \<subseteq> owed_in n HealModeReplay (t_gaps d')"
    using R(5) touch by (fastforce simp: declared_def owed_in_def owes_in_def)
  moreover have "x \<notin> owed_in n HealModeDeferred (t_gaps d')" if "x \<in> {uint from..uint to}" for x
  proof
    assume "x \<in> owed_in n HealModeDeferred (t_gaps d')"
    then obtain r where r: "r \<in> set (t_gaps d')" "x \<in> owes n r" "gr_heal_mode r = HealModeDeferred"
      by (auto simp: owed_in_def owes_in_def split: if_splits)
    then have "x \<in> declares n r" using R(1) owes_subset_declares by (auto simp: wf_gaps_def)
    then show False using R(5) touch [OF _ that] r by force
  qed
  ultimately show ?thesis using R(1-4) by auto
qed

theorem ReopenGaps_owes_range_witness:
  "owed_in ''testnet'' HealModeDeferred (t_gaps (snd (ReopenGaps ''testnet'' 1100 2500 demo_db))) \<inter> {1100..2500} = {}"
  using ReopenGaps_owes_range [OF demo_db_ok(1,2), of 1100 2500]
  by (simp add: prod_eq_iff)

text \<open>
  Dropping pieces is not what \<^verbatim>\<open>plan.go\<close> says of a plan (nothing stops being declared): a ledger that
  was owed is owed by nobody after the plan.
\<close>

theorem split_onto_resolved_gap_loses_ledgers:
  "\<exists>d d' res. wf_gaps (t_gaps d) \<and> open_disjoint ''testnet'' (t_gaps d)
    \<and> PlanHeal ''testnet'' [\<lparr>iv_From = 1030, iv_To = 1040\<rparr>] 0 now d = Inr (res, d')
    \<and> 1050 \<in> owed ''testnet'' (t_gaps d) \<and> 1050 \<notin> owed ''testnet'' (t_gaps d')"
proof -
  have ivs: "\<forall>iv\<in>set [\<lparr>iv_From = 1030, iv_To = 1040\<rparr>]. iv_From iv \<le> iv_To iv" by simp
  from PlanHeal_exact [OF demo_twin_ok(1,2) ivs, of 0 now] obtain d' where
    "PlanHeal ''testnet'' [\<lparr>iv_From = 1030, iv_To = 1040\<rparr>] 0 now demo_twin = Inr (plan_counts ''testnet'' d', d')"
    "1050 \<notin> owed ''testnet'' (t_gaps d')" unfolding demo_twin_dropped by (auto simp: owed_by_mode)
  then show ?thesis using demo_twin_ok by fastforce
qed

end
