(* ===== verification/Store_Rows.thy ===== *)
theory Store_Rows
  imports Store_Plan "HOL-Library.Product_Lexorder"
begin

text \<open>
  The data tables of \<^verbatim>\<open>internal/store\<close>: the history tables, whose idempotency keys absorb
  replays (\<open>insertEvents\<close>, \<open>insertStateChanges\<close>, \<open>insertTransfers\<close>,
  \<open>insertTrustlineChanges\<close>, \<open>insertMovements\<close>), and the snapshot tables, whose
  \<open>last_ledger\<close> guard keeps out-of-order replays from overwriting newer rows
  (\<open>applyStateEntries\<close>, \<open>applyTrustlineEntries\<close>). Two locales state what the rest of
  the program relies on: an append-only table with an idempotency key, and a guarded snapshot.
\<close>

section \<open>Inserting with an idempotency key\<close>

text \<open>
  \<open>INSERT ... ON CONFLICT ON CONSTRAINT <idempotency> DO NOTHING\<close>: a row with the same
  idempotency key is left alone; any other row with the same primary key is an error.
\<close>

definition insert_ignore ::
  "('r \<Rightarrow> 'k) \<Rightarrow> ('r \<Rightarrow> string \<times> 'p) \<Rightarrow> 'r \<Rightarrow> 'r list \<Rightarrow> store_error + 'r list"
where
  "insert_ignore key pk r tbl =
     (if list_ex (\<lambda>q. key q = key r) tbl then Inr tbl
      else if list_ex (\<lambda>q. pk q = pk r) tbl then Inl (UniqueViolation (fst (pk r)))
      else Inr (tbl @ [r]))"

definition event_key :: "Event netrow \<Rightarrow> string \<times> string \<times> string \<times> int" where
  "event_key r = (fst r, ev_ContractID (snd r), ev_TxHash (snd r), ev_EventIndex (snd r))"

definition event_pk :: "Event netrow \<Rightarrow> string \<times> string" where
  "event_pk r = (fst r, ev_ID (snd r))"

definition insertEvents :: "string \<Rightarrow> Event list \<Rightarrow> db \<Rightarrow> store_error + db" where
  "insertEvents network events d =
     andThen (each (\<lambda>e. insert_ignore event_key event_pk (network, e)) events (t_events d))
       (\<lambda>tbl. Inr (d\<lparr>t_events := tbl\<rparr>))"

definition state_change_key :: "StateChange netrow \<Rightarrow> string \<times> string \<times> string \<times> int" where
  "state_change_key r = (fst r, sc_ContractID (snd r), sc_TxHash (snd r), sc_ChangeIndex (snd r))"

definition state_change_pk :: "StateChange netrow \<Rightarrow> string \<times> string" where
  "state_change_pk r = (fst r, sc_ID (snd r))"

definition insertStateChanges :: "string \<Rightarrow> StateChange list \<Rightarrow> db \<Rightarrow> store_error + db" where
  "insertStateChanges network changes d =
     andThen (each (\<lambda>c. insert_ignore state_change_key state_change_pk (network, c)) changes
                (t_state_changes d))
       (\<lambda>tbl. Inr (d\<lparr>t_state_changes := tbl\<rparr>))"

definition transfer_key :: "Transfer netrow \<Rightarrow> string \<times> string \<times> string \<times> int" where
  "transfer_key r = (fst r, tr_ContractID (snd r), tr_TxHash (snd r), tr_EventIndex (snd r))"

definition transfer_pk :: "Transfer netrow \<Rightarrow> string \<times> string" where
  "transfer_pk r = (fst r, tr_ID (snd r))"

definition insertTransfers :: "string \<Rightarrow> Transfer list \<Rightarrow> db \<Rightarrow> store_error + db" where
  "insertTransfers network transfers d =
     andThen (each (\<lambda>t. insert_ignore transfer_key transfer_pk (network, t)) transfers (t_transfers d))
       (\<lambda>tbl. Inr (d\<lparr>t_transfers := tbl\<rparr>))"

definition trustline_change_key :: "TrustlineChange netrow \<Rightarrow> string \<times> string \<times> string \<times> int" where
  "trustline_change_key r = (fst r, tc_ContractID (snd r), tc_TxHash (snd r), tc_ChangeIndex (snd r))"

definition trustline_change_pk :: "TrustlineChange netrow \<Rightarrow> string \<times> string" where
  "trustline_change_pk r = (fst r, tc_ID (snd r))"

definition insertTrustlineChanges :: "string \<Rightarrow> TrustlineChange list \<Rightarrow> db \<Rightarrow> store_error + db" where
  "insertTrustlineChanges network changes d =
     andThen (each (\<lambda>c. insert_ignore trustline_change_key trustline_change_pk (network, c)) changes
                (t_trustline_changes d))
       (\<lambda>tbl. Inr (d\<lparr>t_trustline_changes := tbl\<rparr>))"

text \<open>Movements have one key, the primary key.\<close>

definition movement_key :: "Movement netrow \<Rightarrow> string \<times> string \<times> string \<times> string" where
  "movement_key r = (fst r, mv_ContractID (snd r), mv_TransferID (snd r), mv_Role (snd r))"

definition insertMovements :: "string \<Rightarrow> Movement list \<Rightarrow> db \<Rightarrow> store_error + db" where
  "insertMovements network movements d =
     andThen (each (\<lambda>m. insert_ignore movement_key movement_key (network, m)) movements (t_movements d))
       (\<lambda>tbl. Inr (d\<lparr>t_movements := tbl\<rparr>))"

section \<open>Folding changes into a snapshot\<close>

text \<open>
  The loop that collapses a slice of changes to one change per key: \<open>final\<close> maps a key to the
  last change seen, \<open>order\<close> lists the keys as they first appeared.
\<close>

definition collapse :: "('c \<Rightarrow> 'k) \<Rightarrow> 'c list \<Rightarrow> 'c list" where
  "collapse key changes =
     (let fo = foldl (\<lambda>fo c.
         ((fst fo)(key c \<mapsto> c),
          (case fst fo (key c) of None \<Rightarrow> snd fo @ [key c] | Some _ \<Rightarrow> snd fo)))
         (Map.empty, []) changes
      in map (\<lambda>k. the (fst fo k)) (snd fo))"

text \<open>
  \<open>INSERT ... ON CONFLICT (<key>) DO UPDATE ... WHERE tbl.last_ledger <= EXCLUDED.last_ledger\<close>.
\<close>

definition upsert_guarded :: "('r \<Rightarrow> 'k) \<Rightarrow> ('r \<Rightarrow> int) \<Rightarrow> 'r \<Rightarrow> 'r list \<Rightarrow> 'r list" where
  "upsert_guarded key last_ledger r tbl =
     (if list_ex (\<lambda>q. key q = key r) tbl
      then sql_update (\<lambda>q. key q = key r \<and> last_ledger q \<le> last_ledger r) (\<lambda>_. r) tbl
      else tbl @ [r])"

definition state_entry_key :: "StateEntry netrow \<Rightarrow> string \<times> string \<times> string \<times> string" where
  "state_entry_key r = (fst r, se_ContractID (snd r), se_KeyXDR (snd r), se_Durability (snd r))"

definition state_entry_ledger :: "StateEntry netrow \<Rightarrow> int" where
  "state_entry_ledger r = uint (se_LastLedger (snd r))"

definition state_change_entry_key :: "StateChange \<Rightarrow> string \<times> string \<times> string" where
  "state_change_entry_key c = (sc_ContractID c, sc_KeyXDR c, sc_Durability c)"

definition entry_of_change :: "StateChange \<Rightarrow> StateEntry" where
  "entry_of_change c =
     (let deleted = (sc_ChangeType c = ''removed'') in
      \<lparr>se_ContractID = sc_ContractID c, se_KeyXDR = sc_KeyXDR c, se_Durability = sc_Durability c,
       se_ValueXDR = (if \<not> deleted then sc_PostXDR c else ''''), se_Deleted = deleted,
       se_LastLedger = sc_LedgerSequence c, se_ClosedAt = sc_ClosedAt c\<rparr>)"

definition applyStateEntries :: "string \<Rightarrow> StateChange list \<Rightarrow> db \<Rightarrow> db" where
  "applyStateEntries network changes d =
     d\<lparr>t_state_entries :=
        foldl (\<lambda>tbl c. upsert_guarded state_entry_key state_entry_ledger (network, entry_of_change c) tbl)
          (t_state_entries d) (collapse state_change_entry_key changes)\<rparr>"

definition trustline_entry_key :: "TrustlineEntry netrow \<Rightarrow> string \<times> string \<times> string" where
  "trustline_entry_key r = (fst r, te_ContractID (snd r), te_AccountID (snd r))"

definition trustline_entry_ledger :: "TrustlineEntry netrow \<Rightarrow> int" where
  "trustline_entry_ledger r = uint (te_LastLedger (snd r))"

definition trustline_change_entry_key :: "TrustlineChange \<Rightarrow> string \<times> string" where
  "trustline_change_entry_key c = (tc_ContractID c, tc_AccountID c)"

definition entry_of_trustline :: "TrustlineChange \<Rightarrow> TrustlineEntry" where
  "entry_of_trustline c =
     (let deleted = (tc_ChangeType c = ''removed'') in
      \<lparr>te_ContractID = tc_ContractID c, te_AccountID = tc_AccountID c, te_Asset = tc_Asset c,
       te_Balance = (if \<not> deleted then tc_PostBalance c else None),
       te_Limit = (if \<not> deleted then tc_PostLimit c else None),
       te_Flags = tc_Flags c, te_Deleted = deleted,
       te_LastLedger = tc_LedgerSequence c, te_ClosedAt = tc_ClosedAt c\<rparr>)"

definition applyTrustlineEntries :: "string \<Rightarrow> TrustlineChange list \<Rightarrow> db \<Rightarrow> db" where
  "applyTrustlineEntries network changes d =
     d\<lparr>t_trustline_entries :=
        foldl (\<lambda>tbl c. upsert_guarded trustline_entry_key trustline_entry_ledger
                  (network, entry_of_trustline c) tbl)
          (t_trustline_entries d) (collapse trustline_change_entry_key changes)\<rparr>"

section \<open>The rows of a commit\<close>

text \<open>The five slices every commit carries (\<open>partitioned\<close> of \<^verbatim>\<open>internal/ingest\<close>) and the
  seven statements that persist them, the same in \<open>CommitLedger\<close>, \<open>CommitBackfillChunk\<close> and
  \<open>CommitHealChunk\<close>.\<close>

record partitioned =
  pa_events :: "Event list"
  pa_states :: "StateChange list"
  pa_transfers :: "Transfer list"
  pa_trustlines :: "TrustlineChange list"
  pa_movements :: "Movement list"

definition no_rows :: partitioned where
  "no_rows = \<lparr>pa_events = [], pa_states = [], pa_transfers = [], pa_trustlines = [], pa_movements = []\<rparr>"

definition persist_rows :: "string \<Rightarrow> partitioned \<Rightarrow> db \<Rightarrow> store_error + db" where
  "persist_rows network p d =
     andThen (insertEvents network (pa_events p) d) (\<lambda>d.
     andThen (insertStateChanges network (pa_states p) d) (\<lambda>d.
     andThen (Inr (applyStateEntries network (pa_states p) d)) (\<lambda>d.
     andThen (insertTransfers network (pa_transfers p) d) (\<lambda>d.
     andThen (insertTrustlineChanges network (pa_trustlines p) d) (\<lambda>d.
     andThen (Inr (applyTrustlineEntries network (pa_trustlines p) d)) (\<lambda>d.
     insertMovements network (pa_movements p) d))))))"

section \<open>Interface: an append-only table with an idempotency key\<close>

locale idempotent_table =
  fixes key :: "'r \<Rightarrow> 'k" and ins :: "'r \<Rightarrow> 'r list \<Rightarrow> store_error + 'r list"
  assumes absorbs: "q \<in> set tbl \<Longrightarrow> key q = key r \<Longrightarrow> ins r tbl = Inr tbl"
    and appends: "\<forall>q\<in>set tbl. key q \<noteq> key r \<Longrightarrow> ins r tbl = Inr tbl' \<Longrightarrow> tbl' = tbl @ [r]"
begin

lemma keys_after: "ins r tbl = Inr tbl' \<Longrightarrow> key ` set tbl' = insert (key r) (key ` set tbl)"
proof (cases "\<exists>q\<in>set tbl. key q = key r")
  case True
  then obtain q where q: "q \<in> set tbl" "key q = key r" by blast
  moreover assume "ins r tbl = Inr tbl'"
  ultimately show ?thesis using absorbs [of q tbl r] by (auto intro: rev_image_eqI)
next
  case False
  moreover assume "ins r tbl = Inr tbl'"
  ultimately have "tbl' = tbl @ [r]" using appends by blast
  then show ?thesis by simp
qed

lemma batch_keys: "each ins rs tbl = Inr tbl' \<Longrightarrow> key ` set tbl' = key ` set tbl \<union> key ` set rs"
proof (induction rs arbitrary: tbl)
  case (Cons r rs)
  then obtain t where t: "ins r tbl = Inr t" "each ins rs t = Inr tbl'" by (auto simp: andThen_Inr)
  then have "key ` set tbl' = key ` set t \<union> key ` set rs" using Cons.IH by blast
  then show ?case using keys_after [OF t(1)] by auto
qed simp

lemma absorb_batch: "key ` set rs \<subseteq> key ` set tbl \<Longrightarrow> each ins rs tbl = Inr tbl"
proof (induction rs)
  case (Cons r rs)
  then obtain q where "q \<in> set tbl" "key q = key r" by auto
  then show ?case using absorbs [of q tbl r] Cons by simp
qed simp

text \<open>Inserting the same batch again, or any part of it, changes nothing.\<close>

lemma replay_batch:
  assumes "each ins rs tbl = Inr tbl'" and "set rs' \<subseteq> set rs"
  shows "each ins rs' tbl' = Inr tbl'"
proof (rule absorb_batch)
  show "key ` set rs' \<subseteq> key ` set tbl'" using batch_keys [OF assms(1)] assms(2) by auto
qed

text \<open>Rows are never changed or removed, and no key is stored twice.\<close>

lemma keeps_prefix: "each ins rs tbl = Inr tbl' \<Longrightarrow> \<exists>new. tbl' = tbl @ new \<and> set new \<subseteq> set rs"
proof (induction rs arbitrary: tbl)
  case (Cons r rs)
  then obtain t where t: "ins r tbl = Inr t" "each ins rs t = Inr tbl'" by (auto simp: andThen_Inr)
  have "t = tbl \<or> t = tbl @ [r]"
    using t(1) absorbs [of _ tbl r] appends [of tbl r t] by (cases "\<exists>q\<in>set tbl. key q = key r") auto
  with Cons.IH [OF t(2)] show ?case by auto
qed simp

lemma distinct_keys:
  "each ins rs tbl = Inr tbl' \<Longrightarrow> distinct (map key tbl) \<Longrightarrow> distinct (map key tbl')"
proof (induction rs arbitrary: tbl)
  case (Cons r rs)
  then obtain t where t: "ins r tbl = Inr t" "each ins rs t = Inr tbl'" by (auto simp: andThen_Inr)
  have "distinct (map key t)"
  proof (cases "\<exists>q\<in>set tbl. key q = key r")
    case True
    then obtain q where "q \<in> set tbl" "key q = key r" by blast
    then have "t = tbl" using absorbs [of q tbl r] t(1) by simp
    then show ?thesis using Cons.prems(2) by simp
  next
    case False
    then have "t = tbl @ [r]" using appends t(1) by blast
    then show ?thesis using False Cons.prems(2) by auto
  qed
  with Cons.IH [OF t(2)] show ?case by blast
qed simp

end

lemma insert_ignore_absorbs:
  "q \<in> set tbl \<Longrightarrow> key q = key r \<Longrightarrow> insert_ignore key pk r tbl = Inr tbl"
  by (auto simp: insert_ignore_def list_ex_iff)

lemma insert_ignore_appends:
  "\<forall>q\<in>set tbl. key q \<noteq> key r \<Longrightarrow> insert_ignore key pk r tbl = Inr tbl' \<Longrightarrow> tbl' = tbl @ [r]"
  by (auto simp: insert_ignore_def list_ex_iff split: if_splits)

interpretation events_table: idempotent_table event_key "insert_ignore event_key event_pk"
  by unfold_locales (rule insert_ignore_absorbs, assumption+, rule insert_ignore_appends)

interpretation state_changes_table: idempotent_table state_change_key
    "insert_ignore state_change_key state_change_pk"
  by unfold_locales (rule insert_ignore_absorbs, assumption+, rule insert_ignore_appends)

interpretation transfers_table: idempotent_table transfer_key "insert_ignore transfer_key transfer_pk"
  by unfold_locales (rule insert_ignore_absorbs, assumption+, rule insert_ignore_appends)

interpretation trustline_changes_table: idempotent_table trustline_change_key
    "insert_ignore trustline_change_key trustline_change_pk"
  by unfold_locales (rule insert_ignore_absorbs, assumption+, rule insert_ignore_appends)

interpretation movements_table: idempotent_table movement_key "insert_ignore movement_key movement_key"
  by unfold_locales (rule insert_ignore_absorbs, assumption+, rule insert_ignore_appends)

section \<open>The latest change of a key\<close>

text \<open>
  What a snapshot row should say: of the changes of a key, read in chain order, the one with the
  highest ledger, and of those the last.
\<close>

definition newer :: "('c \<Rightarrow> int) \<Rightarrow> 'c option \<Rightarrow> 'c option \<Rightarrow> 'c option" where
  "newer ledger a b =
     (case b of None \<Rightarrow> a
      | Some c \<Rightarrow> (case a of None \<Rightarrow> Some c
                    | Some p \<Rightarrow> if ledger p \<le> ledger c then Some c else Some p))"

definition latest :: "('c \<Rightarrow> 'k) \<Rightarrow> ('c \<Rightarrow> int) \<Rightarrow> 'k \<Rightarrow> 'c list \<Rightarrow> 'c option" where
  "latest key ledger k cs =
     foldl (newer ledger) None (map Some (filter (\<lambda>c. key c = k) cs))"

lemma newer_simps [simp]:
  "newer l None b = b" "newer l a None = a"
  by (auto simp: newer_def split: option.splits)

lemma newer_assoc: "newer l (newer l a b) c = newer l a (newer l b c)"
  by (auto simp: newer_def split: option.splits)

lemma foldl_newer: "foldl (newer l) a xs = newer l a (foldl (newer l) None xs)"
proof (induction xs arbitrary: a)
  case (Cons x xs)
  have "foldl (newer l) a (x # xs) = newer l (newer l a x) (foldl (newer l) None xs)"
    using Cons.IH [of "newer l a x"] by simp
  also have "\<dots> = newer l a (newer l x (foldl (newer l) None xs))" by (rule newer_assoc)
  also have "newer l x (foldl (newer l) None xs) = foldl (newer l) None (x # xs)"
    using Cons.IH [of x] by simp
  finally show ?case .
qed simp

lemma latest_simps [simp]:
  "latest key l k [] = None"
  "latest key l k (cs @ ds) = newer l (latest key l k cs) (latest key l k ds)"
  "latest key l k [c] = (if key c = k then Some c else None)"
  by (simp_all add: latest_def foldl_newer [of l "foldl (newer l) None _"])

lemma latest_Cons: "latest key l k (c # cs) = newer l (latest key l k [c]) (latest key l k cs)"
  using latest_simps(2) [of key l k "[c]" cs] by simp

lemma latest_None: "latest key l k cs = None \<longleftrightarrow> (\<forall>c\<in>set cs. key c \<noteq> k)"
  by (induction cs rule: rev_induct) (auto simp: newer_def split: option.splits)

lemma latest_Some:
  "latest key l k cs = Some c \<Longrightarrow> c \<in> set cs \<and> key c = k \<and> (\<forall>x\<in>set cs. key x = k \<longrightarrow> l x \<le> l c)"
proof (induction cs arbitrary: c rule: rev_induct)
  case (snoc x cs)
  show ?case
  proof (cases "latest key l k cs")
    case None
    then show ?thesis using snoc.prems latest_None [of key l k cs] by (auto split: if_splits)
  next
    case (Some p)
    then show ?thesis using snoc.prems snoc.IH [OF Some] by (fastforce simp: newer_def split: if_splits)
  qed
qed simp

lemma latest_map: "latest key l k (map g cs) = map_option g (latest (\<lambda>c. key (g c)) (\<lambda>c. l (g c)) k cs)"
  by (induction cs rule: rev_induct) (auto simp: newer_def split: option.splits)

text \<open>On changes in ledger order the latest one is the last one.\<close>

lemma latest_sorted:
  "sorted (map l cs) \<Longrightarrow> latest key l k cs =
     (let xs = filter (\<lambda>c. key c = k) cs in if xs = [] then None else Some (last xs))"
proof (induction cs rule: rev_induct)
  case (snoc c cs)
  then have "\<forall>x\<in>set cs. l x \<le> l c" and IH: "latest key l k cs =
      (let xs = filter (\<lambda>c. key c = k) cs in if xs = [] then None else Some (last xs))"
    by (auto simp: sorted_append)
  moreover have "last (filter (\<lambda>c. key c = k) cs) \<in> set cs" if "filter (\<lambda>c. key c = k) cs \<noteq> []"
    using last_in_set [OF that] by auto
  ultimately show ?case by (auto simp: Let_def newer_def)
qed simp

lemma filter_eq_single: "distinct xs \<Longrightarrow> filter (\<lambda>x. x = k) xs = (if k \<in> set xs then [k] else [])"
  by (induction xs) auto

lemma last_filter: "filter P xs \<noteq> [] \<Longrightarrow> P (last (filter P xs))"
  using last_in_set [of "filter P xs"] by auto

text \<open>Collapsing keeps, per key, the last change.\<close>

definition collapse_step where
  "collapse_step key = (\<lambda>fo c. ((fst fo)(key c \<mapsto> c),
     (case fst fo (key c) of None \<Rightarrow> snd fo @ [key c] | Some _ \<Rightarrow> snd fo)))"

lemma collapse_loop:
  fixes key :: "'c \<Rightarrow> 'k" and cs :: "'c list"
  defines "fo \<equiv> foldl (collapse_step key) (Map.empty, []) cs"
  shows "fst fo k = (let xs = filter (\<lambda>c. key c = k) cs in if xs = [] then None else Some (last xs))
    \<and> distinct (snd fo) \<and> set (snd fo) = key ` set cs"
  unfolding fo_def
proof (induction cs arbitrary: k rule: rev_induct)
  case (snoc c cs)
  let ?fo = "foldl (collapse_step key) (Map.empty, []) cs"
  note IH = snoc
  have f: "fst ?fo k = (let xs = filter (\<lambda>c. key c = k) cs in if xs = [] then None else Some (last xs))" for k
    using IH by blast
  have seen: "(fst ?fo (key c) = None) \<longleftrightarrow> key c \<notin> key ` set cs"
    unfolding f by (auto simp: Let_def filter_empty_conv intro: rev_image_eqI)
  have "snd (collapse_step key ?fo c) = (if key c \<in> key ` set cs then snd ?fo else snd ?fo @ [key c])"
    using seen by (auto simp: collapse_step_def split: option.splits)
  moreover have "fst (collapse_step key ?fo c) k = (if k = key c then Some c else fst ?fo k)" for k
    by (simp add: collapse_step_def)
  ultimately show ?case using IH [of k] f by (auto simp: Let_def)
qed simp

lemma collapse_filter:
  "filter (\<lambda>c. key c = k) (collapse key cs) =
     (let xs = filter (\<lambda>c. key c = k) cs in if xs = [] then [] else [last xs])"
proof -
  let ?fo = "foldl (collapse_step key) (Map.empty, []) cs"
  note L = collapse_loop [of key cs]
  have key: "key (the (fst ?fo k')) = k'" if "k' \<in> set (snd ?fo)" for k'
  proof -
    have ne: "filter (\<lambda>c. key c = k') cs \<noteq> []" using that L by (auto simp: filter_empty_conv)
    then have "last (filter (\<lambda>c. key c = k') cs) \<in> set (filter (\<lambda>c. key c = k') cs)" by (rule last_in_set)
    then show ?thesis using L [of k'] ne by (simp add: Let_def)
  qed
  have "filter (\<lambda>c. key c = k) (collapse key cs) =
      map (\<lambda>k. the (fst ?fo k)) (filter (\<lambda>k'. key (the (fst ?fo k')) = k) (snd ?fo))"
    by (simp add: collapse_def collapse_step_def Let_def filter_map o_def)
  also have "filter (\<lambda>k'. key (the (fst ?fo k')) = k) (snd ?fo) = filter (\<lambda>k'. k' = k) (snd ?fo)"
    by (rule filter_cong) (use key in auto)
  also have "\<dots> = (if k \<in> key ` set cs then [k] else [])"
    using L [of k] filter_eq_single by fastforce
  finally show ?thesis using L [of k] by (auto simp: Let_def filter_empty_conv)
qed

lemma latest_collapse:
  assumes "sorted (map l cs)"
  shows "latest key l k (collapse key cs) = latest key l k cs"
proof -
  have "latest key l k (collapse key cs) =
      latest key l k (filter (\<lambda>c. key c = k) (collapse key cs))" by (simp add: latest_def)
  also have "\<dots> = latest key l k cs"
    unfolding collapse_filter latest_sorted [OF assms] Let_def
    using last_filter [of "\<lambda>c. key c = k" cs] by simp
  finally show ?thesis .
qed

section \<open>Interface: a snapshot guarded by the ledger of its rows\<close>

locale guarded_snapshot =
  fixes lookup :: "'t \<Rightarrow> 'k \<Rightarrow> 'r option" and put :: "'r \<Rightarrow> 't \<Rightarrow> 't"
    and key :: "'r \<Rightarrow> 'k" and ledger :: "'r \<Rightarrow> int"
  assumes lookup_put: "lookup (put r t) k =
    (if key r = k then newer ledger (lookup t k) (Some r) else lookup t k)"
begin

lemma lookup_puts:
  "lookup (foldl (\<lambda>t r. put r t) t rs) k = newer ledger (lookup t k) (latest key ledger k rs)"
proof (induction rs arbitrary: t)
  case (Cons r rs)
  then show ?case
    by (simp add: lookup_put latest_Cons [of key ledger k r rs] newer_assoc)
qed simp

text \<open>Batches in ledger order, applied one after the other through \<open>collapse\<close>, leave the latest
  change of every key.\<close>

lemma lookup_batch:
  assumes "sorted (map (\<lambda>c. ledger (row c)) cs)"
    and "\<And>c c'. ckey c = ckey c' \<longleftrightarrow> key (row c) = key (row c')"
  shows "lookup (foldl (\<lambda>t c. put (row c) t) t (collapse ckey cs)) k =
    newer ledger (lookup t k) (map_option row (latest (\<lambda>c. key (row c)) (\<lambda>c. ledger (row c)) k cs))"
proof -
  have "foldl (\<lambda>t c. put (row c) t) t xs = foldl (\<lambda>t r. put r t) t (map row xs)" for xs
    by (induction xs arbitrary: t) simp_all
  then have "lookup (foldl (\<lambda>t c. put (row c) t) t (collapse ckey cs)) k =
      newer ledger (lookup t k) (latest key ledger k (map row (collapse ckey cs)))"
    by (simp add: lookup_puts)
  also have "latest key ledger k (map row (collapse ckey cs)) =
      map_option row (latest (\<lambda>c. key (row c)) (\<lambda>c. ledger (row c)) k (collapse ckey cs))"
    by (rule latest_map)
  also have "latest (\<lambda>c. key (row c)) (\<lambda>c. ledger (row c)) k (collapse ckey cs) =
      latest (\<lambda>c. key (row c)) (\<lambda>c. ledger (row c)) k cs"
  proof (cases "\<exists>c. key (row c) = k")
    case True
    then obtain c0 where c0: "key (row c0) = k" by blast
    have "latest (\<lambda>c. key (row c)) l k xs = latest ckey l (ckey c0) xs" for l xs
      using assms(2) c0 by (simp add: latest_def)
    then show ?thesis using latest_collapse [OF assms(1)] by simp
  next
    case False
    then show ?thesis by (simp add: latest_def)
  qed
  finally show ?thesis .
qed

lemma lookup_batches:
  assumes "\<forall>cs\<in>set batches. sorted (map (\<lambda>c. ledger (row c)) cs)"
    and "\<And>c c'. ckey c = ckey c' \<longleftrightarrow> key (row c) = key (row c')"
  shows "lookup (foldl (\<lambda>t cs. foldl (\<lambda>t c. put (row c) t) t (collapse ckey cs)) t batches) k =
    newer ledger (lookup t k)
      (map_option row (latest (\<lambda>c. key (row c)) (\<lambda>c. ledger (row c)) k (concat batches)))"
  using assms(1)
proof (induction batches arbitrary: t)
  case (Cons cs batches)
  have m: "map_option row (newer (\<lambda>c. ledger (row c)) a b) =
      newer ledger (map_option row a) (map_option row b)" for a b
    by (auto simp: newer_def split: option.splits)
  from Cons show ?case by (simp add: lookup_batch assms(2) newer_assoc m)
qed simp

end

text \<open>
  A batch reads whole ledgers of a history: of each ledger and key it has all the changes, in the order
  of the ledger, or none. Every writer hands in such batches: a live ledger, the chunk of a walk from any
  bound to any other, a chunk healed later, whichever contracts were watched at the time. They overlap
  freely.
\<close>

definition whole_ledgers :: "('c \<Rightarrow> 'k) \<Rightarrow> ('c \<Rightarrow> int) \<Rightarrow> (int \<Rightarrow> 'c list) \<Rightarrow> 'c list \<Rightarrow> bool" where
  "whole_ledgers key ledger hist cs \<longleftrightarrow> (\<forall>c\<in>set cs.
     filter (\<lambda>x. key x = key c \<and> ledger x = ledger c) cs =
     filter (\<lambda>x. key x = key c \<and> ledger x = ledger c) (hist (ledger c)))"

text \<open>The ledgers at which a key changes.\<close>

definition changed_at :: "('c \<Rightarrow> 'k) \<Rightarrow> ('c \<Rightarrow> int) \<Rightarrow> 'k \<Rightarrow> 'c list \<Rightarrow> int set" where
  "changed_at key ledger k cs = ledger ` set (filter (\<lambda>c. key c = k) cs)"

lemma latest_last:
  "latest key l k cs = Some c \<Longrightarrow> last (filter (\<lambda>x. key x = k \<and> l x = l c) cs) = c"
proof (induction cs arbitrary: c rule: rev_induct)
  case (snoc x cs)
  show ?case
  proof (cases "latest key l k cs")
    case None
    then show ?thesis using snoc.prems by (auto split: if_splits)
  next
    case (Some p)
    then show ?thesis using snoc.prems snoc.IH [OF Some] latest_Some [OF Some] by (auto simp: newer_def split: if_splits)
  qed
qed simp

lemma last_same: "ys \<noteq> [] \<Longrightarrow> set yss \<subseteq> {[], ys} \<Longrightarrow> ys \<in> set yss \<Longrightarrow> last (concat yss) = last ys"
proof (induction yss)
  case (Cons zs yss)
  show ?case
  proof (cases "ys \<in> set yss")
    case True
    then have "concat yss \<noteq> []" using Cons.prems(1) by auto
    then show ?thesis using Cons True by simp
  next
    case False
    then have "concat yss = []" "zs = ys" using Cons.prems by auto
    then show ?thesis by simp
  qed
qed simp

text \<open>The latest change of a key over such batches is the last one of the history's latest ledger read.\<close>

lemma latest_history:
  assumes whole: "\<forall>cs\<in>set batches. whole_ledgers key l hist cs" and c: "latest key l k (concat batches) = Some c"
  shows "l c \<in> changed_at key l k (concat batches)" "\<forall>x\<in>changed_at key l k (concat batches). x \<le> l c"
    "c = last (filter (\<lambda>x. key x = k \<and> l x = l c) (hist (l c)))"
proof -
  note C = latest_Some [OF c]
  then show "l c \<in> changed_at key l k (concat batches)" "\<forall>x\<in>changed_at key l k (concat batches). x \<le> l c"
    by (auto simp: changed_at_def)
  let ?P = "\<lambda>x. key x = k \<and> l x = l c"
  let ?F = "filter ?P (hist (l c))"
  obtain ds where ds: "ds \<in> set batches" "c \<in> set ds" using C by auto
  have piece: "filter ?P cs \<in> {[], ?F}" if cs: "cs \<in> set batches" for cs
  proof (cases "\<exists>x\<in>set cs. ?P x")
    case True
    then obtain x where "x \<in> set cs" "key x = k" "l x = l c" by blast
    then show ?thesis using whole cs unfolding whole_ledgers_def by fastforce
  qed (auto simp: filter_empty_conv)
  have "filter ?P ds \<noteq> []" using ds(2) C by (auto simp: filter_empty_conv)
  then have "filter ?P ds = ?F" "?F \<noteq> []" using piece [OF ds(1)] by auto
  then have "last (concat (map (filter ?P) batches)) = last ?F"
    using piece ds(1) \<open>filter ?P ds = ?F\<close> by (intro last_same) (auto intro: rev_image_eqI)
  then show "c = last ?F" using latest_last [OF c] by (simp add: filter_concat)
qed

lemma latest_converges:
  assumes "\<forall>cs\<in>set batches. whole_ledgers key l hist cs" and "\<forall>cs\<in>set batches'. whole_ledgers key l hist cs"
    and same: "changed_at key l k (concat batches') = changed_at key l k (concat batches)"
  shows "latest key l k (concat batches') = latest key l k (concat batches)"
proof (cases "changed_at key l k (concat batches) = {}")
  case True
  have none: "latest key l k cs = None" if "changed_at key l k cs = {}" for cs
    using that by (auto simp: latest_None changed_at_def filter_empty_conv)
  show ?thesis using none [OF True] none [of "concat batches'"] same True by simp
next
  case False
  have some: "latest key l k cs \<noteq> None" if "changed_at key l k cs \<noteq> {}" for cs
    using that by (auto simp: latest_None changed_at_def)
  obtain c c' where c: "latest key l k (concat batches) = Some c" and c': "latest key l k (concat batches') = Some c'"
    using some [OF False] some [of "concat batches'"] same False by auto
  note H = latest_history [OF assms(1) c] and H' = latest_history [OF assms(2) c', unfolded same]
  have "l c = l c'" using H(1,2) H'(1,2) by (meson order_antisym)
  then show ?thesis using c c' H(3) H'(3) by simp
qed

lemma find_upsert_guarded:
  "find (\<lambda>q. key q = k) (upsert_guarded key l r tbl) =
     (if key r = k then newer l (find (\<lambda>q. key q = k) tbl) (Some r) else find (\<lambda>q. key q = k) tbl)"
proof -
  have upd: "find (\<lambda>q. key q = k) (sql_update (\<lambda>q. key q = key r \<and> l q \<le> l r) (\<lambda>_. r) t) =
     (if key r = k then map_option (\<lambda>q. if l q \<le> l r then r else q) (find (\<lambda>q. key q = k) t)
      else find (\<lambda>q. key q = k) t)" for t
    by (induction t) (auto simp: sql_update_def)
  have app: "find (\<lambda>q. key q = k) (t @ [r]) =
     (case find (\<lambda>q. key q = k) t of None \<Rightarrow> if key r = k then Some r else None | Some q \<Rightarrow> Some q)" for t
    by (induction t) auto
  have ex: "list_ex (\<lambda>q. key q = key r) tbl \<longleftrightarrow> find (\<lambda>q. key q = key r) tbl \<noteq> None"
    by (auto simp: list_ex_iff find_None_iff)
  show ?thesis
    unfolding upsert_guarded_def using upd app ex
    by (auto simp: newer_def split: option.splits)
qed

interpretation state_snapshot: guarded_snapshot
    "\<lambda>tbl k. find (\<lambda>q. state_entry_key q = k) tbl" "upsert_guarded state_entry_key state_entry_ledger"
    state_entry_key state_entry_ledger
  by unfold_locales (rule find_upsert_guarded)

interpretation trustline_snapshot: guarded_snapshot
    "\<lambda>tbl k. find (\<lambda>q. trustline_entry_key q = k) tbl"
    "upsert_guarded trustline_entry_key trustline_entry_ledger"
    trustline_entry_key trustline_entry_ledger
  by unfold_locales (rule find_upsert_guarded)

section \<open>Replaying a commit's rows\<close>

text \<open>A row is absorbed when applying it again changes nothing.\<close>

definition absorbed :: "('r \<Rightarrow> 'k) \<Rightarrow> ('r \<Rightarrow> int) \<Rightarrow> 'r \<Rightarrow> 'r list \<Rightarrow> bool" where
  "absorbed key l r tbl \<longleftrightarrow> (\<exists>q\<in>set tbl. key q = key r) \<and>
     (\<forall>q\<in>set tbl. key q = key r \<longrightarrow> l q \<le> l r \<longrightarrow> q = r)"

lemma upsert_absorbed: "absorbed key l r tbl \<Longrightarrow> upsert_guarded key l r tbl = tbl"
  by (auto simp: absorbed_def upsert_guarded_def list_ex_iff sql_update_def intro!: map_idI)

lemma upsert_absorbs: "absorbed key l r (upsert_guarded key l r tbl)"
proof (cases "\<exists>q\<in>set tbl. key q = key r")
  case True
  then obtain q where q: "q \<in> set tbl" "key q = key r" by blast
  then have eq: "upsert_guarded key l r tbl =
      sql_update (\<lambda>q. key q = key r \<and> l q \<le> l r) (\<lambda>_. r) tbl"
    by (auto simp: upsert_guarded_def list_ex_iff)
  have "\<exists>x\<in>set (sql_update (\<lambda>q. key q = key r \<and> l q \<le> l r) (\<lambda>_. r) tbl). key x = key r"
    by (rule bexI [of _ "if l q \<le> l r then r else q"]) (use q in \<open>auto simp: in_sql_update\<close>)
  then show ?thesis unfolding eq by (auto simp: absorbed_def in_sql_update split: if_splits)
next
  case False
  then show ?thesis by (auto simp: absorbed_def upsert_guarded_def list_ex_iff)
qed

lemma upsert_keeps_absorbed:
  "key r \<noteq> key s \<Longrightarrow> absorbed key l s tbl \<Longrightarrow> absorbed key l s (upsert_guarded key l r tbl)"
  by (fastforce simp: absorbed_def upsert_guarded_def set_sql_update)

lemma upserts_absorbed:
  "\<forall>r\<in>set rs. absorbed key l r tbl \<Longrightarrow> foldl (\<lambda>t r. upsert_guarded key l r t) tbl rs = tbl"
  by (induction rs) (simp_all add: upsert_absorbed)

lemma upserts_keep_absorbed:
  "\<forall>r\<in>set rs. key r \<noteq> key s \<Longrightarrow> absorbed key l s tbl \<Longrightarrow>
     absorbed key l s (foldl (\<lambda>t r. upsert_guarded key l r t) tbl rs)"
  by (induction rs arbitrary: tbl) (simp_all add: upsert_keeps_absorbed)

lemma upserts_idempotent:
  assumes "distinct (map key rs)"
  shows "foldl (\<lambda>t r. upsert_guarded key l r t) (foldl (\<lambda>t r. upsert_guarded key l r t) tbl rs) rs =
    foldl (\<lambda>t r. upsert_guarded key l r t) tbl rs"
proof (rule upserts_absorbed)
  show "\<forall>r\<in>set rs. absorbed key l r (foldl (\<lambda>t r. upsert_guarded key l r t) tbl rs)"
    using assms
  proof (induction rs arbitrary: tbl)
    case (Cons r rs)
    have "absorbed key l r (foldl (\<lambda>t r. upsert_guarded key l r t) (upsert_guarded key l r tbl) rs)"
      by (rule upserts_keep_absorbed) (use Cons.prems in \<open>auto simp: upsert_absorbs intro: rev_image_eqI\<close>)
    then show ?case using Cons by simp
  qed simp
qed

lemma collapse_distinct: "distinct (map key (collapse key cs))"
proof -
  let ?fo = "foldl (collapse_step key) (Map.empty, []) cs"
  note L = collapse_loop [of key cs]
  have "key (the (fst ?fo k)) = k" if "k \<in> set (snd ?fo)" for k
    using that L [of k] last_filter [of "\<lambda>c. key c = k" cs] by (auto simp: Let_def filter_empty_conv)
  then have "map key (collapse key cs) = snd ?fo"
    by (simp add: collapse_def collapse_step_def Let_def map_idI)
  then show ?thesis using L by simp
qed

lemma foldl_upsert_map:
  "foldl (\<lambda>t c. upsert_guarded key l (g c) t) tbl cs = foldl (\<lambda>t r. upsert_guarded key l r t) tbl (map g cs)"
  by (induction cs arbitrary: tbl) simp_all

lemma each_map: "each (\<lambda>x. f (g x)) xs s = each f (map g xs) s"
proof (induction xs arbitrary: s)
  case (Cons x xs)
  then have "each (\<lambda>x. f (g x)) xs = each f (map g xs)" by (rule ext)
  then show ?case by simp
qed simp

lemma state_entry_key_of: "state_entry_key (n, entry_of_change c) = (n, state_change_entry_key c)"
  by (simp add: state_entry_key_def entry_of_change_def state_change_entry_key_def Let_def)

lemma trustline_entry_key_of: "trustline_entry_key (n, entry_of_trustline c) = (n, trustline_change_entry_key c)"
  by (simp add: trustline_entry_key_def entry_of_trustline_def trustline_change_entry_key_def Let_def)

lemma distinct_rows:
  assumes "\<And>c. rkey (n, e c) = (n :: string, ckey c)"
  shows "distinct (map rkey (map (\<lambda>c. (n, e c)) (collapse ckey cs)))"
proof -
  have "map rkey (map (\<lambda>c. (n, e c)) (collapse ckey cs)) = map (Pair n) (map ckey (collapse ckey cs))"
    using assms by simp
  then show ?thesis using collapse_distinct [of ckey cs] by (simp add: distinct_map inj_on_def)
qed

lemma applyStateEntries_idempotent:
  "applyStateEntries n cs (applyStateEntries n cs d) = applyStateEntries n cs d"
  unfolding applyStateEntries_def foldl_upsert_map [where g = "\<lambda>c. (n, entry_of_change c)"]
  by (simp add: upserts_idempotent [OF distinct_rows [where ckey = state_change_entry_key]]
      state_entry_key_of del: map_map)

lemma applyTrustlineEntries_idempotent:
  "applyTrustlineEntries n cs (applyTrustlineEntries n cs d) = applyTrustlineEntries n cs d"
  unfolding applyTrustlineEntries_def foldl_upsert_map [where g = "\<lambda>c. (n, entry_of_trustline c)"]
  by (simp add: upserts_idempotent [OF distinct_rows [where ckey = trustline_change_entry_key]]
      trustline_entry_key_of del: map_map)


text \<open>Persisting a commit's rows, read table by table.\<close>

lemma persist_rows_Inr:
  "persist_rows n p d = Inr d' \<longleftrightarrow>
     (\<exists>te ts tt tl tm.
        each (insert_ignore event_key event_pk) (map (Pair n) (pa_events p)) (t_events d) = Inr te
      \<and> each (insert_ignore state_change_key state_change_pk) (map (Pair n) (pa_states p))
          (t_state_changes d) = Inr ts
      \<and> each (insert_ignore transfer_key transfer_pk) (map (Pair n) (pa_transfers p)) (t_transfers d) = Inr tt
      \<and> each (insert_ignore trustline_change_key trustline_change_pk) (map (Pair n) (pa_trustlines p))
          (t_trustline_changes d) = Inr tl
      \<and> each (insert_ignore movement_key movement_key) (map (Pair n) (pa_movements p)) (t_movements d) = Inr tm
      \<and> d' = d\<lparr>t_events := te, t_state_changes := ts,
          t_state_entries := t_state_entries (applyStateEntries n (pa_states p) d),
          t_transfers := tt, t_trustline_changes := tl,
          t_trustline_entries := t_trustline_entries (applyTrustlineEntries n (pa_trustlines p) d),
          t_movements := tm\<rparr>)"
  unfolding persist_rows_def insertEvents_def insertStateChanges_def insertTransfers_def
    insertTrustlineChanges_def insertMovements_def applyStateEntries_def applyTrustlineEntries_def
    each_map [where g = "Pair n"]
  by (auto simp: andThen_Inr)

lemma persist_rows_other:
  assumes "persist_rows n p d = Inr d'"
  shows "t_gaps d' = t_gaps d" "t_backfill d' = t_backfill d" "t_contracts d' = t_contracts d"
    "t_cursor d' = t_cursor d" "t_ledger_hashes d' = t_ledger_hashes d"
  using assms by (auto simp: persist_rows_Inr)

lemma persist_rows_cong:
  assumes "persist_rows n p d = Inr d'"
  shows "persist_rows n p (d\<lparr>t_gaps := g, t_backfill := b, t_cursor := c, t_ledger_hashes := h\<rparr>) =
    Inr (d'\<lparr>t_gaps := g, t_backfill := b, t_cursor := c, t_ledger_hashes := h\<rparr>)"
  using assms by (auto simp: persist_rows_Inr applyStateEntries_def applyTrustlineEntries_def)

text \<open>Rows already there are absorbed, table by table.\<close>

lemma persist_rows_again:
  assumes "persist_rows n p d = Inr d'"
  shows "persist_rows n p d' = Inr d'"
proof -
  obtain te ts tt tl tm where rows:
    "each (insert_ignore event_key event_pk) (map (Pair n) (pa_events p)) (t_events d) = Inr te"
    "each (insert_ignore state_change_key state_change_pk) (map (Pair n) (pa_states p)) (t_state_changes d) = Inr ts"
    "each (insert_ignore transfer_key transfer_pk) (map (Pair n) (pa_transfers p)) (t_transfers d) = Inr tt"
    "each (insert_ignore trustline_change_key trustline_change_pk) (map (Pair n) (pa_trustlines p))
       (t_trustline_changes d) = Inr tl"
    "each (insert_ignore movement_key movement_key) (map (Pair n) (pa_movements p)) (t_movements d) = Inr tm"
    and d': "d' = d\<lparr>t_events := te, t_state_changes := ts,
          t_state_entries := t_state_entries (applyStateEntries n (pa_states p) d),
          t_transfers := tt, t_trustline_changes := tl,
          t_trustline_entries := t_trustline_entries (applyTrustlineEntries n (pa_trustlines p) d),
          t_movements := tm\<rparr>"
    using assms unfolding persist_rows_Inr by blast
  note again = events_table.replay_batch [OF rows(1) subset_refl]
    state_changes_table.replay_batch [OF rows(2) subset_refl]
    transfers_table.replay_batch [OF rows(3) subset_refl]
    trustline_changes_table.replay_batch [OF rows(4) subset_refl]
    movements_table.replay_batch [OF rows(5) subset_refl]
  have "t_state_entries (applyStateEntries n (pa_states p) d') = t_state_entries d'"
    using arg_cong [OF applyStateEntries_idempotent [of n "pa_states p" d], of t_state_entries]
    by (simp add: d' applyStateEntries_def)
  moreover have "t_trustline_entries (applyTrustlineEntries n (pa_trustlines p) d') = t_trustline_entries d'"
    using arg_cong [OF applyTrustlineEntries_idempotent [of n "pa_trustlines p" d], of t_trustline_entries]
    by (simp add: d' applyTrustlineEntries_def)
  ultimately show ?thesis unfolding persist_rows_Inr using again by (simp add: d')
qed

section \<open>Stored rows\<close>

text \<open>Every row of a part is in its table, under its idempotency key.\<close>

definition rows_stored :: "string \<Rightarrow> partitioned \<Rightarrow> db \<Rightarrow> bool" where
  "rows_stored n p d \<longleftrightarrow>
     event_key ` Pair n ` set (pa_events p) \<subseteq> event_key ` set (t_events d)
   \<and> state_change_key ` Pair n ` set (pa_states p) \<subseteq> state_change_key ` set (t_state_changes d)
   \<and> transfer_key ` Pair n ` set (pa_transfers p) \<subseteq> transfer_key ` set (t_transfers d)
   \<and> trustline_change_key ` Pair n ` set (pa_trustlines p) \<subseteq> trustline_change_key ` set (t_trustline_changes d)
   \<and> movement_key ` Pair n ` set (pa_movements p) \<subseteq> movement_key ` set (t_movements d)"

lemma persist_rows_stores:
  assumes "persist_rows n p d = Inr d'"
  shows "rows_stored n p d'" and "rows_stored n q d \<Longrightarrow> rows_stored n q d'"
proof -
  obtain te ts tt tl tm where rows:
    "each (insert_ignore event_key event_pk) (map (Pair n) (pa_events p)) (t_events d) = Inr te"
    "each (insert_ignore state_change_key state_change_pk) (map (Pair n) (pa_states p)) (t_state_changes d) = Inr ts"
    "each (insert_ignore transfer_key transfer_pk) (map (Pair n) (pa_transfers p)) (t_transfers d) = Inr tt"
    "each (insert_ignore trustline_change_key trustline_change_pk) (map (Pair n) (pa_trustlines p))
       (t_trustline_changes d) = Inr tl"
    "each (insert_ignore movement_key movement_key) (map (Pair n) (pa_movements p)) (t_movements d) = Inr tm"
    and d': "t_events d' = te" "t_state_changes d' = ts" "t_transfers d' = tt" "t_trustline_changes d' = tl"
      "t_movements d' = tm"
    using assms unfolding persist_rows_Inr by auto
  note keys = events_table.batch_keys [OF rows(1)] state_changes_table.batch_keys [OF rows(2)]
    transfers_table.batch_keys [OF rows(3)] trustline_changes_table.batch_keys [OF rows(4)]
    movements_table.batch_keys [OF rows(5)]
  show "rows_stored n p d'" unfolding rows_stored_def d' keys by simp
  show "rows_stored n q d \<Longrightarrow> rows_stored n q d'"
    unfolding rows_stored_def d' keys by (elim conjE, intro conjI; rule le_supI1; assumption)
qed

section \<open>Properties\<close>

text \<open>Re-ingesting is a no-op. Persisting the rows of a ledger or chunk a second time, on
  the database the first time left, succeeds and changes nothing: no history row is duplicated or
  rewritten and no snapshot row moves.\<close>

theorem persist_rows_replay:
  assumes "persist_rows n p d = Inr d'"
  shows "persist_rows n p d' = Inr d'"
  by (rule persist_rows_again [OF assms])

text \<open>A contract's history for the concrete instances: one key written at ledgers 10 and 12,
  another written at 11 and removed at 12.\<close>

definition demo_change :: "string \<Rightarrow> u32 \<Rightarrow> string \<Rightarrow> string \<Rightarrow> StateChange" where
  "demo_change k ledger ty post = \<lparr>sc_ID = k @ post, sc_ContractID = ''C'', sc_LedgerSequence = ledger,
     sc_ClosedAt = uint ledger, sc_TxHash = ''tx'' @ post, sc_TxIndex = 1, sc_OpIndex = 0,
     sc_ChangeIndex = 0, sc_ChangeType = ty, sc_KeyXDR = k, sc_Durability = ''persistent'',
     sc_PreXDR = '''', sc_PostXDR = post\<rparr>"

definition demo_batch_low :: "StateChange list" where
  "demo_batch_low = [demo_change ''a'' 10 ''created'' ''1'', demo_change ''b'' 11 ''created'' ''2'']"

definition demo_batch_high :: "StateChange list" where
  "demo_batch_high = [demo_change ''a'' 12 ''updated'' ''3'', demo_change ''b'' 12 ''removed'' '''']"

lemmas demo_defs = demo_change_def demo_batch_low_def demo_batch_high_def

theorem persist_rows_replay_witness:
  "\<exists>d'. persist_rows ''testnet'' (no_rows\<lparr>pa_states := demo_batch_low\<rparr>) empty_db = Inr d'
    \<and> length (t_state_changes d') = 2
    \<and> persist_rows ''testnet'' (no_rows\<lparr>pa_states := demo_batch_low\<rparr>) d' = Inr d'"
proof -
  have "\<exists>d'. persist_rows ''testnet'' (no_rows\<lparr>pa_states := demo_batch_low\<rparr>) empty_db = Inr d'
      \<and> length (t_state_changes d') = 2"
    by (simp add: persist_rows_def no_rows_def insertEvents_def insertStateChanges_def insertTransfers_def
        insertTrustlineChanges_def insertMovements_def applyStateEntries_def applyTrustlineEntries_def
        demo_defs empty_db_def insert_ignore_def state_change_key_def state_change_pk_def)
  then show ?thesis using persist_rows_replay by blast
qed

text \<open>History is append-only. A successful commit of rows keeps every row of the event
  table in its place, adds only rows it was given, stores no idempotency key twice, and leaves
  every key it was given stored.\<close>

theorem persist_rows_append_only:
  assumes "persist_rows n p d = Inr d'" and "distinct (map event_key (t_events d))"
  shows "(\<exists>new. t_events d' = t_events d @ new \<and> set new \<subseteq> Pair n ` set (pa_events p))
    \<and> distinct (map event_key (t_events d'))
    \<and> event_key ` set (t_events d') = event_key ` set (t_events d) \<union> (\<lambda>e. event_key (n, e)) ` set (pa_events p)"
proof -
  from assms(1) have rows: "each (insert_ignore event_key event_pk) (map (Pair n) (pa_events p)) (t_events d)
      = Inr (t_events d')" by (auto simp: persist_rows_Inr)
  show ?thesis
    using events_table.keeps_prefix [OF rows] events_table.distinct_keys [OF rows assms(2)]
      events_table.batch_keys [OF rows] by (simp add: image_image)
qed

definition demo_event :: "string \<Rightarrow> u32 \<Rightarrow> Event" where
  "demo_event i ledger = \<lparr>ev_ID = i, ev_ContractID = ''C'', ev_LedgerSequence = ledger, ev_ClosedAt = 0,
     ev_TxHash = ''tx'' @ i, ev_TxIndex = 1, ev_OpIndex = 0, ev_EventIndex = 0, ev_EventName = ''transfer'',
     ev_Topics = [''t0''], ev_ValueXDR = ''v'', ev_RawXDR = ''r''\<rparr>"

theorem persist_rows_append_only_witness:
  "\<exists>d'. persist_rows ''testnet'' (no_rows\<lparr>pa_events := [demo_event ''1'' 5, demo_event ''2'' 6]\<rparr>) empty_db = Inr d'
    \<and> distinct (map event_key (t_events d'))"
proof -
  have "\<exists>d'. persist_rows ''testnet'' (no_rows\<lparr>pa_events := [demo_event ''1'' 5, demo_event ''2'' 6]\<rparr>) empty_db = Inr d'"
    by (simp add: persist_rows_def no_rows_def insertEvents_def insertStateChanges_def insertTransfers_def
        insertTrustlineChanges_def insertMovements_def applyStateEntries_def applyTrustlineEntries_def
        demo_event_def empty_db_def insert_ignore_def event_key_def event_pk_def)
  moreover have "distinct (map event_key (t_events empty_db))" by (simp add: empty_db_def)
  ultimately show ?thesis using persist_rows_append_only [of "''testnet''" _ empty_db] by blast
qed

lemma state_entry_ledger_of: "state_entry_ledger (n, entry_of_change c) = uint (sc_LedgerSequence c)"
  by (simp add: state_entry_ledger_def entry_of_change_def Let_def)

lemma trustline_entry_ledger_of: "trustline_entry_ledger (n, entry_of_trustline c) = uint (tc_LedgerSequence c)"
  by (simp add: trustline_entry_ledger_def entry_of_trustline_def Let_def)

lemma latest_pair: "latest (\<lambda>c. (n, key c)) l (n, k) cs = latest key l k cs"
  by (simp add: latest_def)

lemma apply_states_fold:
  "t_state_entries (foldl (\<lambda>d cs. applyStateEntries n cs d) d batches) =
     foldl (\<lambda>tbl cs. foldl (\<lambda>tbl c. upsert_guarded state_entry_key state_entry_ledger (n, entry_of_change c) tbl)
       tbl (collapse state_change_entry_key cs)) (t_state_entries d) batches"
  by (induction batches arbitrary: d) (simp_all add: applyStateEntries_def)

lemma apply_trustlines_fold:
  "t_trustline_entries (foldl (\<lambda>d cs. applyTrustlineEntries n cs d) d batches) =
     foldl (\<lambda>tbl cs. foldl (\<lambda>tbl c. upsert_guarded trustline_entry_key trustline_entry_ledger (n, entry_of_trustline c) tbl)
       tbl (collapse trustline_change_entry_key cs)) (t_trustline_entries d) batches"
  by (induction batches arbitrary: d) (simp_all add: applyTrustlineEntries_def)

text \<open>C12: the state snapshot says what history says. Applying batches of changes, each in ledger
  order, to a database without rows of the network leaves, for every contract key, the entry of the
  latest change of all the batches, tombstones included, and no entry for a key never changed.\<close>

theorem state_entries_latest:
  assumes "\<forall>cs\<in>set batches. sorted (map (\<lambda>c. uint (sc_LedgerSequence c)) cs)"
    and "\<forall>r\<in>set (t_state_entries d). fst r \<noteq> n"
  shows "find (\<lambda>r. state_entry_key r = (n, k))
      (t_state_entries (foldl (\<lambda>d cs. applyStateEntries n cs d) d batches)) =
    map_option (\<lambda>c. (n, entry_of_change c))
      (latest state_change_entry_key (\<lambda>c. uint (sc_LedgerSequence c)) k (concat batches))"
proof -
  have "find (\<lambda>r. state_entry_key r = (n, k)) (t_state_entries d) = None"
    using assms(2) by (auto simp: find_None_iff state_entry_key_def)
  then show ?thesis
    using state_snapshot.lookup_batches [of batches "\<lambda>c. (n, entry_of_change c)" state_change_entry_key
        "(n, k)" "t_state_entries d"] assms(1)
    by (simp add: apply_states_fold state_entry_key_of state_entry_ledger_of latest_pair)
qed

theorem state_entries_latest_witness:
  "find (\<lambda>r. state_entry_key r = (''testnet'', ''C'', ''b'', ''persistent''))
      (t_state_entries (applyStateEntries ''testnet'' demo_batch_low
         (applyStateEntries ''testnet'' demo_batch_high empty_db))) =
    Some (''testnet'', entry_of_change (demo_change ''b'' 12 ''removed'' ''''))"
  using state_entries_latest [of "[demo_batch_high, demo_batch_low]" empty_db "''testnet''"
      "(''C'', ''b'', ''persistent'')"]
  by (simp add: empty_db_def demo_batch_high_def demo_batch_low_def demo_change_def latest_def newer_def
      state_change_entry_key_def)

text \<open>C9: out-of-order ingestion converges. Let every batch hold whole ledgers of one history of changes.
  Then two runs that read the changes of a key at the same ledgers leave the same entry for it, whatever
  the order of their batches, their bounds, their overlaps and their repetitions: live ledgers, a
  descending walk restarted on other chunk bounds and a later heal agree.\<close>

theorem state_entries_converge:
  assumes "\<forall>cs\<in>set batches \<union> set batches'. sorted (map (\<lambda>c. uint (sc_LedgerSequence c)) cs)"
    and "\<forall>cs\<in>set batches \<union> set batches'. whole_ledgers state_change_entry_key (\<lambda>c. uint (sc_LedgerSequence c)) hist cs"
    and "changed_at state_change_entry_key (\<lambda>c. uint (sc_LedgerSequence c)) k (concat batches') =
         changed_at state_change_entry_key (\<lambda>c. uint (sc_LedgerSequence c)) k (concat batches)"
  shows "find (\<lambda>r. state_entry_key r = (n, k))
      (t_state_entries (foldl (\<lambda>d cs. applyStateEntries n cs d) d batches')) =
    find (\<lambda>r. state_entry_key r = (n, k))
      (t_state_entries (foldl (\<lambda>d cs. applyStateEntries n cs d) d batches))"
proof -
  have "latest state_change_entry_key (\<lambda>c. uint (sc_LedgerSequence c)) k (concat batches') =
      latest state_change_entry_key (\<lambda>c. uint (sc_LedgerSequence c)) k (concat batches)"
    by (rule latest_converges [OF _ _ assms(3), of hist]) (use assms(2) in auto)
  then show ?thesis
    using state_snapshot.lookup_batches [of batches "\<lambda>c. (n, entry_of_change c)" state_change_entry_key
        "(n, k)" "t_state_entries d"]
      state_snapshot.lookup_batches [of batches' "\<lambda>c. (n, entry_of_change c)" state_change_entry_key
        "(n, k)" "t_state_entries d"] assms(1)
    by (simp add: apply_states_fold state_entry_key_of state_entry_ledger_of latest_pair)
qed

text \<open>A key that changes twice within ledger 12; live ledgers one by one against a walk of two chunks that
  overlaps them, the upper chunk first and then again after the lower one.\<close>

definition demo_history :: "int \<Rightarrow> StateChange list" where
  "demo_history l =
     (if l = 10 then [demo_change ''a'' 10 ''created'' ''1'']
      else if l = 11 then [demo_change ''b'' 11 ''created'' ''2'']
      else if l = 12 then [demo_change ''a'' 12 ''updated'' ''3'', demo_change ''b'' 12 ''removed'' '''', demo_change ''a'' 12 ''updated'' ''4'']
      else [])"

theorem state_entries_converge_witness:
  "find (\<lambda>r. state_entry_key r = (''testnet'', ''C'', ''a'', ''persistent''))
      (t_state_entries (foldl (\<lambda>d cs. applyStateEntries ''testnet'' cs d) empty_db
         [demo_history 11 @ demo_history 12, demo_history 10 @ demo_history 11, demo_history 11 @ demo_history 12])) =
    find (\<lambda>r. state_entry_key r = (''testnet'', ''C'', ''a'', ''persistent''))
      (t_state_entries (foldl (\<lambda>d cs. applyStateEntries ''testnet'' cs d) empty_db
         [demo_history 10, demo_history 11, demo_history 12]))"
  by (rule state_entries_converge [where hist = demo_history])
    (auto simp: whole_ledgers_def changed_at_def demo_history_def demo_change_def state_change_entry_key_def)

text \<open>Holder snapshots converge the same way: trustline entries do not depend on the order, the bounds
  or the repetition of the batches that produced them.\<close>

theorem trustline_entries_converge:
  assumes "\<forall>cs\<in>set batches \<union> set batches'. sorted (map (\<lambda>c. uint (tc_LedgerSequence c)) cs)"
    and "\<forall>cs\<in>set batches \<union> set batches'. whole_ledgers trustline_change_entry_key (\<lambda>c. uint (tc_LedgerSequence c)) hist cs"
    and "changed_at trustline_change_entry_key (\<lambda>c. uint (tc_LedgerSequence c)) k (concat batches') =
         changed_at trustline_change_entry_key (\<lambda>c. uint (tc_LedgerSequence c)) k (concat batches)"
  shows "find (\<lambda>r. trustline_entry_key r = (n, k))
      (t_trustline_entries (foldl (\<lambda>d cs. applyTrustlineEntries n cs d) d batches')) =
    find (\<lambda>r. trustline_entry_key r = (n, k))
      (t_trustline_entries (foldl (\<lambda>d cs. applyTrustlineEntries n cs d) d batches))"
proof -
  have "latest trustline_change_entry_key (\<lambda>c. uint (tc_LedgerSequence c)) k (concat batches') =
      latest trustline_change_entry_key (\<lambda>c. uint (tc_LedgerSequence c)) k (concat batches)"
    by (rule latest_converges [OF _ _ assms(3), of hist]) (use assms(2) in auto)
  then show ?thesis
    using trustline_snapshot.lookup_batches [of batches "\<lambda>c. (n, entry_of_trustline c)"
        trustline_change_entry_key "(n, k)" "t_trustline_entries d"]
      trustline_snapshot.lookup_batches [of batches' "\<lambda>c. (n, entry_of_trustline c)"
        trustline_change_entry_key "(n, k)" "t_trustline_entries d"] assms(1)
    by (simp add: apply_trustlines_fold trustline_entry_key_of trustline_entry_ledger_of latest_pair)
qed

definition demo_trustline :: "u32 \<Rightarrow> int \<Rightarrow> TrustlineChange" where
  "demo_trustline ledger balance = \<lparr>tc_ID = ''t'', tc_ContractID = ''C'', tc_AccountID = ''G'',
     tc_Asset = ''USD:G'', tc_LedgerSequence = ledger, tc_ClosedAt = 0, tc_TxHash = ''tx'', tc_TxIndex = 1,
     tc_OpIndex = 0, tc_ChangeIndex = 0, tc_ChangeType = ''updated'', tc_PreBalance = None,
     tc_PostBalance = Some balance, tc_PreLimit = None, tc_PostLimit = Some 100, tc_Flags = 1\<rparr>"

theorem trustline_entries_converge_witness:
  "find (\<lambda>r. trustline_entry_key r = (''testnet'', ''C'', ''G''))
      (t_trustline_entries (foldl (\<lambda>d cs. applyTrustlineEntries ''testnet'' cs d) empty_db
         [[demo_trustline 20 7], [demo_trustline 10 5, demo_trustline 20 7]])) =
    find (\<lambda>r. trustline_entry_key r = (''testnet'', ''C'', ''G''))
      (t_trustline_entries (foldl (\<lambda>d cs. applyTrustlineEntries ''testnet'' cs d) empty_db
         [[demo_trustline 10 5], [demo_trustline 20 7]]))"
  by (rule trustline_entries_converge [where hist = "\<lambda>l. if l = 10 then [demo_trustline 10 5] else [demo_trustline 20 7]"])
    (auto simp: whole_ledgers_def changed_at_def demo_trustline_def)

end
