(* ===== verification/Store_Queries.thy ===== *)
theory Store_Queries
  imports Store_Rows
begin

text \<open>
  The reads of \<^verbatim>\<open>internal/store\<close> behind the public API: every \<open>Query*\<close> function selects
  the rows of one contract, orders them by a unique key, and returns one page and whether more rows
  follow (\<open>LIMIT limit+1\<close>). The locale \<open>paged_query\<close> states that contract; a client that
  follows the cursor of the last row of each page sees every matching row exactly once.
\<close>

section \<open>Pages\<close>

definition page :: "('r \<Rightarrow> 'k::linorder) \<Rightarrow> nat \<Rightarrow> 'r list \<Rightarrow> 'r list \<times> bool" where
  "page ord limit rows =
     (let out = take (limit + 1) (sort_on ord rows) in
      if length out > limit then (take limit out, True) else (out, False))"

text \<open>\<open>FromLedger\<close> and \<open>ToLedger\<close> of a query; 0 leaves the upper end open.\<close>

definition ledger_between :: "u32 \<Rightarrow> u32 \<Rightarrow> u32 \<Rightarrow> bool" where
  "ledger_between from to seq \<longleftrightarrow> uint seq \<ge> uint from \<and> (to > 0 \<longrightarrow> uint seq \<le> uint to)"

definition wildcard :: "string \<Rightarrow> string \<Rightarrow> bool" where
  "wildcard f v \<longleftrightarrow> f = '''' \<or> v = f"

section \<open>Events\<close>

record EventQuery =
  eq_ContractID :: string
  eq_Topics :: "string option list"
  eq_FromLedger :: u32
  eq_ToLedger :: u32
  eq_AfterID :: string
  eq_Limit :: nat

text \<open>\<open>topic<i> = $n\<close>; the column is NULL, which matches nothing, past the event's topics.\<close>

definition topics_match :: "string option list \<Rightarrow> string list \<Rightarrow> bool" where
  "topics_match filters topics \<longleftrightarrow>
     list_all (\<lambda>i. case filters ! i of None \<Rightarrow> True | Some t \<Rightarrow> i < length topics \<and> topics ! i = t)
       [0..<length filters]"

definition matching_events :: "string \<Rightarrow> EventQuery \<Rightarrow> db \<Rightarrow> Event list" where
  "matching_events network q d =
     map snd (filter (\<lambda>r. fst r = network \<and> ev_ContractID (snd r) = eq_ContractID q
        \<and> ledger_between (eq_FromLedger q) (eq_ToLedger q) (ev_LedgerSequence (snd r))
        \<and> topics_match (eq_Topics q) (ev_Topics (snd r))) (t_events d))"

definition QueryEvents :: "string \<Rightarrow> EventQuery \<Rightarrow> db \<Rightarrow> Event list \<times> bool" where
  "QueryEvents network q d = page ev_ID (eq_Limit q)
     (filter (\<lambda>e. eq_AfterID q = '''' \<or> eq_AfterID q < ev_ID e) (matching_events network q d))"

definition EventCountsByName :: "string \<Rightarrow> string \<Rightarrow> db \<Rightarrow> string \<Rightarrow> nat option" where
  "EventCountsByName network contractID d name =
     (let k = sql_count (\<lambda>r. fst r = network \<and> ev_ContractID (snd r) = contractID
                \<and> ev_EventName (snd r) = name) (t_events d)
      in if k = 0 then None else Some k)"

section \<open>State\<close>

record StateQuery =
  sq_ContractID :: string
  sq_KeyXDR :: string
  sq_FromLedger :: u32
  sq_ToLedger :: u32
  sq_AfterID :: string
  sq_AfterKey :: string
  sq_AfterDurability :: string
  sq_Limit :: nat

definition matching_state_entries :: "string \<Rightarrow> StateQuery \<Rightarrow> db \<Rightarrow> StateEntry list" where
  "matching_state_entries network q d =
     map snd (filter (\<lambda>r. fst r = network \<and> se_ContractID (snd r) = sq_ContractID q
        \<and> \<not> se_Deleted (snd r) \<and> wildcard (sq_KeyXDR q) (se_KeyXDR (snd r))) (t_state_entries d))"

definition QueryStateEntries :: "string \<Rightarrow> StateQuery \<Rightarrow> db \<Rightarrow> StateEntry list \<times> bool" where
  "QueryStateEntries network q d = page (\<lambda>e. (se_KeyXDR e, se_Durability e)) (sq_Limit q)
     (filter (\<lambda>e. sq_AfterKey q = '''' \<or> (sq_AfterKey q, sq_AfterDurability q) < (se_KeyXDR e, se_Durability e))
        (matching_state_entries network q d))"

definition matching_state_changes :: "string \<Rightarrow> StateQuery \<Rightarrow> db \<Rightarrow> StateChange list" where
  "matching_state_changes network q d =
     map snd (filter (\<lambda>r. fst r = network \<and> sc_ContractID (snd r) = sq_ContractID q
        \<and> ledger_between (sq_FromLedger q) (sq_ToLedger q) (sc_LedgerSequence (snd r))
        \<and> wildcard (sq_KeyXDR q) (sc_KeyXDR (snd r))) (t_state_changes d))"

definition QueryStateChanges :: "string \<Rightarrow> StateQuery \<Rightarrow> db \<Rightarrow> StateChange list \<times> bool" where
  "QueryStateChanges network q d = page sc_ID (sq_Limit q)
     (filter (\<lambda>c. sq_AfterID q = '''' \<or> sq_AfterID q < sc_ID c) (matching_state_changes network q d))"

definition CountStateEntries :: "string \<Rightarrow> string \<Rightarrow> db \<Rightarrow> nat" where
  "CountStateEntries network contractID d =
     sql_count (\<lambda>r. fst r = network \<and> se_ContractID (snd r) = contractID \<and> \<not> se_Deleted (snd r))
       (t_state_entries d)"

section \<open>Transfers\<close>

record TransferQuery =
  tq_ContractID :: string
  tq_Account :: string
  tq_From :: string
  tq_To :: string
  tq_TransferType :: string
  tq_FromLedger :: u32
  tq_ToLedger :: u32
  tq_AfterID :: string
  tq_Limit :: nat

definition matching_transfers :: "string \<Rightarrow> TransferQuery \<Rightarrow> db \<Rightarrow> Transfer list" where
  "matching_transfers network q d =
     map snd (filter (\<lambda>r. fst r = network \<and> tr_ContractID (snd r) = tq_ContractID q
        \<and> ledger_between (tq_FromLedger q) (tq_ToLedger q) (tr_LedgerSequence (snd r))
        \<and> wildcard (tq_TransferType q) (tr_TransferType (snd r))
        \<and> (tq_Account q = '''' \<or> tr_FromAddress (snd r) = tq_Account q \<or> tr_ToAddress (snd r) = tq_Account q)
        \<and> wildcard (tq_From q) (tr_FromAddress (snd r))
        \<and> wildcard (tq_To q) (tr_ToAddress (snd r))) (t_transfers d))"

definition QueryTransfers :: "string \<Rightarrow> TransferQuery \<Rightarrow> db \<Rightarrow> Transfer list \<times> bool" where
  "QueryTransfers network q d = page tr_ID (tq_Limit q)
     (filter (\<lambda>t. tq_AfterID q = '''' \<or> tq_AfterID q < tr_ID t) (matching_transfers network q d))"

section \<open>Trustlines\<close>

record TrustlineQuery =
  lq_ContractID :: string
  lq_AccountID :: string
  lq_FromLedger :: u32
  lq_ToLedger :: u32
  lq_AfterID :: string
  lq_AfterAccount :: string
  lq_Limit :: nat

definition matching_trustline_entries :: "string \<Rightarrow> TrustlineQuery \<Rightarrow> db \<Rightarrow> TrustlineEntry list" where
  "matching_trustline_entries network q d =
     map snd (filter (\<lambda>r. fst r = network \<and> te_ContractID (snd r) = lq_ContractID q
        \<and> \<not> te_Deleted (snd r) \<and> wildcard (lq_AccountID q) (te_AccountID (snd r))) (t_trustline_entries d))"

definition QueryTrustlineEntries :: "string \<Rightarrow> TrustlineQuery \<Rightarrow> db \<Rightarrow> TrustlineEntry list \<times> bool" where
  "QueryTrustlineEntries network q d = page te_AccountID (lq_Limit q)
     (filter (\<lambda>e. lq_AfterAccount q = '''' \<or> lq_AfterAccount q < te_AccountID e)
        (matching_trustline_entries network q d))"

definition matching_trustline_changes :: "string \<Rightarrow> TrustlineQuery \<Rightarrow> db \<Rightarrow> TrustlineChange list" where
  "matching_trustline_changes network q d =
     map snd (filter (\<lambda>r. fst r = network \<and> tc_ContractID (snd r) = lq_ContractID q
        \<and> ledger_between (lq_FromLedger q) (lq_ToLedger q) (tc_LedgerSequence (snd r))
        \<and> wildcard (lq_AccountID q) (tc_AccountID (snd r))) (t_trustline_changes d))"

definition QueryTrustlineChanges :: "string \<Rightarrow> TrustlineQuery \<Rightarrow> db \<Rightarrow> TrustlineChange list \<times> bool" where
  "QueryTrustlineChanges network q d = page tc_ID (lq_Limit q)
     (filter (\<lambda>c. lq_AfterID q = '''' \<or> lq_AfterID q < tc_ID c) (matching_trustline_changes network q d))"

section \<open>Movements\<close>

record MovementQuery =
  mq_ContractID :: string
  mq_Role :: string
  mq_Token :: string
  mq_Type :: string
  mq_FromLedger :: u32
  mq_ToLedger :: u32
  mq_AfterID :: string
  mq_AfterRole :: string
  mq_Limit :: nat

definition matching_movements :: "string \<Rightarrow> MovementQuery \<Rightarrow> db \<Rightarrow> Movement list" where
  "matching_movements network q d =
     map snd (filter (\<lambda>r. fst r = network \<and> mv_ContractID (snd r) = mq_ContractID q
        \<and> ledger_between (mq_FromLedger q) (mq_ToLedger q) (mv_LedgerSequence (snd r))
        \<and> wildcard (mq_Role q) (mv_Role (snd r)) \<and> wildcard (mq_Token q) (mv_TokenContractID (snd r))
        \<and> wildcard (mq_Type q) (mv_TransferType (snd r))) (t_movements d))"

definition QueryMovements :: "string \<Rightarrow> MovementQuery \<Rightarrow> db \<Rightarrow> Movement list \<times> bool" where
  "QueryMovements network q d = page (\<lambda>m. (mv_TransferID m, mv_Role m)) (mq_Limit q)
     (filter (\<lambda>m. mq_AfterID q = '''' \<or> (mq_AfterID q, mq_AfterRole q) < (mv_TransferID m, mv_Role m))
        (matching_movements network q d))"

section \<open>Interface: a query a cursor walks\<close>

text \<open>A client that asks for the first page and then, while the answer says more rows follow,
  for the page after the last row it got.\<close>

fun walk :: "('k \<Rightarrow> 'r list \<times> bool) \<Rightarrow> ('r \<Rightarrow> 'k) \<Rightarrow> nat \<Rightarrow> 'k \<Rightarrow> 'r list" where
  "walk query ord 0 after = []"
| "walk query ord (Suc n) after =
     (let p = query after in
      fst p @ (if snd p then walk query ord n (ord (last (fst p))) else []))"

lemma distinct_mapI: "distinct (map f xs) \<Longrightarrow> distinct xs"
  by (simp add: distinct_map)

lemma strict_tail:
  assumes "sorted_wrt (\<lambda>x y. f x < (f y :: 'k::linorder)) xs" and "i < length xs"
  shows "filter (\<lambda>x. f (xs ! i) < f x) xs = drop (Suc i) xs"
  using assms
proof (induction xs arbitrary: i)
  case (Cons x xs)
  show ?case
  proof (cases i)
    case 0
    then show ?thesis using Cons.prems by (simp add: filter_True)
  next
    case (Suc j)
    then have "f x < f (xs ! j)" using Cons.prems by simp
    then have "\<not> f (xs ! j) < f x" by (rule less_not_sym)
    then show ?thesis using Suc Cons by simp
  qed
qed simp

locale paged_query =
  fixes query :: "'k::linorder \<Rightarrow> 'r list \<times> bool" and ord :: "'r \<Rightarrow> 'k"
    and is_start :: "'k \<Rightarrow> bool" and rows :: "'r list" and limit :: nat
  assumes query_page: "query after = page ord limit (filter (\<lambda>r. is_start after \<or> after < ord r) rows)"
begin

lemma page_bounded: "length (fst (query after)) \<le> limit"
  by (simp add: query_page page_def Let_def)

lemma page_sound: "r \<in> set (fst (query after)) \<Longrightarrow> r \<in> set rows \<and> (is_start after \<or> after < ord r)"
  by (auto simp: query_page page_def Let_def dest!: in_set_takeD split: if_splits)

lemma walk_from:
  assumes "distinct (map ord rows)" and "\<forall>r\<in>set rows. \<not> is_start (ord r)" and "0 < limit"
    and "i \<le> length rows" and "i = 0 \<and> is_start a \<or> 0 < i \<and> a = ord (sort_on ord rows ! (i - 1))"
    and "length rows - i < n"
  shows "walk query ord n a = drop i (sort_on ord rows)"
  using assms(4-6)
proof (induction n arbitrary: i a)
  case (Suc n)
  define T where "T = sort_on ord rows"
  have len: "length T = length rows" and setT: "set T = set rows" by (simp_all add: T_def)
  have "distinct (map ord T)" using assms(1) by (simp add: T_def distinct_map)
  then have "sorted_wrt (<) (map ord T)" unfolding strict_sorted_iff by (simp add: T_def)
  then have strict: "sorted_wrt (\<lambda>x y. ord x < ord y) T" by (simp add: sorted_wrt_map)
  have rest: "sort_on ord (filter (\<lambda>r. is_start a \<or> a < ord r) rows) = drop i T"
  proof (cases "i = 0")
    case True
    then show ?thesis using Suc.prems by (simp add: T_def)
  next
    case False
    then have a: "a = ord (T ! (i - 1))" and lt: "i - 1 < length T"
      using Suc.prems len by (auto simp: T_def)
    then have "\<not> is_start a" using assms(2) setT nth_mem [OF lt] by simp
    have "sort_on ord (filter (\<lambda>r. is_start a \<or> a < ord r) rows) = filter (\<lambda>r. a < ord r) T"
      using \<open>\<not> is_start a\<close> by (simp add: T_def filter_sort)
    then show ?thesis using strict_tail [OF strict lt] a False by simp
  qed
  have q: "query a = (take limit (drop i T), limit < length T - i)"
    unfolding query_page page_def rest by (simp add: Let_def min_def)
  show ?case
  proof (cases "limit < length T - i")
    case True
    have last: "last (take limit (drop i T)) = T ! (i + limit - 1)"
      using True assms(3) by (simp add: last_conv_nth)
    have "walk query ord n (ord (T ! (i + limit - 1))) = drop (i + limit) T"
      unfolding T_def by (rule Suc.IH) (use True Suc.prems assms(3) len in \<open>auto simp: T_def\<close>)
    also have "drop (i + limit) T = drop limit (drop i T)" by (simp add: add.commute)
    finally show ?thesis
      using True q last by (simp add: T_def [symmetric] del: drop_drop)
  next
    case False
    then show ?thesis using q by (simp add: T_def)
  qed
qed simp

text \<open>The walk returns all matching rows, in order, each once; it needs no more pages than there
  are rows, plus one.\<close>

lemma walk_complete:
  assumes "distinct (map ord rows)" and "\<forall>r\<in>set rows. \<not> is_start (ord r)" and "0 < limit"
    and "is_start a" and "length rows < n"
  shows "walk query ord n a = sort_on ord rows"
  using walk_from [of 0 a n] assms by simp

end

text \<open>Every query of the store keeps the contract; the cursor of a row is its key.\<close>

interpretation event_pages: paged_query "\<lambda>a. QueryEvents n (q\<lparr>eq_AfterID := a\<rparr>) d" ev_ID
    "\<lambda>a. a = ''''" "matching_events n q d" "eq_Limit q" for n q d
  by unfold_locales (simp add: QueryEvents_def matching_events_def)

interpretation state_change_pages: paged_query "\<lambda>a. QueryStateChanges n (q\<lparr>sq_AfterID := a\<rparr>) d" sc_ID
    "\<lambda>a. a = ''''" "matching_state_changes n q d" "sq_Limit q" for n q d
  by unfold_locales (simp add: QueryStateChanges_def matching_state_changes_def)

interpretation state_entry_pages: paged_query
    "\<lambda>a. QueryStateEntries n (q\<lparr>sq_AfterKey := fst a, sq_AfterDurability := snd a\<rparr>) d"
    "\<lambda>e. (se_KeyXDR e, se_Durability e)" "\<lambda>a. fst a = ''''" "matching_state_entries n q d" "sq_Limit q"
  for n q d
  by unfold_locales (simp add: QueryStateEntries_def matching_state_entries_def)

interpretation transfer_pages: paged_query "\<lambda>a. QueryTransfers n (q\<lparr>tq_AfterID := a\<rparr>) d" tr_ID
    "\<lambda>a. a = ''''" "matching_transfers n q d" "tq_Limit q" for n q d
  by unfold_locales (simp add: QueryTransfers_def matching_transfers_def)

interpretation trustline_entry_pages: paged_query
    "\<lambda>a. QueryTrustlineEntries n (q\<lparr>lq_AfterAccount := a\<rparr>) d" te_AccountID
    "\<lambda>a. a = ''''" "matching_trustline_entries n q d" "lq_Limit q" for n q d
  by unfold_locales (simp add: QueryTrustlineEntries_def matching_trustline_entries_def)

interpretation trustline_change_pages: paged_query
    "\<lambda>a. QueryTrustlineChanges n (q\<lparr>lq_AfterID := a\<rparr>) d" tc_ID
    "\<lambda>a. a = ''''" "matching_trustline_changes n q d" "lq_Limit q" for n q d
  by unfold_locales (simp add: QueryTrustlineChanges_def matching_trustline_changes_def)

interpretation movement_pages: paged_query
    "\<lambda>a. QueryMovements n (q\<lparr>mq_AfterID := fst a, mq_AfterRole := snd a\<rparr>) d"
    "\<lambda>m. (mv_TransferID m, mv_Role m)" "\<lambda>a. fst a = ''''" "matching_movements n q d" "mq_Limit q"
  for n q d
  by unfold_locales (simp add: QueryMovements_def matching_movements_def)

text \<open>Event pages, walked from the start.\<close>

lemma events_walk:
  assumes "distinct (map event_pk (t_events d))" and "\<forall>r\<in>set (t_events d). ev_ID (snd r) \<noteq> ''''"
    and "0 < eq_Limit q" and "length (matching_events n q d) < pages"
  shows "walk (\<lambda>a. QueryEvents n (q\<lparr>eq_AfterID := a\<rparr>) d) ev_ID pages '''' =
    sort_key ev_ID (matching_events n q d)"
proof (rule event_pages.walk_complete)
  let ?P = "\<lambda>r. fst r = n \<and> ev_ContractID (snd r) = eq_ContractID q
        \<and> ledger_between (eq_FromLedger q) (eq_ToLedger q) (ev_LedgerSequence (snd r))
        \<and> topics_match (eq_Topics q) (ev_Topics (snd r))"
  have "distinct (map event_pk (filter ?P (t_events d)))"
    using assms(1) by (rule distinct_map_filter)
  moreover have "map event_pk (filter ?P (t_events d)) = map (Pair n) (map ev_ID (matching_events n q d))"
    by (auto simp: matching_events_def event_pk_def)
  ultimately show "distinct (map ev_ID (matching_events n q d))" by (metis distinct_mapI)
  show "\<forall>r\<in>set (matching_events n q d). ev_ID r \<noteq> ''''"
    using assms(2) by (auto simp: matching_events_def)
qed (use assms in auto)

section \<open>Properties\<close>

text \<open>Paging through events loses nothing and repeats nothing. Following \<open>AfterID\<close> from
  page to page, with any positive limit, returns exactly the matching events of the contract in id
  order, each once, after at most one page per event.\<close>

theorem QueryEvents_walk:
  assumes "distinct (map event_pk (t_events d))" and "\<forall>r\<in>set (t_events d). ev_ID (snd r) \<noteq> ''''"
    and "0 < eq_Limit q" and "length (matching_events n q d) < pages"
  shows "walk (\<lambda>a. QueryEvents n (q\<lparr>eq_AfterID := a\<rparr>) d) ev_ID pages '''' =
    sort_key ev_ID (matching_events n q d)"
  by (rule events_walk [OF assms])

definition demo_events :: db where
  "demo_events = empty_db\<lparr>t_events := [(''testnet'', demo_event ''3'' 7), (''testnet'', demo_event ''1'' 5),
     (''testnet'', demo_event ''2'' 6)]\<rparr>"

definition demo_query :: EventQuery where
  "demo_query = \<lparr>eq_ContractID = ''C'', eq_Topics = [None, None, None, None], eq_FromLedger = 0,
     eq_ToLedger = 0, eq_AfterID = '''', eq_Limit = 2\<rparr>"

theorem QueryEvents_walk_witness:
  "walk (\<lambda>a. QueryEvents ''testnet'' (demo_query\<lparr>eq_AfterID := a\<rparr>) demo_events) ev_ID 4 '''' =
    sort_key ev_ID (matching_events ''testnet'' demo_query demo_events)
   \<and> length (matching_events ''testnet'' demo_query demo_events) = 3"
proof -
  have len: "length (matching_events ''testnet'' demo_query demo_events) = 3"
    by (simp add: matching_events_def demo_query_def demo_events_def demo_event_def ledger_between_def
        topics_match_def upt_rec numeral_nat)
  then show ?thesis
    using QueryEvents_walk [of demo_events demo_query "''testnet''" 4]
    by (simp add: demo_events_def demo_query_def demo_event_def event_pk_def)
qed

text \<open>Paging through movements needs the pair. A self-transfer is one event with two
  attributions, so the cursor carries the event id and the role; with it the walk returns every
  matching movement once.\<close>

theorem QueryMovements_walk:
  assumes "distinct (map movement_key (t_movements d))"
    and "\<forall>r\<in>set (t_movements d). mv_TransferID (snd r) \<noteq> ''''"
    and "0 < mq_Limit q" and "length (matching_movements n q d) < pages"
  shows "walk (\<lambda>a. QueryMovements n (q\<lparr>mq_AfterID := fst a, mq_AfterRole := snd a\<rparr>) d)
      (\<lambda>m. (mv_TransferID m, mv_Role m)) pages ('''', '''') =
    sort_key (\<lambda>m. (mv_TransferID m, mv_Role m)) (matching_movements n q d)"
proof (rule movement_pages.walk_complete)
  let ?P = "\<lambda>r. fst r = n \<and> mv_ContractID (snd r) = mq_ContractID q
        \<and> ledger_between (mq_FromLedger q) (mq_ToLedger q) (mv_LedgerSequence (snd r))
        \<and> wildcard (mq_Role q) (mv_Role (snd r)) \<and> wildcard (mq_Token q) (mv_TokenContractID (snd r))
        \<and> wildcard (mq_Type q) (mv_TransferType (snd r))"
  have "distinct (map movement_key (filter ?P (t_movements d)))"
    using assms(1) by (rule distinct_map_filter)
  moreover have "map movement_key (filter ?P (t_movements d)) =
      map (\<lambda>k. (n, mq_ContractID q, k)) (map (\<lambda>m. (mv_TransferID m, mv_Role m)) (matching_movements n q d))"
    by (auto simp: matching_movements_def movement_key_def)
  ultimately have "distinct (map (\<lambda>k. (n, mq_ContractID q, k))
      (map (\<lambda>m. (mv_TransferID m, mv_Role m)) (matching_movements n q d)))" by (simp only:)
  then show "distinct (map (\<lambda>m. (mv_TransferID m, mv_Role m)) (matching_movements n q d))"
    by (rule distinct_mapI)
  show "\<forall>r\<in>set (matching_movements n q d). fst (mv_TransferID r, mv_Role r) \<noteq> ''''"
    using assms(2) by (auto simp: matching_movements_def)
qed (use assms in auto)

definition demo_movement :: "string \<Rightarrow> string \<Rightarrow> Movement" where
  "demo_movement i role = \<lparr>mv_ContractID = ''C'', mv_TransferID = i, mv_Role = role, mv_TokenContractID = ''T'',
     mv_TransferType = ''transfer'', mv_Counterparty = ''C'', mv_Amount = ''5'', mv_RawXDR = ''x'',
     mv_LedgerSequence = 9, mv_ClosedAt = 0\<rparr>"

definition demo_movements :: db where
  "demo_movements = empty_db\<lparr>t_movements := [(''testnet'', demo_movement ''9'' ''recipient''),
     (''testnet'', demo_movement ''9'' ''sender'')]\<rparr>"

definition demo_movement_query :: MovementQuery where
  "demo_movement_query = \<lparr>mq_ContractID = ''C'', mq_Role = '''', mq_Token = '''', mq_Type = '''',
     mq_FromLedger = 0, mq_ToLedger = 0, mq_AfterID = '''', mq_AfterRole = '''', mq_Limit = 1\<rparr>"

theorem QueryMovements_walk_witness:
  "length (walk (\<lambda>a. QueryMovements ''testnet''
        (demo_movement_query\<lparr>mq_AfterID := fst a, mq_AfterRole := snd a\<rparr>) demo_movements)
      (\<lambda>m. (mv_TransferID m, mv_Role m)) 3 ('''', '''')) = 2"
proof -
  have len: "length (matching_movements ''testnet'' demo_movement_query demo_movements) = 2"
    by (simp add: matching_movements_def demo_movement_query_def demo_movements_def demo_movement_def
        ledger_between_def wildcard_def)
  have "distinct (map movement_key (t_movements demo_movements))"
    "\<forall>r\<in>set (t_movements demo_movements). mv_TransferID (snd r) \<noteq> ''''" "0 < mq_Limit demo_movement_query"
    by (simp_all add: demo_movements_def demo_movement_def movement_key_def demo_movement_query_def)
  from QueryMovements_walk [OF this, of "''testnet''" 3] len show ?thesis by simp
qed

end
