(* ===== verification/Store_Backfill.thy ===== *)
theory Store_Backfill
  imports Store_Queries
begin

text \<open>
  Registrations and their descending walks: \<^verbatim>\<open>internal/store/contracts.go\<close> and
  \<^verbatim>\<open>internal/store/backfill.go\<close>. The lemmas show that registering is a reconciliation
  (doing it twice is doing it once), that a row never vouches for a kind its registration does not
  derive, and that a walk's progress is written only together with its rows.
\<close>

section \<open>Registrations\<close>

definition jsonbParam :: "string option \<Rightarrow> string option" where
  "jsonbParam raw = (case raw of None \<Rightarrow> None | Some s \<Rightarrow> if s = '''' then None else Some s)"

definition is_contract :: "string \<Rightarrow> string \<Rightarrow> Contract \<Rightarrow> bool" where
  "is_contract network contractID c \<longleftrightarrow> ct_Network c = network \<and> ct_ContractID c = contractID"

definition UpsertContract :: "Contract \<Rightarrow> int \<Rightarrow> db \<Rightarrow> Contract \<times> db" where
  "UpsertContract c now d =
     (let p = is_contract (ct_Network c) (ct_ContractID c) in
      case find p (t_contracts d) of
        None \<Rightarrow> (let r = c\<lparr>ct_Classification := jsonbParam (ct_Classification c), ct_RegisteredAt := now\<rparr>
                 in (r, d\<lparr>t_contracts := t_contracts d @ [r]\<rparr>))
      | Some old \<Rightarrow>
          (let upd = (\<lambda>o'. o'\<lparr>ct_Source := ct_Source c, ct_Kinds := ct_Kinds c,
              ct_Classification := (case jsonbParam (ct_Classification c) of
                 None \<Rightarrow> ct_Classification o' | Some j \<Rightarrow> Some j)\<rparr>)
           in (upd old, d\<lparr>t_contracts := sql_update p upd (t_contracts d)\<rparr>)))"

definition is_backfill :: "string \<Rightarrow> string \<Rightarrow> backfill_row \<Rightarrow> bool" where
  "is_backfill network contractID b \<longleftrightarrow> br_network b = network \<and> br_contract_id b = contractID"

definition DeleteContract :: "string \<Rightarrow> string \<Rightarrow> db \<Rightarrow> bool \<times> db" where
  "DeleteContract network contractID d =
     (sql_count (is_contract network contractID) (t_contracts d) > 0,
      d\<lparr>t_backfill := sql_delete (is_backfill network contractID) (t_backfill d),
        t_contracts := sql_delete (is_contract network contractID) (t_contracts d)\<rparr>)"

definition GetContract :: "string \<Rightarrow> string \<Rightarrow> db \<Rightarrow> store_error + Contract" where
  "GetContract network contractID d =
     (case find (is_contract network contractID) (t_contracts d) of
        None \<Rightarrow> Inl ErrNoContract | Some c \<Rightarrow> Inr c)"

definition ListContracts :: "string \<Rightarrow> db \<Rightarrow> Contract list" where
  "ListContracts network d =
     sort_on (\<lambda>c. (ct_RegisteredAt c, ct_ContractID c))
       (filter (\<lambda>c. ct_Network c = network) (t_contracts d))"

section \<open>Backfill state\<close>

definition CoversKind :: "Backfill \<Rightarrow> string \<Rightarrow> bool" where
  "CoversKind b kind \<longleftrightarrow> list_ex (\<lambda>k. k = kind) (b_CoveredKinds b)"

definition intersect :: "string list \<Rightarrow> string list \<Rightarrow> string list" where
  "intersect covered kinds = filter (\<lambda>k. k \<in> set kinds) covered"

definition coversAll :: "Backfill \<Rightarrow> string list \<Rightarrow> bool" where
  "coversAll b kinds \<longleftrightarrow> list_all (CoversKind b) kinds"

text \<open>The columns \<open>EnsureBackfill\<close> reads.\<close>

definition scan_backfill :: "backfill_row \<Rightarrow> Backfill" where
  "scan_backfill r = \<lparr>b_ContractID = br_contract_id r, b_TargetFrom = word_of_int (br_target_from r),
     b_NextTo = word_of_int (br_next_to r), b_Done = br_done r,
     b_ClampedAt = map_option word_of_int (br_clamped_at r), b_CoveredKinds = br_covered_kinds r\<rparr>"

definition reopenDeferrals :: "string \<Rightarrow> u32 \<Rightarrow> u32 \<Rightarrow> db \<Rightarrow> db" where
  "reopenDeferrals network targetFrom nextTo d =
     (if nextTo < targetFrom then d else snd (ReopenGaps network targetFrom nextTo d))"

definition EnsureBackfill ::
  "string \<Rightarrow> string \<Rightarrow> u32 \<Rightarrow> u32 \<Rightarrow> string list \<Rightarrow> int \<Rightarrow> db \<Rightarrow> db"
where
  "EnsureBackfill network contractID targetFrom nextTo kinds now d =
     (case find (is_backfill network contractID) (t_backfill d) of
        None \<Rightarrow>
          (let d = reopenDeferrals network targetFrom nextTo d in
           d\<lparr>t_backfill := t_backfill d @
              [\<lparr>br_network = network, br_contract_id = contractID, br_target_from = uint targetFrom,
                br_next_to = uint nextTo, br_done = (nextTo < targetFrom), br_clamped_at = None,
                br_covered_kinds = kinds, br_updated_at = now\<rparr>]\<rparr>)
      | Some row \<Rightarrow>
          (let current = scan_backfill row;
               extends = (targetFrom < b_TargetFrom current);
               newKinds = (\<not> coversAll current kinds);
               covered = intersect (b_CoveredKinds current) kinds;
               narrowed = (length covered \<noteq> length (b_CoveredKinds current))
           in if \<not> extends \<and> \<not> newKinds \<and> \<not> narrowed then d
              else let target = (if extends then targetFrom else b_TargetFrom current);
                       next = (if newKinds then nextTo else b_NextTo current)
              in if \<not> extends \<and> \<not> newKinds
                 then d\<lparr>t_backfill := sql_update (is_backfill network contractID)
                        (\<lambda>b. b\<lparr>br_covered_kinds := covered, br_updated_at := now\<rparr>) (t_backfill d)\<rparr>
                 else let d = reopenDeferrals network targetFrom nextTo d in
                      d\<lparr>t_backfill := sql_update (is_backfill network contractID)
                        (\<lambda>b. b\<lparr>br_target_from := uint target, br_next_to := uint next, br_done := False,
                               br_clamped_at := None, br_covered_kinds := kinds, br_updated_at := now\<rparr>)
                        (t_backfill d)\<rparr>))"

definition GetBackfill :: "string \<Rightarrow> string \<Rightarrow> db \<Rightarrow> store_error + Backfill" where
  "GetBackfill network contractID d =
     (case find (is_backfill network contractID) (t_backfill d) of
        None \<Rightarrow> Inl ErrNoBackfill
      | Some r \<Rightarrow> Inr (scan_backfill r))"

text \<open>\<open>clamped_at\<close> and \<open>covered_kinds\<close> are not among the columns of the list.\<close>

definition ListPendingBackfills :: "string \<Rightarrow> db \<Rightarrow> BackfillJob list" where
  "ListPendingBackfills network d =
     map (\<lambda>bc. \<lparr>j_Backfill = (scan_backfill (fst bc))\<lparr>b_ClampedAt := None, b_CoveredKinds := []\<rparr>,
                j_Contract = snd bc\<rparr>)
       (sort_on (\<lambda>bc. br_updated_at (fst bc))
         [(b, c). b \<leftarrow> t_backfill d, br_network b = network \<and> \<not> br_done b,
                  c \<leftarrow> t_contracts d, ct_Network c = br_network b \<and> ct_ContractID c = br_contract_id b])"

definition CountPendingBackfills :: "string \<Rightarrow> db \<Rightarrow> nat" where
  "CountPendingBackfills network d =
     sql_count (\<lambda>b. br_network b = network \<and> \<not> br_done b) (t_backfill d)"

definition CommitBackfillChunk ::
  "string \<Rightarrow> Backfill \<Rightarrow> partitioned \<Rightarrow> int \<Rightarrow> db \<Rightarrow> store_error + db"
where
  "CommitBackfillChunk network b rows now d =
     andThen (persist_rows network rows d) (\<lambda>d.
       if sql_count (is_backfill network (b_ContractID b)) (t_backfill d) = 0
       then Inl (BackfillVanished (b_ContractID b))
       else Inr (d\<lparr>t_backfill := sql_update (is_backfill network (b_ContractID b))
              (\<lambda>r. r\<lparr>br_next_to := uint (b_NextTo b), br_done := b_Done b,
                     br_clamped_at := map_option uint (b_ClampedAt b), br_updated_at := now\<rparr>)
              (t_backfill d)\<rparr>))"

section \<open>Lemmas\<close>

lemma find_sql_update:
  assumes "\<And>r. P r \<Longrightarrow> P (f r)"
  shows "find P (sql_update P f tbl) = map_option f (find P tbl)"
  using assms by (induction tbl) (auto simp: sql_update_def)

lemma find_update_backfill:
  assumes "\<And>r. br_network (f r) = br_network r \<and> br_contract_id (f r) = br_contract_id r"
  shows "find (is_backfill n c) (sql_update (is_backfill n c) f tbl) = map_option f (find (is_backfill n c) tbl)"
  by (rule find_sql_update) (simp add: is_backfill_def assms)

lemma find_append_one:
  "find P (tbl @ [r]) = (case find P tbl of None \<Rightarrow> if P r then Some r else None | Some q \<Rightarrow> Some q)"
  by (induction tbl) auto

lemma coversAll_iff: "coversAll b kinds \<longleftrightarrow> set kinds \<subseteq> set (b_CoveredKinds b)"
  by (auto simp: coversAll_def CoversKind_def list_all_iff list_ex_iff)

lemma intersect_set [simp]: "set (intersect covered kinds) = set covered \<inter> set kinds"
  by (auto simp: intersect_def)

lemma intersect_length: "length (intersect covered kinds) = length covered \<longleftrightarrow> set covered \<subseteq> set kinds"
  by (metis (mono_tags, lifting) filter_True intersect_def length_filter_less less_irrefl subset_code(1))

lemma reopenDeferrals_backfill [simp]: "t_backfill (reopenDeferrals n f t d) = t_backfill d"
  by (simp add: reopenDeferrals_def ReopenGaps_def)

text \<open>A row that already grants the request is left alone.\<close>

definition grants :: "u32 \<Rightarrow> string list \<Rightarrow> backfill_row \<Rightarrow> bool" where
  "grants targetFrom kinds r \<longleftrightarrow>
     (word_of_int (br_target_from r) :: u32) \<le> targetFrom \<and> set (br_covered_kinds r) = set kinds"

lemma EnsureBackfill_granted:
  assumes "find (is_backfill n c) (t_backfill d) = Some r" and "grants tf kinds r"
  shows "EnsureBackfill n c tf nt kinds now d = d"
  using assms
  by (simp add: EnsureBackfill_def grants_def scan_backfill_def coversAll_iff intersect_length Let_def not_less)

lemma EnsureBackfill_grants:
  "\<exists>r. find (is_backfill n c) (t_backfill (EnsureBackfill n c tf nt kinds now d)) = Some r \<and> grants tf kinds r"
proof (cases "find (is_backfill n c) (t_backfill d)")
  case None
  then show ?thesis
    by (simp add: EnsureBackfill_def Let_def find_append_one is_backfill_def grants_def)
next
  case (Some row)
  let ?cur = "scan_backfill row"
  show ?thesis
  proof (cases "tf < b_TargetFrom ?cur \<or> \<not> coversAll ?cur kinds")
    case True
    then have "t_backfill (EnsureBackfill n c tf nt kinds now d) =
        sql_update (is_backfill n c)
          (\<lambda>b. b\<lparr>br_target_from := uint (if tf < b_TargetFrom ?cur then tf else b_TargetFrom ?cur),
                 br_next_to := uint (if \<not> coversAll ?cur kinds then nt else b_NextTo ?cur), br_done := False,
                 br_clamped_at := None, br_covered_kinds := kinds, br_updated_at := now\<rparr>) (t_backfill d)"
      using Some by (auto simp: EnsureBackfill_def Let_def)
    then show ?thesis using Some by (simp add: find_update_backfill grants_def not_less)
  next
    case False
    then have sub: "set kinds \<subseteq> set (br_covered_kinds row)" and le: "(word_of_int (br_target_from row) :: u32) \<le> tf"
      by (auto simp: coversAll_iff scan_backfill_def not_less)
    show ?thesis
    proof (cases "set (br_covered_kinds row) \<subseteq> set kinds")
      case True
      then have "grants tf kinds row" using sub le by (auto simp: grants_def)
      then show ?thesis using Some EnsureBackfill_granted [OF Some] by simp
    next
      case no: False
      then have "EnsureBackfill n c tf nt kinds now d =
          d\<lparr>t_backfill := sql_update (is_backfill n c)
             (\<lambda>b. b\<lparr>br_covered_kinds := intersect (br_covered_kinds row) kinds, br_updated_at := now\<rparr>) (t_backfill d)\<rparr>"
        using Some False by (simp add: EnsureBackfill_def Let_def intersect_length scan_backfill_def)
      then show ?thesis using Some sub le
        by (auto simp: find_update_backfill grants_def)
    qed
  qed
qed

section \<open>Interface: the registrations the rest of the program reads\<close>

text \<open>A keyed set of registrations: what is read back after a write or a removal.\<close>

locale keyed_registrations =
  fixes get :: "'k \<Rightarrow> 's \<Rightarrow> 'v option" and put :: "'v \<Rightarrow> 's \<Rightarrow> 's" and del :: "'k \<Rightarrow> 's \<Rightarrow> 's"
    and key :: "'v \<Rightarrow> 'k" and merged :: "'v option \<Rightarrow> 'v \<Rightarrow> 'v"
  assumes get_put: "get k (put v s) = (if key v = k then Some (merged (get k s) v) else get k s)"
    and get_del: "get k (del k' s) = (if k = k' then None else get k s)"
    and merge_idem: "merged (Some (merged prev v)) v = merged prev v"
begin

lemma put_twice: "get k (put v (put v s)) = get k (put v s)"
  by (simp add: get_put merge_idem)

lemma put_other: "key v \<noteq> k \<Longrightarrow> get k (put v s) = get k s"
  by (simp add: get_put)

lemma put_fresh_after_del: "get (key v) (put v (del (key v) s)) = Some (merged None v)"
  by (simp add: get_put get_del)

end

definition merge_contract :: "int \<Rightarrow> Contract option \<Rightarrow> Contract \<Rightarrow> Contract" where
  "merge_contract now prev c =
     (case prev of
        None \<Rightarrow> c\<lparr>ct_Classification := jsonbParam (ct_Classification c), ct_RegisteredAt := now\<rparr>
      | Some q \<Rightarrow> q\<lparr>ct_Source := ct_Source c, ct_Kinds := ct_Kinds c,
          ct_Classification := (case jsonbParam (ct_Classification c) of
             None \<Rightarrow> ct_Classification q | Some j \<Rightarrow> Some j)\<rparr>)"

definition stored_contract :: "string \<times> string \<Rightarrow> db \<Rightarrow> Contract option" where
  "stored_contract k d = find (is_contract (fst k) (snd k)) (t_contracts d)"

lemma find_update_other:
  assumes "\<And>r. P r \<Longrightarrow> \<not> Q r" and "\<And>r. P r \<Longrightarrow> \<not> Q (f r)"
  shows "find Q (sql_update P f tbl) = find Q tbl"
  using assms by (induction tbl) (auto simp: sql_update_def)

lemma find_delete:
  "find Q (sql_delete P tbl) = find (\<lambda>r. Q r \<and> \<not> P r) tbl"
  by (induction tbl) (auto simp: sql_delete_def)

lemma is_contract_same: "is_contract n c r \<Longrightarrow> is_contract n' c' r \<Longrightarrow> (n, c) = (n', c')"
  by (simp add: is_contract_def)

lemma stored_UpsertContract:
  "stored_contract k (snd (UpsertContract c now d)) =
     (if (ct_Network c, ct_ContractID c) = k then Some (merge_contract now (stored_contract k d) c)
      else stored_contract k d)"
proof (cases "(ct_Network c, ct_ContractID c) = k")
  case True
  then have k: "fst k = ct_Network c" "snd k = ct_ContractID c" by auto
  show ?thesis
  proof (cases "find (is_contract (ct_Network c) (ct_ContractID c)) (t_contracts d)")
    case None
    then show ?thesis using True k
      by (simp add: UpsertContract_def stored_contract_def Let_def find_append_one merge_contract_def
          is_contract_def)
  next
    case (Some old)
    have "find (is_contract (ct_Network c) (ct_ContractID c))
        (sql_update (is_contract (ct_Network c) (ct_ContractID c)) f (t_contracts d)) = Some (f old)"
      if "\<And>r. ct_Network (f r) = ct_Network r \<and> ct_ContractID (f r) = ct_ContractID r" for f
      using find_sql_update [of "is_contract (ct_Network c) (ct_ContractID c)" f] Some that
      by (simp add: is_contract_def)
    then show ?thesis using True k Some
      by (simp add: UpsertContract_def stored_contract_def Let_def merge_contract_def)
  qed
next
  case False
  then have apart: "\<not> is_contract (fst k) (snd k) r" if "is_contract (ct_Network c) (ct_ContractID c) r" for r
    using that by (cases k) (auto simp: is_contract_def)
  show ?thesis
  proof (cases "find (is_contract (ct_Network c) (ct_ContractID c)) (t_contracts d)")
    case None
    have "\<not> is_contract (fst k) (snd k) (c\<lparr>ct_Classification := j, ct_RegisteredAt := now\<rparr>)" for j
      by (rule apart) (simp add: is_contract_def)
    then show ?thesis using None False
      by (simp add: UpsertContract_def stored_contract_def Let_def find_append_one split: option.splits)
  next
    case (Some old)
    have "find (is_contract (fst k) (snd k))
        (sql_update (is_contract (ct_Network c) (ct_ContractID c)) f (t_contracts d)) =
        find (is_contract (fst k) (snd k)) (t_contracts d)"
      if "\<And>r. ct_Network (f r) = ct_Network r \<and> ct_ContractID (f r) = ct_ContractID r" for f
      by (rule find_update_other) (use apart that in \<open>auto simp: is_contract_def\<close>)
    then show ?thesis using Some False by (simp add: UpsertContract_def stored_contract_def Let_def)
  qed
qed

lemma stored_DeleteContract:
  "stored_contract k (snd (DeleteContract (fst k') (snd k') d)) = (if k = k' then None else stored_contract k d)"
proof -
  have "(\<lambda>r. is_contract (fst k) (snd k) r \<and> \<not> is_contract (fst k') (snd k') r) =
      (if k = k' then (\<lambda>_. False) else is_contract (fst k) (snd k))"
    by (cases k; cases k') (auto simp: is_contract_def fun_eq_iff)
  then show ?thesis
    by (simp add: stored_contract_def DeleteContract_def find_delete find_None_iff)
qed

interpretation contracts: keyed_registrations stored_contract "\<lambda>c d. snd (UpsertContract c now d)"
    "\<lambda>k d. snd (DeleteContract (fst k) (snd k) d)" "\<lambda>c. (ct_Network c, ct_ContractID c)" "merge_contract now"
  for now
proof unfold_locales
  show "merge_contract now (Some (merge_contract now p v)) v = merge_contract now p v" for p v
    by (simp add: merge_contract_def split: option.splits)
qed (rule stored_UpsertContract, rule stored_DeleteContract)

section \<open>Properties\<close>

text \<open>Registrations read back what was written. After \<open>UpsertContract\<close>, \<open>GetContract\<close>
  returns the returned row, with the kinds and source of the request, the first registration time,
  and the stored classification when the request carries none; other registrations are untouched;
  after \<open>DeleteContract\<close> the contract and its backfill row are gone.\<close>

theorem registration_roundtrip:
  fixes c :: Contract and d :: db and now :: int
  defines "n \<equiv> ct_Network c" and "i \<equiv> ct_ContractID c" and "d' \<equiv> snd (UpsertContract c now d)"
  shows "\<exists>r. GetContract n i d' = Inr r \<and> ct_Kinds r = ct_Kinds c \<and> ct_Source r = ct_Source c
    \<and> (\<forall>old. GetContract n i d = Inr old \<longrightarrow> ct_RegisteredAt r = ct_RegisteredAt old
         \<and> (jsonbParam (ct_Classification c) = None \<longrightarrow> ct_Classification r = ct_Classification old))
    \<and> (\<forall>n' i'. (n', i') \<noteq> (n, i) \<longrightarrow> GetContract n' i' d' = GetContract n' i' d)
    \<and> GetContract n i (snd (DeleteContract n i d)) = Inl ErrNoContract
    \<and> GetBackfill n i (snd (DeleteContract n i d)) = Inl ErrNoBackfill"
proof -
  have get: "GetContract n i d = (case stored_contract (n, i) d of None \<Rightarrow> Inl ErrNoContract | Some c \<Rightarrow> Inr c)"
    for n i d by (simp add: GetContract_def stored_contract_def)
  have mine: "stored_contract (n, i) d' = Some (merge_contract now (stored_contract (n, i) d) c)"
    using contracts.get_put [where k = "(n, i)" and v = c and s = d and now = now]
    by (simp add: d'_def n_def i_def)
  have other: "stored_contract k d' = stored_contract k d" if "k \<noteq> (n, i)" for k
    using contracts.put_other [where k = k and v = c and s = d and now = now] that
    by (auto simp: d'_def n_def i_def)
  have gone: "stored_contract (n, i) (snd (DeleteContract n i d)) = None"
    using contracts.get_del [where k = "(n, i)" and k' = "(n, i)" and s = d] by simp
  have "GetBackfill n i (snd (DeleteContract n i d)) = Inl ErrNoBackfill"
    by (simp add: GetBackfill_def DeleteContract_def find_delete find_None_iff split: option.splits)
  then show ?thesis
    using mine gone by (simp add: get other merge_contract_def split: option.splits)
qed

definition demo_contract :: Contract where
  "demo_contract = \<lparr>ct_Network = ''testnet'', ct_ContractID = ''C'', ct_Source = SourceAPI,
     ct_Kinds = [KindEvents, KindState], ct_Classification = None, ct_RegisteredAt = 0\<rparr>"

theorem registration_roundtrip_witness:
  "\<exists>r. GetContract ''testnet'' ''C'' (snd (UpsertContract demo_contract 5 empty_db)) = Inr r
    \<and> ct_Kinds r = [KindEvents, KindState]"
  using registration_roundtrip [of demo_contract 5 empty_db] by (auto simp: demo_contract_def)

text \<open>Registering is a reconciliation. Repeating a registration, at any later time and from any
  later anchor, leaves the whole database as the first one left it: progress, clamps, plans and gaps
  included.\<close>

theorem EnsureBackfill_twice:
  "EnsureBackfill n c targetFrom nextTo' kinds later (EnsureBackfill n c targetFrom nextTo kinds now d) =
     EnsureBackfill n c targetFrom nextTo kinds now d"
proof -
  obtain r where "find (is_backfill n c) (t_backfill (EnsureBackfill n c targetFrom nextTo kinds now d)) = Some r"
    "grants targetFrom kinds r" using EnsureBackfill_grants by blast
  then show ?thesis by (rule EnsureBackfill_granted)
qed

text \<open>C11: a walk vouches only for what it walks. After a registration the contract's row covers
  exactly the requested kinds down to a target at or below the requested one; a kind it did not
  cover before is covered by a walk restarted at the new anchor, unclamped, and finished only when
  there is no history to walk.\<close>

theorem EnsureBackfill_honest:
  assumes "find (is_backfill n c) (t_backfill (EnsureBackfill n c targetFrom nextTo kinds now d)) = Some r"
  shows "set (br_covered_kinds r) = set kinds \<and> (word_of_int (br_target_from r) :: u32) \<le> targetFrom
    \<and> (\<forall>k\<in>set kinds. (\<exists>old. find (is_backfill n c) (t_backfill d) = Some old \<and> k \<in> set (br_covered_kinds old))
        \<or> br_next_to r = uint nextTo \<and> br_clamped_at r = None \<and> (br_done r \<longrightarrow> nextTo < targetFrom))"
proof -
  have g: "grants targetFrom kinds r"
    using EnsureBackfill_grants [of n c targetFrom nextTo kinds now d] assms by auto
  have "br_next_to r = uint nextTo \<and> br_clamped_at r = None \<and> (br_done r \<longrightarrow> nextTo < targetFrom)"
    if k: "k \<in> set kinds" "\<forall>old. find (is_backfill n c) (t_backfill d) = Some old \<longrightarrow> k \<notin> set (br_covered_kinds old)" for k
  proof (cases "find (is_backfill n c) (t_backfill d)")
    case None
    then show ?thesis using assms
      by (auto simp: EnsureBackfill_def Let_def find_append_one is_backfill_def split: if_splits)
  next
    case (Some row)
    then have "\<not> coversAll (scan_backfill row) kinds" using k by (auto simp: coversAll_iff scan_backfill_def)
    then show ?thesis using Some assms by (auto simp: EnsureBackfill_def Let_def find_update_backfill)
  qed
  with g show ?thesis unfolding grants_def by blast
qed

theorem EnsureBackfill_honest_witness:
  "\<exists>r. find (is_backfill ''testnet'' ''C'')
        (t_backfill (EnsureBackfill ''testnet'' ''C'' 10 500 [KindEvents] 7 demo_db)) = Some r
    \<and> set (br_covered_kinds r) = {KindEvents}"
proof -
  obtain r where "find (is_backfill ''testnet'' ''C'')
      (t_backfill (EnsureBackfill ''testnet'' ''C'' 10 500 [KindEvents] 7 demo_db)) = Some r"
    using EnsureBackfill_grants by blast
  from this EnsureBackfill_honest [OF this] show ?thesis by auto
qed

text \<open>A registration is owed the gaps of the history it asks for. When a registration asks for
  something its row does not already grant, every declared ledger between its target and its anchor
  is afterwards owed by a gap in replay mode and none of it is deferred.\<close>

theorem EnsureBackfill_reopens:
  assumes "wf_gaps (t_gaps d)" and "open_disjoint n (t_gaps d)" and "targetFrom \<le> nextTo"
    and "\<forall>row. find (is_backfill n c) (t_backfill d) = Some row \<longrightarrow>
      targetFrom < word_of_int (br_target_from row) \<or> \<not> set kinds \<subseteq> set (br_covered_kinds row)"
  shows "{uint targetFrom..uint nextTo} \<inter> declared n (t_gaps d)
      \<subseteq> owed_in n HealModeReplay (t_gaps (EnsureBackfill n c targetFrom nextTo kinds now d))"
proof -
  let ?d = "snd (ReopenGaps n targetFrom nextTo d)"
  have "t_gaps (EnsureBackfill n c targetFrom nextTo kinds now d) = t_gaps ?d"
    using assms(3,4) by (auto simp: EnsureBackfill_def reopenDeferrals_def Let_def coversAll_iff scan_backfill_def
        split: option.splits)
  moreover note R = ReopenGaps_wf [OF assms(1,2), where lo = targetFrom and hi = nextTo]
  have "{uint targetFrom..uint nextTo} \<inter> declared n (t_gaps ?d) \<subseteq> owed_in n HealModeReplay (t_gaps ?d)"
  proof
    fix x assume "x \<in> {uint targetFrom..uint nextTo} \<inter> declared n (t_gaps ?d)"
    then obtain r where r: "r \<in> set (t_gaps ?d)" "x \<in> declares n r" "uint targetFrom \<le> x" "x \<le> uint nextTo"
      by (auto simp: declared_def)
    then have "open_gap n r" "overlaps (uint targetFrom) (uint nextTo) r"
      by (auto simp: declares_def overlaps_def split: if_splits)
    then show "x \<in> owed_in n HealModeReplay (t_gaps ?d)" using R(5) [OF r(1)] r
      by (auto simp: owed_in_def owes_in_def)
  qed
  ultimately show ?thesis using R(3) by simp
qed

theorem EnsureBackfill_reopens_witness:
  "{1100..1199} \<subseteq> owed_in ''testnet'' HealModeReplay
     (t_gaps (EnsureBackfill ''testnet'' ''C'' 1100 1500 [KindEvents] 7 demo_db))"
proof -
  have "{1100..1500} \<inter> declared ''testnet'' (t_gaps demo_db) \<subseteq> owed_in ''testnet'' HealModeReplay
     (t_gaps (EnsureBackfill ''testnet'' ''C'' 1100 1500 [KindEvents] 7 demo_db))"
    using EnsureBackfill_reopens [OF demo_db_ok(1,2), of 1100 1500 "''C''" "[KindEvents]" 7]
    by (simp add: demo_db_def empty_db_def)
  moreover have "({1100..1199} :: int set) \<subseteq> {1100..1500}" by auto
  moreover have "{1100..1199} \<subseteq> declared ''testnet'' (t_gaps demo_db)"
    using owed_subset_declared [OF demo_db_ok(1), of "''testnet''"] demo_db_ok(3) by auto
  ultimately show ?thesis by blast
qed

text \<open>Progress is written only with its rows, and only for a registered walk.
  \<open>CommitBackfillChunk\<close> fails, leaving the database as it was, when the contract's row is gone;
  otherwise it succeeds exactly when its rows persist, moves that contract's row and no other, and
  touches no gap; committing the same chunk again changes nothing.\<close>

theorem CommitBackfillChunk_outcome:
  assumes "persist_rows n rows d = Inr d1"
  shows "(find (is_backfill n (b_ContractID b)) (t_backfill d) = None \<longrightarrow>
      CommitBackfillChunk n b rows now d = Inl (BackfillVanished (b_ContractID b)))
    \<and> (\<forall>r. find (is_backfill n (b_ContractID b)) (t_backfill d) = Some r \<longrightarrow>
      (\<exists>d'. CommitBackfillChunk n b rows now d = Inr d' \<and> t_gaps d' = t_gaps d
        \<and> find (is_backfill n (b_ContractID b)) (t_backfill d') =
            Some (r\<lparr>br_next_to := uint (b_NextTo b), br_done := b_Done b,
                    br_clamped_at := map_option uint (b_ClampedAt b), br_updated_at := now\<rparr>)
        \<and> (\<forall>i. i \<noteq> b_ContractID b \<longrightarrow>
             find (is_backfill n i) (t_backfill d') = find (is_backfill n i) (t_backfill d))
        \<and> CommitBackfillChunk n b rows now d' = Inr d'))"
proof -
  let ?P = "is_backfill n (b_ContractID b)"
  let ?f = "\<lambda>r. r\<lparr>br_next_to := uint (b_NextTo b), br_done := b_Done b,
    br_clamped_at := map_option uint (b_ClampedAt b), br_updated_at := now\<rparr>"
  let ?d' = "d1\<lparr>t_backfill := sql_update ?P ?f (t_backfill d1)\<rparr>"
  note same = persist_rows_other [OF assms]
  have count: "sql_count ?P tbl = 0 \<longleftrightarrow> find ?P tbl = None" for tbl
    by (auto simp: sql_count_zero find_None_iff)
  have again: "persist_rows n rows ?d' = Inr ?d'"
    using persist_rows_cong [OF persist_rows_again [OF assms], where g = "t_gaps d1"
        and b = "sql_update ?P ?f (t_backfill d1)" and c = "t_cursor d1" and h = "t_ledger_hashes d1"] by simp
  have mine: "find ?P (sql_update ?P ?f tbl) = map_option ?f (find ?P tbl)" for tbl
    by (rule find_update_backfill) simp
  have others: "find (is_backfill n i) (sql_update ?P ?f tbl) = find (is_backfill n i) tbl"
    if "i \<noteq> b_ContractID b" for i tbl
    by (rule find_update_other) (use that in \<open>auto simp: is_backfill_def\<close>)
  have stays: "sql_update ?P ?f (sql_update ?P ?f tbl) = sql_update ?P ?f tbl" for tbl
    by (simp add: sql_update_def is_backfill_def)
  have "CommitBackfillChunk n b rows now ?d' = Inr ?d'" if "find ?P (t_backfill d) = Some r" for r
    unfolding CommitBackfillChunk_def again
    using that count [of "sql_update ?P ?f (t_backfill d1)"] mine [of "t_backfill d1"] same stays by simp
  moreover have "CommitBackfillChunk n b rows now d =
      (if find ?P (t_backfill d) = None then Inl (BackfillVanished (b_ContractID b)) else Inr ?d')"
    unfolding CommitBackfillChunk_def assms using count same by simp
  ultimately show ?thesis using mine [of "t_backfill d1"] others same by auto
qed

definition demo_backfill :: Backfill where
  "demo_backfill = \<lparr>b_ContractID = ''C'', b_TargetFrom = 10, b_NextTo = 300, b_Done = False,
     b_ClampedAt = None, b_CoveredKinds = []\<rparr>"

theorem CommitBackfillChunk_outcome_witness:
  "CommitBackfillChunk ''testnet'' demo_backfill no_rows 7 empty_db = Inl (BackfillVanished ''C'')
   \<and> (\<exists>d'. CommitBackfillChunk ''testnet'' demo_backfill no_rows 7
        (EnsureBackfill ''testnet'' ''C'' 10 500 [KindEvents] 7 empty_db) = Inr d')"
proof -
  have rows: "persist_rows n no_rows d = Inr d" for n d
    by (simp add: persist_rows_Inr no_rows_def applyStateEntries_def applyTrustlineEntries_def collapse_def)
  obtain r where "find (is_backfill ''testnet'' ''C'')
      (t_backfill (EnsureBackfill ''testnet'' ''C'' 10 500 [KindEvents] 7 empty_db)) = Some r"
    using EnsureBackfill_grants by blast
  then show ?thesis
    using CommitBackfillChunk_outcome [OF rows [of "''testnet''" empty_db], of demo_backfill 7]
      CommitBackfillChunk_outcome [OF rows [of "''testnet''"
        "EnsureBackfill ''testnet'' ''C'' 10 500 [KindEvents] 7 empty_db"], of demo_backfill 7]
    by (auto simp: demo_backfill_def empty_db_def)
qed

end
