(* ===== verification/Store_Heal.thy ===== *)
theory Store_Heal
  imports Store_Backfill
begin

text \<open>
  Committing a healed chunk, \<open>CommitHealChunk\<close> of \<^verbatim>\<open>internal/store/heal.go\<close>: the rows,
  the gap's watermark and resolution, and the frontier of every registration clamped at the gap.
  The lemmas show what a commit takes off the owed ledgers, that no registration's frontier passes a
  ledger still owed, and that no registration is left waiting for a gap that is closed.
\<close>

section \<open>Operations\<close>

definition heal_hit :: "string \<Rightarrow> Gap \<Rightarrow> gap_row \<Rightarrow> bool" where
  "heal_hit network gap r \<longleftrightarrow> gr_network r = network \<and> gr_id r = g_ID gap \<and> gr_resolved_at r = None"

definition clamped_here :: "string \<Rightarrow> Gap \<Rightarrow> backfill_row \<Rightarrow> bool" where
  "clamped_here network gap b \<longleftrightarrow> br_network b = network \<and> br_clamped_at b = Some (uint (g_To gap) + 1)"

text \<open>Lower the frontier with the heal, or clear the clamp once the target is reached.\<close>

definition lower_frontier :: "string \<Rightarrow> Gap \<Rightarrow> u32 \<Rightarrow> int \<Rightarrow> backfill_row list \<Rightarrow> backfill_row list" where
  "lower_frontier network gap newNextTo now tbl =
     sql_update (\<lambda>b. clamped_here network gap b \<and> br_next_to b > uint newNextTo
                    \<and> br_target_from b \<le> uint newNextTo)
       (\<lambda>b. b\<lparr>br_next_to := uint newNextTo, br_updated_at := now\<rparr>) tbl"

definition clear_reached :: "string \<Rightarrow> Gap \<Rightarrow> u32 \<Rightarrow> int \<Rightarrow> backfill_row list \<Rightarrow> backfill_row list" where
  "clear_reached network gap newNextTo now tbl =
     sql_update (\<lambda>b. clamped_here network gap b \<and> br_target_from b > uint newNextTo)
       (\<lambda>b. b\<lparr>br_next_to := max (br_target_from b) 1 - 1, br_clamped_at := None, br_updated_at := now\<rparr>) tbl"

text \<open>\<open>SELECT max(to_sequence) FROM gaps WHERE ... resolved_at IS NULL AND to_sequence < $3\<close>.\<close>

definition highest_below :: "string \<Rightarrow> int \<Rightarrow> gap_row list \<Rightarrow> int option" where
  "highest_below network from gaps =
     (let ts = map gr_to (filter (\<lambda>g. open_gap network g \<and> gr_to g < from) gaps)
      in if ts = [] then None else Some (Max (set ts)))"

definition hand_over :: "string \<Rightarrow> Gap \<Rightarrow> int \<Rightarrow> gap_row list \<Rightarrow> backfill_row list \<Rightarrow> backfill_row list" where
  "hand_over network gap now gaps tbl =
     (case highest_below network (uint (g_From gap)) gaps of
        None \<Rightarrow> tbl
      | Some m \<Rightarrow> sql_update (\<lambda>b. clamped_here network gap b \<and> br_target_from b < uint (g_From gap)
                     \<and> m \<ge> br_target_from b)
                  (\<lambda>b. b\<lparr>br_clamped_at := Some (m + 1), br_updated_at := now\<rparr>) tbl)"

definition close_healed :: "string \<Rightarrow> Gap \<Rightarrow> int \<Rightarrow> gap_row list \<Rightarrow> backfill_row list \<Rightarrow> backfill_row list" where
  "close_healed network gap now gaps tbl =
     sql_update (\<lambda>b. clamped_here network gap b \<and>
         \<not> list_ex (\<lambda>g. open_gap network g \<and> gr_to g < uint (g_From gap) \<and> gr_to g \<ge> br_target_from b) gaps)
       (\<lambda>b. b\<lparr>br_next_to := max (br_target_from b) 1 - 1, br_clamped_at := None, br_updated_at := now\<rparr>) tbl"

definition CommitHealChunk ::
  "string \<Rightarrow> Gap \<Rightarrow> u32 \<Rightarrow> bool \<Rightarrow> partitioned \<Rightarrow> int \<Rightarrow> db \<Rightarrow> store_error + db"
where
  "CommitHealChunk network gap newNextTo resolved rows now d =
     andThen (persist_rows network rows d) (\<lambda>d.
       if sql_count (heal_hit network gap) (t_gaps d) = 0 then Inl (GapVanished (g_ID gap))
       else
         let gaps = sql_update (heal_hit network gap)
               (\<lambda>r. r\<lparr>gr_heal_next_to := Some (uint newNextTo),
                      gr_resolved_at := (if resolved then Some now else gr_resolved_at r)\<rparr>) (t_gaps d);
             bf = clear_reached network gap newNextTo now (lower_frontier network gap newNextTo now (t_backfill d))
         in Inr (d\<lparr>t_gaps := gaps,
              t_backfill := (if resolved
                then close_healed network gap now gaps (hand_over network gap now gaps bf) else bf)\<rparr>))"

section \<open>What a commit does to the gaps\<close>

text \<open>The chunk a healer worker hands in: the top of the remainder of an open gap, down to and
  including the ledger after the new watermark; resolved exactly when that is the gap's floor.\<close>

definition heal_chunk_of :: "string \<Rightarrow> gap_row \<Rightarrow> u32 \<Rightarrow> bool \<Rightarrow> db \<Rightarrow> bool" where
  "heal_chunk_of n r newNextTo resolved d \<longleftrightarrow>
     r \<in> set (t_gaps d) \<and> open_gap n r \<and> gr_from r - 1 \<le> uint newNextTo \<and> uint newNextTo < heal_top r
     \<and> (resolved \<longleftrightarrow> uint newNextTo < gr_from r)"

text \<open>The same without the watermark: what a worker hands in that read the gap earlier, before a new batch
  rewound it.\<close>

definition heal_write_of :: "string \<Rightarrow> gap_row \<Rightarrow> u32 \<Rightarrow> bool \<Rightarrow> db \<Rightarrow> bool" where
  "heal_write_of n r newNextTo resolved d \<longleftrightarrow>
     r \<in> set (t_gaps d) \<and> open_gap n r \<and> gr_from r - 1 \<le> uint newNextTo \<and> uint newNextTo \<le> gr_to r
     \<and> (resolved \<longleftrightarrow> uint newNextTo < gr_from r)"

lemma heal_chunk_write: "wf_gaps (t_gaps d) \<Longrightarrow> heal_chunk_of n r w resolved d \<Longrightarrow> heal_write_of n r w resolved d"
  by (fastforce simp: heal_chunk_of_def heal_write_of_def wf_gaps_def wf_gap_def)

definition healed_row :: "u32 \<Rightarrow> bool \<Rightarrow> int \<Rightarrow> gap_row \<Rightarrow> gap_row" where
  "healed_row newNextTo resolved now r =
     r\<lparr>gr_heal_next_to := Some (uint newNextTo),
       gr_resolved_at := (if resolved then Some now else gr_resolved_at r)\<rparr>"

lemma heal_hit_iff:
  assumes "wf_gaps tbl" and "r \<in> set tbl" and "open_gap n r" and "q \<in> set tbl"
  shows "heal_hit n (scanGap r) q \<longleftrightarrow> q = r"
proof
  assume "heal_hit n (scanGap r) q"
  then have "gr_id q = gr_id r" by (simp add: heal_hit_def scanGap_def)
  then show "q = r" using assms distinct_map_filter_unique unfolding wf_gaps_def by metis
next
  assume "q = r"
  then show "heal_hit n (scanGap r) q" using assms(3) by (simp add: heal_hit_def scanGap_def open_gap_def)
qed

lemma healed_row_wf:
  assumes "wf_gap r" and "open_gap n r" and "gr_from r - 1 \<le> uint w" and "uint w \<le> gr_to r"
    and "resolved \<longleftrightarrow> uint w < gr_from r"
  shows "wf_gap (healed_row w resolved now r)" "gr_id (healed_row w resolved now r) = gr_id r"
    "declares n (healed_row w resolved now r) = (if resolved then {} else declares n r)"
    "owes n (healed_row w resolved now r) = {gr_from r..uint w}"
  using assms u32_uint_bounds [of w]
  by (auto simp: healed_row_def wf_gap_def heal_top_def declares_def owes_def open_gap_def)

text \<open>The row of the gap changes, the others stay.\<close>

lemma heal_writes_gaps:
  fixes now :: int
  assumes wf: "wf_gaps (t_gaps d)" and disj: "open_disjoint n (t_gaps d)"
    and ch: "heal_write_of n r w resolved d"
  defines "gaps \<equiv> sql_update (heal_hit n (scanGap r)) (healed_row w resolved now) (t_gaps d)"
  shows "wf_gaps gaps" and "open_disjoint n gaps"
    and "owed n gaps = (owed n (t_gaps d) - owes n r) \<union> {gr_from r..uint w}"
    and "declared n gaps = (if resolved then declared n (t_gaps d) - declares n r else declared n (t_gaps d))"
    and "set gaps = insert (healed_row w resolved now r) (set (t_gaps d) - {r})"
proof -
  let ?h = "healed_row w resolved now"
  have r: "r \<in> set (t_gaps d)" "open_gap n r" and wfr: "wf_gap r"
    using ch wf by (auto simp: heal_write_of_def wf_gaps_def)
  have row: "wf_gap (?h r)" "gr_id (?h r) = gr_id r" "declares n (?h r) = (if resolved then {} else declares n r)"
    "owes n (?h r) = {gr_from r..uint w}"
    by (rule healed_row_wf [OF wfr r(2)]; use ch in \<open>simp add: heal_write_of_def\<close>)+
  note hit = heal_hit_iff [OF wf r]
  have uniq: "q = r" if "q \<in> set (t_gaps d)" "gr_id q = gr_id r" for q
    using wf that r distinct_map_filter_unique unfolding wf_gaps_def by metis
  show wf': "wf_gaps gaps" unfolding gaps_def
    by (rule wf_gaps_update [OF wf]) (use hit row in auto)
  show set: "set gaps = insert (?h r) (set (t_gaps d) - {r})"
    using hit r by (auto simp: gaps_def set_sql_update split: if_splits)
  have apart: "declares n q \<inter> declares n r = {}" if "q \<in> set (t_gaps d) - {r}" for q
    using that disj r uniq unfolding open_disjoint_def by blast
  have oapart: "owes n q \<inter> owes n r = {}" if "q \<in> set (t_gaps d) - {r}" for q
    using apart [OF that] that owes_subset_declares [OF wfr] owes_subset_declares [of q n] wf
    unfolding wf_gaps_def by blast
  show "open_disjoint n gaps"
    unfolding open_disjoint_def set using disj apart row unfolding open_disjoint_def by (auto simp: Int_commute)
  have split: "owed n (t_gaps d) = owes n r \<union> (\<Union>q\<in>set (t_gaps d) - {r}. owes n q)"
    using r by (auto simp: owed_def)
  have "owed n gaps = owes n (?h r) \<union> (\<Union>q\<in>set (t_gaps d) - {r}. owes n q)"
    by (auto simp: owed_def set)
  then show "owed n gaps = (owed n (t_gaps d) - owes n r) \<union> {gr_from r..uint w}"
    unfolding split row(4) using oapart by blast
  have dsplit: "declared n (t_gaps d) = declares n r \<union> (\<Union>q\<in>set (t_gaps d) - {r}. declares n q)"
    using r by (auto simp: declared_def)
  have "declared n gaps = declares n (?h r) \<union> (\<Union>q\<in>set (t_gaps d) - {r}. declares n q)"
    by (auto simp: declared_def set)
  then show "declared n gaps = (if resolved then declared n (t_gaps d) - declares n r else declared n (t_gaps d))"
    unfolding dsplit row(3) using apart by (cases resolved) fastforce+
qed

lemma heal_gaps:
  fixes now :: int
  assumes wf: "wf_gaps (t_gaps d)" and disj: "open_disjoint n (t_gaps d)"
    and ch: "heal_chunk_of n r w resolved d"
  defines "gaps \<equiv> sql_update (heal_hit n (scanGap r)) (healed_row w resolved now) (t_gaps d)"
  shows "wf_gaps gaps" and "open_disjoint n gaps"
    and "owed n gaps = owed n (t_gaps d) - {uint w + 1..heal_top r}"
    and "declared n gaps = (if resolved then declared n (t_gaps d) - declares n r else declared n (t_gaps d))"
    and "set gaps = insert (healed_row w resolved now r) (set (t_gaps d) - {r})"
proof -
  note G = heal_writes_gaps [OF wf disj heal_chunk_write [OF wf ch], where now = now, folded gaps_def]
  show "wf_gaps gaps" "open_disjoint n gaps"
    "declared n gaps = (if resolved then declared n (t_gaps d) - declares n r else declared n (t_gaps d))"
    "set gaps = insert (healed_row w resolved now r) (set (t_gaps d) - {r})" by (rule G)+
  have "owes n r = {gr_from r..heal_top r}" "owes n r \<subseteq> owed n (t_gaps d)" "uint w < heal_top r" "gr_from r - 1 \<le> uint w"
    using ch by (auto simp: heal_chunk_of_def owes_def owed_def)
  then show "owed n gaps = owed n (t_gaps d) - {uint w + 1..heal_top r}" unfolding G(3) by fastforce
qed

lemma CommitHealChunk_hit:
  assumes "wf_gaps (t_gaps d)" and "heal_write_of n r w resolved d" and "persist_rows n rows d = Inr d1"
  shows "\<exists>d'. CommitHealChunk n (scanGap r) w resolved rows now d = Inr d'
    \<and> t_gaps d' = sql_update (heal_hit n (scanGap r)) (healed_row w resolved now) (t_gaps d)
    \<and> t_backfill d' = (let bf = clear_reached n (scanGap r) w now (lower_frontier n (scanGap r) w now (t_backfill d))
        in if resolved then close_healed n (scanGap r) now (t_gaps d') (hand_over n (scanGap r) now (t_gaps d') bf)
           else bf)"
proof -
  have "r \<in> set (t_gaps d)" "open_gap n r" using assms(2) by (simp_all add: heal_write_of_def)
  then have "sql_count (heal_hit n (scanGap r)) (t_gaps d1) \<noteq> 0"
    using heal_hit_iff [OF assms(1), of r n r] persist_rows_other [OF assms(3)] by (auto simp: sql_count_zero)
  moreover have "(\<lambda>r. r\<lparr>gr_heal_next_to := Some (uint w),
      gr_resolved_at := (if resolved then Some now else gr_resolved_at r)\<rparr>) = healed_row w resolved now"
    by (simp add: healed_row_def fun_eq_iff)
  ultimately show ?thesis
    using persist_rows_other [OF assms(3)] unfolding CommitHealChunk_def assms(3) by (simp add: Let_def)
qed

section \<open>What a commit does to the clamped registrations\<close>

text \<open>The four updates of the table, read on one row.\<close>

definition heal_row :: "string \<Rightarrow> Gap \<Rightarrow> u32 \<Rightarrow> bool \<Rightarrow> int \<Rightarrow> gap_row list \<Rightarrow> backfill_row \<Rightarrow> backfill_row" where
  "heal_row n gap w resolved now gaps b =
     hd ((let bf = clear_reached n gap w now (lower_frontier n gap w now [b])
          in if resolved then close_healed n gap now gaps (hand_over n gap now gaps bf) else bf))"

lemma sql_update_Cons: "sql_update p f (b # tbl) = (if p b then f b else b) # sql_update p f tbl"
  by (simp add: sql_update_def)

lemma sql_update_Nil: "sql_update p f [] = []"
  by (simp add: sql_update_def)

lemmas heal_updates = lower_frontier_def clear_reached_def hand_over_def close_healed_def

lemma heal_rows:
  "(let bf = clear_reached n gap w now (lower_frontier n gap w now tbl)
    in if resolved then close_healed n gap now gaps (hand_over n gap now gaps bf) else bf) =
   map (heal_row n gap w resolved now gaps) tbl"
proof (induction tbl)
  case Nil
  show ?case by (simp add: heal_updates Let_def sql_update_Nil split: option.splits)
next
  case (Cons b tbl)
  then show ?case
    by (cases "highest_below n (uint (g_From gap)) gaps")
      (simp_all add: heal_row_def heal_updates Let_def sql_update_Cons sql_update_Nil split: if_splits)
qed

lemma highest_below_Some:
  "highest_below n f gaps = Some m \<Longrightarrow> (\<exists>g\<in>set gaps. open_gap n g \<and> gr_to g = m \<and> m < f)
     \<and> (\<forall>g\<in>set gaps. open_gap n g \<longrightarrow> gr_to g < f \<longrightarrow> gr_to g \<le> m)"
proof -
  let ?S = "gr_to ` {g \<in> set gaps. open_gap n g \<and> gr_to g < f}"
  assume "highest_below n f gaps = Some m"
  then have "?S \<noteq> {}" and m: "m = Max ?S"
    by (auto simp: highest_below_def Let_def filter_empty_conv split: if_splits)
  then have "m \<in> ?S" and "\<forall>x\<in>?S. x \<le> m" by (auto intro: Max_in)
  then show ?thesis by auto
qed

lemma highest_below_None:
  "highest_below n f gaps = None \<longleftrightarrow> (\<forall>g\<in>set gaps. open_gap n g \<longrightarrow> \<not> gr_to g < f)"
  by (auto simp: highest_below_def Let_def filter_empty_conv)

lemma heal_row_elsewhere: "\<not> clamped_here n gap b \<Longrightarrow> heal_row n gap w resolved now gaps b = b"
  by (simp add: heal_row_def heal_updates Let_def sql_update_Cons sql_update_Nil split: option.splits)

lemma heal_row_cases:
  assumes "clamped_here n gap b" and "uint (g_From gap) \<le> uint (g_To gap)" and "resolved \<longleftrightarrow> uint w < uint (g_From gap)"
    and "uint (g_From gap) - 1 \<le> uint w"
  obtains (reached) "br_target_from b > uint w"
      "br_next_to (heal_row n gap w resolved now gaps b) = max (br_target_from b) 1 - 1"
      "br_clamped_at (heal_row n gap w resolved now gaps b) = None"
    | (lowered) "br_target_from b \<le> uint w" "\<not> resolved"
      "br_next_to (heal_row n gap w resolved now gaps b) = min (br_next_to b) (uint w)"
      "br_clamped_at (heal_row n gap w resolved now gaps b) = br_clamped_at b"
    | (handed) m where "br_target_from b \<le> uint w" "resolved" "highest_below n (uint (g_From gap)) gaps = Some m"
      "m \<ge> br_target_from b"
      "br_next_to (heal_row n gap w resolved now gaps b) = min (br_next_to b) (uint w)"
      "br_clamped_at (heal_row n gap w resolved now gaps b) = Some (m + 1)"
    | (closed) "br_target_from b \<le> uint w" "resolved"
      "\<forall>g\<in>set gaps. open_gap n g \<longrightarrow> gr_to g < uint (g_From gap) \<longrightarrow> gr_to g < br_target_from b"
      "br_next_to (heal_row n gap w resolved now gaps b) = max (br_target_from b) 1 - 1"
      "br_clamped_at (heal_row n gap w resolved now gaps b) = None"
proof -
  let ?F = "uint (g_From gap)"
  note row = heal_row_def heal_updates Let_def sql_update_Cons sql_update_Nil clamped_here_def
  have net: "br_network b = n" "br_clamped_at b = Some (uint (g_To gap) + 1)"
    using assms(1) by (simp_all add: clamped_here_def)
  consider "br_target_from b > uint w" | "br_target_from b \<le> uint w" "\<not> resolved"
    | m where "br_target_from b \<le> uint w" "resolved" "highest_below n ?F gaps = Some m" "m \<ge> br_target_from b"
    | "br_target_from b \<le> uint w" "resolved"
      "\<forall>g\<in>set gaps. open_gap n g \<longrightarrow> gr_to g < ?F \<longrightarrow> gr_to g < br_target_from b"
  proof -
    assume 1: "br_target_from b > uint w \<Longrightarrow> thesis"
      and 2: "br_target_from b \<le> uint w \<Longrightarrow> \<not> resolved \<Longrightarrow> thesis"
      and 3: "\<And>m. br_target_from b \<le> uint w \<Longrightarrow> resolved \<Longrightarrow> highest_below n ?F gaps = Some m \<Longrightarrow>
        br_target_from b \<le> m \<Longrightarrow> thesis"
      and 4: "br_target_from b \<le> uint w \<Longrightarrow> resolved \<Longrightarrow>
        \<forall>g\<in>set gaps. open_gap n g \<longrightarrow> gr_to g < ?F \<longrightarrow> gr_to g < br_target_from b \<Longrightarrow> thesis"
    show thesis
    proof (cases "br_target_from b \<le> uint w \<and> resolved")
      case True
      show ?thesis
      proof (cases "highest_below n ?F gaps")
        case None
        then show ?thesis using 4 True by (auto simp: highest_below_None)
      next
        case (Some m)
        then show ?thesis using 3 4 True highest_below_Some [OF Some] by (cases "br_target_from b \<le> m") force+
      qed
    qed (use 1 2 in force)
  qed
  then show ?thesis
  proof cases
    case 1
    then show ?thesis using net by (intro reached) (simp_all add: row split: option.splits)
  next
    case 2
    then show ?thesis using net by (intro lowered) (simp_all add: row)
  next
    case 3
    have "m < ?F" using highest_below_Some [OF 3(3)] by auto
    then have "m + 1 \<noteq> uint (g_To gap) + 1" using assms(2) by simp
    then show ?thesis using 3 net assms(3,4) by (intro handed [of m]) (simp_all add: row)
  next
    case 4
    have none: "\<not> list_ex (\<lambda>g. open_gap n g \<and> gr_to g < ?F \<and> gr_to g \<ge> br_target_from b) gaps"
      using 4(3) by (auto simp: list_ex_iff)
    have "\<not> (case highest_below n ?F gaps of None \<Rightarrow> False | Some m \<Rightarrow> m \<ge> br_target_from b)"
      using 4(3) highest_below_Some [of n ?F gaps] by (fastforce split: option.splits)
    then show ?thesis using 4 net none by (intro closed) (simp_all add: row split: option.splits)
  qed
qed

text \<open>No frontier passes a ledger still owed.\<close>

lemma heal_frontier:
  fixes now :: int
  assumes wf: "wf_gaps (t_gaps d)" and disj: "open_disjoint n (t_gaps d)"
    and ch: "heal_chunk_of n r w resolved d"
    and clamp: "clamped_here n (scanGap r) b" and below: "br_next_to b \<le> gr_to r"
  defines "gaps \<equiv> sql_update (heal_hit n (scanGap r)) (healed_row w resolved now) (t_gaps d)"
  assumes x: "br_target_from b \<le> x" "br_next_to (heal_row n (scanGap r) w resolved now gaps b) < x"
    "x \<le> br_next_to b"
  shows "x \<notin> owed n gaps"
proof
  assume "x \<in> owed n gaps"
  note G = heal_gaps [OF wf disj ch, where now = now, folded gaps_def]
  have wfr: "wf_gap r" and r: "r \<in> set (t_gaps d)" "open_gap n r"
    using wf ch by (auto simp: heal_chunk_of_def wf_gaps_def)
  note sg = scanGap_wf [OF wfr]
  have ch': "gr_from r - 1 \<le> uint w" "uint w < heal_top r" "resolved \<longleftrightarrow> uint w < gr_from r"
    using ch by (auto simp: heal_chunk_of_def)
  from \<open>x \<in> owed n gaps\<close> have owed: "x \<in> owed n (t_gaps d)" "\<not> (uint w < x \<and> x \<le> heal_top r)"
    using G(3) by auto
  then obtain q where q: "q \<in> set (t_gaps d)" "x \<in> owes n q" by (auto simp: owed_def)
  have top: "heal_top r \<le> gr_to r" "gr_from r \<le> gr_to r" using wfr by (auto simp: wf_gap_def)
  have mine: "x \<notin> declares n r \<or> x \<le> uint w"
  proof (cases "q = r")
    case True
    then show ?thesis using owed(2) q(2) by (auto simp: owes_def split: if_splits)
  next
    case False
    then have "gr_id q \<noteq> gr_id r"
      using wf q r distinct_map_filter_unique unfolding wf_gaps_def by metis
    then have "declares n q \<inter> declares n r = {}" using disj q r unfolding open_disjoint_def by blast
    moreover have "x \<in> declares n q" using q wf owes_subset_declares by (auto simp: wf_gaps_def)
    ultimately show ?thesis by blast
  qed
  have decl: "x \<in> declares n r \<longleftrightarrow> gr_from r \<le> x \<and> x \<le> gr_to r" using r by (auto simp: declares_def)
  have low: "x \<le> uint w" using mine decl x(3) below ch'(1) by linarith
  obtain q' where q': "q' \<in> set gaps" "x \<in> owes n q'" using \<open>x \<in> owed n gaps\<close> by (auto simp: owed_def)
  have q'o: "open_gap n q'" "gr_from q' \<le> x" "x \<le> gr_to q'"
    using q' G(1) owes_subset_declares [of q' n] by (auto simp: owes_def wf_gaps_def wf_gap_def split: if_splits)
  show False
  proof (rule heal_row_cases [OF clamp])
    show "uint (g_From (scanGap r)) \<le> uint (g_To (scanGap r))" using sg top by simp
    show "resolved \<longleftrightarrow> uint w < uint (g_From (scanGap r))" "uint (g_From (scanGap r)) - 1 \<le> uint w"
      using ch' sg by simp_all
  next
    assume "br_target_from b > uint w"
    then show False using low x(1) by simp
  next
    assume "br_next_to (heal_row n (scanGap r) w resolved now gaps b) = min (br_next_to b) (uint w)"
    then show False using low x by simp
  next
    fix m assume "br_next_to (heal_row n (scanGap r) w resolved now gaps b) = min (br_next_to b) (uint w)"
    then show False using low x by simp
  next
    assume res: "resolved" and none: "\<forall>g\<in>set gaps. open_gap n g \<longrightarrow> gr_to g < uint (g_From (scanGap r)) \<longrightarrow>
      gr_to g < br_target_from b"
    have "gr_from r \<le> gr_to q'" using none q' q'o x(1) sg by force
    moreover have "x < gr_from r" using low res ch' by simp
    ultimately have "gr_from r \<in> {gr_from q'..gr_to q'}" using q'o by simp
    moreover have "q' \<noteq> healed_row w resolved now r" using q'o(1) res by (auto simp: healed_row_def open_gap_def)
    then have "q' \<in> set (t_gaps d)" "q' \<noteq> r" using q'(1) G(5) by auto
    then have "declares n q' \<inter> declares n r = {}"
      using disj r wf distinct_map_filter_unique unfolding open_disjoint_def wf_gaps_def by metis
    ultimately show False using q'o r top by (auto simp: declares_def)
  qed
qed

text \<open>No registration is left waiting for a closed gap.\<close>

lemma heal_anchored:
  assumes wf: "wf_gaps (t_gaps d)" and disj: "open_disjoint n (t_gaps d)"
    and ch: "heal_write_of n r w resolved d" and anch: "clamps_anchored n d"
    and commit: "CommitHealChunk n (scanGap r) w resolved rows now d = Inr d'"
  shows "clamps_anchored n d'"
proof -
  let ?gap = "scanGap r"
  from commit obtain d1 where "persist_rows n rows d = Inr d1"
    by (auto simp: CommitHealChunk_def andThen_Inr)
  from CommitHealChunk_hit [OF wf ch this, of now] commit
  have gaps: "t_gaps d' = sql_update (heal_hit n ?gap) (healed_row w resolved now) (t_gaps d)"
    and bf: "t_backfill d' = map (heal_row n ?gap w resolved now (t_gaps d')) (t_backfill d)"
    unfolding heal_rows [symmetric] by auto
  note G = heal_writes_gaps [OF wf disj ch, where now = now, folded gaps]
  have wfr: "wf_gap r" and r: "r \<in> set (t_gaps d)" "open_gap n r"
    using wf ch by (auto simp: heal_write_of_def wf_gaps_def)
  note sg = scanGap_wf [OF wfr]
  have ch': "gr_from r - 1 \<le> uint w" "resolved \<longleftrightarrow> uint w < gr_from r" "gr_from r \<le> gr_to r"
    using ch wfr by (auto simp: heal_write_of_def wf_gap_def)
  show ?thesis
    unfolding clamps_anchored_def
  proof (intro ballI impI allI)
    fix b' v assume b': "b' \<in> set (t_backfill d')" "br_network b' = n" "br_clamped_at b' = Some v"
    then obtain b where b: "b \<in> set (t_backfill d)" "b' = heal_row n ?gap w resolved now (t_gaps d') b"
      using bf by auto
    show "\<exists>q\<in>set (t_gaps d'). open_gap n q \<and> gr_to q + 1 = v"
    proof (cases "clamped_here n ?gap b")
      case False
      then have "b' = b" using b(2) heal_row_elsewhere by simp
      then obtain q where q: "q \<in> set (t_gaps d)" "open_gap n q" "gr_to q + 1 = v"
        using anch b(1) b' unfolding clamps_anchored_def by blast
      then have "q \<noteq> r" using False \<open>b' = b\<close> b' sg by (auto simp: clamped_here_def)
      then show ?thesis using q G(5) by auto
    next
      case True
      show ?thesis
      proof (rule heal_row_cases [OF True, where gaps = "t_gaps d'" and now = now])
        show "uint (g_From ?gap) \<le> uint (g_To ?gap)" "resolved \<longleftrightarrow> uint w < uint (g_From ?gap)"
          "uint (g_From ?gap) - 1 \<le> uint w" using ch' sg by simp_all
      next
        assume "\<not> resolved" "br_clamped_at (heal_row n ?gap w resolved now (t_gaps d') b) = br_clamped_at b"
        then have "v = gr_to r + 1" "open_gap n (healed_row w resolved now r)"
          "gr_to (healed_row w resolved now r) = gr_to r"
          using b(2) b'(3) True sg r by (simp_all add: clamped_here_def healed_row_def open_gap_def)
        then show ?thesis using G(5) by auto
      next
        fix m assume "highest_below n (uint (g_From ?gap)) (t_gaps d') = Some m"
          "br_clamped_at (heal_row n ?gap w resolved now (t_gaps d') b) = Some (m + 1)"
        then show ?thesis using highest_below_Some [of n _ "t_gaps d'" m] b(2) b'(3) by auto
      qed (use b(2) b'(3) in auto)
    qed
  qed
qed

section \<open>Properties\<close>

lemma CommitHealChunk_owed:
  assumes "wf_gaps (t_gaps d)" and "open_disjoint n (t_gaps d)" and "heal_chunk_of n r newNextTo resolved d"
    and "CommitHealChunk n (scanGap r) newNextTo resolved rows now d = Inr d'"
  shows "owed n (t_gaps d') = owed n (t_gaps d) - {uint newNextTo + 1..heal_top r}
    \<and> declared n (t_gaps d') = (if resolved then declared n (t_gaps d) - declares n r else declared n (t_gaps d))
    \<and> wf_gaps (t_gaps d') \<and> open_disjoint n (t_gaps d')"
proof -
  from assms(4) obtain d1 where "persist_rows n rows d = Inr d1"
    by (auto simp: CommitHealChunk_def andThen_Inr)
  from CommitHealChunk_hit [OF assms(1) heal_chunk_write [OF assms(1,3)] this, of now] assms(4)
  have "t_gaps d' = sql_update (heal_hit n (scanGap r)) (healed_row newNextTo resolved now) (t_gaps d)" by auto
  then show ?thesis using heal_gaps [OF assms(1-3), where now = now] by simp
qed

text \<open>C7: a heal discharges exactly its chunk. Committing the chunk at the top of an open gap's
  remainder takes exactly those ledgers off what is owed, keeps every other promise and the open gaps
  disjoint, and stops declaring the gap exactly when its floor has been reached.\<close>

theorem CommitHealChunk_discharges:
  assumes "wf_gaps (t_gaps d)" and "open_disjoint n (t_gaps d)" and "heal_chunk_of n r newNextTo resolved d"
    and "CommitHealChunk n (scanGap r) newNextTo resolved rows now d = Inr d'"
  shows "owed n (t_gaps d') = owed n (t_gaps d) - {uint newNextTo + 1..heal_top r}
    \<and> declared n (t_gaps d') = (if resolved then declared n (t_gaps d) - declares n r else declared n (t_gaps d))
    \<and> wf_gaps (t_gaps d') \<and> open_disjoint n (t_gaps d')"
  by (rule CommitHealChunk_owed [OF assms])

lemma demo_chunk: "heal_chunk_of ''testnet'' (demo_gap ''testnet'' 1000 1199) 1099 False demo_db"
  by (simp add: heal_chunk_of_def demo_db_def demo_gap_def open_gap_def heal_top_def)

lemma no_rows_persist: "persist_rows n no_rows d = Inr d"
  by (simp add: persist_rows_Inr no_rows_def applyStateEntries_def applyTrustlineEntries_def collapse_def)

theorem CommitHealChunk_discharges_witness:
  "\<exists>d'. CommitHealChunk ''testnet'' (scanGap (demo_gap ''testnet'' 1000 1199)) 1099 False no_rows 7 demo_db = Inr d'
    \<and> owed ''testnet'' (t_gaps d') = {1000..1099} \<union> {2000..2999}"
proof -
  obtain d' where d': "CommitHealChunk ''testnet'' (scanGap (demo_gap ''testnet'' 1000 1199)) 1099 False no_rows 7 demo_db = Inr d'"
    using CommitHealChunk_hit [OF demo_db_ok(1) heal_chunk_write [OF demo_db_ok(1) demo_chunk] no_rows_persist] by blast
  have "heal_top (demo_gap ''testnet'' 1000 1199) = 1199" by (simp add: demo_gap_def heal_top_def)
  then have "owed ''testnet'' (t_gaps d') = ({1000..1199} \<union> {2000..2999}) - {1100..1199}"
    using CommitHealChunk_discharges [OF demo_db_ok(1,2) demo_chunk d'] demo_db_ok(3) by simp
  also have "\<dots> = {1000..1099} \<union> {2000..2999}" by auto
  finally show ?thesis using d' by blast
qed

text \<open>A heal never lands on a gap that is gone. When no open gap of the network carries the id
  any more (split by a plan, or resolved meanwhile) the commit fails and, being one transaction,
  writes nothing; and a commit that succeeds had its rows persisted and the gap still open.\<close>

theorem CommitHealChunk_vanished:
  "(CommitHealChunk n gap newNextTo resolved rows now d = Inl (GapVanished (g_ID gap)) \<longrightarrow>
      \<not> (\<exists>r\<in>set (t_gaps d). open_gap n r \<and> gr_id r = g_ID gap) \<or> persist_rows n rows d = Inl (GapVanished (g_ID gap)))
   \<and> ((\<exists>d'. CommitHealChunk n gap newNextTo resolved rows now d = Inr d') \<longleftrightarrow>
      (\<exists>d1. persist_rows n rows d = Inr d1) \<and> (\<exists>r\<in>set (t_gaps d). open_gap n r \<and> gr_id r = g_ID gap))"
proof (cases "persist_rows n rows d")
  case (Inl e)
  then show ?thesis by (auto simp: CommitHealChunk_def)
next
  case (Inr d1)
  have "sql_count (heal_hit n gap) (t_gaps d) = 0 \<longleftrightarrow> \<not> (\<exists>r\<in>set (t_gaps d). open_gap n r \<and> gr_id r = g_ID gap)"
    by (auto simp: sql_count_zero heal_hit_def open_gap_def)
  then show ?thesis
    using Inr persist_rows_other [OF Inr] by (simp add: CommitHealChunk_def Let_def)
qed

theorem CommitHealChunk_vanished_witness:
  "\<not> (\<exists>d'. CommitHealChunk ''testnet'' (scanGap (demo_gap ''testnet'' 1000 1199)) 1099 False no_rows 7 empty_db = Inr d')"
  using CommitHealChunk_vanished [of "''testnet''" "scanGap (demo_gap ''testnet'' 1000 1199)" 1099 False no_rows 7 empty_db]
  by (simp add: empty_db_def)

text \<open>C8: declared coverage follows what was derived. For every registration clamped at the healed
  gap's wall, the commit lowers its frontier only over ledgers that are no longer owed; registrations
  clamped elsewhere keep their row.\<close>

theorem heal_frontier_honest:
  assumes "wf_gaps (t_gaps d)" and "open_disjoint n (t_gaps d)" and "heal_chunk_of n r newNextTo resolved d"
    and "CommitHealChunk n (scanGap r) newNextTo resolved rows now d = Inr d'" and "i < length (t_backfill d)"
  shows "(\<not> clamped_here n (scanGap r) (t_backfill d ! i) \<longrightarrow> t_backfill d' ! i = t_backfill d ! i)
    \<and> (clamped_here n (scanGap r) (t_backfill d ! i) \<longrightarrow> br_next_to (t_backfill d ! i) \<le> gr_to r \<longrightarrow>
        (\<forall>x. br_target_from (t_backfill d ! i) \<le> x \<longrightarrow> br_next_to (t_backfill d' ! i) < x \<longrightarrow>
             x \<le> br_next_to (t_backfill d ! i) \<longrightarrow> x \<notin> owed n (t_gaps d')))"
proof -
  from assms(4) obtain d1 where "persist_rows n rows d = Inr d1"
    by (auto simp: CommitHealChunk_def andThen_Inr)
  from CommitHealChunk_hit [OF assms(1) heal_chunk_write [OF assms(1,3)] this, of now] assms(4)
  have gaps: "t_gaps d' = sql_update (heal_hit n (scanGap r)) (healed_row newNextTo resolved now) (t_gaps d)"
    and bf: "t_backfill d' = map (heal_row n (scanGap r) newNextTo resolved now (t_gaps d')) (t_backfill d)"
    unfolding heal_rows [symmetric] by auto
  show ?thesis
    using heal_frontier [OF assms(1-3), where now = now, folded gaps] heal_row_elsewhere assms(5)
    by (simp add: bf)
qed

definition demo_clamped :: db where
  "demo_clamped = demo_db\<lparr>t_backfill := [\<lparr>br_network = ''testnet'', br_contract_id = ''C'', br_target_from = 1000,
     br_next_to = 1199, br_done = True, br_clamped_at = Some 1200, br_covered_kinds = [], br_updated_at = 0\<rparr>]\<rparr>"

lemma demo_clamped_ok:
  "wf_gaps (t_gaps demo_clamped)" "open_disjoint ''testnet'' (t_gaps demo_clamped)"
  "heal_chunk_of ''testnet'' (demo_gap ''testnet'' 1000 1199) 1099 False demo_clamped"
  "clamps_anchored ''testnet'' demo_clamped" "resolved_apart ''testnet'' (t_gaps demo_clamped)"
  using demo_db_ok demo_chunk demo_db_apart
  by (auto simp: demo_clamped_def heal_chunk_of_def clamps_anchored_def demo_db_def demo_gap_def open_gap_def)

theorem heal_frontier_honest_witness:
  "\<exists>d'. CommitHealChunk ''testnet'' (scanGap (demo_gap ''testnet'' 1000 1199)) 1099 False no_rows 7 demo_clamped = Inr d'
    \<and> (\<forall>x. 1000 \<le> x \<longrightarrow> br_next_to (t_backfill d' ! 0) < x \<longrightarrow> x \<le> 1199 \<longrightarrow> x \<notin> owed ''testnet'' (t_gaps d'))"
proof -
  obtain d' where d': "CommitHealChunk ''testnet'' (scanGap (demo_gap ''testnet'' 1000 1199)) 1099 False no_rows 7 demo_clamped = Inr d'"
    using CommitHealChunk_hit [OF demo_clamped_ok(1) heal_chunk_write [OF demo_clamped_ok(1,3)] no_rows_persist] by blast
  have b: "clamped_here ''testnet'' (scanGap (demo_gap ''testnet'' 1000 1199)) (t_backfill demo_clamped ! 0)"
    "br_next_to (t_backfill demo_clamped ! 0) = 1199" "br_target_from (t_backfill demo_clamped ! 0) = 1000"
    "gr_to (demo_gap ''testnet'' 1000 1199) = 1199" "0 < length (t_backfill demo_clamped)"
    by (simp_all add: clamped_here_def demo_clamped_def scanGap_def demo_gap_def)
  from heal_frontier_honest [OF demo_clamped_ok(1-3) d' b(5)] b(1-4) d' show ?thesis by auto
qed

text \<open>C10: no registration is stranded by a heal, and it is known exactly which ones a plan strands. If every
  clamped registration waits for an open gap that ends at its wall, that still holds after a heal commit,
  also of a worker whose reading of the gap is stale (the commit hands registrations of a resolved gap to
  the next open gap below, or closes them), and after a heal plan for every registration whose wall does
  not stand on a piece the plan drops for having the range of a resolved gap.\<close>

theorem clamps_stay_anchored:
  assumes "wf_gaps (t_gaps d)" and "open_disjoint n (t_gaps d)" and "clamps_anchored n d"
  shows "(\<forall>r w resolved rows now d'. heal_write_of n r w resolved d \<longrightarrow>
        CommitHealChunk n (scanGap r) w resolved rows now d = Inr d' \<longrightarrow> clamps_anchored n d')
    \<and> (\<forall>replay padding now res d'. (\<forall>iv\<in>set replay. iv_From iv \<le> iv_To iv) \<longrightarrow>
        PlanHeal n replay padding now d = Inr (res, d') \<longrightarrow>
        clamps_anchored_but n (dropped n (normalizePlan replay padding) (t_gaps d)) d'
        \<and> (resolved_apart n (t_gaps d) \<longrightarrow> clamps_anchored n d'))"
proof -
  have "clamps_anchored_but n (dropped n (normalizePlan replay padding) (t_gaps d)) d'
        \<and> (resolved_apart n (t_gaps d) \<longrightarrow> clamps_anchored n d')"
    if plan: "\<forall>iv\<in>set replay. iv_From iv \<le> iv_To iv" "PlanHeal n replay padding now d = Inr (res, d')"
    for replay padding now res d'
    using PlanHeal_anchored [OF assms(1,2) plan(1) assms(3) plan(2)] dropped_apart [OF assms(1)]
      normalizePlan_correct [OF plan(1), of padding] by fastforce
  then show ?thesis using heal_anchored [OF assms(1,2) _ assms(3)] by blast
qed

theorem clamps_stay_anchored_witness:
  "(\<exists>d'. CommitHealChunk ''testnet'' (scanGap (demo_gap ''testnet'' 1000 1199)) 1099 False no_rows 7 demo_clamped = Inr d'
      \<and> clamps_anchored ''testnet'' d')
    \<and> (\<exists>res d'. PlanHeal ''testnet'' [\<lparr>iv_From = 1030, iv_To = 1040\<rparr>] 0 7 demo_clamped = Inr (res, d')
      \<and> clamps_anchored ''testnet'' d')"
proof -
  have ivs: "\<forall>iv\<in>set [\<lparr>iv_From = 1030, iv_To = 1040\<rparr>]. iv_From iv \<le> iv_To iv" by simp
  note chunk = heal_chunk_write [OF demo_clamped_ok(1,3)]
  obtain d' where "CommitHealChunk ''testnet'' (scanGap (demo_gap ''testnet'' 1000 1199)) 1099 False no_rows 7 demo_clamped = Inr d'"
    using CommitHealChunk_hit [OF demo_clamped_ok(1) chunk no_rows_persist] by blast
  moreover obtain e where "PlanHeal ''testnet'' [\<lparr>iv_From = 1030, iv_To = 1040\<rparr>] 0 7 demo_clamped = Inr (plan_counts ''testnet'' e, e)"
    using PlanHeal_exact [OF demo_clamped_ok(1,2) ivs, of 0 7] by blast
  ultimately show ?thesis using clamps_stay_anchored [OF demo_clamped_ok(1,2,4)] chunk ivs demo_clamped_ok(5) by blast
qed

text \<open>
  The watermark is written without looking at the one it replaces. A worker that read the gap before
  a new batch's \<open>RecordGap\<close> rewound it commits its chunk on top of the rewind: ledgers the
  rewind had made owed again, and that the chunk did not replay, stop being owed.
\<close>

theorem stale_heal_undoes_rewind:
  "\<exists>d d1 d' r. r \<in> set (t_gaps d) \<and> open_gap n r \<and> g_HealNextTo (scanGap r) = 1099
    \<and> RecordGap n 1000 1199 reason now d = Inr d1 \<and> 1150 \<in> owed n (t_gaps d1)
    \<and> CommitHealChunk n (scanGap r) 1049 False no_rows now d1 = Inr d' \<and> 1150 \<notin> owed n (t_gaps d')"
proof -
  define r where "r = (demo_gap n 1000 1199)\<lparr>gr_heal_next_to := Some 1099\<rparr>"
  define d where "d = empty_db\<lparr>t_gaps := [r]\<rparr>"
  define r1 where "r1 = (demo_gap n 1000 1199)\<lparr>gr_heal_next_to := Some 1199\<rparr>"
  define d1 where "d1 = empty_db\<lparr>t_gaps := [r1]\<rparr>"
  have rec: "RecordGap n 1000 1199 reason now d = Inr d1"
    by (simp add: RecordGap_def d_def d1_def r_def r1_def demo_gap_def rewind_partly_healed_def sql_update_def
        open_gap_def overlaps_def covering_gaps_def uncoveredRanges_def)
  have "\<exists>d'. CommitHealChunk n (scanGap r) 1049 False no_rows now d1 = Inr d' \<and> 1150 \<notin> owed n (t_gaps d')"
    by (simp add: CommitHealChunk_def no_rows_persist d1_def r1_def r_def demo_gap_def scanGap_def heal_hit_def
        sql_count_def sql_update_def Let_def owes_def open_gap_def heal_top_def)
  moreover have "1150 \<in> owed n (t_gaps d1)" by (simp add: d1_def r1_def demo_gap_def owes_def open_gap_def heal_top_def)
  moreover have "r \<in> set (t_gaps d)" "open_gap n r" "g_HealNextTo (scanGap r) = 1099"
    by (simp_all add: d_def r_def demo_gap_def open_gap_def scanGap_def)
  ultimately show ?thesis using rec by blast
qed

end
