(* ===== verification/Store_Ledger.thy ===== *)
theory Store_Ledger
  imports Store_Heal
begin

text \<open>
  The live commit of \<^verbatim>\<open>internal/store/store.go\<close>: \<open>CommitLedger\<close> advances the cursor,
  records chain continuity and persists a ledger's rows in one transaction; \<open>LoadCursor\<close> reads the
  position back. \<open>Migrate\<close> applies the embedded migrations that are not yet recorded.
\<close>

section \<open>Operations\<close>

definition hashRingSize :: int where
  "hashRingSize = 1000"

definition LoadCursor :: "string \<Rightarrow> db \<Rightarrow> store_error + Cursor" where
  "LoadCursor network d =
     (case find (\<lambda>r. cr_network r = network) (t_cursor d) of
        None \<Rightarrow> Inl ErrNoCursor
      | Some r \<Rightarrow> Inr \<lparr>cu_Sequence = word_of_int (cr_last_sequence r), cu_Hash = cr_last_hash r\<rparr>)"

definition advance_cursor :: "string \<Rightarrow> LedgerRecord \<Rightarrow> cursor_row list \<Rightarrow> cursor_row list" where
  "advance_cursor network rec tbl =
     (if list_ex (\<lambda>r. cr_network r = network) tbl
      then sql_update (\<lambda>r. cr_network r = network \<and> cr_last_sequence r < uint (lr_Sequence rec))
             (\<lambda>r. r\<lparr>cr_last_sequence := uint (lr_Sequence rec), cr_last_hash := lr_Hash rec\<rparr>) tbl
      else tbl @ [\<lparr>cr_network = network, cr_last_sequence = uint (lr_Sequence rec), cr_last_hash = lr_Hash rec\<rparr>])"

definition record_hash :: "LedgerRecord \<Rightarrow> hash_row list \<Rightarrow> hash_row list" where
  "record_hash rec tbl =
     (if list_ex (\<lambda>r. hr_sequence r = uint (lr_Sequence rec)) tbl then tbl
      else tbl @ [\<lparr>hr_sequence = uint (lr_Sequence rec), hr_hash = lr_Hash rec,
                   hr_previous_hash = lr_PreviousHash rec, hr_closed_at = lr_ClosedAt rec\<rparr>])"

definition prune_ring :: "LedgerRecord \<Rightarrow> hash_row list \<Rightarrow> hash_row list" where
  "prune_ring rec tbl = sql_delete (\<lambda>r. hr_sequence r < uint (lr_Sequence rec) - hashRingSize) tbl"

definition CommitLedger :: "string \<Rightarrow> LedgerRecord \<Rightarrow> partitioned \<Rightarrow> db \<Rightarrow> store_error + db" where
  "CommitLedger network rec rows d =
     andThen (persist_rows network rows d) (\<lambda>d.
       Inr (d\<lparr>t_cursor := advance_cursor network rec (t_cursor d),
              t_ledger_hashes := prune_ring rec (record_hash rec (t_ledger_hashes d))\<rparr>))"

text \<open>
  \<open>Migrate\<close>: the names already in \<open>schema_migrations\<close> are skipped, the others are applied in
  order and recorded; \<open>apply\<close> stands for executing a migration's SQL, which may fail.
\<close>

definition MigrationNames :: "string list \<Rightarrow> string list" where
  "MigrationNames entries = sort entries"

definition migrate_one :: "(string \<Rightarrow> 's \<Rightarrow> store_error + 's) \<Rightarrow> string \<Rightarrow> string list \<times> 's
    \<Rightarrow> store_error + (string list \<times> 's)" where
  "migrate_one exec name st =
     (if name \<in> set (fst st) then Inr st
      else andThen (exec name (snd st)) (\<lambda>s. Inr (fst st @ [name], s)))"

definition Migrate :: "(string \<Rightarrow> 's \<Rightarrow> store_error + 's) \<Rightarrow> string list \<Rightarrow> string list \<times> 's
    \<Rightarrow> store_error + (string list \<times> 's)" where
  "Migrate exec entries st = each (migrate_one exec) (MigrationNames entries) st"

section \<open>Lemmas\<close>

lemma advance_cursor_again: "advance_cursor n rec (advance_cursor n rec tbl) = advance_cursor n rec tbl"
proof -
  let ?s = "uint (lr_Sequence rec)"
  let ?P = "\<lambda>r. cr_network r = n \<and> cr_last_sequence r < ?s"
  let ?f = "\<lambda>r. r\<lparr>cr_last_sequence := ?s, cr_last_hash := lr_Hash rec\<rparr>"
  have upd: "sql_update ?P ?f (sql_update ?P ?f tbl) = sql_update ?P ?f tbl" by (simp add: sql_update_def)
  have ex: "list_ex (\<lambda>r. cr_network r = n) (sql_update ?P ?f tbl) \<longleftrightarrow> list_ex (\<lambda>r. cr_network r = n) tbl"
    by (induction tbl) (simp_all add: sql_update_def)
  show ?thesis
  proof (cases "list_ex (\<lambda>r. cr_network r = n) tbl")
    case True
    then have one: "advance_cursor n rec tbl = sql_update ?P ?f tbl" by (simp add: advance_cursor_def)
    have "list_ex (\<lambda>r. cr_network r = n) (sql_update ?P ?f tbl)" using ex True by (rule iffD2)
    then show ?thesis unfolding one using upd by (simp add: advance_cursor_def)
  next
    case False
    then have "\<forall>r\<in>set tbl. cr_network r \<noteq> n" by (auto simp: list_ex_iff)
    with False show ?thesis by (simp add: advance_cursor_def sql_update_none)
  qed
qed

lemma record_prune_again:
  "prune_ring rec (record_hash rec (prune_ring rec (record_hash rec tbl))) = prune_ring rec (record_hash rec tbl)"
proof -
  have "\<exists>r\<in>set (prune_ring rec (record_hash rec tbl)). hr_sequence r = uint (lr_Sequence rec)"
    by (auto simp: prune_ring_def record_hash_def hashRingSize_def list_ex_iff)
  then have "record_hash rec (prune_ring rec (record_hash rec tbl)) = prune_ring rec (record_hash rec tbl)"
    by (auto simp: record_hash_def list_ex_iff)
  then show ?thesis by (simp add: prune_ring_def sql_delete_def)
qed

text \<open>The cursor of a network as a number, \<open>None\<close> before the first commit.\<close>

definition cursor_seq :: "string \<Rightarrow> db \<Rightarrow> int option" where
  "cursor_seq n d = map_option cr_last_sequence (find (\<lambda>r. cr_network r = n) (t_cursor d))"

lemma cursor_after:
  "map_option cr_last_sequence (find (\<lambda>r. cr_network r = n) (advance_cursor n rec tbl)) =
     Some (case map_option cr_last_sequence (find (\<lambda>r. cr_network r = n) tbl) of
             None \<Rightarrow> uint (lr_Sequence rec) | Some s \<Rightarrow> max s (uint (lr_Sequence rec)))"
proof -
  have upd: "find (\<lambda>r. cr_network r = n) (sql_update (\<lambda>r. cr_network r = n \<and> cr_last_sequence r < s)
        (\<lambda>r. r\<lparr>cr_last_sequence := s, cr_last_hash := h\<rparr>) t) =
      map_option (\<lambda>r. if cr_last_sequence r < s then r\<lparr>cr_last_sequence := s, cr_last_hash := h\<rparr> else r)
        (find (\<lambda>r. cr_network r = n) t)" for s h t
    by (induction t) (auto simp: sql_update_def)
  show ?thesis
  proof (cases "find (\<lambda>r. cr_network r = n) tbl")
    case None
    then have "\<not> list_ex (\<lambda>r. cr_network r = n) tbl" by (auto simp: find_None_iff list_ex_iff)
    then show ?thesis using None by (simp add: advance_cursor_def find_append_one)
  next
    case (Some r)
    then have "list_ex (\<lambda>r. cr_network r = n) tbl" by (auto simp: find_Some_iff list_ex_iff)
    then show ?thesis using Some by (simp add: advance_cursor_def upd max_def)
  qed
qed

lemma cursor_other:
  "n' \<noteq> n \<Longrightarrow> find (\<lambda>r. cr_network r = n') (advance_cursor n rec tbl) = find (\<lambda>r. cr_network r = n') tbl"
proof -
  assume ne: "n' \<noteq> n"
  have "find (\<lambda>r. cr_network r = n')
      (sql_update (\<lambda>r. cr_network r = n \<and> cr_last_sequence r < uint (lr_Sequence rec))
        (\<lambda>r. r\<lparr>cr_last_sequence := uint (lr_Sequence rec), cr_last_hash := lr_Hash rec\<rparr>) tbl) =
      find (\<lambda>r. cr_network r = n') tbl"
    by (rule find_update_other) (use ne in auto)
  moreover have "find (\<lambda>r. cr_network r = n') (tbl @ [r]) = find (\<lambda>r. cr_network r = n') tbl"
    if "cr_network r = n" for r
    using that ne by (auto simp: find_append_one split: option.splits)
  ultimately show ?thesis unfolding advance_cursor_def by auto
qed

section \<open>Properties\<close>

text \<open>A ledger happens once. Committing a ledger a second time, with the same record and rows,
  succeeds and leaves the whole database unchanged: cursor, hash ring and data.\<close>

theorem CommitLedger_once:
  assumes "CommitLedger n rec rows d = Inr d'"
  shows "CommitLedger n rec rows d' = Inr d'"
proof -
  obtain d1 where d1: "persist_rows n rows d = Inr d1"
    and d': "d' = d1\<lparr>t_cursor := advance_cursor n rec (t_cursor d1),
        t_ledger_hashes := prune_ring rec (record_hash rec (t_ledger_hashes d1))\<rparr>"
    using assms by (auto simp: CommitLedger_def andThen_Inr)
  have "persist_rows n rows d' = Inr d'"
    using persist_rows_cong [OF persist_rows_again [OF d1], where g = "t_gaps d1" and b = "t_backfill d1"
        and c = "t_cursor d'" and h = "t_ledger_hashes d'"] by (simp add: d')
  then show ?thesis
    by (simp add: CommitLedger_def d' advance_cursor_again record_prune_again)
qed

definition demo_record :: "u32 \<Rightarrow> LedgerRecord" where
  "demo_record s = \<lparr>lr_Sequence = s, lr_Hash = ''h'', lr_PreviousHash = ''p'', lr_ClosedAt = 0\<rparr>"

theorem CommitLedger_once_witness:
  "\<exists>d'. CommitLedger ''testnet'' (demo_record 5) no_rows demo_db = Inr d'
    \<and> CommitLedger ''testnet'' (demo_record 5) no_rows d' = Inr d'"
proof -
  obtain d' where "CommitLedger ''testnet'' (demo_record 5) no_rows demo_db = Inr d'"
    by (simp add: CommitLedger_def no_rows_persist)
  then show ?thesis using CommitLedger_once by blast
qed

text \<open>The cursor only moves forward. After a commit the network's cursor is the larger of the
  old position and the committed ledger, \<open>LoadCursor\<close> returns it, and other networks' cursors and
  every gap and registration are untouched.\<close>

theorem CommitLedger_cursor:
  assumes "CommitLedger n rec rows d = Inr d'"
  shows "cursor_seq n d' = Some (case cursor_seq n d of None \<Rightarrow> uint (lr_Sequence rec)
      | Some s \<Rightarrow> max s (uint (lr_Sequence rec)))
    \<and> (\<forall>s. cursor_seq n d' = Some s \<longrightarrow> (\<exists>h. LoadCursor n d' = Inr \<lparr>cu_Sequence = word_of_int s, cu_Hash = h\<rparr>))
    \<and> (\<forall>n'. n' \<noteq> n \<longrightarrow> LoadCursor n' d' = LoadCursor n' d)
    \<and> t_gaps d' = t_gaps d \<and> t_backfill d' = t_backfill d \<and> t_contracts d' = t_contracts d"
proof -
  obtain d1 where d1: "persist_rows n rows d = Inr d1"
    and d': "d' = d1\<lparr>t_cursor := advance_cursor n rec (t_cursor d1),
        t_ledger_hashes := prune_ring rec (record_hash rec (t_ledger_hashes d1))\<rparr>"
    using assms by (auto simp: CommitLedger_def andThen_Inr)
  have "cursor_seq n d' = Some (case cursor_seq n d of None \<Rightarrow> uint (lr_Sequence rec)
      | Some s \<Rightarrow> max s (uint (lr_Sequence rec)))"
    using cursor_after [of n rec "t_cursor d1"] persist_rows_other [OF d1] by (simp add: cursor_seq_def d')
  moreover have "LoadCursor n' d' = LoadCursor n' d" if "n' \<noteq> n" for n'
    using cursor_other [OF that] persist_rows_other [OF d1] by (simp add: LoadCursor_def d')
  moreover have "\<exists>h. LoadCursor n d' = Inr \<lparr>cu_Sequence = word_of_int s, cu_Hash = h\<rparr>" if "cursor_seq n d' = Some s" for s
    using that by (auto simp: LoadCursor_def cursor_seq_def)
  ultimately show ?thesis using persist_rows_other [OF d1] by (simp add: d')
qed

theorem CommitLedger_cursor_witness:
  "\<exists>d'. CommitLedger ''testnet'' (demo_record 5) no_rows empty_db = Inr d' \<and> cursor_seq ''testnet'' d' = Some 5"
proof -
  obtain d' where d': "CommitLedger ''testnet'' (demo_record 5) no_rows empty_db = Inr d'"
    by (simp add: CommitLedger_def no_rows_persist)
  from CommitLedger_cursor [OF d'] d' show ?thesis
    by (simp add: cursor_seq_def empty_db_def demo_record_def)
qed

text \<open>The continuity ring is bounded and keeps the recent chain. When the ring held no ledger
  above the committed one, afterwards it holds only ledgers within \<open>hashRingSize\<close> of it, the
  committed one among them, and everything it held in that window.\<close>

theorem CommitLedger_ring:
  assumes "CommitLedger n rec rows d = Inr d'"
    and "\<forall>h\<in>set (t_ledger_hashes d). hr_sequence h \<le> uint (lr_Sequence rec)"
  shows "hr_sequence ` set (t_ledger_hashes d') =
    insert (uint (lr_Sequence rec))
      (hr_sequence ` set (t_ledger_hashes d) \<inter> {uint (lr_Sequence rec) - hashRingSize..uint (lr_Sequence rec)})"
proof -
  obtain d1 where d1: "persist_rows n rows d = Inr d1"
    and d': "t_ledger_hashes d' = prune_ring rec (record_hash rec (t_ledger_hashes d1))"
    using assms by (auto simp: CommitLedger_def andThen_Inr)
  have "hr_sequence ` set (record_hash rec tbl) = insert (uint (lr_Sequence rec)) (hr_sequence ` set tbl)" for tbl
    by (auto simp: record_hash_def list_ex_iff intro: rev_image_eqI)
  moreover have "hr_sequence ` set (prune_ring rec tbl) =
      hr_sequence ` set tbl \<inter> {uint (lr_Sequence rec) - hashRingSize..}" for tbl
    by (auto simp: prune_ring_def)
  ultimately have "hr_sequence ` set (t_ledger_hashes d') =
      insert (uint (lr_Sequence rec)) (hr_sequence ` set (t_ledger_hashes d))
        \<inter> {uint (lr_Sequence rec) - hashRingSize..}"
    using persist_rows_other [OF d1] by (simp add: d')
  then show ?thesis using assms(2) by (auto simp: hashRingSize_def)
qed

theorem CommitLedger_ring_witness:
  "\<exists>d'. CommitLedger ''testnet'' (demo_record 5) no_rows empty_db = Inr d'
    \<and> hr_sequence ` set (t_ledger_hashes d') = {5}"
proof -
  obtain d' where d': "CommitLedger ''testnet'' (demo_record 5) no_rows empty_db = Inr d'"
    by (simp add: CommitLedger_def no_rows_persist)
  from CommitLedger_ring [OF d'] d' show ?thesis by (simp add: empty_db_def demo_record_def)
qed

lemma migrate_each:
  "each (migrate_one exec) names st = Inr st' \<Longrightarrow> distinct (fst st) \<Longrightarrow>
     distinct (fst st') \<and> set (fst st') = set (fst st) \<union> set names"
proof (induction names arbitrary: st)
  case (Cons x names)
  then obtain s where s: "migrate_one exec x st = Inr s" "each (migrate_one exec) names s = Inr st'"
    by (auto simp: andThen_Inr)
  then have "distinct (fst s)" "set (fst s) = insert x (set (fst st))"
    using Cons.prems(2) by (auto simp: migrate_one_def andThen_Inr split: if_splits)
  with Cons.IH [OF s(2)] show ?case by auto
qed simp

lemma migrate_done: "set names \<subseteq> set (fst st) \<Longrightarrow> each (migrate_one exec) names st = Inr st"
  by (induction names) (simp_all add: migrate_one_def)

text \<open>Migrating is idempotent. Running \<open>Migrate\<close> again on the outcome of a successful run
  executes nothing; every embedded migration is then recorded, and none is recorded twice.\<close>

theorem Migrate_idempotent:
  assumes "Migrate exec entries st = Inr st'" and "distinct (fst st)"
  shows "Migrate exec' entries st' = Inr st' \<and> distinct (fst st') \<and> set (fst st') = set (fst st) \<union> set entries"
  using migrate_each [OF assms [unfolded Migrate_def MigrationNames_def]] migrate_done [of "sort entries" st' exec']
  by (simp add: Migrate_def MigrationNames_def)

theorem Migrate_idempotent_witness:
  "Migrate (\<lambda>name s. Inl (Panic name)) [''0002'', ''0001''] ([''0001'', ''0002''], 3::nat) = Inr ([''0001'', ''0002''], 3)"
proof -
  have run: "Migrate (\<lambda>name s. Inr (Suc s)) [''0002'', ''0001''] ([], 1::nat) = Inr ([''0001'', ''0002''], 3)"
    by (simp add: Migrate_def MigrationNames_def migrate_one_def less_char_def)
  show ?thesis using Migrate_idempotent [OF run] by simp
qed

end
