(* ===== verification/Registry.thy ===== *)
theory Registry
  imports Store_Ledger
begin

text \<open>
  \<^verbatim>\<open>internal/registry/registry.go\<close>: the immutable snapshot of watched contracts that
  extraction filters against, and its reload from the store. A snapshot is the map from contract id
  to registration, kept as an association list with one entry per id.
\<close>

section \<open>Operations\<close>

type_synonym Snapshot = "(string \<times> Contract) list"

fun byID_put :: "string \<Rightarrow> 'v \<Rightarrow> (string \<times> 'v) list \<Rightarrow> (string \<times> 'v) list" where
  "byID_put k v [] = [(k, v)]"
| "byID_put k v ((k', v') # m) = (if k' = k then (k, v) # m else (k', v') # byID_put k v m)"

definition Watching :: "Snapshot \<Rightarrow> string \<Rightarrow> bool" where
  "Watching s contractID \<longleftrightarrow> map_of s contractID \<noteq> None"

definition Get :: "Snapshot \<Rightarrow> string \<Rightarrow> Contract option" where
  "Get s contractID = map_of s contractID"

definition Len :: "Snapshot \<Rightarrow> nat" where
  "Len s = length s"

definition AnyKind :: "Snapshot \<Rightarrow> string \<Rightarrow> bool" where
  "AnyKind s kind \<longleftrightarrow> list_ex (\<lambda>e. HasKind (snd e) kind) s"

definition StaticSnapshot :: "Contract list \<Rightarrow> Snapshot" where
  "StaticSnapshot contracts = foldl (\<lambda>m c. byID_put (ct_ContractID c) c m) [] contracts"

text \<open>A reload that reads the store; a failed read leaves the published snapshot alone.\<close>

definition Reload :: "string \<Rightarrow> db \<Rightarrow> Snapshot" where
  "Reload network d = foldl (\<lambda>m c. byID_put (ct_ContractID c) c m) [] (ListContracts network d)"

section \<open>Lemmas\<close>

lemma map_of_byID_put: "map_of (byID_put k v m) = (map_of m)(k \<mapsto> v)"
  by (induction m rule: byID_put.induct) auto

lemma keys_byID_put: "fst ` set (byID_put k v m) = insert k (fst ` set m)"
  by (induction m rule: byID_put.induct) auto

lemma distinct_byID_put: "distinct (map fst m) \<Longrightarrow> distinct (map fst (byID_put k v m))"
proof (induction m rule: byID_put.induct)
  case (2 k v k' v' m)
  have "fst ` set (byID_put k v m) = insert k (fst ` set m)" by (rule keys_byID_put)
  with 2 show ?case by auto
qed simp

lemma foldl_byID_put:
  "map_of (foldl (\<lambda>m c. byID_put (f c) c m) m cs) = map_of m ++ map_of (rev (map (\<lambda>c. (f c, c)) cs))"
  by (induction cs rule: rev_induct) (auto simp: map_of_byID_put map_add_def fun_eq_iff)

lemma distinct_foldl_byID_put:
  "distinct (map fst m) \<Longrightarrow> distinct (map fst (foldl (\<lambda>m c. byID_put (f c) c m) m cs))"
  by (induction cs arbitrary: m) (simp_all add: distinct_byID_put)

text \<open>A snapshot of contracts with different ids watches exactly those.\<close>

lemma Get_StaticSnapshot:
  assumes "distinct (map ct_ContractID cs)"
  shows "Get (StaticSnapshot cs) i = find (\<lambda>c. ct_ContractID c = i) cs"
proof -
  have "map_of (rev (map (\<lambda>c. (ct_ContractID c, c)) cs)) = map_of (map (\<lambda>c. (ct_ContractID c, c)) cs)"
    using assms by (subst map_of_inject_set) (simp_all add: o_def rev_map [symmetric])
  moreover have "map_of (map (\<lambda>c. (ct_ContractID c, c)) cs) i = find (\<lambda>c. ct_ContractID c = i) cs" for cs
    by (induction cs) auto
  ultimately show ?thesis by (simp add: Get_def StaticSnapshot_def foldl_byID_put)
qed

lemma AnyKind_iff:
  assumes "distinct (map fst s)"
  shows "AnyKind s kind \<longleftrightarrow> (\<exists>i c. Get s i = Some c \<and> HasKind c kind)"
proof -
  have "(i, c) \<in> set s \<longleftrightarrow> map_of s i = Some c" for i c
    using assms by (simp add: map_of_eq_Some_iff)
  then show ?thesis unfolding AnyKind_def Get_def list_ex_iff by force
qed

end
