(* ===== verification/Ingest_Scan.thy ===== *)
theory Ingest_Scan
  imports Registry
begin

text \<open>
  Reading ranges of ledgers: the source seam of \<^verbatim>\<open>internal/source/source.go\<close>, the result
  type of \<^verbatim>\<open>internal/extract\<close>, and the two loops of \<^verbatim>\<open>internal/ingest/backfill.go\<close>
  that talk to the source, \<open>scan\<close> and \<open>findWall\<close>. A ledger is an abstract value; the source,
  its header fields and the extraction are arguments. What a source promises is stated as the predicates
  \<open>at_most_asked\<close>, \<open>never_empty\<close> and \<open>retention_shaped\<close>.
\<close>

section \<open>Data\<close>

datatype source_error = ErrNotYetAvailable | ErrBelowRetention | SourceFailure string

record Info =
  in_Sequence :: u32
  in_Hash :: string
  in_PreviousHash :: string
  in_ClosedAt :: int

record Result =
  rs_Events :: "Event list"
  rs_StateChanges :: "StateChange list"
  rs_Transfers :: "Transfer list"
  rs_TrustlineChanges :: "TrustlineChange list"
  rs_Movements :: "Movement list"
  rs_FailedTxs :: int
  rs_SuppressedTxs :: int
  rs_SuppressedEvents :: int
  rs_SuppressedTransfers :: int
  rs_SuppressedTrustlines :: int
  rs_ForeignUndecodable :: int

definition empty_result :: Result where
  "empty_result = \<lparr>rs_Events = [], rs_StateChanges = [], rs_Transfers = [], rs_TrustlineChanges = [],
     rs_Movements = [], rs_FailedTxs = 0, rs_SuppressedTxs = 0, rs_SuppressedEvents = 0,
     rs_SuppressedTransfers = 0, rs_SuppressedTrustlines = 0, rs_ForeignUndecodable = 0\<rparr>"

text \<open>The accumulation at the end of each iteration, the same in \<open>scan\<close> and \<open>healChunk\<close>.\<close>

definition add_result :: "Result \<Rightarrow> Result \<Rightarrow> Result" where
  "add_result acc r = \<lparr>rs_Events = rs_Events acc @ rs_Events r,
     rs_StateChanges = rs_StateChanges acc @ rs_StateChanges r,
     rs_Transfers = rs_Transfers acc @ rs_Transfers r,
     rs_TrustlineChanges = rs_TrustlineChanges acc @ rs_TrustlineChanges r,
     rs_Movements = rs_Movements acc @ rs_Movements r,
     rs_FailedTxs = rs_FailedTxs acc + rs_FailedTxs r,
     rs_SuppressedTxs = rs_SuppressedTxs acc + rs_SuppressedTxs r,
     rs_SuppressedEvents = rs_SuppressedEvents acc + rs_SuppressedEvents r,
     rs_SuppressedTransfers = rs_SuppressedTransfers acc + rs_SuppressedTransfers r,
     rs_SuppressedTrustlines = rs_SuppressedTrustlines acc + rs_SuppressedTrustlines r,
     rs_ForeignUndecodable = rs_ForeignUndecodable acc + rs_ForeignUndecodable r\<rparr>"

datatype scan_error =
    FromSource source_error
  | WrongLedger u32 u32
  | HashDiscontinuity u32
  | ExtractFailed u32 string

text \<open>What the loops take from the outside: bulk reads, header fields, extraction.\<close>

type_synonym 'l batch_source = "u32 \<Rightarrow> nat \<Rightarrow> source_error + 'l list"
type_synonym 'l extractor = "'l \<Rightarrow> string + Result"

section \<open>Scanning a range\<close>

definition backfillChunkSize :: u32 where "backfillChunkSize = 2000"
definition backfillBatchLimit :: nat where "backfillBatchLimit = 200"

fun scan_batch :: "('l \<Rightarrow> Info) \<Rightarrow> 'l extractor \<Rightarrow> 'l list \<Rightarrow> u32 \<times> string \<times> Result
    \<Rightarrow> scan_error + (u32 \<times> string \<times> Result)" where
  "scan_batch infoOf ex [] st = Inr st"
| "scan_batch infoOf ex (meta # batch) (seq, prevHash, acc) =
     (let info = infoOf meta in
      if in_Sequence info \<noteq> seq then Inl (WrongLedger seq (in_Sequence info))
      else if prevHash \<noteq> '''' \<and> in_PreviousHash info \<noteq> prevHash then Inl (HashDiscontinuity seq)
      else case ex meta of
             Inl e \<Rightarrow> Inl (ExtractFailed seq e)
           | Inr res \<Rightarrow> scan_batch infoOf ex batch (seq + 1, in_Hash info, add_result acc res))"

text \<open>The outer loop; \<open>fuel\<close> bounds the number of source calls, \<open>None\<close> is running out of it.\<close>

fun scan_loop :: "'l batch_source \<Rightarrow> ('l \<Rightarrow> Info) \<Rightarrow> 'l extractor \<Rightarrow> u32 \<Rightarrow> nat \<Rightarrow> u32 \<times> string \<times> Result
    \<Rightarrow> (scan_error + Result) option" where
  "scan_loop src infoOf ex to 0 st = None"
| "scan_loop src infoOf ex to (Suc fuel) (seq, prevHash, acc) =
     (if seq \<le> to
      then case src seq (min (unat (to - seq) + 1) backfillBatchLimit) of
             Inl e \<Rightarrow> Some (Inl (FromSource e))
           | Inr batch \<Rightarrow>
               (case scan_batch infoOf ex batch (seq, prevHash, acc) of
                  Inl e \<Rightarrow> Some (Inl e)
                | Inr st' \<Rightarrow> scan_loop src infoOf ex to fuel st')
      else Some (Inr acc))"

definition scan :: "'l batch_source \<Rightarrow> ('l \<Rightarrow> Info) \<Rightarrow> 'l extractor \<Rightarrow> nat \<Rightarrow> u32 \<Rightarrow> u32
    \<Rightarrow> (scan_error + Result) option" where
  "scan src infoOf ex fuel from to = scan_loop src infoOf ex to fuel (from, '''', empty_result)"

section \<open>Locating the retention wall\<close>

function findWall :: "'l batch_source \<Rightarrow> u32 \<Rightarrow> u32 \<Rightarrow> source_error + u32" where
  "findWall src lo hi =
     (if lo \<le> hi
      then let mid = lo + (hi - lo) div 2 in
        case src mid 1 of
          Inr _ \<Rightarrow> if mid = lo then Inr mid else findWall src lo mid
        | Inl e \<Rightarrow>
            if e = ErrBelowRetention
            then (if mid = hi then Inr (hi + 1) else findWall src (mid + 1) hi)
            else Inl e
      else Inr lo)"
  by pat_completeness auto

lemma mid_between:
  assumes "(lo::u32) \<le> hi"
  shows "uint (lo + (hi - lo) div 2) = uint lo + (uint hi - uint lo) div 2"
    "uint lo \<le> uint (lo + (hi - lo) div 2)" "uint (lo + (hi - lo) div 2) \<le> uint hi"
    "lo < hi \<Longrightarrow> uint (lo + (hi - lo) div 2) < uint hi"
proof -
  have le: "uint lo \<le> uint hi" using assms by (simp add: u32_le_iff)
  then have half: "uint ((hi - lo) div 2) = (uint hi - uint lo) div 2"
    by (simp add: uint_div u32_sub)
  have "(uint hi - uint lo) div 2 \<le> uint hi - uint lo" "0 \<le> (uint hi - uint lo) div 2" using le by auto
  then have "uint lo + uint ((hi - lo) div 2) < 4294967296"
    using half u32_uint_bounds [of hi] by linarith
  then show eq: "uint (lo + (hi - lo) div 2) = uint lo + (uint hi - uint lo) div 2"
    by (simp add: u32_add half)
  show "uint lo \<le> uint (lo + (hi - lo) div 2)" "uint (lo + (hi - lo) div 2) \<le> uint hi"
    unfolding eq using \<open>(uint hi - uint lo) div 2 \<le> uint hi - uint lo\<close> \<open>0 \<le> (uint hi - uint lo) div 2\<close> by linarith+
  show "uint (lo + (hi - lo) div 2) < uint hi" if "lo < hi"
    unfolding eq using that by (simp add: u32_less_iff)
qed

termination findWall
proof (relation "measure (\<lambda>(src, lo, hi). nat (uint hi - uint lo))")
  fix src :: "'l batch_source" and lo hi mid :: u32 and x
  assume le: "lo \<le> hi" and mid: "mid = lo + (hi - lo) div 2" and "mid \<noteq> lo"
  then have "lo < hi" using mid_between [OF le] by (auto simp: u32_less_iff u32_le_iff u32_eq_iff)
  then show "((src, lo, mid), (src, lo, hi)) \<in> measure (\<lambda>(src, lo, hi). nat (uint hi - uint lo))"
    using mid_between [OF le] mid \<open>mid \<noteq> lo\<close> by (auto simp: u32_eq_iff)
next
  fix src :: "'l batch_source" and lo hi mid :: u32 and x
  assume le: "lo \<le> hi" and mid: "mid = lo + (hi - lo) div 2" and "mid \<noteq> hi"
  then have lt: "uint mid < uint hi" using mid_between [OF le] by (auto simp: u32_eq_iff)
  then have "uint (mid + 1) = uint mid + 1" using u32_Suc [of mid hi] by (simp add: u32_less_iff)
  then show "((src, mid + 1, hi), (src, lo, hi)) \<in> measure (\<lambda>(src, lo, hi). nat (uint hi - uint lo))"
    using mid_between [OF le] mid lt by auto
qed simp

declare findWall.simps [simp del]

section \<open>Lemmas\<close>

text \<open>A list of headers in which each names its predecessor's hash; the first is not checked when
  there is no hash to check against.\<close>

fun linked :: "string \<Rightarrow> Info list \<Rightarrow> bool" where
  "linked p [] \<longleftrightarrow> True"
| "linked p (i # is) \<longleftrightarrow> (p = '''' \<or> in_PreviousHash i = p) \<and> linked (in_Hash i) is"

text \<open>What a scan that returns rows has read: ledgers of consecutive sequences, linked by their
  hashes, each extracted, and the rows are theirs in order.\<close>

definition scanned :: "('l \<Rightarrow> Info) \<Rightarrow> 'l extractor \<Rightarrow> string \<Rightarrow> int \<Rightarrow> 'l list \<Rightarrow> Result \<Rightarrow> Result \<Rightarrow> bool" where
  "scanned infoOf ex prev seq ls acc res \<longleftrightarrow>
     map (\<lambda>l. uint (in_Sequence (infoOf l))) ls = [seq..seq + int (length ls) - 1]
     \<and> linked prev (map infoOf ls)
     \<and> (\<exists>rs. map ex ls = map Inr rs \<and> res = foldl add_result acc rs)"

definition last_hash :: "('l \<Rightarrow> Info) \<Rightarrow> string \<Rightarrow> 'l list \<Rightarrow> string" where
  "last_hash infoOf prev ls = (if ls = [] then prev else in_Hash (infoOf (last ls)))"

lemma scan_batch_Inr:
  assumes "scan_batch infoOf ex b (seq, prev, acc) = Inr st" and "uint seq + int (length b) < 4294967296"
  shows "scanned infoOf ex prev (uint seq) b acc (snd (snd st))
    \<and> uint (fst st) = uint seq + int (length b) \<and> fst (snd st) = last_hash infoOf prev b"
  using assms
proof (induction b arbitrary: seq prev acc)
  case Nil
  then show ?case by (auto simp: scanned_def last_hash_def)
next
  case (Cons l b)
  let ?i = "infoOf l"
  obtain r where step: "in_Sequence ?i = seq" "prev = '''' \<or> in_PreviousHash ?i = prev" "ex l = Inr r"
    "scan_batch infoOf ex b (seq + 1, in_Hash ?i, add_result acc r) = Inr st"
    using Cons.prems(1) by (auto simp: Let_def split: if_splits sum.splits)
  have suc: "uint (seq + 1) = uint seq + 1" using Cons.prems(2) u32_add [of seq 1] by simp
  have IH: "scanned infoOf ex (in_Hash ?i) (uint (seq + 1)) b (add_result acc r) (snd (snd st))"
    "uint (fst st) = uint (seq + 1) + int (length b)" "fst (snd st) = last_hash infoOf (in_Hash ?i) b"
    using Cons.IH [OF step(4)] Cons.prems(2) suc by auto
  then obtain rs where rs: "map ex b = map Inr rs" "snd (snd st) = foldl add_result (add_result acc r) rs"
    by (auto simp: scanned_def)
  have "[uint seq..uint seq + int (length (l # b)) - 1] = uint seq # [uint seq + 1..uint seq + 1 + int (length b) - 1]"
    by (subst upto.simps) (simp add: add.commute add.left_commute)
  moreover have "\<exists>rs. map ex (l # b) = map Inr rs \<and> snd (snd st) = foldl add_result acc rs"
    using rs step(3) by (intro exI [of _ "r # rs"]) simp
  ultimately show ?case
    using IH step suc by (auto simp: scanned_def last_hash_def)
qed

lemma scanned_append:
  assumes "scanned infoOf ex prev s ls acc mid" and "scanned infoOf ex (last_hash infoOf prev ls) (s + int (length ls)) ms mid res"
  shows "scanned infoOf ex prev s (ls @ ms) acc res"
proof -
  have link: "linked p (map infoOf (xs @ ys)) \<longleftrightarrow> linked p (map infoOf xs) \<and> linked (last_hash infoOf p xs) (map infoOf ys)"
    for p xs ys by (induction xs arbitrary: p) (auto simp: last_hash_def)
  obtain rs qs where "map ex ls = map Inr rs" "mid = foldl add_result acc rs"
    "map ex ms = map Inr qs" "res = foldl add_result mid qs" using assms by (auto simp: scanned_def)
  then have ex: "\<exists>rs. map ex (ls @ ms) = map Inr rs \<and> res = foldl add_result acc rs"
    by (intro exI [of _ "rs @ qs"]) simp
  have up: "[s..s + int (length (ls @ ms)) - 1] =
      [s..s + int (length ls) - 1] @ [s + int (length ls)..s + int (length ls) + int (length ms) - 1]"
  proof (cases "ls = []")
    case False
    then have "1 \<le> int (length ls)" by (cases ls) simp_all
    then show ?thesis by (subst upto_split2 [of s "s + int (length ls) - 1"]) (auto simp: add.assoc)
  qed simp
  have "map (\<lambda>l. uint (in_Sequence (infoOf l))) (ls @ ms) = [s..s + int (length (ls @ ms)) - 1]"
    using assms unfolding up by (simp add: scanned_def)
  moreover have "linked prev (map infoOf (ls @ ms))"
    using assms unfolding link by (simp add: scanned_def)
  ultimately show ?thesis using ex unfolding scanned_def by blast
qed

text \<open>What a bulk read promises when it is asked for at least one ledger: at most as many ledgers as asked for; and an answer
  without an error is not empty.\<close>

definition at_most_asked :: "'l batch_source \<Rightarrow> bool" where
  "at_most_asked src \<longleftrightarrow> (\<forall>s k b. 1 \<le> k \<longrightarrow> src s k = Inr b \<longrightarrow> length b \<le> k)"

definition never_empty :: "'l batch_source \<Rightarrow> bool" where
  "never_empty src \<longleftrightarrow> (\<forall>s k b. src s k = Inr b \<longrightarrow> b \<noteq> [])"

lemma batch_fits:
  assumes "at_most_asked src" and "seq \<le> to" and "to < maxU32"
    and "src seq (min (unat (to - seq) + 1) backfillBatchLimit) = Inr b"
  shows "uint seq + int (length b) \<le> uint to + 1" "uint seq + int (length b) < 4294967296"
proof -
  have "1 \<le> min (unat (to - seq) + 1) backfillBatchLimit" by (simp add: backfillBatchLimit_def)
  then have "length b \<le> unat (to - seq) + 1"
    using assms(1,4) unfolding at_most_asked_def by (meson le_trans min.cobounded1)
  moreover have "int (unat (to - seq)) = uint to - uint seq"
    using assms(2) by (simp add: u32_sub u32_le_iff)
  ultimately show "uint seq + int (length b) \<le> uint to + 1" by linarith
  then show "uint seq + int (length b) < 4294967296" using assms(3) by (simp add: u32_less_iff)
qed

lemma scan_loop_exact:
  assumes "at_most_asked src" and "to < maxU32"
    and "scan_loop src infoOf ex to fuel (seq, prev, acc) = Some (Inr res)" and "uint seq \<le> uint to + 1"
  shows "\<exists>ls. int (length ls) = uint to + 1 - uint seq \<and> scanned infoOf ex prev (uint seq) ls acc res"
  using assms(3,4)
proof (induction fuel arbitrary: seq prev acc)
  case (Suc fuel)
  show ?case
  proof (cases "seq \<le> to")
    case False
    then have "uint seq = uint to + 1" "res = acc" using Suc.prems by (auto simp: u32_le_iff)
    then show ?thesis by (intro exI [of _ "[]"]) (simp add: scanned_def)
  next
    case True
    then obtain b st where b: "src seq (min (unat (to - seq) + 1) backfillBatchLimit) = Inr b"
      "scan_batch infoOf ex b (seq, prev, acc) = Inr st" "scan_loop src infoOf ex to fuel st = Some (Inr res)"
      using Suc.prems(1) by (auto split: sum.splits)
    note fits = batch_fits [OF assms(1) True assms(2) b(1)]
    note one = scan_batch_Inr [OF b(2) fits(2)]
    obtain seq' prev' acc' where st: "st = (seq', prev', acc')" by (cases st)
    obtain ls where ls: "int (length ls) = uint to + 1 - uint seq'" "scanned infoOf ex prev' (uint seq') ls acc' res"
      using Suc.IH [of seq' prev' acc'] b(3) one fits(1) st by auto
    have "scanned infoOf ex prev (uint seq) (b @ ls) acc res"
      by (rule scanned_append [where mid = acc']) (use one ls(2) st in simp_all)
    then show ?thesis using ls(1) one st by (intro exI [of _ "b @ ls"]) simp
  qed
qed simp

lemma scan_loop_returns:
  assumes "at_most_asked src" and "never_empty src" and "to < maxU32"
    and "nat (uint to + 1 - uint seq) < fuel" and "uint seq \<le> uint to + 1"
  shows "scan_loop src infoOf ex to fuel (seq, prev, acc) \<noteq> None"
  using assms(4,5)
proof (induction fuel arbitrary: seq prev acc)
  case (Suc fuel)
  show ?case
  proof (cases "seq \<le> to")
    case True
    show ?thesis
    proof (cases "src seq (min (unat (to - seq) + 1) backfillBatchLimit)")
      case (Inr b)
      note fits = batch_fits [OF assms(1) True assms(3) Inr]
      have "b \<noteq> []" using assms(2) Inr unfolding never_empty_def by blast
      show ?thesis
      proof (cases "scan_batch infoOf ex b (seq, prev, acc)")
        case ok: (Inr st)
        obtain seq' prev' acc' where st: "st = (seq', prev', acc')" by (cases st)
        have "uint seq' = uint seq + int (length b)" using scan_batch_Inr [OF ok fits(2)] st by simp
        moreover have "1 \<le> int (length b)" using \<open>b \<noteq> []\<close> by (cases b) simp_all
        ultimately have "nat (uint to + 1 - uint seq') < fuel" "uint seq' \<le> uint to + 1"
          using Suc.prems fits(1) by linarith+
        then have "scan_loop src infoOf ex to fuel st \<noteq> None" unfolding st by (rule Suc.IH)
        then show ?thesis using True Inr ok by simp
      qed (use True Inr in simp)
    qed (use True in simp)
  qed simp
qed simp

text \<open>A source shaped like a retention window over \<open>lo..hi\<close>, and its wall there.\<close>

definition served :: "'l batch_source \<Rightarrow> u32 \<Rightarrow> bool" where
  "served src x \<longleftrightarrow> (\<exists>b. src x 1 = Inr b)"

definition retention_shaped :: "'l batch_source \<Rightarrow> u32 \<Rightarrow> u32 \<Rightarrow> bool" where
  "retention_shaped src lo hi \<longleftrightarrow>
     (\<forall>x. lo \<le> x \<longrightarrow> x \<le> hi \<longrightarrow> src x 1 = Inl ErrBelowRetention \<or> served src x)
     \<and> (\<forall>x y. lo \<le> x \<longrightarrow> x \<le> y \<longrightarrow> y \<le> hi \<longrightarrow> served src x \<longrightarrow> served src y)"

definition wall_at :: "'l batch_source \<Rightarrow> u32 \<Rightarrow> u32 \<Rightarrow> u32 \<Rightarrow> bool" where
  "wall_at src lo hi w \<longleftrightarrow> lo \<le> w \<and> uint w \<le> uint hi + 1
     \<and> (\<forall>x. lo \<le> x \<longrightarrow> x \<le> hi \<longrightarrow> (served src x \<longleftrightarrow> w \<le> x))"

lemma retention_shaped_sub:
  "retention_shaped src lo hi \<Longrightarrow> lo \<le> a \<Longrightarrow> b \<le> hi \<Longrightarrow> retention_shaped src a b"
  unfolding retention_shaped_def by (meson order_trans)

lemma wall_at_lower:
  assumes "retention_shaped src lo hi" and "served src mid" and "lo \<le> mid" "mid \<le> hi" and "wall_at src lo mid w"
  shows "wall_at src lo hi w"
proof -
  have w: "lo \<le> w" "\<And>x. lo \<le> x \<Longrightarrow> x \<le> mid \<Longrightarrow> (served src x \<longleftrightarrow> w \<le> x)"
    using assms(5) unfolding wall_at_def by blast+
  have "w \<le> mid" using w(2) assms(2,3) by blast
  have "served src x \<longleftrightarrow> w \<le> x" if "lo \<le> x" "x \<le> hi" for x
  proof (cases "x \<le> mid")
    case False
    then have "mid \<le> x" by simp
    then show ?thesis using assms(1-3) that(2) \<open>w \<le> mid\<close> order_trans unfolding retention_shaped_def by blast
  qed (use w that in blast)
  moreover have "uint w \<le> uint hi + 1" using \<open>w \<le> mid\<close> assms(4) by (simp add: u32_le_iff)
  ultimately show ?thesis using w(1) unfolding wall_at_def by blast
qed

lemma wall_at_upper:
  assumes "retention_shaped src lo hi" and "\<not> served src mid" and "lo \<le> mid" "mid \<le> hi"
    and "uint (mid + 1) = uint mid + 1" and "wall_at src (mid + 1) hi w"
  shows "wall_at src lo hi w"
proof -
  have w: "mid + 1 \<le> w" "uint w \<le> uint hi + 1" "\<And>x. mid + 1 \<le> x \<Longrightarrow> x \<le> hi \<Longrightarrow> (served src x \<longleftrightarrow> w \<le> x)"
    using assms(6) unfolding wall_at_def by blast+
  have "served src x \<longleftrightarrow> w \<le> x" if "lo \<le> x" "x \<le> hi" for x
  proof (cases "x \<le> mid")
    case True
    then have "\<not> served src x" using assms(1,2,4) that(1) unfolding retention_shaped_def by blast
    then show ?thesis using True w(1) assms(5) by (auto simp: u32_le_iff)
  next
    case False
    then show ?thesis using w(3) that(2) assms(5) by (simp add: u32_le_iff)
  qed
  moreover have "lo \<le> w" using w(1) assms(3,5) by (simp add: u32_le_iff)
  ultimately show ?thesis using w(2) unfolding wall_at_def by blast
qed

lemma findWall_wall:
  assumes "uint lo \<le> uint hi + 1" and "hi < maxU32" and "retention_shaped src lo hi"
  shows "\<exists>w. findWall src lo hi = Inr w \<and> wall_at src lo hi w"
  using assms
proof (induction src lo hi rule: findWall.induct)
  case (1 src lo hi)
  define mid where "mid = lo + (hi - lo) div 2"
  consider (out) "\<not> lo \<le> hi" | (low) b where "lo \<le> hi" "src mid 1 = Inr b" "mid = lo"
    | (left) b where "lo \<le> hi" "src mid 1 = Inr b" "mid \<noteq> lo"
    | (none) e where "lo \<le> hi" "src mid 1 = Inl e" "mid = hi"
    | (right) e where "lo \<le> hi" "src mid 1 = Inl e" "mid \<noteq> hi" by (cases "src mid 1") auto
  then show ?case
  proof cases
    case out
    then show ?thesis using 1(3) by (subst findWall.simps) (auto simp: u32_le_iff wall_at_def)
  next
    case low
    then have "findWall src lo hi = Inr lo" by (subst findWall.simps) (simp add: mid_def Let_def)
    have "served src lo" using low by (auto simp: served_def)
    then have "served src x" if "lo \<le> x" "x \<le> hi" for x
      using 1(5) that order_refl unfolding retention_shaped_def by blast
    moreover have "uint lo \<le> uint hi + 1" by (rule 1(3))
    ultimately have "wall_at src lo hi lo" unfolding wall_at_def by blast
    then show ?thesis using \<open>findWall src lo hi = Inr lo\<close> by blast
  next
    case left
    note mid = mid_between [OF left(1), folded mid_def u32_le_iff]
    have "mid < maxU32" using mid(3) 1(4) by (rule le_less_trans)
    then obtain w where "findWall src lo mid = Inr w" "wall_at src lo mid w"
      using 1(2) [OF left(1) mid_def left(2,3)] mid retention_shaped_sub [OF 1(5)] by (auto simp: u32_le_iff)
    moreover have "findWall src lo hi = findWall src lo mid"
      using left by (subst findWall.simps) (simp add: mid_def Let_def)
    ultimately show ?thesis
      using wall_at_lower [OF 1(5) _ mid(2,3)] left(2) unfolding served_def by auto
  next
    case none
    then have e: "e = ErrBelowRetention" using 1(5) unfolding retention_shaped_def served_def by fastforce
    have suc: "uint (hi + 1) = uint hi + 1" using 1(4) by (intro u32_Suc)
    have "\<not> served src hi" using none by (auto simp: served_def)
    moreover have "wall_at src (hi + 1) hi (hi + 1)" using suc by (auto simp: wall_at_def u32_le_iff)
    ultimately have "wall_at src lo hi (hi + 1)"
      by (intro wall_at_upper [OF 1(5) _ none(1) order_refl suc])
    moreover have "findWall src lo hi = Inr (hi + 1)"
      using none e by (subst findWall.simps) (simp add: mid_def Let_def)
    ultimately show ?thesis by blast
  next
    case right
    note mid = mid_between [OF right(1), folded mid_def u32_le_iff]
    have e: "e = ErrBelowRetention" using 1(5) right(2) mid(2,3) unfolding retention_shaped_def served_def by fastforce
    have suc: "uint (mid + 1) = uint mid + 1" using mid(3) right(3) by (intro u32_Suc [of mid hi]) simp
    have "lo \<le> mid + 1" "uint (mid + 1) \<le> uint hi + 1" using mid suc by (simp_all add: u32_le_iff)
    then obtain w where "findWall src (mid + 1) hi = Inr w" "wall_at src (mid + 1) hi w"
      using 1(1) [OF right(1) mid_def right(2) e right(3)] 1(4) retention_shaped_sub [OF 1(5)] by auto
    moreover have "findWall src lo hi = findWall src (mid + 1) hi"
      using right e by (subst findWall.simps) (simp add: mid_def Let_def)
    ultimately show ?thesis
      using wall_at_upper [OF 1(5) _ mid(2,3) suc] right(2) by (auto simp: served_def)
  qed
qed

section \<open>Properties\<close>

text \<open>A scan returns the whole range or an error. When \<open>scan\<close> returns rows for \<open>from..to\<close> it
  has read exactly the ledgers of that range, once each, in order, each extending the hash of the one
  before, and its rows and counters are the sum of their extractions; and it does return, within as
  many source calls as there are ledgers, whatever the source answers.\<close>

theorem scan_whole_range:
  assumes "at_most_asked src" and "never_empty src" and "from \<le> to" and "to < maxU32"
    and "nat (uint to + 1 - uint from) < fuel"
  shows "(\<exists>r. scan src infoOf ex fuel from to = Some r)
    \<and> (\<forall>res. scan src infoOf ex fuel from to = Some (Inr res) \<longrightarrow>
        (\<exists>ls rs. map (\<lambda>l. uint (in_Sequence (infoOf l))) ls = [uint from..uint to]
          \<and> linked '''' (map infoOf ls) \<and> map ex ls = map Inr rs \<and> res = foldl add_result empty_result rs))"
proof -
  have le: "uint from \<le> uint to" using assms(3) by (simp add: u32_le_iff)
  have "\<exists>ls rs. map (\<lambda>l. uint (in_Sequence (infoOf l))) ls = [uint from..uint to]
      \<and> linked '''' (map infoOf ls) \<and> map ex ls = map Inr rs \<and> res = foldl add_result empty_result rs"
    if run: "scan src infoOf ex fuel from to = Some (Inr res)" for res
  proof -
    obtain ls where ls: "int (length ls) = uint to + 1 - uint from"
      "scanned infoOf ex '''' (uint from) ls empty_result res"
      using scan_loop_exact [OF assms(1,4), of infoOf ex fuel "from" "''''" empty_result res] run le
      by (auto simp: scan_def)
    then show ?thesis by (auto simp: scanned_def)
  qed
  moreover have "scan src infoOf ex fuel from to \<noteq> None"
    unfolding scan_def by (rule scan_loop_returns [OF assms(1,2,4)]) (use assms(5) le in simp_all)
  ultimately show ?thesis by auto
qed

text \<open>A source for the concrete instances: ledgers are their sequence numbers, served one at a time
  from a wall upwards.\<close>

definition demo_source :: "u32 \<Rightarrow> u32 batch_source" where
  "demo_source wall s k = (if s < wall then Inl ErrBelowRetention
     else if k = 0 then Inl (SourceFailure ''limit must be positive'') else Inr [s])"

definition demo_info :: "u32 \<Rightarrow> Info" where
  "demo_info s = \<lparr>in_Sequence = s, in_Hash = dec (unat s), in_PreviousHash = dec (unat (s - 1)), in_ClosedAt = 0\<rparr>"

theorem scan_whole_range_witness:
  "at_most_asked (demo_source 3) \<and> never_empty (demo_source 3)
    \<and> (\<exists>r. scan (demo_source 3) demo_info (\<lambda>l. Inr empty_result) 5 10 12 = Some r)"
proof -
  have promises: "at_most_asked (demo_source 3)" "never_empty (demo_source 3)"
    by (auto simp: at_most_asked_def never_empty_def demo_source_def split: if_splits)
  have "(10::u32) \<le> 12" "(12::u32) < maxU32" "nat (uint (12::u32) + 1 - uint (10::u32)) < 5"
    by (simp_all add: maxU32_def)
  then show ?thesis
    using scan_whole_range [OF promises, of 10 12 5 demo_info "\<lambda>l. Inr empty_result"] promises by blast
qed

text \<open>C14: \<open>findWall\<close> finds the wall. When the source serves every ledger of \<open>lo..hi\<close> from some
  point on and refuses the ones before it as below retention, the search ends with the oldest served
  ledger, or with \<open>hi+1\<close> when none is served.\<close>

theorem findWall_correct:
  assumes "uint lo \<le> uint hi + 1" and "hi < maxU32"
    and "\<forall>x. lo \<le> x \<longrightarrow> x \<le> hi \<longrightarrow> src x 1 = Inl ErrBelowRetention \<or> (\<exists>b. src x 1 = Inr b)"
    and "\<forall>x y. lo \<le> x \<longrightarrow> x \<le> y \<longrightarrow> y \<le> hi \<longrightarrow> (\<exists>b. src x 1 = Inr b) \<longrightarrow> (\<exists>b. src y 1 = Inr b)"
  shows "\<exists>w. findWall src lo hi = Inr w \<and> lo \<le> w \<and> uint w \<le> uint hi + 1
    \<and> (\<forall>x. lo \<le> x \<longrightarrow> x \<le> hi \<longrightarrow> ((\<exists>b. src x 1 = Inr b) \<longleftrightarrow> w \<le> x))"
  using findWall_wall [OF assms(1,2)] assms(3,4) unfolding retention_shaped_def wall_at_def served_def by blast

theorem findWall_correct_witness:
  "\<exists>w. findWall (demo_source 700) 100 1000 = Inr w
    \<and> (\<forall>x. 100 \<le> x \<longrightarrow> x \<le> 1000 \<longrightarrow> ((\<exists>b. demo_source 700 x 1 = Inr b) \<longleftrightarrow> w \<le> x))"
proof -
  have served: "(\<exists>b. demo_source 700 x 1 = Inr b) \<longleftrightarrow> 700 \<le> x"
    "demo_source 700 x 1 = Inl ErrBelowRetention \<or> (\<exists>b. demo_source 700 x 1 = Inr b)" for x
    by (auto simp: demo_source_def not_less)
  have "uint (100::u32) \<le> uint (1000::u32) + 1" "(1000::u32) < maxU32" by (simp_all add: maxU32_def)
  from findWall_correct [OF this, of "demo_source 700"] show ?thesis
    using served by (blast intro: order_trans)
qed

end
