(* ===== verification/Source_Rpc.thy ===== *)
theory Source_Rpc
  imports Ingest_Scan
begin

text \<open>
  \<^verbatim>\<open>internal/source/rpc/rpc.go\<close>: the failover pool over Stellar RPC endpoints. The network is
  an argument, \<open>net\<close>: what posting a request to an endpoint gives, a body being its length and
  what it decodes to; ledger meta is decoded by \<open>unmarshal\<close>, an argument too. The client's state
  is threaded through: the preferred endpoint, the failover count, and the remembered batch size.
\<close>

section \<open>Data\<close>

record jsonRPCError =
  je_Code :: int
  je_Message :: string

text \<open>The fields the client decodes out of any result; a field the document lacks is zero.\<close>

record reply =
  rp_sequence :: u32
  rp_passphrase :: string
  rp_ledgers :: "(u32 \<times> string) list"
  rp_latestLedger :: u32
  rp_oldestLedger :: u32
  rp_entries :: "string list"

datatype doc = NotJSON | ErrorDoc jsonRPCError | ResultDoc reply | BadResult

datatype exchange = PostFailed | ReadFailed | Answered nat int doc

datatype request =
    GetLatestLedger
  | GetNetwork
  | GetLedgers u32 int
  | GetLedgerEntries string

type_synonym network = "string \<Rightarrow> request \<Rightarrow> exchange"

datatype client_error =
    RpcError jsonRPCError
  | ResponseTooLarge
  | Outage
  | AllFailed
  | WrongNetwork string
  | NotYetAvailable u32
  | BelowRetention u32
  | EmptyInWindow u32
  | Undecodable u32

record Client =
  cl_urls :: "string list"
  cl_preferred :: nat
  cl_failovers :: int
  cl_bodyCap :: int
  cl_batchCeiling :: int
  cl_batchWins :: i32

definition maxBodyBytes :: int where "maxBodyBytes = 67108864"
definition maxBatchLimit :: int where "maxBatchLimit = 200"
definition batchGrowEvery :: i32 where "batchGrowEvery = 8"
definition tipAmbiguitySlack :: u32 where "tipAmbiguitySlack = 64"

definition New :: "string list \<Rightarrow> Client option" where
  "New urls = (if urls = [] then None
     else Some \<lparr>cl_urls = urls, cl_preferred = 0, cl_failovers = 0, cl_bodyCap = maxBodyBytes,
                cl_batchCeiling = maxBatchLimit, cl_batchWins = 0\<rparr>)"

section \<open>Calls\<close>

fun Contains :: "string \<Rightarrow> string \<Rightarrow> bool" where
  "Contains [] sub = (sub = [])"
| "Contains (c # s) sub = (take (length sub) (c # s) = sub \<or> Contains s sub)"

definition looksOutOfRange :: "jsonRPCError \<Rightarrow> bool" where
  "looksOutOfRange e = (let msg = ToLower (je_Message e) in
     Contains msg ''must be between'' \<or> Contains msg ''outside of range'' \<or> Contains msg ''start ledger'')"

definition callOne :: "int \<Rightarrow> exchange \<Rightarrow> client_error + reply" where
  "callOne bodyCap ex =
     (case ex of
        PostFailed \<Rightarrow> Inl Outage
      | ReadFailed \<Rightarrow> Inl Outage
      | Answered status len body \<Rightarrow>
          if len > bodyCap then Inl ResponseTooLarge
          else if status \<noteq> 200 then Inl Outage
          else (case body of
                  NotJSON \<Rightarrow> Inl Outage
                | ErrorDoc e \<Rightarrow> Inl (RpcError e)
                | BadResult \<Rightarrow> Inl Outage
                | ResultDoc r \<Rightarrow> Inr r))"

text \<open>The pool walk from the preferred endpoint; \<open>todo\<close> counts the endpoints still to try.\<close>

fun call_loop :: "network \<Rightarrow> request \<Rightarrow> Client \<Rightarrow> nat \<Rightarrow> nat \<Rightarrow> (client_error + reply) \<times> Client" where
  "call_loop net req c i 0 = (Inl AllFailed, c)"
| "call_loop net req c i (Suc todo) =
     (let start = cl_preferred c;
          idx = (start + i) mod length (cl_urls c)
      in case callOne (cl_bodyCap c) (net (cl_urls c ! idx) req) of
           Inr r \<Rightarrow> (Inr r, if idx \<noteq> start then c\<lparr>cl_failovers := cl_failovers c + 1, cl_preferred := idx\<rparr> else c)
         | Inl e \<Rightarrow>
             (case e of
                RpcError j \<Rightarrow> (Inl e, c)
              | ResponseTooLarge \<Rightarrow> (Inl e, c)
              | _ \<Rightarrow> call_loop net req c (Suc i) todo))"

definition call :: "network \<Rightarrow> request \<Rightarrow> Client \<Rightarrow> (client_error + reply) \<times> Client" where
  "call net req c = call_loop net req c 0 (length (cl_urls c))"

section \<open>The source\<close>

definition LatestLedger :: "network \<Rightarrow> Client \<Rightarrow> (client_error + u32) \<times> Client" where
  "LatestLedger net c =
     (case call net GetLatestLedger c of
        (Inl e, c) \<Rightarrow> (Inl e, c)
      | (Inr r, c) \<Rightarrow> (Inr (rp_sequence r), c))"

definition VerifyNetwork :: "network \<Rightarrow> string \<Rightarrow> Client \<Rightarrow> (client_error + unit) \<times> Client" where
  "VerifyNetwork net passphrase c =
     (case call net GetNetwork c of
        (Inl e, c) \<Rightarrow> (Inl e, c)
      | (Inr r, c) \<Rightarrow>
          (if rp_passphrase r \<noteq> passphrase then Inl (WrongNetwork (rp_passphrase r)) else Inr (), c))"

text \<open>\<open>None\<close>: the probe failed and the original error stands.\<close>

definition classifyOutOfRange :: "network \<Rightarrow> u32 \<Rightarrow> Client \<Rightarrow> client_error option \<times> Client" where
  "classifyOutOfRange net seq c =
     (case LatestLedger net c of
        (Inl e, c) \<Rightarrow> (None, c)
      | (Inr lat, c) \<Rightarrow>
          (Some (if seq + tipAmbiguitySlack \<ge> lat then NotYetAvailable seq else BelowRetention seq), c))"

text \<open>What both ledger reads do with an error of the call.\<close>

definition window_error :: "network \<Rightarrow> u32 \<Rightarrow> client_error \<Rightarrow> Client \<Rightarrow> client_error \<times> Client" where
  "window_error net seq e c =
     (case e of
        RpcError j \<Rightarrow>
          (if looksOutOfRange j
           then (case classifyOutOfRange net seq c of
                   (Some e', c) \<Rightarrow> (e', c)
                 | (None, c) \<Rightarrow> (e, c))
           else (e, c))
      | _ \<Rightarrow> (e, c))"

definition GetLedger :: "network \<Rightarrow> (string \<Rightarrow> 'l option) \<Rightarrow> u32 \<Rightarrow> Client \<Rightarrow> (client_error + 'l) \<times> Client" where
  "GetLedger net unmarshal seq c =
     (case call net (GetLedgers seq 1) c of
        (Inl e, c) \<Rightarrow> (case window_error net seq e c of (e', c) \<Rightarrow> (Inl e', c))
      | (Inr r, c) \<Rightarrow>
          (if rp_ledgers r = [] \<or> fst (hd (rp_ledgers r)) \<noteq> seq
           then if seq > rp_latestLedger r then Inl (NotYetAvailable seq)
                else if seq < rp_oldestLedger r then Inl (BelowRetention seq)
                else Inl (EmptyInWindow seq)
           else case unmarshal (snd (hd (rp_ledgers r))) of
                  None \<Rightarrow> Inl (Undecodable seq)
                | Some l \<Rightarrow> Inr l, c))"

fun decode_ledgers :: "(string \<Rightarrow> 'l option) \<Rightarrow> (u32 \<times> string) list \<Rightarrow> client_error + 'l list" where
  "decode_ledgers unmarshal [] = Inr []"
| "decode_ledgers unmarshal ((s, x) # ls) =
     (case unmarshal x of
        None \<Rightarrow> Inl (Undecodable s)
      | Some l \<Rightarrow> (case decode_ledgers unmarshal ls of Inl e \<Rightarrow> Inl e | Inr out \<Rightarrow> Inr (l # out)))"

definition getLedgerBatchOnce ::
  "network \<Rightarrow> (string \<Rightarrow> 'l option) \<Rightarrow> u32 \<Rightarrow> int \<Rightarrow> Client \<Rightarrow> (client_error + 'l list) \<times> Client"
where
  "getLedgerBatchOnce net unmarshal start limit c =
     (case call net (GetLedgers start limit) c of
        (Inl e, c) \<Rightarrow> (case window_error net start e c of (e', c) \<Rightarrow> (Inl e', c))
      | (Inr r, c) \<Rightarrow>
          (if rp_ledgers r = []
           then if start > rp_latestLedger r then Inl (NotYetAvailable start)
                else if start < rp_oldestLedger r then Inl (BelowRetention start)
                else Inl (EmptyInWindow start)
           else decode_ledgers unmarshal (rp_ledgers r), c))"

text \<open>The halving loop of \<open>GetLedgerBatch\<close> from an effective size.\<close>

function batch_loop ::
  "network \<Rightarrow> (string \<Rightarrow> 'l option) \<Rightarrow> u32 \<Rightarrow> int \<Rightarrow> int \<Rightarrow> Client \<Rightarrow> (client_error + 'l list) \<times> Client"
where
  "batch_loop net unmarshal start limit eff c =
     (case getLedgerBatchOnce net unmarshal start eff c of
        (out, c) \<Rightarrow>
          if out = Inl ResponseTooLarge \<and> eff > 1
          then batch_loop net unmarshal start limit (eff div 2)
                 (c\<lparr>cl_batchCeiling := eff div 2, cl_batchWins := 0\<rparr>)
          else case out of
                 Inl e \<Rightarrow> (out, c)
               | Inr ls \<Rightarrow>
                   if eff < limit
                   then let wins = cl_batchWins c + 1; c = c\<lparr>cl_batchWins := wins\<rparr> in
                     (out, if wins mod batchGrowEvery = 0
                           then c\<lparr>cl_batchCeiling := min maxBatchLimit (eff + max (eff div 4) 1)\<rparr> else c)
                   else (out, c))"
  by pat_completeness auto

termination batch_loop
  by (relation "measure (\<lambda>(net, unmarshal, start, limit, eff, c). nat eff)") auto

declare batch_loop.simps [simp del]

definition GetLedgerBatch ::
  "network \<Rightarrow> (string \<Rightarrow> 'l option) \<Rightarrow> u32 \<Rightarrow> int \<Rightarrow> Client \<Rightarrow> (client_error + 'l list) \<times> Client"
where
  "GetLedgerBatch net unmarshal start limit c =
     (let limit = (if limit > maxBatchLimit then maxBatchLimit else limit);
          limit = (if limit < 1 then 1 else limit)
      in batch_loop net unmarshal start limit (max (min limit (cl_batchCeiling c)) 1) c)"

definition GetLedgerEntry :: "network \<Rightarrow> string \<Rightarrow> Client \<Rightarrow> (client_error + string option) \<times> Client" where
  "GetLedgerEntry net keyB64 c =
     (case call net (GetLedgerEntries keyB64) c of
        (Inl e, c) \<Rightarrow> (Inl e, c)
      | (Inr r, c) \<Rightarrow> (Inr (if rp_entries r = [] then None else Some (hd (rp_entries r))), c))"

section \<open>Lemmas\<close>

definition client_ok :: "Client \<Rightarrow> bool" where
  "client_ok c \<longleftrightarrow> cl_urls c \<noteq> [] \<and> cl_preferred c < length (cl_urls c)
     \<and> 1 \<le> cl_batchCeiling c \<and> cl_batchCeiling c \<le> maxBatchLimit"

text \<open>Two clients that differ at most in which endpoint they prefer.\<close>

definition same_pool :: "Client \<Rightarrow> Client \<Rightarrow> bool" where
  "same_pool c c' \<longleftrightarrow> cl_urls c' = cl_urls c \<and> cl_bodyCap c' = cl_bodyCap c
     \<and> cl_batchCeiling c' = cl_batchCeiling c \<and> cl_batchWins c' = cl_batchWins c
     \<and> (cl_preferred c < length (cl_urls c) \<longrightarrow> cl_preferred c' < length (cl_urls c))"

lemma same_pool_refl [simp]: "same_pool c c"
  by (simp add: same_pool_def)

lemma same_pool_trans: "same_pool a b \<Longrightarrow> same_pool b c \<Longrightarrow> same_pool a c"
  by (auto simp: same_pool_def)

lemma same_pool_ok: "same_pool c c' \<Longrightarrow> client_ok c \<Longrightarrow> client_ok c'"
  by (simp add: same_pool_def client_ok_def)

text \<open>The answer of the \<open>i\<close>-th endpoint tried.\<close>

definition nth_answer :: "network \<Rightarrow> request \<Rightarrow> Client \<Rightarrow> nat \<Rightarrow> client_error + reply" where
  "nth_answer net req c i =
     callOne (cl_bodyCap c) (net (cl_urls c ! ((cl_preferred c + i) mod length (cl_urls c))) req)"

lemma callOne_error: "callOne cap ex = Inl e \<Longrightarrow> e = Outage \<or> e = ResponseTooLarge \<or> (\<exists>j. e = RpcError j)"
  by (auto simp: callOne_def split: exchange.splits doc.splits if_splits)

lemma call_loop_outcome:
  "(\<exists>k<todo. (\<forall>i<k. nth_answer net req c (j + i) = Inl Outage) \<and> nth_answer net req c (j + k) \<noteq> Inl Outage
      \<and> fst (call_loop net req c j todo) = nth_answer net req c (j + k)
      \<and> snd (call_loop net req c j todo) =
          (let idx = (cl_preferred c + (j + k)) mod length (cl_urls c) in
           if (\<exists>r. nth_answer net req c (j + k) = Inr r) \<and> idx \<noteq> cl_preferred c
           then c\<lparr>cl_failovers := cl_failovers c + 1, cl_preferred := idx\<rparr> else c))
   \<or> (\<forall>i<todo. nth_answer net req c (j + i) = Inl Outage) \<and> call_loop net req c j todo = (Inl AllFailed, c)"
proof (induction todo arbitrary: j)
  case (Suc todo)
  show ?case
  proof (cases "nth_answer net req c j = Inl Outage")
    case True
    then have step: "call_loop net req c j (Suc todo) = call_loop net req c (Suc j) todo"
      by (simp add: nth_answer_def Let_def)
    from Suc.IH [of "Suc j"] show ?thesis
    proof (elim disjE exE conjE)
      fix k assume k: "k < todo" "\<forall>i<k. nth_answer net req c (Suc j + i) = Inl Outage"
        "nth_answer net req c (Suc j + k) \<noteq> Inl Outage" "fst (call_loop net req c (Suc j) todo) = nth_answer net req c (Suc j + k)"
        "snd (call_loop net req c (Suc j) todo) =
          (let idx = (cl_preferred c + (Suc j + k)) mod length (cl_urls c) in
           if (\<exists>r. nth_answer net req c (Suc j + k) = Inr r) \<and> idx \<noteq> cl_preferred c
           then c\<lparr>cl_failovers := cl_failovers c + 1, cl_preferred := idx\<rparr> else c)"
      have "\<forall>i<Suc k. nth_answer net req c (j + i) = Inl Outage"
      proof (intro allI impI)
        fix i assume "i < Suc k"
        then show "nth_answer net req c (j + i) = Inl Outage" using True k(2) by (cases i) auto
      qed
      then show ?thesis unfolding step using k by (intro disjI1 exI [of _ "Suc k"]) (simp add: Let_def)
    next
      assume all: "\<forall>i<todo. nth_answer net req c (Suc j + i) = Inl Outage" "call_loop net req c (Suc j) todo = (Inl AllFailed, c)"
      have "\<forall>i<Suc todo. nth_answer net req c (j + i) = Inl Outage"
      proof (intro allI impI)
        fix i assume "i < Suc todo"
        then show "nth_answer net req c (j + i) = Inl Outage" using True all(1) by (cases i) auto
      qed
      then show ?thesis unfolding step using all(2) by blast
    qed
  next
    case False
    then have "fst (call_loop net req c j (Suc todo)) = nth_answer net req c j
      \<and> snd (call_loop net req c j (Suc todo)) =
          (let idx = (cl_preferred c + j) mod length (cl_urls c) in
           if (\<exists>r. nth_answer net req c j = Inr r) \<and> idx \<noteq> cl_preferred c
           then c\<lparr>cl_failovers := cl_failovers c + 1, cl_preferred := idx\<rparr> else c)"
      using callOne_error [of "cl_bodyCap c"]
      by (cases "nth_answer net req c j") (fastforce simp: nth_answer_def Let_def split: client_error.splits)+
    then show ?thesis using False by (intro disjI1 exI [of _ 0]) simp
  qed
qed simp

lemma call_same_pool: "same_pool c (snd (call net req c))"
  using call_loop_outcome [of "length (cl_urls c)" net req c 0]
  by (auto simp: call_def same_pool_def Let_def intro!: mod_less_divisor)

lemma LatestLedger_same_pool: "same_pool c (snd (LatestLedger net c))"
  using call_same_pool [of c net GetLatestLedger] by (auto simp: LatestLedger_def split: prod.splits sum.splits)

lemma window_error_same_pool: "same_pool c (snd (window_error net seq e c))"
  using LatestLedger_same_pool [of c net]
  by (auto simp: window_error_def classifyOutOfRange_def split: client_error.splits prod.splits sum.splits option.splits if_splits)

lemma getLedgerBatchOnce_same_pool: "same_pool c (snd (getLedgerBatchOnce net u s k c))"
proof (cases "call net (GetLedgers s k) c")
  case (Pair r c1)
  have one: "same_pool c c1" using call_same_pool [of c net "GetLedgers s k"] Pair by simp
  show ?thesis
  proof (cases r)
    case (Inl e)
    have "same_pool c1 (snd (window_error net s e c1))" by (rule window_error_same_pool)
    then show ?thesis using Pair Inl same_pool_trans [OF one]
      by (auto simp: getLedgerBatchOnce_def split: prod.splits)
  qed (use Pair one in \<open>simp add: getLedgerBatchOnce_def\<close>)
qed

text \<open>What the network promises of \<^verbatim>\<open>getLedgers\<close>: no more ledgers than the limit.\<close>

definition honours_limit :: "network \<Rightarrow> bool" where
  "honours_limit net \<longleftrightarrow> (\<forall>url s k st len r. net url (GetLedgers s k) = Answered st len (ResultDoc r)
     \<longrightarrow> int (length (rp_ledgers r)) \<le> k)"

lemma decode_ledgers_length: "decode_ledgers u ls = Inr out \<Longrightarrow> length out = length ls"
  by (induction ls arbitrary: out rule: decode_ledgers.induct) (auto split: option.splits sum.splits)

lemma decode_ledgers_error: "decode_ledgers u ls = Inl e \<Longrightarrow> \<exists>s. e = Undecodable s"
  by (induction ls rule: decode_ledgers.induct) (auto split: option.splits sum.splits)

lemma call_answer:
  assumes "call net req c = (r, c')"
  shows "r = Inl AllFailed \<or> (\<exists>url\<in>set (cl_urls c). r = callOne (cl_bodyCap c) (net url req))"
proof -
  have nth: "\<exists>url\<in>set (cl_urls c). nth_answer net req c k = callOne (cl_bodyCap c) (net url req)"
    if "k < length (cl_urls c)" for k
  proof -
    have "(cl_preferred c + k) mod length (cl_urls c) < length (cl_urls c)" using that by (intro mod_less_divisor) linarith
    then show ?thesis unfolding nth_answer_def using nth_mem by blast
  qed
  from call_loop_outcome [of "length (cl_urls c)" net req c 0] show ?thesis
    using assms nth by (auto simp: call_def)
qed

lemma getLedgerBatchOnce_ok:
  assumes "getLedgerBatchOnce net u s k c = (Inr ls, c')" and "honours_limit net"
  shows "ls \<noteq> [] \<and> int (length ls) \<le> k"
proof -
  obtain r c1 where r: "call net (GetLedgers s k) c = (Inr r, c1)" "rp_ledgers r \<noteq> []" "decode_ledgers u (rp_ledgers r) = Inr ls"
    using assms(1) by (auto simp: getLedgerBatchOnce_def split: prod.splits sum.splits if_splits)
  obtain url where "Inr r = callOne (cl_bodyCap c) (net url (GetLedgers s k))" using call_answer [OF r(1)] by auto
  then obtain st len where "net url (GetLedgers s k) = Answered st len (ResultDoc r)"
    by (auto simp: callOne_def split: exchange.splits doc.splits if_splits)
  then have "int (length (rp_ledgers r)) \<le> k" using assms(2) unfolding honours_limit_def by blast
  moreover have "length ls = length (rp_ledgers r)" using r(3) by (rule decode_ledgers_length)
  ultimately show ?thesis using r(2) by auto
qed

lemma window_error_not_large: "fst (window_error net s e c) = ResponseTooLarge \<Longrightarrow> e = ResponseTooLarge"
  by (auto simp: window_error_def classifyOutOfRange_def split: client_error.splits prod.splits sum.splits option.splits if_splits)

lemma getLedgerBatchOnce_large:
  assumes "getLedgerBatchOnce net u s k c = (Inl ResponseTooLarge, c')"
  shows "\<exists>url\<in>set (cl_urls c). \<exists>st len body. net url (GetLedgers s k) = Answered st len body \<and> len > cl_bodyCap c"
proof -
  obtain r c1 where r: "call net (GetLedgers s k) c = (r, c1)" by (cases "call net (GetLedgers s k) c")
  have "\<exists>e. r = Inl e \<and> e = ResponseTooLarge"
  proof (cases r)
    case (Inl e)
    then have "fst (window_error net s e c1) = ResponseTooLarge"
      using assms r by (auto simp: getLedgerBatchOnce_def split: prod.splits)
    then show ?thesis using Inl window_error_not_large by blast
  next
    case (Inr a)
    then show ?thesis
      using assms r decode_ledgers_error [of u "rp_ledgers a"] by (auto simp: getLedgerBatchOnce_def split: if_splits)
  qed
  then have e: "call net (GetLedgers s k) c = (Inl ResponseTooLarge, c1)" using r by simp
  then obtain url where url: "url \<in> set (cl_urls c)" "callOne (cl_bodyCap c) (net url (GetLedgers s k)) = Inl ResponseTooLarge"
    using call_answer [OF e] by auto
  then show ?thesis by (auto simp: callOne_def intro!: bexI [of _ url] split: exchange.splits doc.splits if_splits)
qed

lemma batch_loop_outcome:
  assumes "batch_loop net u s limit eff c = (out, c')" and "honours_limit net" and "1 \<le> eff" "eff \<le> limit" "limit \<le> maxBatchLimit"
    and "client_ok c"
  shows "(\<forall>ls. out = Inr ls \<longrightarrow> ls \<noteq> [] \<and> int (length ls) \<le> limit) \<and> client_ok c'
    \<and> (out = Inl ResponseTooLarge \<longrightarrow>
        (\<exists>url\<in>set (cl_urls c). \<exists>st len body. net url (GetLedgers s 1) = Answered st len body \<and> len > cl_bodyCap c))"
  using assms
proof (induction net u s limit eff c rule: batch_loop.induct)
  case (1 net u s limit eff c)
  obtain o1 c1 where once: "getLedgerBatchOnce net u s eff c = (o1, c1)" by (cases "getLedgerBatchOnce net u s eff c")
  have pool: "same_pool c c1" using getLedgerBatchOnce_same_pool [of c net u s eff] once by simp
  then have ok: "client_ok c1" using 1(7) same_pool_ok by blast
  show ?case
  proof (cases "o1 = Inl ResponseTooLarge \<and> eff > 1")
    case True
    let ?c = "c1\<lparr>cl_batchCeiling := eff div 2, cl_batchWins := 0\<rparr>"
    have "batch_loop net u s limit eff c = batch_loop net u s limit (eff div 2) ?c"
      using True once by (subst batch_loop.simps) simp
    then have run: "batch_loop net u s limit (eff div 2) ?c = (out, c')" using 1(2) by simp
    have half: "1 \<le> eff div 2" "eff div 2 \<le> limit" using True 1(5) by linarith+
    have "client_ok ?c" using ok half 1(6) by (simp add: client_ok_def)
    from 1(1) [OF once [symmetric] True run 1(3) half 1(6) this] show ?thesis
      using pool by (simp add: same_pool_def)
  next
    case False
    then have eq: "batch_loop net u s limit eff c = (case o1 of Inl e \<Rightarrow> (o1, c1) | Inr ls \<Rightarrow>
        if eff < limit then let wins = cl_batchWins c1 + 1; c = c1\<lparr>cl_batchWins := wins\<rparr> in
          (o1, if wins mod batchGrowEvery = 0 then c\<lparr>cl_batchCeiling := min maxBatchLimit (eff + max (eff div 4) 1)\<rparr> else c)
        else (o1, c1))" by (subst batch_loop.simps) (simp only: once prod.case False if_False)
    have out: "out = o1" and c': "client_ok c'"
      using 1(2,4) ok unfolding eq by (auto simp: client_ok_def Let_def maxBatchLimit_def split: sum.splits if_splits)
    have "eff = 1" if "o1 = Inl ResponseTooLarge" using False that 1(4) by simp
    then show ?thesis
      using out c' getLedgerBatchOnce_ok [of net u s eff c _ c1] getLedgerBatchOnce_large [of net u s eff c c1] once 1(3,5) by force
  qed
qed

section \<open>Properties\<close>

text \<open>C18: the failover walk. A call is answered by the first endpoint, walking the pool from the
  preferred one, that is not down: its result, its JSON-RPC error or its oversized answer is final.
  Only a success at another endpoint changes the client, which then prefers that endpoint and counts
  one failover; when every endpoint is down, the call fails and nothing changes.\<close>

theorem call_failover:
  assumes "cl_preferred c < length (cl_urls c)" and "call net req c = (r, c')"
  shows "(\<exists>k<length (cl_urls c). (\<forall>i<k. nth_answer net req c i = Inl Outage) \<and> nth_answer net req c k \<noteq> Inl Outage
        \<and> r = nth_answer net req c k
        \<and> (if k \<noteq> 0 \<and> (\<exists>a. r = Inr a)
           then c' = c\<lparr>cl_failovers := cl_failovers c + 1, cl_preferred := (cl_preferred c + k) mod length (cl_urls c)\<rparr>
           else c' = c))
    \<or> (\<forall>i<length (cl_urls c). nth_answer net req c i = Inl Outage) \<and> r = Inl AllFailed \<and> c' = c"
proof -
  have other: "(cl_preferred c + k) mod length (cl_urls c) \<noteq> cl_preferred c \<longleftrightarrow> k \<noteq> 0"
    if "k < length (cl_urls c)" for k
    using assms(1) that by (cases "cl_preferred c + k < length (cl_urls c)") (auto simp: mod_if)
  from call_loop_outcome [of "length (cl_urls c)" net req c 0] show ?thesis
    using assms(2) other unfolding call_def by (auto simp: Let_def split: if_splits)
qed

text \<open>A pool of two endpoints of which the first is down, serving one ledger at a time.\<close>

definition demo_net :: network where
  "demo_net url req = (if url = ''a'' then PostFailed
     else Answered 200 10 (ResultDoc \<lparr>rp_sequence = 500, rp_passphrase = ''p'', rp_ledgers = [(7, ''x'')],
            rp_latestLedger = 500, rp_oldestLedger = 3, rp_entries = []\<rparr>))"

definition demo_client :: Client where
  "demo_client = \<lparr>cl_urls = [''a'', ''b''], cl_preferred = 0, cl_failovers = 0, cl_bodyCap = 100,
     cl_batchCeiling = 200, cl_batchWins = 0\<rparr>"

theorem call_failover_witness:
  "\<exists>k<2. fst (call demo_net GetLatestLedger demo_client) = nth_answer demo_net GetLatestLedger demo_client k"
proof -
  have pref: "cl_preferred demo_client < length (cl_urls demo_client)" by (simp add: demo_client_def)
  have ans: "nth_answer demo_net GetLatestLedger demo_client 1 \<noteq> Inl Outage"
    by (simp add: nth_answer_def demo_client_def demo_net_def callOne_def)
  have two: "length (cl_urls demo_client) = 2" by (simp add: demo_client_def)
  note out = call_failover [OF pref prod.collapse [symmetric], of demo_net GetLatestLedger, unfolded two]
  have "\<not> (\<forall>i<2. nth_answer demo_net GetLatestLedger demo_client i = Inl Outage)"
    using ans by (metis one_less_numeral_iff semiring_norm(76))
  then show ?thesis using out by blast
qed

lemma GetLedgerBatch_outcome:
  assumes "GetLedgerBatch net u start limit c = (out, c')" and "honours_limit net" and "client_ok c" and "1 \<le> limit"
  shows "(\<forall>ls. out = Inr ls \<longrightarrow> ls \<noteq> [] \<and> int (length ls) \<le> min limit maxBatchLimit) \<and> client_ok c'
    \<and> (out = Inl ResponseTooLarge \<longrightarrow>
        (\<exists>url\<in>set (cl_urls c). \<exists>st len body. net url (GetLedgers start 1) = Answered st len body \<and> len > cl_bodyCap c))"
proof -
  let ?l = "min limit maxBatchLimit"
  have "batch_loop net u start ?l (max (min ?l (cl_batchCeiling c)) 1) c = (out, c')"
    using assms(1,4) by (auto simp: GetLedgerBatch_def Let_def maxBatchLimit_def min_def split: if_splits)
  moreover have "max (min ?l (cl_batchCeiling c)) 1 \<le> ?l" using assms(4) by (auto simp: maxBatchLimit_def)
  moreover have "1 \<le> max (min ?l (cl_batchCeiling c)) 1" "?l \<le> maxBatchLimit" by (rule max.cobounded2, rule min.cobounded2)
  ultimately have "(\<forall>ls. out = Inr ls \<longrightarrow> ls \<noteq> [] \<and> int (length ls) \<le> ?l) \<and> client_ok c'
    \<and> (out = Inl ResponseTooLarge \<longrightarrow>
        (\<exists>url\<in>set (cl_urls c). \<exists>st len body. net url (GetLedgers start 1) = Answered st len body \<and> len > cl_bodyCap c))"
    by (intro batch_loop_outcome [OF _ assms(2) _ _ _ assms(3)])
  then show ?thesis .
qed

text \<open>C19: a bulk read is never empty-handed. When the endpoints honour the page limit, a successful
  \<open>GetLedgerBatch\<close> returns at least one ledger and no more than asked for or than the page cap; it
  reports an oversized answer only when a single ledger overflows the body cap; and the remembered
  batch size stays between one and the page cap. The halving always ends.\<close>

theorem GetLedgerBatch_contract:
  assumes "GetLedgerBatch net u start limit c = (out, c')" and "honours_limit net" and "client_ok c" and "1 \<le> limit"
  shows "(\<forall>ls. out = Inr ls \<longrightarrow> ls \<noteq> [] \<and> int (length ls) \<le> min limit maxBatchLimit) \<and> client_ok c'
    \<and> (out = Inl ResponseTooLarge \<longrightarrow>
        (\<exists>url\<in>set (cl_urls c). \<exists>st len body. net url (GetLedgers start 1) = Answered st len body \<and> len > cl_bodyCap c))"
  by (rule GetLedgerBatch_outcome [OF assms])

lemma demo_net_honours: "honours_limit (\<lambda>url req. case req of GetLedgers s k \<Rightarrow> if k < 1 then PostFailed else demo_net url req | _ \<Rightarrow> demo_net url req)"
  by (auto simp: honours_limit_def demo_net_def split: if_splits)

theorem GetLedgerBatch_contract_witness:
  "client_ok (snd (GetLedgerBatch (\<lambda>url req. case req of GetLedgers s k \<Rightarrow> if k < 1 then PostFailed else demo_net url req
      | _ \<Rightarrow> demo_net url req) Some 7 50 demo_client))"
proof -
  have "client_ok demo_client" by (simp add: client_ok_def demo_client_def maxBatchLimit_def)
  from GetLedgerBatch_contract [OF prod.collapse [symmetric] demo_net_honours this, of 50 Some 7] show ?thesis by simp
qed

end
