(* ===== verification/Ingest_Source.thy ===== *)
theory Ingest_Source
  imports Ingest_Scan Source_Rpc
begin

text \<open>
  The seam of \<^verbatim>\<open>internal/source/source.go\<close> from both sides. The backfill's \<open>scan\<close> asks its source for
  bulk reads; the source keeps a state between reads (the endpoint it prefers, the batch size it
  remembers) and its answers change over time. The locale \<open>ledger_source\<close> is the contract, the scan is
  proved once against it, and the RPC client of \<^verbatim>\<open>internal/source/rpc/rpc.go\<close> is shown to keep it, over
  endpoints that may answer every call differently.
\<close>

section \<open>Scanning through a source with state\<close>

fun scan_through_loop ::
  "('s \<Rightarrow> u32 \<Rightarrow> nat \<Rightarrow> (source_error + 'l list) \<times> 's) \<Rightarrow> ('l \<Rightarrow> Info) \<Rightarrow> 'l extractor \<Rightarrow> u32 \<Rightarrow> nat
    \<Rightarrow> 's \<Rightarrow> u32 \<times> string \<times> Result \<Rightarrow> ((scan_error + Result) \<times> 's) option"
where
  "scan_through_loop read infoOf ex to 0 s st = None"
| "scan_through_loop read infoOf ex to (Suc fuel) s (seq, prevHash, acc) =
     (if seq \<le> to
      then case read s seq (min (unat (to - seq) + 1) backfillBatchLimit) of
             (Inl e, s) \<Rightarrow> Some (Inl (FromSource e), s)
           | (Inr batch, s) \<Rightarrow>
               (case scan_batch infoOf ex batch (seq, prevHash, acc) of
                  Inl e \<Rightarrow> Some (Inl e, s)
                | Inr st' \<Rightarrow> scan_through_loop read infoOf ex to fuel s st')
      else Some (Inr acc, s))"

definition scan_through ::
  "('s \<Rightarrow> u32 \<Rightarrow> nat \<Rightarrow> (source_error + 'l list) \<times> 's) \<Rightarrow> ('l \<Rightarrow> Info) \<Rightarrow> 'l extractor \<Rightarrow> nat \<Rightarrow> u32 \<Rightarrow> u32
    \<Rightarrow> 's \<Rightarrow> ((scan_error + Result) \<times> 's) option"
where
  "scan_through read infoOf ex fuel from to s = scan_through_loop read infoOf ex to fuel s (from, '''', empty_result)"

text \<open>A source without a state is the special case the other theories use.\<close>

lemma scan_through_stateless:
  "scan_through (\<lambda>s q k. (src q k, s)) infoOf ex fuel from to s
     = map_option (\<lambda>out. (out, s)) (scan src infoOf ex fuel from to)"
proof -
  have "scan_through_loop (\<lambda>s q k. (src q k, s)) infoOf ex to fuel s st
      = map_option (\<lambda>out. (out, s)) (scan_loop src infoOf ex to fuel st)" for st
  proof (induction fuel arbitrary: st)
    case (Suc fuel)
    obtain q p a where "st = (q, p, a)" by (cases st)
    then show ?case using Suc by (auto split: sum.splits)
  qed simp
  then show ?thesis by (simp add: scan_through_def scan_def)
qed

section \<open>The contract\<close>

locale ledger_source =
  fixes read :: "'s \<Rightarrow> u32 \<Rightarrow> nat \<Rightarrow> (source_error + 'l list) \<times> 's"
    and healthy :: "'s \<Rightarrow> bool"
  assumes stays_healthy: "healthy s \<Longrightarrow> 1 \<le> k \<Longrightarrow> healthy (snd (read s q k))"
    and reads_some: "healthy s \<Longrightarrow> 1 \<le> k \<Longrightarrow> fst (read s q k) = Inr b \<Longrightarrow> b \<noteq> [] \<and> length b \<le> k"
begin

lemma read_fits:
  assumes "healthy s" and "seq \<le> to" and "to < maxU32"
    and "read s seq (min (unat (to - seq) + 1) backfillBatchLimit) = (Inr b, s')"
  shows "healthy s'" "b \<noteq> []" "uint seq + int (length b) \<le> uint to + 1" "uint seq + int (length b) < 4294967296"
proof -
  have one: "1 \<le> min (unat (to - seq) + 1) backfillBatchLimit" by (simp add: backfillBatchLimit_def)
  show "healthy s'" using stays_healthy [OF assms(1) one, of seq] assms(4) by simp
  have b: "b \<noteq> [] \<and> length b \<le> min (unat (to - seq) + 1) backfillBatchLimit"
    using reads_some [OF assms(1) one] assms(4) by (metis fst_conv)
  then show "b \<noteq> []" by simp
  from b have "length b \<le> unat (to - seq) + 1" by simp
  moreover have "int (unat (to - seq)) = uint to - uint seq"
    using assms(2) by (simp add: u32_sub u32_le_iff)
  ultimately show "uint seq + int (length b) \<le> uint to + 1" by linarith
  then show "uint seq + int (length b) < 4294967296" using assms(3) by (simp add: u32_less_iff)
qed

text \<open>One induction gives termination, the exact range and the health of the source.\<close>

lemma scan_through_loop_exact:
  assumes "to < maxU32" and "healthy s" and "uint seq \<le> uint to + 1" and "nat (uint to + 1 - uint seq) < fuel"
  shows "\<exists>out s'. scan_through_loop read infoOf ex to fuel s (seq, prev, acc) = Some (out, s') \<and> healthy s'
    \<and> (\<forall>res. out = Inr res \<longrightarrow>
        (\<exists>ls. int (length ls) = uint to + 1 - uint seq \<and> scanned infoOf ex prev (uint seq) ls acc res))"
  using assms(2-)
proof (induction fuel arbitrary: s seq prev acc)
  case (Suc fuel)
  show ?case
  proof (cases "seq \<le> to")
    case False
    then have "uint seq = uint to + 1" using Suc.prems by (auto simp: u32_le_iff)
    then show ?thesis using False Suc.prems(1) by (auto simp: scanned_def intro!: exI [of _ "[]"])
  next
    case True
    let ?k = "min (unat (to - seq) + 1) backfillBatchLimit"
    obtain out s1 where r: "read s seq ?k = (out, s1)" by (cases "read s seq ?k")
    show ?thesis
    proof (cases out)
      case (Inl e)
      have "1 \<le> ?k" by (simp add: backfillBatchLimit_def)
      then have "healthy s1" using stays_healthy [OF Suc.prems(1), of ?k seq] r by simp
      then show ?thesis using True r Inl by simp
    next
      case (Inr b)
      note fits = read_fits [OF Suc.prems(1) True assms(1) r [unfolded Inr]]
      show ?thesis
      proof (cases "scan_batch infoOf ex b (seq, prev, acc)")
        case (Inl e)
        then show ?thesis using True r Inr fits(1) by simp
      next
        case ok: (Inr st)
        obtain seq' prev' acc' where st: "st = (seq', prev', acc')" by (cases st)
        note one = scan_batch_Inr [OF ok fits(4), unfolded st]
        have "1 \<le> int (length b)" using fits(2) by (cases b) simp_all
        then have "uint seq' \<le> uint to + 1" "nat (uint to + 1 - uint seq') < fuel"
          using one fits(3) Suc.prems(3) unfolding fst_conv snd_conv by linarith+
        from Suc.IH [OF fits(1) this, of prev' acc'] obtain out' s' where
          run: "scan_through_loop read infoOf ex to fuel s1 st = Some (out', s')" "healthy s'"
          and rows: "\<And>res. out' = Inr res \<Longrightarrow>
            \<exists>ls. int (length ls) = uint to + 1 - uint seq' \<and> scanned infoOf ex prev' (uint seq') ls acc' res"
          unfolding st by blast
        have "\<exists>ls. int (length ls) = uint to + 1 - uint seq \<and> scanned infoOf ex prev (uint seq) ls acc res"
          if "out' = Inr res" for res
        proof -
          from rows [OF that] obtain ls where ls: "int (length ls) = uint to + 1 - uint seq'"
            "scanned infoOf ex prev' (uint seq') ls acc' res" by blast
          have "scanned infoOf ex prev (uint seq) (b @ ls) acc res"
            by (rule scanned_append [where mid = acc']) (use one ls(2) in simp_all)
          then show ?thesis using ls(1) one by (intro exI [of _ "b @ ls"]) simp
        qed
        then show ?thesis using True r Inr ok run by simp
      qed
    qed
  qed
qed simp

lemma scan_through_exact:
  assumes "healthy s" and "from \<le> to" and "to < maxU32" and "nat (uint to + 1 - uint from) < fuel"
  shows "\<exists>out s'. scan_through read infoOf ex fuel from to s = Some (out, s') \<and> healthy s'
    \<and> (\<forall>res. out = Inr res \<longrightarrow>
        (\<exists>ls rs. map (\<lambda>l. uint (in_Sequence (infoOf l))) ls = [uint from..uint to]
          \<and> linked '''' (map infoOf ls) \<and> map ex ls = map Inr rs \<and> res = foldl add_result empty_result rs))"
proof -
  have le: "uint from \<le> uint to" using assms(2) by (simp add: u32_le_iff)
  then have "uint from \<le> uint to + 1" by simp
  from scan_through_loop_exact [OF assms(3,1) this assms(4), of infoOf ex "''''" empty_result]
  obtain out s' where "scan_through read infoOf ex fuel from to s = Some (out, s')" "healthy s'"
    and rows: "\<And>res. out = Inr res \<Longrightarrow> \<exists>ls. int (length ls) = uint to + 1 - uint from
        \<and> scanned infoOf ex '''' (uint from) ls empty_result res"
    unfolding scan_through_def by blast
  moreover have "\<exists>ls rs. map (\<lambda>l. uint (in_Sequence (infoOf l))) ls = [uint from..uint to]
      \<and> linked '''' (map infoOf ls) \<and> map ex ls = map Inr rs \<and> res = foldl add_result empty_result rs"
    if "out = Inr res" for res
  proof -
    from rows [OF that] obtain ls where "int (length ls) = uint to + 1 - uint from"
      "scanned infoOf ex '''' (uint from) ls empty_result res" by blast
    then show ?thesis by (auto simp: scanned_def)
  qed
  ultimately show ?thesis by blast
qed

end

section \<open>The RPC client keeps it\<close>

definition source_error_of :: "client_error \<Rightarrow> source_error" where
  "source_error_of e =
     (case e of NotYetAvailable _ \<Rightarrow> ErrNotYetAvailable | BelowRetention _ \<Rightarrow> ErrBelowRetention | _ \<Rightarrow> SourceFailure ''rpc'')"

text \<open>The pool in a changing world: what the endpoints answer at each bulk read, how many there have
  been, and the client.\<close>

record pool_state =
  ps_net :: "nat \<Rightarrow> network"
  ps_reads :: nat
  ps_client :: Client

definition pool_read :: "(string \<Rightarrow> 'l option) \<Rightarrow> pool_state \<Rightarrow> u32 \<Rightarrow> nat \<Rightarrow> (source_error + 'l list) \<times> pool_state" where
  "pool_read unmarshal s start limit =
     (case GetLedgerBatch (ps_net s (ps_reads s)) unmarshal start (int limit) (ps_client s) of
        (out, c) \<Rightarrow> (case out of Inl e \<Rightarrow> Inl (source_error_of e) | Inr ls \<Rightarrow> Inr ls,
                     s\<lparr>ps_reads := Suc (ps_reads s), ps_client := c\<rparr>))"

definition pool_healthy :: "pool_state \<Rightarrow> bool" where
  "pool_healthy s \<longleftrightarrow> (\<forall>i. honours_limit (ps_net s i)) \<and> client_ok (ps_client s)"

lemma pool_read_keeps:
  assumes "pool_healthy s" and "1 \<le> k"
  shows "pool_healthy (snd (pool_read u s q k)) \<and> (\<forall>b. fst (pool_read u s q k) = Inr b \<longrightarrow> b \<noteq> [] \<and> length b \<le> k)"
proof -
  obtain out c where r: "GetLedgerBatch (ps_net s (ps_reads s)) u q (int k) (ps_client s) = (out, c)"
    by (cases "GetLedgerBatch (ps_net s (ps_reads s)) u q (int k) (ps_client s)")
  have "(\<forall>ls. out = Inr ls \<longrightarrow> ls \<noteq> [] \<and> int (length ls) \<le> min (int k) maxBatchLimit) \<and> client_ok c"
    using GetLedgerBatch_outcome [OF r] assms by (simp add: pool_healthy_def)
  then show ?thesis using assms(1)
    by (auto simp: pool_read_def r pool_healthy_def split: sum.splits)
qed

interpretation pool: ledger_source "pool_read u" pool_healthy for u :: "string \<Rightarrow> 'l option"
  by unfold_locales (use pool_read_keeps in blast)+

section \<open>Properties\<close>

text \<open>C38: A scan through the failover pool returns the whole range or an error. Whatever the endpoints
  answer, differently at every call, as long as none sends more ledgers than asked for: the scan
  returns, the pool stays usable, and rows are returned only when exactly the ledgers of the range have
  been read, in order, each extending the hash of the one before, and are the sum of their
  extractions.\<close>

theorem pool_scan_whole_range:
  assumes "\<forall>i. honours_limit (net i)" and "client_ok c" and "from \<le> to" and "to < maxU32"
    and "nat (uint to + 1 - uint from) < fuel"
  shows "\<exists>out s'. scan_through (pool_read u) infoOf ex fuel from to \<lparr>ps_net = net, ps_reads = n, ps_client = c\<rparr> = Some (out, s')
    \<and> client_ok (ps_client s')
    \<and> (\<forall>res. out = Inr res \<longrightarrow>
        (\<exists>ls rs. map (\<lambda>l. uint (in_Sequence (infoOf l))) ls = [uint from..uint to]
          \<and> linked '''' (map infoOf ls) \<and> map ex ls = map Inr rs \<and> res = foldl add_result empty_result rs))"
proof -
  have "pool_healthy \<lparr>ps_net = net, ps_reads = n, ps_client = c\<rparr>" using assms(1,2) by (simp add: pool_healthy_def)
  from pool.scan_through_exact [OF this assms(3-5)] show ?thesis unfolding pool_healthy_def by blast
qed

theorem pool_scan_whole_range_witness:
  "\<exists>out s'. scan_through (pool_read (\<lambda>_. Some (7 :: u32))) demo_info (\<lambda>_. Inr empty_result) 9 7 7
       \<lparr>ps_net = (\<lambda>_ url req. case req of GetLedgers s k \<Rightarrow> if k < 1 then PostFailed else demo_net url req | _ \<Rightarrow> demo_net url req),
        ps_reads = 0, ps_client = demo_client\<rparr> = Some (out, s') \<and> client_ok (ps_client s')"
proof -
  have "client_ok demo_client" by (simp add: client_ok_def demo_client_def maxBatchLimit_def)
  from pool_scan_whole_range [OF _ this, of "\<lambda>_. (\<lambda>url req. case req of GetLedgers s k \<Rightarrow> if k < 1 then PostFailed else demo_net url req | _ \<Rightarrow> demo_net url req)" 7 7 9]
  show ?thesis using demo_net_honours by (simp add: maxU32_def) blast
qed

end
