(* ===== verification/Health.thy ===== *)
theory Health
  imports Ingest_Scan
begin

text \<open>
  \<^verbatim>\<open>internal/health/health.go\<close>: the instruments the workers feed and the state behind
  \<^verbatim>\<open>/ready\<close> and \<^verbatim>\<open>/status\<close>. A Prometheus counter is the sum of what was added to it, a
  gauge the last value set, the histogram the list of its observations. Durations are nanoseconds.
\<close>

section \<open>Instruments\<close>

record Metrics =
  m_LedgersIngested :: int
  m_TipLag :: int
  m_SourceFailovers :: int
  m_CommitSeconds :: "int list"
  m_OpenGaps :: int
  m_DeferredGaps :: int
  m_DeferredLedgers :: int
  m_EventsExtracted :: int
  m_StateChanges :: int
  m_Transfers :: int
  m_TrustlineChanges :: int
  m_Movements :: int
  m_ForeignUndecodable :: int
  m_FailedTxs :: int
  m_SuppressedTxs :: int
  m_SuppressedEvents :: int
  m_SuppressedTransfers :: int
  m_SuppressedTrustlines :: int
  m_BackfillChunks :: int
  m_BackfillLedgers :: int
  m_BackfillPending :: int
  m_GapsHealed :: int
  m_HealedLedgers :: int
  m_EquivalenceFailures :: int

definition NewMetrics :: Metrics where
  "NewMetrics = \<lparr>m_LedgersIngested = 0, m_TipLag = 0, m_SourceFailovers = 0, m_CommitSeconds = [],
     m_OpenGaps = 0, m_DeferredGaps = 0, m_DeferredLedgers = 0, m_EventsExtracted = 0,
     m_StateChanges = 0, m_Transfers = 0, m_TrustlineChanges = 0, m_Movements = 0,
     m_ForeignUndecodable = 0, m_FailedTxs = 0, m_SuppressedTxs = 0, m_SuppressedEvents = 0,
     m_SuppressedTransfers = 0, m_SuppressedTrustlines = 0, m_BackfillChunks = 0,
     m_BackfillLedgers = 0, m_BackfillPending = 0, m_GapsHealed = 0, m_HealedLedgers = 0, m_EquivalenceFailures = 0\<rparr>"

definition IncLedgersIngested :: "Metrics \<Rightarrow> Metrics" where
  "IncLedgersIngested m = m\<lparr>m_LedgersIngested := m_LedgersIngested m + 1\<rparr>"
definition SetTipLag :: "int \<Rightarrow> Metrics \<Rightarrow> Metrics" where
  "SetTipLag d m = m\<lparr>m_TipLag := d\<rparr>"
definition ObserveCommit :: "int \<Rightarrow> Metrics \<Rightarrow> Metrics" where
  "ObserveCommit d m = m\<lparr>m_CommitSeconds := m_CommitSeconds m @ [d]\<rparr>"
definition IncEventsExtracted :: "int \<Rightarrow> Metrics \<Rightarrow> Metrics" where
  "IncEventsExtracted n m = m\<lparr>m_EventsExtracted := m_EventsExtracted m + n\<rparr>"
definition IncStateChangesExtracted :: "int \<Rightarrow> Metrics \<Rightarrow> Metrics" where
  "IncStateChangesExtracted n m = m\<lparr>m_StateChanges := m_StateChanges m + n\<rparr>"
definition IncTransfersExtracted :: "int \<Rightarrow> Metrics \<Rightarrow> Metrics" where
  "IncTransfersExtracted n m = m\<lparr>m_Transfers := m_Transfers m + n\<rparr>"
definition IncTrustlineChangesExtracted :: "int \<Rightarrow> Metrics \<Rightarrow> Metrics" where
  "IncTrustlineChangesExtracted n m = m\<lparr>m_TrustlineChanges := m_TrustlineChanges m + n\<rparr>"
definition IncMovementsExtracted :: "int \<Rightarrow> Metrics \<Rightarrow> Metrics" where
  "IncMovementsExtracted n m = m\<lparr>m_Movements := m_Movements m + n\<rparr>"
definition IncFailedTxs :: "int \<Rightarrow> Metrics \<Rightarrow> Metrics" where
  "IncFailedTxs n m = m\<lparr>m_FailedTxs := m_FailedTxs m + n\<rparr>"
definition IncSuppressedTxs :: "int \<Rightarrow> Metrics \<Rightarrow> Metrics" where
  "IncSuppressedTxs n m = m\<lparr>m_SuppressedTxs := m_SuppressedTxs m + n\<rparr>"
definition IncSuppressedEvents :: "int \<Rightarrow> Metrics \<Rightarrow> Metrics" where
  "IncSuppressedEvents n m = m\<lparr>m_SuppressedEvents := m_SuppressedEvents m + n\<rparr>"
definition IncSuppressedTransfers :: "int \<Rightarrow> Metrics \<Rightarrow> Metrics" where
  "IncSuppressedTransfers n m = m\<lparr>m_SuppressedTransfers := m_SuppressedTransfers m + n\<rparr>"
definition IncSuppressedTrustlines :: "int \<Rightarrow> Metrics \<Rightarrow> Metrics" where
  "IncSuppressedTrustlines n m = m\<lparr>m_SuppressedTrustlines := m_SuppressedTrustlines m + n\<rparr>"
definition IncForeignUndecodable :: "int \<Rightarrow> Metrics \<Rightarrow> Metrics" where
  "IncForeignUndecodable n m = m\<lparr>m_ForeignUndecodable := m_ForeignUndecodable m + n\<rparr>"
definition IncBackfillChunks :: "Metrics \<Rightarrow> Metrics" where
  "IncBackfillChunks m = m\<lparr>m_BackfillChunks := m_BackfillChunks m + 1\<rparr>"
definition AddBackfillLedgers :: "int \<Rightarrow> Metrics \<Rightarrow> Metrics" where
  "AddBackfillLedgers n m = m\<lparr>m_BackfillLedgers := m_BackfillLedgers m + n\<rparr>"
definition IncGapsHealed :: "Metrics \<Rightarrow> Metrics" where
  "IncGapsHealed m = m\<lparr>m_GapsHealed := m_GapsHealed m + 1\<rparr>"
definition AddHealedLedgers :: "int \<Rightarrow> Metrics \<Rightarrow> Metrics" where
  "AddHealedLedgers n m = m\<lparr>m_HealedLedgers := m_HealedLedgers m + n\<rparr>"
definition IncEquivalenceFailures :: "Metrics \<Rightarrow> Metrics" where
  "IncEquivalenceFailures m = m\<lparr>m_EquivalenceFailures := m_EquivalenceFailures m + 1\<rparr>"

text \<open>The calls every worker makes for one extraction: rows that were stored, and what extraction
  had to skip.\<close>

definition count_rows :: "Result \<Rightarrow> Metrics \<Rightarrow> Metrics" where
  "count_rows res = IncMovementsExtracted (int (length (rs_Movements res)))
     \<circ> IncTrustlineChangesExtracted (int (length (rs_TrustlineChanges res)))
     \<circ> IncTransfersExtracted (int (length (rs_Transfers res)))
     \<circ> IncStateChangesExtracted (int (length (rs_StateChanges res)))
     \<circ> IncEventsExtracted (int (length (rs_Events res)))"

definition count_skipped :: "Result \<Rightarrow> Metrics \<Rightarrow> Metrics" where
  "count_skipped res = IncForeignUndecodable (rs_ForeignUndecodable res)
     \<circ> IncSuppressedTrustlines (rs_SuppressedTrustlines res)
     \<circ> IncSuppressedTransfers (rs_SuppressedTransfers res)
     \<circ> IncSuppressedEvents (rs_SuppressedEvents res)
     \<circ> IncSuppressedTxs (rs_SuppressedTxs res)
     \<circ> IncFailedTxs (rs_FailedTxs res)"

section \<open>Operational state\<close>

record State =
  h_ready :: bool
  h_cursor :: u32
  h_latestKnown :: u32
  h_tipLagMilli :: int
  h_openGaps :: int
  h_deferredGaps :: int
  h_deferredLedgers :: int
  h_failovers :: int
  h_pendingBackfills :: int
  h_archive :: "string option"

record Status =
  u_Version :: string
  u_Network :: string
  u_StartedAt :: int
  u_Ready :: bool
  u_CursorSequence :: u32
  u_LatestKnown :: u32
  u_TipLagMilli :: int
  u_OpenGaps :: int
  u_GapsPendingHeal :: int
  u_DeferredGaps :: int
  u_DeferredLedgers :: int
  u_SourceFailovers :: int
  u_PendingBackfills :: int
  u_Archive :: string

definition SetReady :: "bool \<Rightarrow> State \<Rightarrow> State" where
  "SetReady v s = s\<lparr>h_ready := v\<rparr>"

text \<open>\<open>Duration.Milliseconds\<close> truncates towards zero.\<close>

definition Milliseconds :: "int \<Rightarrow> int" where
  "Milliseconds d = (if d < 0 then - ((- d) div 1000000) else d div 1000000)"

definition Observe :: "u32 \<Rightarrow> u32 \<Rightarrow> int \<Rightarrow> State \<Rightarrow> State" where
  "Observe cursor lat tipLag s =
     s\<lparr>h_cursor := cursor, h_latestKnown := lat, h_tipLagMilli := Milliseconds tipLag\<rparr>"

definition SetOpenGaps :: "int \<Rightarrow> State \<Rightarrow> State" where
  "SetOpenGaps n s = s\<lparr>h_openGaps := n\<rparr>"

definition gapsPendingHeal :: "State \<Rightarrow> int" where
  "gapsPendingHeal s = (let n = h_openGaps s - h_deferredGaps s in if n > 0 then n else 0)"

definition SetDeferredGaps :: "int \<Rightarrow> int \<Rightarrow> State \<Rightarrow> State" where
  "SetDeferredGaps gaps ledgers s = s\<lparr>h_deferredGaps := gaps, h_deferredLedgers := ledgers\<rparr>"

definition SetFailovers :: "int \<Rightarrow> State \<Rightarrow> State" where
  "SetFailovers n s = s\<lparr>h_failovers := n\<rparr>"

definition SetPendingBackfills :: "int \<Rightarrow> State \<Rightarrow> State" where
  "SetPendingBackfills n s = s\<lparr>h_pendingBackfills := n\<rparr>"

definition SetArchiveState :: "string \<Rightarrow> State \<Rightarrow> State" where
  "SetArchiveState v s = s\<lparr>h_archive := Some v\<rparr>"

definition archiveState :: "State \<Rightarrow> string" where
  "archiveState s = (case h_archive s of Some v \<Rightarrow> v | None \<Rightarrow> ''off'')"

definition ready_status :: "State \<Rightarrow> nat" where
  "ready_status s = (if h_ready s then 200 else 503)"

definition snapshot :: "string \<Rightarrow> string \<Rightarrow> int \<Rightarrow> State \<Rightarrow> Status" where
  "snapshot version network startedAt s =
     \<lparr>u_Version = version, u_Network = network, u_StartedAt = startedAt, u_Ready = h_ready s,
      u_CursorSequence = h_cursor s, u_LatestKnown = h_latestKnown s, u_TipLagMilli = h_tipLagMilli s,
      u_OpenGaps = h_openGaps s, u_GapsPendingHeal = gapsPendingHeal s,
      u_DeferredGaps = h_deferredGaps s, u_DeferredLedgers = h_deferredLedgers s,
      u_SourceFailovers = h_failovers s, u_PendingBackfills = h_pendingBackfills s,
      u_Archive = archiveState s\<rparr>"

section \<open>Feeding the status from the database\<close>

text \<open>One tick of \<open>feedStatus\<close> (\<^verbatim>\<open>cmd/sierpe/main.go\<close>), with every read answered.\<close>

definition feedStatus :: "string \<Rightarrow> db \<Rightarrow> State \<times> Metrics \<Rightarrow> State \<times> Metrics" where
  "feedStatus network d sm =
     (let n = int (OpenGaps network d);
          gaps = int (fst (DeferredGaps network d)); ledgers = snd (DeferredGaps network d);
          p = int (CountPendingBackfills network d)
      in (SetPendingBackfills p (SetDeferredGaps gaps ledgers (SetOpenGaps n (fst sm))),
          (snd sm)\<lparr>m_OpenGaps := n, m_DeferredGaps := gaps, m_DeferredLedgers := ledgers, m_BackfillPending := p\<rparr>))"

text \<open>One tick of \<open>feedFailovers\<close>: the counter catches up with the pool's count.\<close>

definition feedFailovers :: "int \<Rightarrow> int \<times> State \<times> Metrics \<Rightarrow> int \<times> State \<times> Metrics" where
  "feedFailovers now lsm =
     (case lsm of (seen, s, m) \<Rightarrow>
        (max seen now, SetFailovers now s,
         if seen < now then m\<lparr>m_SourceFailovers := m_SourceFailovers m + (now - seen)\<rparr> else m))"

section \<open>Lemmas\<close>

lemmas inc_defs = IncLedgersIngested_def SetTipLag_def ObserveCommit_def IncEventsExtracted_def
  IncStateChangesExtracted_def IncTransfersExtracted_def IncTrustlineChangesExtracted_def
  IncMovementsExtracted_def IncFailedTxs_def IncSuppressedTxs_def IncSuppressedEvents_def
  IncSuppressedTransfers_def IncSuppressedTrustlines_def IncForeignUndecodable_def
  IncBackfillChunks_def AddBackfillLedgers_def IncGapsHealed_def AddHealedLedgers_def
  IncEquivalenceFailures_def

lemma count_rows_events [simp]:
  "m_EventsExtracted (count_rows res m) = m_EventsExtracted m + int (length (rs_Events res))"
  by (simp add: count_rows_def inc_defs)

lemma count_skipped_events [simp]: "m_EventsExtracted (count_skipped res m) = m_EventsExtracted m"
  by (simp add: count_skipped_def inc_defs)

text \<open>Counting the parts of a scan one by one is counting the scan.\<close>

lemma count_add_result:
  "count_rows (add_result a b) m = count_rows b (count_rows a m)"
  "count_skipped (add_result a b) m = count_skipped b (count_skipped a m)"
  by (simp_all add: count_rows_def count_skipped_def inc_defs add_result_def)

text \<open>Open gaps split into the replayed and the deferred ones.\<close>

lemma open_gaps_split:
  "OpenGaps n d = sql_count (\<lambda>r. open_gap n r \<and> gr_heal_mode r = HealModeDeferred) (t_gaps d)
     + length (ListOpenGaps n d)"
proof -
  have "length (filter (open_gap n) tbl) =
      length (filter (\<lambda>r. open_gap n r \<and> gr_heal_mode r = HealModeDeferred) tbl)
      + length (filter (\<lambda>r. open_gap n r \<and> gr_heal_mode r = HealModeReplay) tbl)" for tbl
  proof (induction tbl)
    case (Cons r tbl)
    then show ?case by (cases "gr_heal_mode r") auto
  qed simp
  then show ?thesis by (simp add: OpenGaps_def ListOpenGaps_def sql_count_def)
qed

section \<open>Properties\<close>

text \<open>What \<^verbatim>\<open>/status\<close> calls pending is what the healer will work on. After a status tick
  on an unchanged database, the pending-heal count is the number of gaps the healer lists, and it
  and the deferred count add up to the open gaps.\<close>

theorem status_pending_heal:
  "u_GapsPendingHeal (snapshot v n startedAt (fst (feedStatus n d sm))) = int (length (ListOpenGaps n d))
   \<and> u_OpenGaps (snapshot v n startedAt (fst (feedStatus n d sm))) =
       u_DeferredGaps (snapshot v n startedAt (fst (feedStatus n d sm))) + int (length (ListOpenGaps n d))"
  by (simp add: snapshot_def feedStatus_def gapsPendingHeal_def SetOpenGaps_def SetDeferredGaps_def
      SetPendingBackfills_def DeferredGaps_def open_gaps_split Let_def)

end
