(* ===== verification/Ingest_Backfill.thy ===== *)
theory Ingest_Backfill
  imports Health
begin

text \<open>
  The descending walk of \<^verbatim>\<open>internal/ingest/backfill.go\<close>: \<open>round\<close> groups the pending
  contracts by the grid cell of their next chunk, \<open>processGroup\<close> scans a cell once for its group
  and commits each contract's rows and watermark in a transaction of its own. The source, the header
  fields and the extraction of a ledger come in as a \<open>chain\<close>; the worker's state is its one-entry
  scan cache, the instruments and the database. \<open>None\<close> is a scan that does not end (which a source
  that keeps its promises excludes). Cancellation is not modelled.
\<close>

section \<open>Data\<close>

record 'l chain =
  ch_src :: "'l batch_source"
  ch_info :: "'l \<Rightarrow> Info"
  ch_events :: "Snapshot \<Rightarrow> 'l extractor"

record scanCacheEntry =
  sk_from :: u32
  sk_to :: u32
  sk_members :: "(string \<times> string) list"
  sk_res :: Result

record chunkRange =
  rg_from :: u32
  rg_to :: u32

record Backfiller =
  bf_lastScan :: "scanCacheEntry option"
  bf_inst :: Metrics
  bf_db :: db

section \<open>The scan cache\<close>

fun joinStrings :: "string \<Rightarrow> string list \<Rightarrow> string" where
  "joinStrings sep [] = ''''"
| "joinStrings sep [x] = x"
| "joinStrings sep (x # y # ys) = x @ sep @ joinStrings sep (y # ys)"

definition canonicalKinds :: "Contract \<Rightarrow> string" where
  "canonicalKinds c = joinStrings '','' (sort (ct_Kinds c))"

text \<open>Reading a Go map of strings: a missing key reads as the empty string.\<close>

definition member_kinds :: "scanCacheEntry \<Rightarrow> string \<Rightarrow> string" where
  "member_kinds e i = (case map_of (sk_members e) i of None \<Rightarrow> '''' | Some k \<Rightarrow> k)"

definition cachedScan :: "scanCacheEntry option \<Rightarrow> chunkRange \<Rightarrow> Contract list \<Rightarrow> Result option" where
  "cachedScan lastScan rg contracts =
     (case lastScan of
        None \<Rightarrow> None
      | Some c \<Rightarrow>
          if sk_from c \<noteq> rg_from rg \<or> sk_to c \<noteq> rg_to rg then None
          else if list_ex (\<lambda>ct. member_kinds c (ct_ContractID ct) \<noteq> canonicalKinds ct) contracts then None
          else Some (sk_res c))"

definition rememberScan :: "chunkRange \<Rightarrow> Contract list \<Rightarrow> Result \<Rightarrow> scanCacheEntry" where
  "rememberScan rg contracts res =
     \<lparr>sk_from = rg_from rg, sk_to = rg_to rg,
      sk_members = foldl (\<lambda>m ct. byID_put (ct_ContractID ct) (canonicalKinds ct) m) [] contracts,
      sk_res = res\<rparr>"

section \<open>Splitting a shared scan\<close>

type_synonym parts = "(string \<times> partitioned) list"

definition orEmpty :: "partitioned option \<Rightarrow> partitioned" where
  "orEmpty p = (case p of None \<Rightarrow> no_rows | Some q \<Rightarrow> q)"

text \<open>\<open>get(id)\<close> followed by an append to one of the slices.\<close>

definition add_part :: "string \<Rightarrow> (partitioned \<Rightarrow> partitioned) \<Rightarrow> parts \<Rightarrow> parts" where
  "add_part i f parts = byID_put i (f (orEmpty (map_of parts i))) parts"

definition partitionResult :: "Result \<Rightarrow> parts" where
  "partitionResult res =
     (let parts = foldl (\<lambda>m e. add_part (ev_ContractID e) (\<lambda>p. p\<lparr>pa_events := pa_events p @ [e]\<rparr>) m) [] (rs_Events res);
          parts = foldl (\<lambda>m s. add_part (sc_ContractID s) (\<lambda>p. p\<lparr>pa_states := pa_states p @ [s]\<rparr>) m) parts (rs_StateChanges res);
          parts = foldl (\<lambda>m t. add_part (tr_ContractID t) (\<lambda>p. p\<lparr>pa_transfers := pa_transfers p @ [t]\<rparr>) m) parts (rs_Transfers res);
          parts = foldl (\<lambda>m t. add_part (tc_ContractID t) (\<lambda>p. p\<lparr>pa_trustlines := pa_trustlines p @ [t]\<rparr>) m) parts (rs_TrustlineChanges res)
      in foldl (\<lambda>m v. add_part (mv_ContractID v) (\<lambda>p. p\<lparr>pa_movements := pa_movements p @ [v]\<rparr>) m) parts (rs_Movements res))"

section \<open>One group\<close>

definition chunkFromFor :: "Backfill \<Rightarrow> u32" where
  "chunkFromFor bf = max (b_NextTo bf - (b_NextTo bf - 1) mod backfillChunkSize) (b_TargetFrom bf)"

definition gap_reason :: string where
  "gap_reason = ''below source retention during backfill; the archive leg can heal this''"

text \<open>The loop that records one gap per distinct target: each in its own transaction, stopping at
  the first that fails.\<close>

fun record_gaps :: "string \<Rightarrow> u32 \<Rightarrow> int \<Rightarrow> u32 list \<Rightarrow> BackfillJob list \<Rightarrow> db \<Rightarrow> bool \<times> db" where
  "record_gaps network wall now recorded [] d = (True, d)"
| "record_gaps network wall now recorded (job # jobs) d =
     (let tf = b_TargetFrom (j_Backfill job) in
      if tf \<in> set recorded then record_gaps network wall now recorded jobs d
      else case RecordGap network tf (wall - 1) gap_reason now d of
             Inl e \<Rightarrow> (False, d)
           | Inr d' \<Rightarrow> record_gaps network wall now (tf # recorded) jobs d')"

definition next_row :: "chunkRange \<Rightarrow> u32 option \<Rightarrow> Backfill \<Rightarrow> Backfill" where
  "next_row rg clamped bf =
     (case clamped of
        Some wall \<Rightarrow>
          (let next = bf\<lparr>b_Done := True, b_ClampedAt := Some wall\<rparr>
           in if wall \<le> b_NextTo bf then next\<lparr>b_NextTo := wall - 1\<rparr> else next)
      | None \<Rightarrow> bf\<lparr>b_NextTo := rg_from rg - 1, b_Done := (rg_from rg \<le> b_TargetFrom bf)\<rparr>)"

text \<open>The commit loop: a contract whose commit fails is skipped, the rest keep their progress.\<close>

fun commit_jobs :: "string \<Rightarrow> chunkRange \<Rightarrow> u32 option \<Rightarrow> parts \<Rightarrow> int \<Rightarrow> BackfillJob list \<Rightarrow> nat \<times> db \<Rightarrow> nat \<times> db" where
  "commit_jobs network rg clamped parts now [] cd = cd"
| "commit_jobs network rg clamped parts now (job # jobs) (committed, d) =
     (let p = orEmpty (map_of parts (ct_ContractID (j_Contract job))) in
      case CommitBackfillChunk network (next_row rg clamped (j_Backfill job)) p now d of
        Inl e \<Rightarrow> commit_jobs network rg clamped parts now jobs (committed, d)
      | Inr d' \<Rightarrow> commit_jobs network rg clamped parts now jobs (Suc committed, d'))"

definition count_chunk :: "chunkRange \<Rightarrow> u32 option \<Rightarrow> Result \<Rightarrow> Metrics \<Rightarrow> Metrics" where
  "count_chunk rg clamped res m =
     (let scanned = (case clamped of
            None \<Rightarrow> uint (rg_to rg) - uint (rg_from rg) + 1
          | Some wall \<Rightarrow> if wall \<le> rg_to rg then uint (rg_to rg) - uint wall + 1 else 0)
      in count_skipped res (count_rows res (AddBackfillLedgers scanned (IncBackfillChunks m))))"

definition commit_group ::
  "string \<Rightarrow> chunkRange \<Rightarrow> BackfillJob list \<Rightarrow> bool \<Rightarrow> u32 option \<Rightarrow> Result \<Rightarrow> int \<Rightarrow> Backfiller \<Rightarrow> bool \<times> Backfiller"
where
  "commit_group network rg jobs cached clamped res now b =
     (let parts = partitionResult res;
          sorted = sort_on (\<lambda>j. ct_ContractID (j_Contract j)) jobs;
          cd = commit_jobs network rg clamped parts now sorted (0, bf_db b);
          b' = b\<lparr>bf_db := snd cd\<rparr>
      in if fst cd = 0 then (False, b')
         else (True, if cached then b' else b'\<lparr>bf_inst := count_chunk rg clamped res (bf_inst b)\<rparr>))"

definition processGroup ::
  "string \<Rightarrow> 'l chain \<Rightarrow> nat \<Rightarrow> int \<Rightarrow> chunkRange \<Rightarrow> BackfillJob list \<Rightarrow> BackfillJob list \<Rightarrow> Backfiller
     \<Rightarrow> (bool \<times> Backfiller) option"
where
  "processGroup network ch fuel now rg jobs ahead b =
     (let contracts = map j_Contract jobs;
          scanFor = contracts @ map j_Contract ahead
      in case cachedScan (bf_lastScan b) rg contracts of
        Some res \<Rightarrow> Some (commit_group network rg jobs True None res now b)
      | None \<Rightarrow>
          (case scan (ch_src ch) (ch_info ch) (ch_events ch (StaticSnapshot scanFor)) fuel (rg_from rg) (rg_to rg) of
             None \<Rightarrow> None
           | Some (Inr res) \<Rightarrow>
               Some (commit_group network rg jobs False None res now
                       (b\<lparr>bf_lastScan := Some (rememberScan rg scanFor res)\<rparr>))
           | Some (Inl err) \<Rightarrow>
               (if err = FromSource ErrNotYetAvailable then Some (False, b)
                else if err = FromSource ErrBelowRetention then
                  (case findWall (ch_src ch) (rg_from rg + 1) (rg_to rg) of
                     Inl werr \<Rightarrow> Some (False, b)
                   | Inr wall \<Rightarrow>
                       (let recd = record_gaps network wall now [] jobs (bf_db b);
                            b' = b\<lparr>bf_db := snd recd\<rparr>
                        in if \<not> fst recd then Some (False, b')
                           else if wall \<le> rg_to rg then
                             (case scan (ch_src ch) (ch_info ch) (ch_events ch (StaticSnapshot contracts)) fuel wall (rg_to rg) of
                                None \<Rightarrow> None
                              | Some (Inl e) \<Rightarrow> Some (False, b')
                              | Some (Inr res) \<Rightarrow> Some (commit_group network rg jobs False (Some wall) res now b'))
                           else Some (commit_group network rg jobs False (Some wall) empty_result now b')))
                else Some (False, b))))"

section \<open>One round\<close>

record grouping =
  gp_worked :: bool
  gp_db :: db
  gp_groups :: "u32 \<rightharpoonup> BackfillJob list"
  gp_tops :: "u32 \<Rightarrow> u32"
  gp_order :: "u32 list"

definition group_job :: "string \<Rightarrow> int \<Rightarrow> grouping \<Rightarrow> BackfillJob \<Rightarrow> grouping" where
  "group_job network now g job =
     (let bf = j_Backfill job in
      if b_NextTo bf < b_TargetFrom bf
      then case CommitBackfillChunk network (bf\<lparr>b_Done := True\<rparr>) no_rows now (gp_db g) of
             Inl e \<Rightarrow> g
           | Inr d' \<Rightarrow> g\<lparr>gp_worked := True, gp_db := d'\<rparr>
      else let from = chunkFromFor bf in
           g\<lparr>gp_order := (if gp_groups g from = None then gp_order g @ [from] else gp_order g),
             gp_groups := (gp_groups g)(from \<mapsto> (case gp_groups g from of None \<Rightarrow> [] | Some js \<Rightarrow> js) @ [job]),
             gp_tops := (gp_tops g)(from := max (gp_tops g from) (b_NextTo bf))\<rparr>)"

definition group_of :: "grouping \<Rightarrow> u32 \<Rightarrow> BackfillJob list" where
  "group_of g from = (case gp_groups g from of None \<Rightarrow> [] | Some js \<Rightarrow> js)"

fun run_groups :: "string \<Rightarrow> 'l chain \<Rightarrow> nat \<Rightarrow> int \<Rightarrow> grouping \<Rightarrow> u32 list \<Rightarrow> bool \<times> Backfiller \<Rightarrow> (bool \<times> Backfiller) option" where
  "run_groups network ch fuel now g [] wb = Some wb"
| "run_groups network ch fuel now g (from # order) (worked, b) =
     (let nextRound = group_of g (from + backfillChunkSize) in
      case processGroup network ch fuel now \<lparr>rg_from = from, rg_to = gp_tops g from\<rparr> (group_of g from) nextRound b of
        None \<Rightarrow> None
      | Some (w, b') \<Rightarrow> run_groups network ch fuel now g order (worked \<or> w, b'))"

definition empty_grouping :: "db \<Rightarrow> grouping" where
  "empty_grouping d = \<lparr>gp_worked = False, gp_db = d, gp_groups = Map.empty, gp_tops = (\<lambda>_. 0), gp_order = []\<rparr>"

definition group_jobs :: "string \<Rightarrow> int \<Rightarrow> db \<Rightarrow> BackfillJob list \<Rightarrow> grouping" where
  "group_jobs network now d jobs = foldl (group_job network now) (empty_grouping d) jobs"

definition round :: "string \<Rightarrow> 'l chain \<Rightarrow> nat \<Rightarrow> int \<Rightarrow> Backfiller \<Rightarrow> (bool \<times> Backfiller) option" where
  "round network ch fuel now b =
     (let g = group_jobs network now (bf_db b) (ListPendingBackfills network (bf_db b));
          order = sort_on (\<lambda>f. - uint f) (gp_order g)
      in run_groups network ch fuel now g order (gp_worked g, b\<lparr>bf_db := gp_db g\<rparr>))"

section \<open>Lemmas: the grid\<close>

lemma grid_floor:
  assumes "1 \<le> uint (x::u32)"
  shows "uint (x - (x - 1) mod backfillChunkSize) = 2000 * ((uint x - 1) div 2000) + 1"
proof -
  have "uint ((x - 1) mod backfillChunkSize) = (uint x - 1) mod 2000"
    using assms by (simp add: uint_mod backfillChunkSize_def u32_pred_pos)
  moreover have "(uint x - 1) mod 2000 \<le> uint x" using assms zmod_le_nonneg_dividend [of "uint x - 1" 2000] by linarith
  ultimately have "uint (x - (x - 1) mod backfillChunkSize) = uint x - (uint x - 1) mod 2000"
    by (simp add: u32_sub)
  then show ?thesis using minus_mod_eq_mult_div [of "uint x - 1" 2000] by linarith
qed

lemma chunkFromFor_uint:
  assumes "1 \<le> uint (b_NextTo bf)"
  shows "uint (chunkFromFor bf) = max (2000 * ((uint (b_NextTo bf) - 1) div 2000) + 1) (uint (b_TargetFrom bf))"
  by (simp add: chunkFromFor_def u32_uint_max grid_floor [OF assms])

lemma chunkFromFor_bounds:
  assumes "1 \<le> uint (b_NextTo bf)" and "b_TargetFrom bf \<le> b_NextTo bf"
  shows "b_TargetFrom bf \<le> chunkFromFor bf" "chunkFromFor bf \<le> b_NextTo bf"
    "1 \<le> uint (chunkFromFor bf)" "uint (b_NextTo bf) - uint (chunkFromFor bf) < 2000"
    "chunkFromFor bf = b_TargetFrom bf \<or> uint (chunkFromFor bf) mod 2000 = 1"
proof -
  let ?g = "2000 * ((uint (b_NextTo bf) - 1) div 2000) + 1"
  have g: "?g \<le> uint (b_NextTo bf)" "uint (b_NextTo bf) - ?g < 2000" "1 \<le> ?g" "?g mod 2000 = 1"
    using assms(1) by (auto simp: pos_imp_zdiv_nonneg_iff)
  note u = chunkFromFor_uint [OF assms(1)]
  show "b_TargetFrom bf \<le> chunkFromFor bf" "chunkFromFor bf \<le> b_NextTo bf"
    "1 \<le> uint (chunkFromFor bf)" "uint (b_NextTo bf) - uint (chunkFromFor bf) < 2000"
    using u g assms(2) by (auto simp: u32_le_iff)
  show "chunkFromFor bf = b_TargetFrom bf \<or> uint (chunkFromFor bf) mod 2000 = 1"
  proof (cases "uint (b_TargetFrom bf) \<le> ?g")
    case True
    then show ?thesis using u g(4) by simp
  next
    case False
    then show ?thesis using u by (simp add: u32_eq_iff)
  qed
qed

section \<open>Lemmas: the scan cache\<close>

text \<open>Kinds that can be told apart once joined: at least one, none empty, none with a comma.\<close>

definition plain_kinds :: "Contract \<Rightarrow> bool" where
  "plain_kinds c \<longleftrightarrow> ct_Kinds c \<noteq> [] \<and> (\<forall>k\<in>set (ct_Kinds c). k \<noteq> '''' \<and> CHR '','' \<notin> set k)"

lemma joinStrings_Cons: "xs \<noteq> [] \<Longrightarrow> joinStrings [c] (x # xs) = x @ c # joinStrings [c] xs"
  by (cases xs) simp_all

lemma joinStrings_inject:
  assumes "joinStrings [c] xs = joinStrings [c] ys" and "xs \<noteq> []" "ys \<noteq> []"
    and "\<forall>x\<in>set xs. c \<notin> set x" "\<forall>y\<in>set ys. c \<notin> set y"
  shows "xs = ys"
  using assms
proof (induction xs arbitrary: ys)
  case (Cons x xs)
  obtain y zs where ys: "ys = y # zs" using Cons.prems(3) by (cases ys) auto
  have sep: "c \<notin> set x" "c \<notin> set y" using Cons.prems(4,5) ys by auto
  show ?case
  proof (cases "xs = [] \<or> zs = []")
    case True
    then show ?thesis using Cons.prems(1) sep ys by (cases "xs = []"; cases "zs = []") (auto simp: joinStrings_Cons)
  next
    case False
    then have "x @ c # joinStrings [c] xs = y @ c # joinStrings [c] zs"
      using Cons.prems(1) ys by (simp add: joinStrings_Cons)
    then have "x = y" "joinStrings [c] xs = joinStrings [c] zs" using append_sep_inject [OF sep] by auto
    then show ?thesis using Cons.IH [of zs] Cons.prems(4,5) False ys by auto
  qed
qed simp

lemma joinStrings_empty: "xs \<noteq> [] \<Longrightarrow> \<forall>x\<in>set xs. x \<noteq> [] \<Longrightarrow> joinStrings sep xs \<noteq> []"
  by (cases xs rule: remdups_adj.cases) auto

lemma sort_empty_iff [simp]: "sort xs = [] \<longleftrightarrow> xs = []"
  by (metis length_0_conv length_sort)

lemma canonicalKinds_inject:
  assumes "plain_kinds c" "plain_kinds c'" and "canonicalKinds c = canonicalKinds c'"
  shows "sort (ct_Kinds c) = sort (ct_Kinds c')"
  by (rule joinStrings_inject [of "CHR '',''"]) (use assms in \<open>auto simp: plain_kinds_def canonicalKinds_def\<close>)

lemma canonicalKinds_nonempty: "plain_kinds c \<Longrightarrow> canonicalKinds c \<noteq> ''''"
  unfolding canonicalKinds_def by (rule joinStrings_empty) (auto simp: plain_kinds_def)

lemma member_kinds_rememberScan:
  assumes "member_kinds (rememberScan rg scanFor res) i = k" and "k \<noteq> ''''"
  shows "\<exists>c\<in>set scanFor. ct_ContractID c = i \<and> canonicalKinds c = k"
proof -
  have "map_of (foldl (\<lambda>m ct. byID_put (ct_ContractID ct) (canonicalKinds ct) m) m cs) i = Some v \<Longrightarrow>
      map_of m i = Some v \<or> (\<exists>c\<in>set cs. ct_ContractID c = i \<and> canonicalKinds c = v)" for m cs v
  proof (induction cs arbitrary: m)
    case (Cons c cs)
    then show ?case using Cons.IH [of "byID_put (ct_ContractID c) (canonicalKinds c) m"]
      by (auto simp: map_of_byID_put split: if_splits)
  qed simp
  from this [of "[]" scanFor] show ?thesis
    using assms by (auto simp: member_kinds_def rememberScan_def split: option.splits)
qed

section \<open>Lemmas: grouping\<close>

definition walking :: "BackfillJob \<Rightarrow> bool" where
  "walking j \<longleftrightarrow> b_TargetFrom (j_Backfill j) \<le> b_NextTo (j_Backfill j)"

definition in_cell :: "u32 \<Rightarrow> BackfillJob \<Rightarrow> bool" where
  "in_cell from j \<longleftrightarrow> walking j \<and> chunkFromFor (j_Backfill j) = from"

text \<open>What the grouping loop computes: the jobs of each cell in order, the highest watermark of
  each, every nonempty cell once.\<close>

lemma group_job_fields:
  "group_of (group_job n now g job) from = group_of g from @ (if in_cell from job then [job] else [])"
  "gp_tops (group_job n now g job) from =
     (if in_cell from job then max (gp_tops g from) (b_NextTo (j_Backfill job)) else gp_tops g from)"
  "gp_order (group_job n now g job) =
     (if walking job \<and> gp_groups g (chunkFromFor (j_Backfill job)) = None
      then gp_order g @ [chunkFromFor (j_Backfill job)] else gp_order g)"
  "gp_groups (group_job n now g job) from = None \<longleftrightarrow> gp_groups g from = None \<and> \<not> in_cell from job"
  by (auto simp: group_job_def group_of_def in_cell_def walking_def Let_def not_less split: sum.splits option.splits)

lemma group_jobs_exact:
  "group_of (group_jobs n now d jobs) from = filter (in_cell from) jobs"
  "gp_tops (group_jobs n now d jobs) from = foldl max 0 (map (\<lambda>j. b_NextTo (j_Backfill j)) (filter (in_cell from) jobs))"
  "gp_groups (group_jobs n now d jobs) from = None \<longleftrightarrow> filter (in_cell from) jobs = []"
  by (induction jobs rule: rev_induct)
    (auto simp: group_jobs_def group_job_fields empty_grouping_def group_of_def [of "\<lparr>gp_worked = _, gp_db = _, gp_groups = _, gp_tops = _, gp_order = _\<rparr>"])

lemma group_jobs_order:
  "distinct (gp_order (group_jobs n now d jobs))
   \<and> set (gp_order (group_jobs n now d jobs)) = {f. \<exists>j\<in>set jobs. in_cell f j}"
proof (induction jobs rule: rev_induct)
  case Nil
  show ?case by (simp add: group_jobs_def empty_grouping_def)
next
  case (snoc job jobs)
  have none: "gp_groups (group_jobs n now d jobs) f = None \<longleftrightarrow> \<not> (\<exists>j\<in>set jobs. in_cell f j)" for f
    using group_jobs_exact(3) [of n now d jobs f] by (auto simp: filter_empty_conv)
  have step: "group_jobs n now d (jobs @ [job]) = group_job n now (group_jobs n now d jobs) job"
    by (simp add: group_jobs_def)
  show ?case unfolding step group_job_fields(3) using snoc none
    by (auto simp: in_cell_def)
qed

lemma foldl_max_ge: "(a::'a::linorder) \<le> foldl max a xs"
proof (induction xs arbitrary: a)
  case (Cons x xs)
  have "max a x \<le> foldl max (max a x) xs" by (rule Cons.IH)
  then show ?case by simp
qed simp

lemma foldl_max_mem: "x \<in> set xs \<Longrightarrow> x \<le> foldl max (a::'a::linorder) xs"
proof (induction xs arbitrary: a)
  case (Cons y ys)
  show ?case
  proof (cases "x = y")
    case True
    then show ?thesis using foldl_max_ge [of "max a y" ys] by simp
  qed (use Cons in simp)
qed simp

lemma foldl_max_in: "foldl max (a::'a::linorder) xs = a \<or> foldl max a xs \<in> set xs"
proof (induction xs arbitrary: a)
  case (Cons y ys)
  then show ?case using Cons.IH [of "max a y"] by (auto simp: max_def split: if_splits)
qed simp

section \<open>Lemmas: splitting a scan\<close>

lemma part_add_part:
  "orEmpty (map_of (add_part i f m) k) = (if k = i then f (orEmpty (map_of m k)) else orEmpty (map_of m k))"
  by (simp add: add_part_def map_of_byID_put orEmpty_def)

lemma part_foldl:
  "orEmpty (map_of (foldl (\<lambda>m e. add_part (idOf e) (f e) m) m xs) k) =
     foldl (\<lambda>p e. f e p) (orEmpty (map_of m k)) (filter (\<lambda>e. idOf e = k) xs)"
  by (induction xs arbitrary: m) (auto simp: part_add_part)

lemma foldl_appends:
  "foldl (\<lambda>p e. p\<lparr>pa_events := pa_events p @ [e]\<rparr>) p es = p\<lparr>pa_events := pa_events p @ es\<rparr>"
  "foldl (\<lambda>p e. p\<lparr>pa_states := pa_states p @ [e]\<rparr>) p ss = p\<lparr>pa_states := pa_states p @ ss\<rparr>"
  "foldl (\<lambda>p e. p\<lparr>pa_transfers := pa_transfers p @ [e]\<rparr>) p ts = p\<lparr>pa_transfers := pa_transfers p @ ts\<rparr>"
  "foldl (\<lambda>p e. p\<lparr>pa_trustlines := pa_trustlines p @ [e]\<rparr>) p ls = p\<lparr>pa_trustlines := pa_trustlines p @ ls\<rparr>"
  "foldl (\<lambda>p e. p\<lparr>pa_movements := pa_movements p @ [e]\<rparr>) p ms = p\<lparr>pa_movements := pa_movements p @ ms\<rparr>"
  subgoal by (induction es arbitrary: p) simp_all
  subgoal by (induction ss arbitrary: p) simp_all
  subgoal by (induction ts arbitrary: p) simp_all
  subgoal by (induction ls arbitrary: p) simp_all
  subgoal by (induction ms arbitrary: p) simp_all
  done

lemma orEmpty_simps [simp]: "orEmpty None = no_rows" "orEmpty (Some p) = p"
  by (simp_all add: orEmpty_def)

lemma part_of_scan:
  "orEmpty (map_of (partitionResult res) c) =
     \<lparr>pa_events = filter (\<lambda>e. ev_ContractID e = c) (rs_Events res),
      pa_states = filter (\<lambda>s. sc_ContractID s = c) (rs_StateChanges res),
      pa_transfers = filter (\<lambda>t. tr_ContractID t = c) (rs_Transfers res),
      pa_trustlines = filter (\<lambda>t. tc_ContractID t = c) (rs_TrustlineChanges res),
      pa_movements = filter (\<lambda>m. mv_ContractID m = c) (rs_Movements res)\<rparr>"
  by (simp add: partitionResult_def Let_def part_foldl foldl_appends) (simp add: no_rows_def)

section \<open>Lemmas: what a commit does to a walk\<close>

lemma CommitBackfillChunk_Inr:
  assumes "CommitBackfillChunk n b rows now d = Inr d'"
  shows "t_gaps d' = t_gaps d" "t_contracts d' = t_contracts d" "rows_stored n rows d'"
    "rows_stored n q d \<Longrightarrow> rows_stored n q d'"
    "find (is_backfill n c) (t_backfill d') =
       (if c = b_ContractID b
        then map_option (\<lambda>r. r\<lparr>br_next_to := uint (b_NextTo b), br_done := b_Done b,
               br_clamped_at := map_option uint (b_ClampedAt b), br_updated_at := now\<rparr>)
             (find (is_backfill n c) (t_backfill d))
        else find (is_backfill n c) (t_backfill d))"
proof -
  obtain e where e: "persist_rows n rows d = Inr e" and d': "d' = e\<lparr>t_backfill := sql_update (is_backfill n (b_ContractID b))
              (\<lambda>r. r\<lparr>br_next_to := uint (b_NextTo b), br_done := b_Done b,
                     br_clamped_at := map_option uint (b_ClampedAt b), br_updated_at := now\<rparr>) (t_backfill e)\<rparr>"
    using assms by (auto simp: CommitBackfillChunk_def andThen_Inr split: if_splits)
  note other = persist_rows_other [OF e]
  show "t_gaps d' = t_gaps d" "t_contracts d' = t_contracts d" using d' other by simp_all
  show "rows_stored n rows d'" "rows_stored n q d \<Longrightarrow> rows_stored n q d'"
    using persist_rows_stores(1) [OF e] persist_rows_stores(2) [OF e, of q] d' by (simp_all add: rows_stored_def)
  show "find (is_backfill n c) (t_backfill d') =
       (if c = b_ContractID b
        then map_option (\<lambda>r. r\<lparr>br_next_to := uint (b_NextTo b), br_done := b_Done b,
               br_clamped_at := map_option uint (b_ClampedAt b), br_updated_at := now\<rparr>)
             (find (is_backfill n c) (t_backfill d))
        else find (is_backfill n c) (t_backfill d))"
  proof (cases "c = b_ContractID b")
    case True
    then show ?thesis using d' other(2) by (simp add: find_update_backfill)
  next
    case False
    have "find (is_backfill n c) (t_backfill d') = find (is_backfill n c) (t_backfill e)"
      unfolding d' by simp (rule find_update_other; use False in \<open>auto simp: is_backfill_def\<close>)
    then show ?thesis using False other(2) by simp
  qed
qed

text \<open>What a commit writes to the row of a walk.\<close>

definition advance_row :: "Backfill \<Rightarrow> int \<Rightarrow> backfill_row \<Rightarrow> backfill_row" where
  "advance_row b now r = r\<lparr>br_next_to := uint (b_NextTo b), br_done := b_Done b,
     br_clamped_at := map_option uint (b_ClampedAt b), br_updated_at := now\<rparr>"

definition walk_row :: "string \<Rightarrow> string \<Rightarrow> db \<Rightarrow> backfill_row option" where
  "walk_row n c d = find (is_backfill n c) (t_backfill d)"

lemma next_row_id [simp]: "b_ContractID (next_row rg cl b) = b_ContractID b"
  by (simp add: next_row_def Let_def split: option.splits)

definition job_id :: "BackfillJob \<Rightarrow> string" where
  "job_id j = ct_ContractID (j_Contract j)"

text \<open>A group as the store lists it: one job per contract, each with its own contract's walk.\<close>

definition wf_jobs :: "BackfillJob list \<Rightarrow> bool" where
  "wf_jobs jobs \<longleftrightarrow> distinct (map job_id jobs) \<and> (\<forall>j\<in>set jobs. b_ContractID (j_Backfill j) = job_id j)"

lemma commit_jobs_outcome:
  assumes "wf_jobs jobs"
  shows "t_gaps (snd (commit_jobs n rg cl parts now jobs (k, d))) = t_gaps d
    \<and> (\<forall>q. rows_stored n q d \<longrightarrow> rows_stored n q (snd (commit_jobs n rg cl parts now jobs (k, d))))
    \<and> (\<forall>c. walk_row n c (snd (commit_jobs n rg cl parts now jobs (k, d))) = walk_row n c d
        \<or> (\<exists>j\<in>set jobs. job_id j = c
             \<and> walk_row n c (snd (commit_jobs n rg cl parts now jobs (k, d))) =
                 map_option (advance_row (next_row rg cl (j_Backfill j)) now) (walk_row n c d)
             \<and> rows_stored n (orEmpty (map_of parts c)) (snd (commit_jobs n rg cl parts now jobs (k, d)))))"
  using assms
proof (induction jobs arbitrary: k d)
  case (Cons j jobs)
  let ?p = "orEmpty (map_of parts (job_id j))"
  have wf: "wf_jobs jobs" "b_ContractID (j_Backfill j) = job_id j" "job_id j \<notin> set (map job_id jobs)"
    using Cons.prems by (auto simp: wf_jobs_def)
  show ?case
  proof (cases "CommitBackfillChunk n (next_row rg cl (j_Backfill j)) ?p now d")
    case (Inl e)
    then show ?thesis using Cons.IH [OF wf(1), of k d] by (auto simp: job_id_def Let_def)
  next
    case (Inr e)
    define d' where "d' = snd (commit_jobs n rg cl parts now jobs (Suc k, e))"
    have step: "snd (commit_jobs n rg cl parts now (j # jobs) (k, d)) = d'"
      using Inr by (simp add: d'_def job_id_def Let_def)
    note com = CommitBackfillChunk_Inr [OF Inr]
    have row: "walk_row n c e = (if c = job_id j then map_option (advance_row (next_row rg cl (j_Backfill j)) now)
        (walk_row n c d) else walk_row n c d)" for c
      using com(5) [of c] wf(2) by (simp add: walk_row_def advance_row_def [abs_def])
    note IH = Cons.IH [OF wf(1), of "Suc k" e, folded d'_def]
    have "\<not> (\<exists>i\<in>set jobs. job_id i = job_id j)" using wf(3) by (metis imageI set_map)
    then have own: "walk_row n (job_id j) d' = walk_row n (job_id j) e" using IH by blast
    have "walk_row n c d' = walk_row n c d \<or> (\<exists>i\<in>set (j # jobs). job_id i = c
             \<and> walk_row n c d' = map_option (advance_row (next_row rg cl (j_Backfill i)) now) (walk_row n c d)
             \<and> rows_stored n (orEmpty (map_of parts c)) d')" for c
    proof (cases "c = job_id j")
      case True
      then show ?thesis using own row [of c] IH com(3) by auto
    next
      case False
      then have "walk_row n c e = walk_row n c d" using row by simp
      moreover have "walk_row n c d' = walk_row n c e \<or> (\<exists>i\<in>set jobs. job_id i = c
             \<and> walk_row n c d' = map_option (advance_row (next_row rg cl (j_Backfill i)) now) (walk_row n c e)
             \<and> rows_stored n (orEmpty (map_of parts c)) d')" using IH by blast
      ultimately show ?thesis by auto
    qed
    then show ?thesis unfolding step using IH com(1) com(4) by auto
  qed
qed simp

section \<open>Lemmas: the wall\<close>

lemma findWall_bounds:
  assumes "findWall src lo hi = Inr w" and "uint lo \<le> uint hi + 1" and "hi < maxU32"
  shows "uint lo \<le> uint w \<and> uint w \<le> uint hi + 1"
  using assms
proof (induction src lo hi rule: findWall.induct)
  case (1 src lo hi)
  define mid where "mid = lo + (hi - lo) div 2"
  show ?case
  proof (cases "lo \<le> hi")
    case False
    then show ?thesis using 1(3,4) by (subst (asm) findWall.simps) auto
  next
    case True
    note mid = mid_between [OF True, folded mid_def]
    have eq: "findWall src lo hi = (case src mid 1 of
        Inr _ \<Rightarrow> if mid = lo then Inr mid else findWall src lo mid
      | Inl e \<Rightarrow> if e = ErrBelowRetention then (if mid = hi then Inr (hi + 1) else findWall src (mid + 1) hi) else Inl e)"
      using True by (subst findWall.simps) (simp only: mid_def Let_def if_True)
    show ?thesis
    proof (cases "src mid 1")
      case (Inr b)
      have "mid < maxU32" using mid(3) 1(5) by (simp add: u32_less_iff)
      then show ?thesis using 1(2) [OF True mid_def Inr] 1(3) mid unfolding eq Inr
        by (cases "mid = lo") (auto simp: u32_le_iff)
    next
      case (Inl e)
      then have e: "e = ErrBelowRetention" using 1(3) unfolding eq by (simp split: if_splits)
      show ?thesis
      proof (cases "mid = hi")
        case True
        have "uint (hi + 1) = uint hi + 1" using 1(5) by (rule u32_Suc)
        then show ?thesis using 1(3) True mid unfolding eq Inl e by simp
      next
        case False
        then have suc: "uint (mid + 1) = uint mid + 1"
          using mid(3) by (intro u32_Suc [of mid hi]) (auto simp: u32_less_iff u32_eq_iff)
        then show ?thesis using 1(1) [OF \<open>lo \<le> hi\<close> mid_def Inl e False] 1(3,5) False mid unfolding eq Inl e by auto
      qed
    qed
  qed
qed

lemma record_gaps_correct:
  assumes "wf_gaps (t_gaps d)" and "open_disjoint n (t_gaps d)" and "\<forall>j\<in>set jobs. b_TargetFrom (j_Backfill j) \<le> wall - 1"
  shows "\<exists>tbl. record_gaps n wall now recorded jobs d = (True, d\<lparr>t_gaps := tbl\<rparr>) \<and> wf_gaps tbl \<and> open_disjoint n tbl
    \<and> declared n (t_gaps d) \<subseteq> declared n tbl
    \<and> (\<forall>j\<in>set jobs. b_TargetFrom (j_Backfill j) \<notin> set recorded \<longrightarrow>
         {uint (b_TargetFrom (j_Backfill j))..uint (wall - 1)} \<subseteq> declared n tbl)"
  using assms
proof (induction jobs arbitrary: recorded d)
  case Nil
  then show ?case by (intro exI [of _ "t_gaps d"]) simp
next
  case (Cons j jobs)
  let ?tf = "b_TargetFrom (j_Backfill j)"
  show ?case
  proof (cases "?tf \<in> set recorded")
    case True
    then show ?thesis using Cons.IH [OF Cons.prems(1,2), of recorded] Cons.prems(3) by (auto simp: Let_def)
  next
    case False
    have "?tf \<le> wall - 1" using Cons.prems(3) by simp
    then obtain t1 where t1: "RecordGap n ?tf (wall - 1) gap_reason now d = Inr (d\<lparr>t_gaps := t1\<rparr>)" "wf_gaps t1"
      "open_disjoint n t1" "declared n t1 = declared n (t_gaps d) \<union> {uint ?tf..uint (wall - 1)}"
      using RecordGap_correct [OF Cons.prems(1,2), of ?tf "wall - 1" gap_reason now] by blast
    obtain t2 where t2: "record_gaps n wall now (?tf # recorded) jobs (d\<lparr>t_gaps := t1\<rparr>) = (True, d\<lparr>t_gaps := t2\<rparr>)"
      "wf_gaps t2" "open_disjoint n t2" "declared n t1 \<subseteq> declared n t2"
      "\<forall>i\<in>set jobs. b_TargetFrom (j_Backfill i) \<notin> set (?tf # recorded) \<longrightarrow>
         {uint (b_TargetFrom (j_Backfill i))..uint (wall - 1)} \<subseteq> declared n t2"
      using Cons.IH [of "d\<lparr>t_gaps := t1\<rparr>" "?tf # recorded"] t1 Cons.prems(3) by auto
    have "{uint ?tf..uint (wall - 1)} \<subseteq> declared n t2" using t1(4) t2(4) by blast
    then have "\<forall>i\<in>set (j # jobs). b_TargetFrom (j_Backfill i) \<notin> set recorded \<longrightarrow>
        {uint (b_TargetFrom (j_Backfill i))..uint (wall - 1)} \<subseteq> declared n t2"
      using t2(5) by (metis set_ConsD)
    moreover have "record_gaps n wall now recorded (j # jobs) d = (True, d\<lparr>t_gaps := t2\<rparr>)"
      using False t1(1) t2(1) by (simp add: Let_def)
    ultimately show ?thesis using t1(4) t2(2-4) by blast
  qed
qed

section \<open>Lemmas: one group\<close>

text \<open>
  Completed scans: the rows one of the sources in \<open>S\<close> gave for a whole range and these contracts. The
  cache is honest towards \<open>S\<close> when what it remembers as the scan of a range is one.
\<close>

definition scanned_by :: "'l chain set \<Rightarrow> chunkRange \<Rightarrow> Contract list \<Rightarrow> Result \<Rightarrow> bool" where
  "scanned_by S rg contracts res \<longleftrightarrow> (\<exists>ch\<in>S. \<exists>fuel.
     scan (ch_src ch) (ch_info ch) (ch_events ch (StaticSnapshot contracts)) fuel (rg_from rg) (rg_to rg) = Some (Inr res))"

definition memo_honest :: "'l chain set \<Rightarrow> scanCacheEntry option \<Rightarrow> bool" where
  "memo_honest S lastScan \<longleftrightarrow> (\<forall>e. lastScan = Some e \<longrightarrow>
     (\<exists>rg contracts res. e = rememberScan rg contracts res \<and> scanned_by S rg contracts res))"

text \<open>A scan extracted for a contract with the kinds it has now (a contract without kinds asks for none).\<close>

definition extracted_for :: "Contract list \<Rightarrow> Contract \<Rightarrow> bool" where
  "extracted_for contracts c \<longleftrightarrow> canonicalKinds c = '''' \<or>
     (\<exists>c'\<in>set contracts. ct_ContractID c' = ct_ContractID c \<and> canonicalKinds c' = canonicalKinds c)"

lemma scanned_by_mono: "scanned_by S rg cs res \<Longrightarrow> S \<subseteq> T \<Longrightarrow> scanned_by T rg cs res"
  unfolding scanned_by_def by blast

lemma memo_honest_mono: "memo_honest S e \<Longrightarrow> S \<subseteq> T \<Longrightarrow> memo_honest T e"
  unfolding memo_honest_def using scanned_by_mono by blast

lemma memo_honest_insert: "memo_honest S e \<Longrightarrow> memo_honest (insert ch S) e"
  by (rule memo_honest_mono) auto

lemma memo_honest_None [simp]: "memo_honest S None"
  by (simp add: memo_honest_def)

lemma cachedScan_honest:
  assumes "memo_honest S lastScan" and "cachedScan lastScan rg contracts = Some res"
  shows "\<exists>scanFor. scanned_by S rg scanFor res \<and> (\<forall>c\<in>set contracts. extracted_for scanFor c)"
proof -
  obtain rg0 scanFor res0 where e: "lastScan = Some (rememberScan rg0 scanFor res0)" "scanned_by S rg0 scanFor res0"
    using assms unfolding memo_honest_def cachedScan_def by (cases lastScan) auto
  have hit: "rg = rg0" "res = res0" "\<forall>c\<in>set contracts. member_kinds (rememberScan rg0 scanFor res0) (ct_ContractID c) = canonicalKinds c"
    using assms(2) unfolding e(1) by (cases rg; cases rg0; auto simp: cachedScan_def list_ex_iff rememberScan_def split: if_splits)+
  then have "\<forall>c\<in>set contracts. extracted_for scanFor c"
    using member_kinds_rememberScan unfolding extracted_for_def by blast
  then show ?thesis using e(2) hit(1,2) by blast
qed

text \<open>Where the rows a group commits come from: a completed scan of the whole range that extracted for
  every member, now or when the cache was filled, or a scan of the part above the wall.\<close>

definition rows_read :: "'l chain set \<Rightarrow> 'l chain \<Rightarrow> chunkRange \<Rightarrow> BackfillJob list \<Rightarrow> u32 option \<Rightarrow> Result \<Rightarrow> bool" where
  "rows_read S ch rg jobs clamped res \<longleftrightarrow>
     (case clamped of
        None \<Rightarrow> (\<exists>scanFor. scanned_by (insert ch S) rg scanFor res \<and> (\<forall>j\<in>set jobs. extracted_for scanFor (j_Contract j)))
      | Some wall \<Rightarrow> findWall (ch_src ch) (rg_from rg + 1) (rg_to rg) = Inr wall \<and>
          (if wall \<le> rg_to rg then scanned_by {ch} (rg\<lparr>rg_from := wall\<rparr>) (map j_Contract jobs) res else res = empty_result))"

text \<open>The ledgers a clamped walk gave up on are declared missing.\<close>

definition clamp_declared :: "string \<Rightarrow> BackfillJob \<Rightarrow> u32 option \<Rightarrow> db \<Rightarrow> bool" where
  "clamp_declared n j clamped d \<longleftrightarrow>
     (case clamped of None \<Rightarrow> True
      | Some wall \<Rightarrow> {uint (b_TargetFrom (j_Backfill j))..uint wall - 1} \<subseteq> declared n (t_gaps d))"

lemma commit_group_outcome:
  assumes "commit_group n rg jobs cached cl res now b = (w, b')" and "wf_jobs jobs"
  shows "t_gaps (bf_db b') = t_gaps (bf_db b)" "bf_lastScan b' = bf_lastScan b"
    "walk_row n c (bf_db b') = walk_row n c (bf_db b)
      \<or> (\<exists>j\<in>set jobs. job_id j = c
           \<and> walk_row n c (bf_db b') = map_option (advance_row (next_row rg cl (j_Backfill j)) now) (walk_row n c (bf_db b))
           \<and> rows_stored n (orEmpty (map_of (partitionResult res) c)) (bf_db b'))"
proof -
  let ?js = "sort_on (\<lambda>j. ct_ContractID (j_Contract j)) jobs"
  let ?cd = "commit_jobs n rg cl (partitionResult res) now ?js (0, bf_db b)"
  have "wf_jobs ?js" using assms(2) by (simp add: wf_jobs_def distinct_map)
  note out = commit_jobs_outcome [OF this, of n rg cl "partitionResult res" now 0 "bf_db b"]
  have b': "bf_db b' = snd ?cd" "bf_lastScan b' = bf_lastScan b"
    using assms(1) by (auto simp: commit_group_def Let_def split: if_splits)
  show "t_gaps (bf_db b') = t_gaps (bf_db b)" "bf_lastScan b' = bf_lastScan b" using out b' by simp_all
  show "walk_row n c (bf_db b') = walk_row n c (bf_db b)
      \<or> (\<exists>j\<in>set jobs. job_id j = c
           \<and> walk_row n c (bf_db b') = map_option (advance_row (next_row rg cl (j_Backfill j)) now) (walk_row n c (bf_db b))
           \<and> rows_stored n (orEmpty (map_of (partitionResult res) c)) (bf_db b'))"
    using out unfolding b' by auto
qed

text \<open>A group of a grid cell: the cell lies below every member's watermark and not below its target.\<close>

definition group_fits :: "chunkRange \<Rightarrow> BackfillJob list \<Rightarrow> bool" where
  "group_fits rg jobs \<longleftrightarrow> rg_from rg \<le> rg_to rg \<and> rg_to rg < maxU32
     \<and> (\<forall>j\<in>set jobs. b_TargetFrom (j_Backfill j) \<le> rg_from rg)"

lemma clamped_group_gaps:
  assumes "group_fits rg jobs" and "wf_gaps (t_gaps d)" "open_disjoint n (t_gaps d)"
    and "findWall src (rg_from rg + 1) (rg_to rg) = Inr wall"
  shows "\<exists>tbl. record_gaps n wall now [] jobs d = (True, d\<lparr>t_gaps := tbl\<rparr>) \<and> wf_gaps tbl \<and> open_disjoint n tbl
    \<and> declared n (t_gaps d) \<subseteq> declared n tbl
    \<and> (\<forall>j\<in>set jobs. {uint (b_TargetFrom (j_Backfill j))..uint wall - 1} \<subseteq> declared n tbl)"
proof -
  have fits: "rg_from rg \<le> rg_to rg" "rg_to rg < maxU32" using assms(1) by (simp_all add: group_fits_def)
  then have suc: "uint (rg_from rg + 1) = uint (rg_from rg) + 1" by (intro u32_Suc [of _ maxU32]) simp
  then have "uint (rg_from rg) + 1 \<le> uint wall"
    using findWall_bounds [OF assms(4)] fits by (simp add: u32_le_iff)
  then have pred: "uint (wall - 1) = uint wall - 1"
    using u32_uint_bounds [of "rg_from rg"] by (intro u32_pred_pos) linarith
  then have "rg_from rg \<le> wall - 1" using \<open>uint (rg_from rg) + 1 \<le> uint wall\<close> by (simp add: u32_le_iff)
  then have "\<forall>j\<in>set jobs. b_TargetFrom (j_Backfill j) \<le> wall - 1"
    using assms(1) by (auto simp: group_fits_def intro: order_trans)
  from record_gaps_correct [OF assms(2,3) this, of now "[]"] show ?thesis unfolding pred by simp
qed

lemma processGroup_cases:
  assumes "processGroup n ch fuel now rg jobs ahead b = Some (w, b')" and memo: "memo_honest S (bf_lastScan b)"
  obtains (idle) "w = False" "b' = b"
  | (whole) cached res b1 where "commit_group n rg jobs cached None res now b1 = (w, b')" "bf_db b1 = bf_db b"
      "memo_honest (insert ch S) (bf_lastScan b1)" "rows_read S ch rg jobs None res"
  | (retry) wall where "findWall (ch_src ch) (rg_from rg + 1) (rg_to rg) = Inr wall" "w = False"
      "b' = b\<lparr>bf_db := snd (record_gaps n wall now [] jobs (bf_db b))\<rparr>"
  | (clamped) wall res b1 where "findWall (ch_src ch) (rg_from rg + 1) (rg_to rg) = Inr wall"
      "bf_db b1 = snd (record_gaps n wall now [] jobs (bf_db b))" "bf_lastScan b1 = bf_lastScan b"
      "commit_group n rg jobs False (Some wall) res now b1 = (w, b')" "rows_read S ch rg jobs (Some wall) res"
proof (cases "cachedScan (bf_lastScan b) rg (map j_Contract jobs)")
  case (Some res)
  have "\<exists>scanFor. scanned_by S rg scanFor res \<and> (\<forall>c\<in>set (map j_Contract jobs). extracted_for scanFor c)"
    by (rule cachedScan_honest [OF memo Some])
  then have read: "rows_read S ch rg jobs None res" using scanned_by_mono [of S _ _ _ "insert ch S"] by (auto simp: rows_read_def)
  show ?thesis using assms Some memo_honest_mono [OF memo] read by (intro whole [of True res b]) (auto simp: processGroup_def)
next
  case none: None
  let ?scan = "scan (ch_src ch) (ch_info ch) (ch_events ch (StaticSnapshot (map j_Contract jobs @ map j_Contract ahead)))
    fuel (rg_from rg) (rg_to rg)"
  consider r where "?scan = Some (Inr r)" | e where "?scan = Some (Inl e)" "e \<noteq> FromSource ErrBelowRetention"
    | (wall) "?scan = Some (Inl (FromSource ErrBelowRetention))"
    using assms none by (cases ?scan; cases "the ?scan") (auto simp: processGroup_def Let_def)
  then show ?thesis
  proof cases
    case 1
    let ?scanFor = "map j_Contract jobs @ map j_Contract ahead"
    let ?b = "b\<lparr>bf_lastScan := Some (rememberScan rg ?scanFor r)\<rparr>"
    have scanned: "scanned_by (insert ch S) rg ?scanFor r" using 1 by (auto simp: scanned_by_def)
    moreover have "\<forall>j\<in>set jobs. extracted_for ?scanFor (j_Contract j)" by (auto simp: extracted_for_def)
    ultimately have read: "rows_read S ch rg jobs None r" unfolding rows_read_def by auto
    have memo': "memo_honest (insert ch S) (bf_lastScan ?b)" using scanned by (auto simp: memo_honest_def)
    show ?thesis using assms(1) none 1 memo' read by (intro whole [of False r ?b]) (simp_all add: processGroup_def Let_def)
  next
    case 2
    then show ?thesis using assms(1) none by (intro idle) (auto simp: processGroup_def Let_def split: if_splits)
  next
    case wall
    let ?w = "findWall (ch_src ch) (rg_from rg + 1) (rg_to rg)"
    show ?thesis
    proof (cases ?w)
      case (Inl e)
      then show ?thesis using assms(1) none wall by (intro idle) (simp_all add: processGroup_def Let_def)
    next
      case (Inr v)
      let ?rec = "record_gaps n v now [] jobs (bf_db b)"
      let ?b = "b\<lparr>bf_db := snd ?rec\<rparr>"
      let ?again = "scan (ch_src ch) (ch_info ch) (ch_events ch (StaticSnapshot (map j_Contract jobs))) fuel v (rg_to rg)"
      have eq: "(if \<not> fst ?rec then Some (False, ?b)
          else if v \<le> rg_to rg then (case ?again of None \<Rightarrow> None | Some (Inl e) \<Rightarrow> Some (False, ?b)
              | Some (Inr res) \<Rightarrow> Some (commit_group n rg jobs False (Some v) res now ?b))
          else Some (commit_group n rg jobs False (Some v) empty_result now ?b)) = Some (w, b')"
        using assms(1) none wall Inr by (simp add: processGroup_def Let_def)
      consider (again) res where "v \<le> rg_to rg" "?again = Some (Inr res)" "commit_group n rg jobs False (Some v) res now ?b = (w, b')"
        | (above) "\<not> v \<le> rg_to rg" "commit_group n rg jobs False (Some v) empty_result now ?b = (w, b')"
        | (failed) "w = False" "b' = ?b"
        using eq by (auto split: if_splits option.splits sum.splits)
      then show ?thesis
      proof cases
        case again
        then show ?thesis using Inr by (intro clamped [of v ?b res]) (auto simp: rows_read_def scanned_by_def)
      next
        case above
        then show ?thesis using Inr by (intro clamped [of v ?b empty_result]) (simp_all add: rows_read_def)
      next
        case failed
        then show ?thesis using Inr by (intro retry [of v]) simp_all
      qed
    qed
  qed
qed

lemma scan_returns:
  assumes "at_most_asked src" and "never_empty src" and "to < maxU32" and "from \<le> to"
    and "nat (uint to + 1 - uint from) < fuel"
  shows "scan src infoOf ex fuel from to \<noteq> None"
  unfolding scan_def by (rule scan_loop_returns [OF assms(1-3)]) (use assms(4,5) in \<open>simp_all add: u32_le_iff\<close>)

text \<open>A group is always finished with, however its scan, its gaps and its commits end.\<close>

lemma processGroup_returns:
  assumes "at_most_asked (ch_src ch)" and "never_empty (ch_src ch)" and "group_fits rg jobs"
    and "nat (uint (rg_to rg) + 1 - uint (rg_from rg)) < fuel"
  shows "\<exists>w b'. processGroup n ch fuel now rg jobs ahead b = Some (w, b')"
proof -
  have fits: "rg_from rg \<le> rg_to rg" "rg_to rg < maxU32" using assms(3) by (simp_all add: group_fits_def)
  obtain r where first: "scan (ch_src ch) (ch_info ch)
      (ch_events ch (StaticSnapshot (map j_Contract jobs @ map j_Contract ahead))) fuel (rg_from rg) (rg_to rg) = Some r"
    using scan_returns [OF assms(1,2) fits(2,1) assms(4)] by blast
  have again: "\<exists>r. scan (ch_src ch) (ch_info ch) ex fuel wall (rg_to rg) = Some r"
    if "findWall (ch_src ch) (rg_from rg + 1) (rg_to rg) = Inr wall" "wall \<le> rg_to rg" for ex wall
  proof -
    have "uint (rg_from rg + 1) = uint (rg_from rg) + 1" using fits by (intro u32_Suc [of _ maxU32]) simp
    then have "uint (rg_from rg) \<le> uint wall" using findWall_bounds [OF that(1)] fits by (simp add: u32_le_iff)
    then have "nat (uint (rg_to rg) + 1 - uint wall) < fuel" using assms(4) by linarith
    then show ?thesis using scan_returns [OF assms(1,2) fits(2) that(2)] by blast
  qed
  have "processGroup n ch fuel now rg jobs ahead b \<noteq> None"
  proof (cases "findWall (ch_src ch) (rg_from rg + 1) (rg_to rg)")
    case (Inl e)
    then show ?thesis using first by (auto simp: processGroup_def Let_def split: option.split sum.split)
  next
    case (Inr wall)
    then show ?thesis
      using first again [OF Inr, of "ch_events ch (StaticSnapshot (map j_Contract jobs))"]
      by (cases "wall \<le> rg_to rg") (auto simp: processGroup_def Let_def split: option.split sum.split)
  qed
  then show ?thesis by (metis not_Some_eq surj_pair)
qed

section \<open>Properties\<close>

text \<open>C13: a walk advances only together with its rows. Let the cache be honest: what it holds is a completed
  scan of the range it is filed under, by one of the sources \<open>S\<close> seen so far (it is so when empty). After a
  group is processed it is honest again, and every contract's walk is where it was, or it is a member's and
  moved to the watermark this chunk gives it with every row the chunk holds for that contract stored. Those
  rows come from a completed scan of the whole chunk that extracted for the contract's kinds, or of its part
  above the retention wall, and then everything from the walk's target up to the wall is declared missing.
  The gap table stays well-formed and declares all it did.\<close>

theorem processGroup_honest:
  assumes "processGroup n ch fuel now rg jobs ahead b = Some (w, b')" and "wf_jobs jobs" and "group_fits rg jobs"
    and "wf_gaps (t_gaps (bf_db b))" and "open_disjoint n (t_gaps (bf_db b))" and "memo_honest S (bf_lastScan b)"
  shows "(walk_row n c (bf_db b') = walk_row n c (bf_db b)
     \<or> (\<exists>j\<in>set jobs. \<exists>clamped res. job_id j = c
         \<and> walk_row n c (bf_db b') = map_option (advance_row (next_row rg clamped (j_Backfill j)) now) (walk_row n c (bf_db b))
         \<and> rows_stored n (orEmpty (map_of (partitionResult res) c)) (bf_db b')
         \<and> rows_read S ch rg jobs clamped res \<and> clamp_declared n j clamped (bf_db b')))
    \<and> memo_honest (insert ch S) (bf_lastScan b')
    \<and> wf_gaps (t_gaps (bf_db b')) \<and> open_disjoint n (t_gaps (bf_db b'))
    \<and> declared n (t_gaps (bf_db b)) \<subseteq> declared n (t_gaps (bf_db b'))"
  using assms(1,6)
proof (cases rule: processGroup_cases)
  case idle
  then show ?thesis using assms memo_honest_mono [OF assms(6)] by auto
next
  case (whole cached res b1)
  note out = commit_group_outcome [OF whole(1) assms(2)]
  have "clamp_declared n j None (bf_db b')" for j by (simp add: clamp_declared_def)
  then show ?thesis using out(3) [of c, unfolded whole(2)] whole(3,4) assms(4,5)
    unfolding out(1,2) whole(2) by blast
next
  case (retry wall)
  obtain tbl where "record_gaps n wall now [] jobs (bf_db b) = (True, bf_db b\<lparr>t_gaps := tbl\<rparr>)" "wf_gaps tbl"
    "open_disjoint n tbl" "declared n (t_gaps (bf_db b)) \<subseteq> declared n tbl"
    using clamped_group_gaps [OF assms(3-5) retry(1)] by blast
  then show ?thesis using retry(3) memo_honest_insert [OF assms(6)] by (auto simp: walk_row_def)
next
  case (clamped wall res b1)
  obtain tbl where tbl: "record_gaps n wall now [] jobs (bf_db b) = (True, bf_db b\<lparr>t_gaps := tbl\<rparr>)" "wf_gaps tbl"
    "open_disjoint n tbl" "declared n (t_gaps (bf_db b)) \<subseteq> declared n tbl"
    "\<forall>j\<in>set jobs. {uint (b_TargetFrom (j_Backfill j))..uint wall - 1} \<subseteq> declared n tbl"
    using clamped_group_gaps [OF assms(3-5) clamped(1)] by blast
  note out = commit_group_outcome [OF clamped(4) assms(2)]
  have b1: "bf_db b1 = bf_db b\<lparr>t_gaps := tbl\<rparr>" using clamped(2) tbl(1) by simp
  have "clamp_declared n j (Some wall) (bf_db b')" if "j \<in> set jobs" for j
    using that tbl(5) out(1) b1 by (simp add: clamp_declared_def)
  moreover have "memo_honest (insert ch S) (bf_lastScan b')" using memo_honest_mono [OF assms(6)] out(2) clamped(3) by auto
  moreover have "walk_row n c (bf_db b1) = walk_row n c (bf_db b)" "t_gaps (bf_db b') = tbl"
    using b1 out(1) by (simp_all add: walk_row_def)
  ultimately show ?thesis using out(3) [of c] tbl(2-4) clamped(5) by metis
qed

text \<open>The cache stays honest through the groups of a round, and from round to round.\<close>

lemma processGroup_memo:
  "processGroup n ch fuel now rg jobs ahead b = Some (w, b') \<Longrightarrow> memo_honest S (bf_lastScan b) \<Longrightarrow>
     memo_honest (insert ch S) (bf_lastScan b')"
proof (erule processGroup_cases, assumption)
  assume "w = False" "b' = b" "memo_honest S (bf_lastScan b)"
  then show ?thesis using memo_honest_mono by blast
next
  fix cached res b1 assume "commit_group n rg jobs cached None res now b1 = (w, b')" "memo_honest (insert ch S) (bf_lastScan b1)"
  then show ?thesis by (auto simp: commit_group_def Let_def split: if_splits)
next
  fix wall assume "b' = b\<lparr>bf_db := snd (record_gaps n wall now [] jobs (bf_db b))\<rparr>" "memo_honest S (bf_lastScan b)"
  then show ?thesis using memo_honest_insert by auto
next
  fix wall res b1 assume "commit_group n rg jobs False (Some wall) res now b1 = (w, b')" "bf_lastScan b1 = bf_lastScan b"
    "memo_honest S (bf_lastScan b)"
  then show ?thesis using memo_honest_insert [of S "bf_lastScan b"] by (auto simp: commit_group_def Let_def split: if_splits)
qed

lemma run_groups_memo:
  "run_groups n ch fuel now g order wb = Some wb' \<Longrightarrow> memo_honest (insert ch S) (bf_lastScan (snd wb)) \<Longrightarrow>
     memo_honest (insert ch S) (bf_lastScan (snd wb'))"
proof (induction order arbitrary: wb)
  case (Cons f order)
  obtain worked b where wb: "wb = (worked, b)" by (cases wb)
  obtain w b1 where one: "processGroup n ch fuel now \<lparr>rg_from = f, rg_to = gp_tops g f\<rparr> (group_of g f)
      (group_of g (f + backfillChunkSize)) b = Some (w, b1)"
    "run_groups n ch fuel now g order (worked \<or> w, b1) = Some wb'"
    using Cons.prems(1) wb by (auto simp: Let_def split: option.splits)
  have "memo_honest (insert ch (insert ch S)) (bf_lastScan b1)"
    by (rule processGroup_memo [OF one(1)]) (use Cons.prems(2) wb in simp)
  then show ?case using Cons.IH [OF one(2)] by simp
qed simp

lemma round_memo:
  "round n ch fuel now b = Some (worked, b') \<Longrightarrow> memo_honest S (bf_lastScan b) \<Longrightarrow> memo_honest (insert ch S) (bf_lastScan b')"
  using run_groups_memo memo_honest_mono [of S "bf_lastScan b" "insert ch S"] unfolding round_def Let_def by fastforce

text \<open>A concrete walk for the instances: one contract, its row at ledger 7, target 5, served by
  \<open>demo_source\<close>.\<close>

definition demo_walk :: Backfill where
  "demo_walk = \<lparr>b_ContractID = ''C'', b_TargetFrom = 5, b_NextTo = 7, b_Done = False, b_ClampedAt = None,
     b_CoveredKinds = []\<rparr>"

definition demo_job :: BackfillJob where
  "demo_job = \<lparr>j_Backfill = demo_walk, j_Contract = demo_contract\<rparr>"

definition demo_chain :: "u32 \<Rightarrow> u32 chain" where
  "demo_chain wall = \<lparr>ch_src = demo_source wall, ch_info = demo_info, ch_events = (\<lambda>_ _. Inr empty_result)\<rparr>"

definition demo_backfiller :: Backfiller where
  "demo_backfiller = \<lparr>bf_lastScan = None, bf_inst = NewMetrics, bf_db = empty_db\<rparr>"

lemma demo_source_promises: "at_most_asked (demo_source w)" "never_empty (demo_source w)"
  by (auto simp: at_most_asked_def never_empty_def demo_source_def split: if_splits)

lemma demo_group:
  "wf_jobs [demo_job]" "group_fits \<lparr>rg_from = 5, rg_to = 7\<rparr> [demo_job]"
  "wf_gaps (t_gaps (bf_db demo_backfiller))" "open_disjoint n (t_gaps (bf_db demo_backfiller))"
  by (simp_all add: wf_jobs_def group_fits_def demo_job_def demo_walk_def demo_contract_def job_id_def
      maxU32_def demo_backfiller_def empty_db_def wf_gaps_def open_disjoint_def)

text \<open>The wall is at ledger 6: the walk is clamped above it, and the cache stays empty.\<close>

theorem processGroup_honest_witness:
  "\<exists>w b'. processGroup ''testnet'' (demo_chain 6) 9 3 \<lparr>rg_from = 5, rg_to = 7\<rparr> [demo_job] [] demo_backfiller = Some (w, b')
    \<and> wf_gaps (t_gaps (bf_db b')) \<and> memo_honest {demo_chain 6} (bf_lastScan b')"
proof -
  have "\<exists>w b'. processGroup ''testnet'' (demo_chain 6) 9 3 \<lparr>rg_from = 5, rg_to = 7\<rparr> [demo_job] [] demo_backfiller = Some (w, b')"
    by (rule processGroup_returns) (simp_all add: demo_chain_def demo_source_promises demo_group)
  then obtain w b' where run: "processGroup ''testnet'' (demo_chain 6) 9 3 \<lparr>rg_from = 5, rg_to = 7\<rparr> [demo_job] [] demo_backfiller = Some (w, b')"
    by blast
  have "memo_honest {} (bf_lastScan demo_backfiller)" by (simp add: demo_backfiller_def)
  from processGroup_honest [OF run demo_group this] show ?thesis using run by blast
qed

text \<open>Splitting a shared scan loses nothing and mixes nothing up. The part of each contract is
  exactly its own rows, in the order the scan produced them.\<close>

theorem partitionResult_exact:
  "orEmpty (map_of (partitionResult res) c) =
     \<lparr>pa_events = filter (\<lambda>e. ev_ContractID e = c) (rs_Events res),
      pa_states = filter (\<lambda>s. sc_ContractID s = c) (rs_StateChanges res),
      pa_transfers = filter (\<lambda>t. tr_ContractID t = c) (rs_Transfers res),
      pa_trustlines = filter (\<lambda>t. tc_ContractID t = c) (rs_TrustlineChanges res),
      pa_movements = filter (\<lambda>m. mv_ContractID m = c) (rs_Movements res)\<rparr>"
  by (rule part_of_scan)

text \<open>What a round scans. The cells it visits are those of the walks that have somewhere to go,
  each once; a cell's group is exactly the walks whose next chunk starts there, and its range, at
  most one chunk long, starts at or above every member's target, and reaches the highest member
  watermark.\<close>

theorem round_groups_exact:
  assumes "\<forall>j\<in>set jobs. 1 \<le> uint (b_NextTo (j_Backfill j))" and "g = group_jobs n now d jobs"
  shows "distinct (gp_order g)
    \<and> (\<forall>j\<in>set jobs. b_TargetFrom (j_Backfill j) \<le> b_NextTo (j_Backfill j) \<longrightarrow>
         chunkFromFor (j_Backfill j) \<in> set (gp_order g) \<and> j \<in> set (group_of g (chunkFromFor (j_Backfill j))))
    \<and> (\<forall>f\<in>set (gp_order g). \<forall>j\<in>set (group_of g f). j \<in> set jobs \<and> chunkFromFor (j_Backfill j) = f
         \<and> b_TargetFrom (j_Backfill j) \<le> f \<and> f \<le> b_NextTo (j_Backfill j) \<and> b_NextTo (j_Backfill j) \<le> gp_tops g f)
    \<and> (\<forall>f\<in>set (gp_order g). f \<le> gp_tops g f \<and> uint (gp_tops g f) - uint f < 2000)"
proof -
  have g: "group_of g f = filter (in_cell f) jobs"
    "gp_tops g f = foldl max 0 (map (\<lambda>j. b_NextTo (j_Backfill j)) (filter (in_cell f) jobs))" for f
    unfolding assms(2) by (rule group_jobs_exact)+
  have order: "distinct (gp_order g)" "set (gp_order g) = {f. \<exists>j\<in>set jobs. in_cell f j}"
    using group_jobs_order unfolding assms(2) by blast+
  have member: "b_TargetFrom (j_Backfill j) \<le> f" "f \<le> b_NextTo (j_Backfill j)"
    "uint (b_NextTo (j_Backfill j)) - uint f < 2000" "b_NextTo (j_Backfill j) \<le> gp_tops g f"
    if "j \<in> set jobs" "in_cell f j" for f j
  proof -
    show "b_TargetFrom (j_Backfill j) \<le> f" "f \<le> b_NextTo (j_Backfill j)" "uint (b_NextTo (j_Backfill j)) - uint f < 2000"
      using chunkFromFor_bounds [of "j_Backfill j"] that assms(1) by (auto simp: in_cell_def walking_def)
    show "b_NextTo (j_Backfill j) \<le> gp_tops g f" unfolding g by (rule foldl_max_mem) (use that in auto)
  qed
  have "f \<le> gp_tops g f \<and> uint (gp_tops g f) - uint f < 2000" if f: "f \<in> set (gp_order g)" for f
  proof -
    obtain j where j: "j \<in> set jobs" "in_cell f j" using f unfolding order(2) by auto
    have "f \<le> gp_tops g f" by (rule order_trans [OF member(2) [OF j] member(4) [OF j]])
    moreover have "gp_tops g f = 0 \<or> (\<exists>i\<in>set jobs. in_cell f i \<and> gp_tops g f = b_NextTo (j_Backfill i))"
      using foldl_max_in [of 0 "map (\<lambda>j. b_NextTo (j_Backfill j)) (filter (in_cell f) jobs)"] unfolding g by auto
    ultimately show ?thesis using member by (auto simp: u32_le_iff)
  qed
  moreover have "chunkFromFor (j_Backfill j) \<in> set (gp_order g) \<and> j \<in> set (group_of g (chunkFromFor (j_Backfill j)))"
    if "j \<in> set jobs" "b_TargetFrom (j_Backfill j) \<le> b_NextTo (j_Backfill j)" for j
  proof -
    have "in_cell (chunkFromFor (j_Backfill j)) j" using that by (simp add: in_cell_def walking_def)
    then show ?thesis using that(1) unfolding order(2) g by auto
  qed
  moreover have "j \<in> set jobs \<and> chunkFromFor (j_Backfill j) = f \<and> b_TargetFrom (j_Backfill j) \<le> f
      \<and> f \<le> b_NextTo (j_Backfill j) \<and> b_NextTo (j_Backfill j) \<le> gp_tops g f" if "j \<in> set (group_of g f)" for f j
  proof -
    have j: "j \<in> set jobs" "in_cell f j" using that unfolding g by simp_all
    then have "chunkFromFor (j_Backfill j) = f" by (simp add: in_cell_def)
    then show ?thesis using j member [OF j] by blast
  qed
  ultimately show ?thesis using order(1) by blast
qed

theorem round_groups_exact_witness:
  "chunkFromFor demo_walk \<in> set (gp_order (group_jobs ''testnet'' 3 empty_db [demo_job]))"
  using round_groups_exact [of "[demo_job]" _ "''testnet''" 3 empty_db, OF _ refl]
  by (simp add: demo_job_def demo_walk_def)

text \<open>A cached scan is the scan. The cache answers only with the rows of the very range asked
  for, and only when every contract asked for was extracted for by that scan with the same kinds.\<close>

theorem cachedScan_same_scan:
  assumes "cachedScan (Some (rememberScan rg scanFor res)) rg' contracts = Some res'"
    and "\<forall>c\<in>set contracts \<union> set scanFor. plain_kinds c"
  shows "rg_from rg' = rg_from rg \<and> rg_to rg' = rg_to rg \<and> res' = res
    \<and> (\<forall>c\<in>set contracts. \<exists>c'\<in>set scanFor. ct_ContractID c' = ct_ContractID c \<and> sort (ct_Kinds c') = sort (ct_Kinds c))"
proof -
  let ?e = "rememberScan rg scanFor res"
  have hit: "rg_from rg' = rg_from rg" "rg_to rg' = rg_to rg" "res' = res"
    "\<forall>c\<in>set contracts. member_kinds ?e (ct_ContractID c) = canonicalKinds c"
    using assms(1) by (auto simp: cachedScan_def list_ex_iff rememberScan_def split: if_splits)
  have "\<exists>c'\<in>set scanFor. ct_ContractID c' = ct_ContractID c \<and> sort (ct_Kinds c') = sort (ct_Kinds c)"
    if c: "c \<in> set contracts" for c
  proof -
    obtain c' where c': "c' \<in> set scanFor" "ct_ContractID c' = ct_ContractID c" "canonicalKinds c' = canonicalKinds c"
      using member_kinds_rememberScan [OF bspec [OF hit(4) c] canonicalKinds_nonempty] c assms(2) by blast
    then show ?thesis using canonicalKinds_inject [of c' c] assms(2) c by blast
  qed
  with hit show ?thesis by blast
qed

theorem cachedScan_same_scan_witness:
  "cachedScan (Some (rememberScan \<lparr>rg_from = 5, rg_to = 7\<rparr> [demo_contract] empty_result)) \<lparr>rg_from = 5, rg_to = 7\<rparr>
     [demo_contract] = Some empty_result
   \<and> (\<exists>c'\<in>set [demo_contract]. ct_ContractID c' = ct_ContractID demo_contract)"
proof -
  have hit: "cachedScan (Some (rememberScan \<lparr>rg_from = 5, rg_to = 7\<rparr> [demo_contract] empty_result)) \<lparr>rg_from = 5, rg_to = 7\<rparr>
     [demo_contract] = Some empty_result"
    by (simp add: cachedScan_def rememberScan_def member_kinds_def)
  have "\<forall>c\<in>set [demo_contract] \<union> set [demo_contract]. plain_kinds c"
    by (simp add: plain_kinds_def demo_contract_def KindEvents_def KindState_def)
  from cachedScan_same_scan [OF hit this] show ?thesis using hit by auto
qed

text \<open>The chunks an undisturbed walk asks for, and the row it ends with.\<close>

fun walk_chunks :: "nat \<Rightarrow> Backfill \<Rightarrow> (u32 \<times> u32) list \<times> Backfill" where
  "walk_chunks 0 bf = ([], bf)"
| "walk_chunks (Suc k) bf =
     (if b_Done bf then ([], bf)
      else let rg = \<lparr>rg_from = chunkFromFor bf, rg_to = b_NextTo bf\<rparr>;
               rest = walk_chunks k (next_row rg None bf)
           in ((rg_from rg, rg_to rg) # fst rest, snd rest))"

text \<open>C15: a walk covers its history exactly once and ends. From any watermark down to any target
  above zero, the chunks it asks for are the ledgers from the target to the watermark, each once,
  and the walk is done after at most one chunk per grid cell in between.\<close>

theorem walk_covers_history:
  assumes "1 \<le> uint (b_TargetFrom bf)" and "b_TargetFrom bf \<le> b_NextTo bf" and "\<not> b_Done bf"
    and "nat ((uint (b_NextTo bf) - 1) div 2000 - (uint (b_TargetFrom bf) - 1) div 2000) < k"
  shows "b_Done (snd (walk_chunks k bf))
    \<and> concat (map (\<lambda>(f, t). [uint f..uint t]) (rev (fst (walk_chunks k bf)))) = [uint (b_TargetFrom bf)..uint (b_NextTo bf)]"
  using assms
proof (induction k arbitrary: bf)
  case (Suc k)
  let ?f = "chunkFromFor bf" and ?nt = "uint (b_NextTo bf)" and ?tf = "uint (b_TargetFrom bf)"
  let ?n = "next_row \<lparr>rg_from = ?f, rg_to = b_NextTo bf\<rparr> None bf"
  have nt: "1 \<le> ?nt" using Suc.prems(1,2) by (simp add: u32_le_iff)
  note f = chunkFromFor_bounds [OF nt Suc.prems(2)] and fu = chunkFromFor_uint [OF nt]
  have pred: "uint (?f - 1) = uint ?f - 1" using f(3) by (intro u32_pred_pos) simp
  have n: "b_NextTo ?n = ?f - 1" "b_TargetFrom ?n = b_TargetFrom bf" "b_Done ?n \<longleftrightarrow> ?f \<le> b_TargetFrom bf"
    by (simp_all add: next_row_def)
  show ?case
  proof (cases "b_Done ?n")
    case True
    then have "?f = b_TargetFrom bf" using n(3) f(1) by simp
    moreover have "walk_chunks k ?n = ([], ?n)" using True by (cases k) simp_all
    ultimately show ?thesis using Suc.prems(3) True by (simp add: Let_def)
  next
    case False
    then have gt: "?tf < uint ?f" using n(3) by (simp add: u32_le_iff)
    then have grid: "uint ?f = 2000 * ((?nt - 1) div 2000) + 1" using fu by simp
    then have "(uint ?f - 1 - 1) div 2000 = (?nt - 1) div 2000 - 1" by simp
    moreover have "(?tf - 1) div 2000 \<le> (uint ?f - 1 - 1) div 2000" using gt by (intro zdiv_mono1) simp_all
    ultimately have "nat ((uint ?f - 1 - 1) div 2000 - (?tf - 1) div 2000) < k" using Suc.prems(4) by linarith
    then have IH: "b_Done (snd (walk_chunks k ?n))"
      "concat (map (\<lambda>(f, t). [uint f..uint t]) (rev (fst (walk_chunks k ?n)))) = [?tf..uint ?f - 1]"
      using Suc.IH [of ?n, unfolded n(1,2) pred] Suc.prems(1) False gt pred by (simp_all add: u32_le_iff)
    have "[?tf..?nt] = [?tf..uint ?f - 1] @ [uint ?f..?nt]"
      using upto_split1 [of ?tf "uint ?f" ?nt] gt f(2) by (simp add: u32_le_iff)
    then show ?thesis using IH Suc.prems(3) by (simp add: Let_def)
  qed
qed simp

theorem walk_covers_history_witness:
  "b_Done (snd (walk_chunks 4 (demo_walk\<lparr>b_NextTo := 5000\<rparr>)))"
proof -
  let ?bf = "demo_walk\<lparr>b_NextTo := 5000\<rparr>"
  have "1 \<le> uint (b_TargetFrom ?bf)" "b_TargetFrom ?bf \<le> b_NextTo ?bf" "\<not> b_Done ?bf"
    "nat ((uint (b_NextTo ?bf) - 1) div 2000 - (uint (b_TargetFrom ?bf) - 1) div 2000) < 4"
    by (simp_all add: demo_walk_def)
  from walk_covers_history [OF this] show ?thesis by blast
qed

end
