(* ===== verification/Ingest_Loop.thy ===== *)
theory Ingest_Loop
  imports Health
begin

text \<open>
  The live loop of \<^verbatim>\<open>internal/ingest/loop.go\<close>. One turn of the \<open>for\<close> in \<open>Run\<close> is the
  function \<open>turn\<close>, on what the outside answers during that turn: the ledger read, the tip poll, the
  registry snapshot, the clocks, and whether the database could be reached. A turn continues in a new
  state or stops the loop with an integrity error. \<open>loop_run\<close> is the loop: any number of turns, with
  any answers, together with the ledgers committed. Cancellation ends a run between turns.
\<close>

section \<open>Data\<close>

record Config =
  cfg_Network :: string
  cfg_StartLedger :: u32

definition tipPollInterval :: int where "tipPollInterval = 2000000000"
definition backoffMin :: int where "backoffMin = 1000000000"
definition backoffMax :: int where "backoffMax = 30000000000"
definition resetSlack :: u32 where "resetSlack = 17280"
definition readyLagThreshold :: u32 where "readyLagThreshold = 6"

datatype loop_error =
    CursorUnreadable
  | TipUnknown source_error
  | NetworkReset u32 u32
  | LedgerBelowRetention u32
  | SourceReturnedOther u32 u32
  | ChainDivergence u32 string string

record Loop =
  lo_next :: u32
  lo_expectedPrev :: string
  lo_backoff :: int
  lo_lastKnownTip :: u32
  lo_db :: db
  lo_obs :: State
  lo_inst :: Metrics

text \<open>What the outside answers in one turn; \<open>an_down\<close>: the commit cannot reach the database.\<close>

record 'l answers =
  an_ledger :: "source_error + 'l"
  an_tip :: "source_error + u32"
  an_snap :: Snapshot
  an_down :: bool
  an_commit_time :: int
  an_now :: int

datatype turn_result = Continue Loop "Info option" | Stop loop_error Loop

section \<open>Operations\<close>

text \<open>The first argument after the configuration says whether the cursor can be read at all.\<close>

definition resumePoint :: "Config \<Rightarrow> bool \<Rightarrow> db \<Rightarrow> (source_error + u32) \<Rightarrow> loop_error + (u32 \<times> string)" where
  "resumePoint cfg down d tip =
     (if down then Inl CursorUnreadable
      else case LoadCursor (cfg_Network cfg) d of
        Inl _ \<Rightarrow>
          (case tip of
             Inl lerr \<Rightarrow> Inl (TipUnknown lerr)
           | Inr lat \<Rightarrow> Inr (if cfg_StartLedger cfg = 0 then lat else cfg_StartLedger cfg, ''''))
      | Inr cursor \<Rightarrow>
          (case tip of
             Inr lat \<Rightarrow>
               if cu_Sequence cursor > lat + resetSlack then Inl (NetworkReset (cu_Sequence cursor) lat)
               else Inr (cu_Sequence cursor + 1, cu_Hash cursor)
           | Inl _ \<Rightarrow> Inr (cu_Sequence cursor + 1, cu_Hash cursor)))"

definition markTipReached :: "(source_error + u32) \<Rightarrow> Loop \<Rightarrow> Loop" where
  "markTipReached tip l =
     (case tip of
        Inl _ \<Rightarrow> l
      | Inr lat \<Rightarrow>
          (let caughtUp = (lo_next l + readyLagThreshold \<ge> lat);
               obs = SetReady caughtUp (lo_obs l);
               obs = (if lo_next l > 0 then Observe (lo_next l - 1) lat 0 obs else obs)
           in l\<lparr>lo_lastKnownTip := lat, lo_obs := obs\<rparr>))"

definition back_off :: "Loop \<Rightarrow> Loop" where
  "back_off l = l\<lparr>lo_backoff := min (lo_backoff l * 2) backoffMax\<rparr>"

definition rows_of :: "Result \<Rightarrow> partitioned" where
  "rows_of r = \<lparr>pa_events = rs_Events r, pa_states = rs_StateChanges r, pa_transfers = rs_Transfers r,
     pa_trustlines = rs_TrustlineChanges r, pa_movements = rs_Movements r\<rparr>"

definition record_of :: "Info \<Rightarrow> LedgerRecord" where
  "record_of info = \<lparr>lr_Sequence = in_Sequence info, lr_Hash = in_Hash info,
     lr_PreviousHash = in_PreviousHash info, lr_ClosedAt = in_ClosedAt info\<rparr>"

text \<open>The part of a turn from a ledger in hand: checks, extraction, commit, reporting.\<close>

definition process_ledger ::
  "Config \<Rightarrow> ('l \<Rightarrow> Info) \<Rightarrow> (Snapshot \<Rightarrow> 'l extractor) \<Rightarrow> 'l answers \<Rightarrow> 'l \<Rightarrow> Loop \<Rightarrow> turn_result"
where
  "process_ledger cfg infoOf events an meta l =
     (let info = infoOf meta in
      if in_Sequence info \<noteq> lo_next l then Stop (SourceReturnedOther (lo_next l) (in_Sequence info)) l
      else if lo_expectedPrev l \<noteq> '''' \<and> in_PreviousHash info \<noteq> lo_expectedPrev l
      then Stop (ChainDivergence (in_Sequence info) (lo_expectedPrev l) (in_PreviousHash info)) l
      else case events (an_snap an) meta of
             Inl e \<Rightarrow> Continue (back_off l) None
           | Inr extracted \<Rightarrow>
               (let l = l\<lparr>lo_inst := count_skipped extracted (lo_inst l)\<rparr> in
                case (if an_down an then None
                      else case CommitLedger (cfg_Network cfg) (record_of info) (rows_of extracted) (lo_db l) of
                             Inl _ \<Rightarrow> None | Inr d \<Rightarrow> Some d) of
                  None \<Rightarrow> Continue (back_off l) None
                | Some d \<Rightarrow>
                    (let inst = count_rows extracted (IncLedgersIngested (ObserveCommit (an_commit_time an) (lo_inst l)));
                         tipLag = an_now an - in_ClosedAt info
                     in Continue (l\<lparr>lo_db := d, lo_inst := SetTipLag tipLag inst,
                          lo_obs := Observe (in_Sequence info) (max (in_Sequence info) (lo_lastKnownTip l)) tipLag (lo_obs l),
                          lo_expectedPrev := in_Hash info, lo_next := lo_next l + 1\<rparr>) (Some info))))"

definition turn ::
  "Config \<Rightarrow> ('l \<Rightarrow> Info) \<Rightarrow> (Snapshot \<Rightarrow> 'l extractor) \<Rightarrow> 'l answers \<Rightarrow> Loop \<Rightarrow> turn_result"
where
  "turn cfg infoOf events an l =
     (case an_ledger an of
        Inl ErrNotYetAvailable \<Rightarrow> Continue (markTipReached (an_tip an) l) None
      | Inl ErrBelowRetention \<Rightarrow> Stop (LedgerBelowRetention (lo_next l)) l
      | Inl (SourceFailure e) \<Rightarrow> Continue (back_off l) None
      | Inr meta \<Rightarrow> process_ledger cfg infoOf events an meta (l\<lparr>lo_backoff := backoffMin\<rparr>))"

text \<open>The loop's state when \<open>resumePoint\<close> has answered.\<close>

definition start_loop :: "db \<Rightarrow> State \<Rightarrow> Metrics \<Rightarrow> u32 \<times> string \<Rightarrow> Loop" where
  "start_loop d obs inst np = \<lparr>lo_next = fst np, lo_expectedPrev = snd np, lo_backoff = backoffMin,
     lo_lastKnownTip = 0, lo_db = d, lo_obs = obs, lo_inst = inst\<rparr>"

inductive loop_run ::
  "Config \<Rightarrow> ('l \<Rightarrow> Info) \<Rightarrow> (Snapshot \<Rightarrow> 'l extractor) \<Rightarrow> Loop \<Rightarrow> Info list \<Rightarrow> Loop \<Rightarrow> bool"
  for cfg infoOf events
where
  start: "loop_run cfg infoOf events l [] l"
| wait: "loop_run cfg infoOf events l is m \<Longrightarrow> turn cfg infoOf events an m = Continue m' None
         \<Longrightarrow> loop_run cfg infoOf events l is m'"
| commit: "loop_run cfg infoOf events l is m \<Longrightarrow> turn cfg infoOf events an m = Continue m' (Some i)
         \<Longrightarrow> loop_run cfg infoOf events l (is @ [i]) m'"

section \<open>Lemmas\<close>

lemma turn_wait:
  assumes "turn cfg infoOf events an m = Continue m' None"
  shows "lo_next m' = lo_next m" "lo_expectedPrev m' = lo_expectedPrev m" "lo_db m' = lo_db m"
  using assms
  by (auto simp: turn_def process_ledger_def back_off_def markTipReached_def Let_def
      split: sum.splits source_error.splits if_splits option.splits)

lemma turn_commit:
  assumes "turn cfg infoOf events an m = Continue m' (Some i)"
  shows "in_Sequence i = lo_next m" "lo_expectedPrev m = '''' \<or> in_PreviousHash i = lo_expectedPrev m"
    "lo_next m' = lo_next m + 1" "lo_expectedPrev m' = in_Hash i"
    "\<exists>rows. CommitLedger (cfg_Network cfg) (record_of i) rows (lo_db m) = Inr (lo_db m')"
  using assms
  by (auto simp: turn_def process_ledger_def back_off_def Let_def
      split: sum.splits source_error.splits if_splits option.splits)

lemma linked_append:
  "linked p (is @ [i]) \<longleftrightarrow> linked p is \<and> (let q = (if is = [] then p else in_Hash (last is)) in q = '''' \<or> in_PreviousHash i = q)"
  by (induction "is" arbitrary: p) (auto simp: Let_def)

lemma loop_run_linked:
  assumes "loop_run cfg infoOf events l is m" and "uint (lo_next l) + int (length is) < 4294967296"
  shows "map (\<lambda>i. uint (in_Sequence i)) is = [uint (lo_next l)..uint (lo_next l) + int (length is) - 1]
    \<and> linked (lo_expectedPrev l) is \<and> uint (lo_next m) = uint (lo_next l) + int (length is)
    \<and> lo_expectedPrev m = (if is = [] then lo_expectedPrev l else in_Hash (last is))"
  using assms
proof (induction rule: loop_run.induct)
  case (wait l "is" m an m')
  then show ?case using turn_wait [OF wait(2)] by simp
next
  case (commit l "is" m an m' i)
  note t = turn_commit [OF commit(2)]
  have room: "uint (lo_next l) + int (length is) < 4294967296" using commit(4) by simp
  have IH: "map (\<lambda>i. uint (in_Sequence i)) is = [uint (lo_next l)..uint (lo_next l) + int (length is) - 1]"
    "linked (lo_expectedPrev l) is" "uint (lo_next m) = uint (lo_next l) + int (length is)"
    "lo_expectedPrev m = (if is = [] then lo_expectedPrev l else in_Hash (last is))" using commit(3) [OF room] by blast+
  have "[uint (lo_next l)..uint (lo_next l) + int (length (is @ [i])) - 1] =
      [uint (lo_next l)..uint (lo_next l) + int (length is) - 1] @ [uint (lo_next l) + int (length is)]"
    using upto_rec2 [of "uint (lo_next l)" "uint (lo_next l) + int (length is)"] by simp
  moreover have "uint (lo_next m') = uint (lo_next m) + 1"
    using commit(4) IH(3) t(3) u32_add [of "lo_next m" 1] by simp
  ultimately show ?case using IH t by (simp add: linked_append)
qed simp

lemma loop_run_chain:
  assumes "loop_run cfg infoOf events l is m" and "uint (lo_next l) + int (length is) < 4294967296"
  shows "map (\<lambda>i. uint (in_Sequence i)) is = [uint (lo_next l)..uint (lo_next l) + int (length is) - 1]"
    "linked (lo_expectedPrev l) is" "uint (lo_next m) = uint (lo_next l) + int (length is)"
    "lo_expectedPrev m = (if is = [] then lo_expectedPrev l else in_Hash (last is))"
  using loop_run_linked [OF assms] by blast+

lemma LoadCursor_after:
  assumes "CommitLedger n rec rows d = Inr d'"
    and "case cursor_seq n d of None \<Rightarrow> True | Some s \<Rightarrow> s < uint (lr_Sequence rec)"
  shows "LoadCursor n d' = Inr \<lparr>cu_Sequence = lr_Sequence rec, cu_Hash = lr_Hash rec\<rparr>"
    "cursor_seq n d' = Some (uint (lr_Sequence rec))"
proof -
  obtain d1 where d1: "persist_rows n rows d = Inr d1"
    and d': "t_cursor d' = advance_cursor n rec (t_cursor d1)"
    using assms(1) by (auto simp: CommitLedger_def andThen_Inr)
  let ?P = "\<lambda>r. cr_network r = n" and ?s = "uint (lr_Sequence rec)"
  have upd: "find ?P (sql_update (\<lambda>r. ?P r \<and> cr_last_sequence r < ?s) f t) =
      map_option (\<lambda>r. if cr_last_sequence r < ?s then f r else r) (find ?P t)"
    if "\<And>r. cr_network (f r) = cr_network r" for f t
    using that by (induction t) (auto simp: sql_update_def)
  have "\<exists>r. find ?P (t_cursor d') = Some r \<and> cr_last_sequence r = ?s \<and> cr_last_hash r = lr_Hash rec"
  proof (cases "find ?P (t_cursor d)")
    case None
    then have "\<not> list_ex ?P (t_cursor d)" by (auto simp: find_None_iff list_ex_iff)
    then show ?thesis using None persist_rows_other [OF d1] by (simp add: d' advance_cursor_def find_append_one)
  next
    case (Some r)
    have "cr_last_sequence r < ?s" using assms(2) Some by (simp add: cursor_seq_def)
    moreover have "list_ex ?P (t_cursor d)" using Some by (auto simp: find_Some_iff list_ex_iff)
    ultimately have "list_ex ?P (t_cursor d)" "cr_last_sequence r < ?s" by simp_all
    then show ?thesis using Some persist_rows_other [OF d1] by (simp add: d' advance_cursor_def upd)
  qed
  then show "LoadCursor n d' = Inr \<lparr>cu_Sequence = lr_Sequence rec, cu_Hash = lr_Hash rec\<rparr>"
    "cursor_seq n d' = Some ?s" by (auto simp: LoadCursor_def cursor_seq_def)
qed

lemma loop_run_cursor:
  assumes "loop_run cfg infoOf events l is m" and "uint (lo_next l) + int (length is) < 4294967296"
    and "case cursor_seq (cfg_Network cfg) (lo_db l) of None \<Rightarrow> True | Some s \<Rightarrow> s < uint (lo_next l)"
  shows "if is = [] then lo_db m = lo_db l
    else LoadCursor (cfg_Network cfg) (lo_db m) = Inr \<lparr>cu_Sequence = in_Sequence (last is), cu_Hash = in_Hash (last is)\<rparr>
      \<and> cursor_seq (cfg_Network cfg) (lo_db m) = Some (uint (lo_next l) + int (length is) - 1)"
  using assms
proof (induction rule: loop_run.induct)
  case (wait l "is" m an m')
  then show ?case using turn_wait [OF wait(2)] by simp
next
  case (commit l "is" m an m' i)
  note t = turn_commit [OF commit(2)]
  have room: "uint (lo_next l) + int (length is) < 4294967296" using commit(4) by simp
  note IH = commit(3) [OF room commit(5)]
  obtain rows where rows: "CommitLedger (cfg_Network cfg) (record_of i) rows (lo_db m) = Inr (lo_db m')" using t(5) by blast
  have seq: "uint (in_Sequence i) = uint (lo_next l) + int (length is)"
    using loop_run_chain(3) [OF commit(1) room] t(1) by simp
  have "case cursor_seq (cfg_Network cfg) (lo_db m) of None \<Rightarrow> True | Some s \<Rightarrow> s < uint (lr_Sequence (record_of i))"
    using IH commit(5) seq by (cases "is = []") (auto simp: record_of_def split: option.splits)
  note after = LoadCursor_after [OF rows this]
  show ?case using after seq by (simp add: record_of_def)
qed simp

section \<open>Properties\<close>

text \<open>C16: live ingestion is one unbroken chain. Whatever the source, the registry and the database
  answered along the way, the ledgers a run commits have consecutive sequences starting where the run
  started, each once, and each names the hash of the one committed before it (the first, the hash the
  run started from, when there is one); the cursor in the database is then the last of them, and a
  restart that can read it resumes right after it, expecting its hash.\<close>

theorem ingestion_unbroken:
  assumes "loop_run cfg infoOf events l is m" and "is \<noteq> []"
    and "uint (lo_next l) + int (length is) < 4294967296"
    and "\<forall>s. cursor_seq (cfg_Network cfg) (lo_db l) = Some s \<longrightarrow> s < uint (lo_next l)"
  shows "map (\<lambda>i. uint (in_Sequence i)) is = [uint (lo_next l)..uint (lo_next l) + int (length is) - 1]
    \<and> linked (lo_expectedPrev l) is
    \<and> LoadCursor (cfg_Network cfg) (lo_db m) = Inr \<lparr>cu_Sequence = in_Sequence (last is), cu_Hash = in_Hash (last is)\<rparr>
    \<and> (\<forall>tip. resumePoint cfg False (lo_db m) tip = Inr (lo_next m, lo_expectedPrev m)
         \<or> (\<exists>lat. tip = Inr lat \<and> in_Sequence (last is) > lat + resetSlack))"
proof -
  note chain = loop_run_chain [OF assms(1,3)]
  have "case cursor_seq (cfg_Network cfg) (lo_db l) of None \<Rightarrow> True | Some s \<Rightarrow> s < uint (lo_next l)"
    using assms(4) by (simp split: option.split)
  from loop_run_cursor [OF assms(1,3) this] assms(2)
  have cur: "LoadCursor (cfg_Network cfg) (lo_db m) = Inr \<lparr>cu_Sequence = in_Sequence (last is), cu_Hash = in_Hash (last is)\<rparr>"
    by simp
  have "uint (in_Sequence (last is)) = last (map (\<lambda>i. uint (in_Sequence i)) is)" using assms(2) by (simp add: last_map)
  also have "\<dots> = uint (lo_next l) + int (length is) - 1"
    unfolding chain(1) using assms(2) upto_rec2 [of "uint (lo_next l)" "uint (lo_next l) + int (length is) - 1"]
    by (cases "is") auto
  finally have "uint (in_Sequence (last is)) + 1 = uint (lo_next m)" using chain(3) by simp
  then have "in_Sequence (last is) + 1 = lo_next m"
    using u32_add [of "in_Sequence (last is)" 1] u32_uint_bounds [of "lo_next m"] by (simp add: u32_eq_iff)
  then have "resumePoint cfg False (lo_db m) tip = Inr (lo_next m, lo_expectedPrev m)
      \<or> (\<exists>lat. tip = Inr lat \<and> in_Sequence (last is) > lat + resetSlack)" for tip
    using cur chain(4) assms(2) by (auto simp: resumePoint_def split: sum.splits)
  then show ?thesis using chain(1,2) cur by blast
qed

definition demo_cfg :: Config where
  "demo_cfg = \<lparr>cfg_Network = ''testnet'', cfg_StartLedger = 5\<rparr>"

definition demo_answers :: "u32 \<Rightarrow> u32 answers" where
  "demo_answers s = \<lparr>an_ledger = Inr s, an_tip = Inr 9, an_snap = [], an_down = False, an_commit_time = 1, an_now = 2\<rparr>"

definition demo_health :: State where
  "demo_health = \<lparr>h_ready = False, h_cursor = 0, h_latestKnown = 0, h_tipLagMilli = 0, h_openGaps = 0,
     h_deferredGaps = 0, h_deferredLedgers = 0, h_failovers = 0, h_pendingBackfills = 0, h_archive = None\<rparr>"

definition demo_loop :: Loop where
  "demo_loop = start_loop empty_db demo_health NewMetrics (5, '''')"

lemma demo_turn: "\<exists>m. turn demo_cfg demo_info (\<lambda>_ _. Inr empty_result) (demo_answers 5) demo_loop = Continue m (Some (demo_info 5))"
proof -
  have "rows_of empty_result = no_rows" by (simp add: rows_of_def empty_result_def no_rows_def)
  then show ?thesis
    by (simp add: turn_def process_ledger_def demo_answers_def demo_loop_def start_loop_def demo_info_def
        CommitLedger_def no_rows_persist Let_def)
qed

theorem ingestion_unbroken_witness:
  "\<exists>m. loop_run demo_cfg demo_info (\<lambda>_ _. Inr empty_result) demo_loop [demo_info 5] m
    \<and> LoadCursor ''testnet'' (lo_db m) = Inr \<lparr>cu_Sequence = 5, cu_Hash = in_Hash (demo_info 5)\<rparr>"
proof -
  obtain m where "turn demo_cfg demo_info (\<lambda>_ _. Inr empty_result) (demo_answers 5) demo_loop = Continue m (Some (demo_info 5))"
    using demo_turn by blast
  from loop_run.commit [OF loop_run.start this]
  have run: "loop_run demo_cfg demo_info (\<lambda>_ _. Inr empty_result) demo_loop [demo_info 5] m" by simp
  have "uint (lo_next demo_loop) + int (length [demo_info 5]) < 4294967296"
    "\<forall>s. cursor_seq (cfg_Network demo_cfg) (lo_db demo_loop) = Some s \<longrightarrow> s < uint (lo_next demo_loop)"
    by (simp_all add: demo_loop_def start_loop_def cursor_seq_def empty_db_def)
  from ingestion_unbroken [OF run _ this] run show ?thesis by (auto simp: demo_cfg_def demo_info_def)
qed

text \<open>C17: what stops the loop and what does not. A turn stops exactly when the ledger is below the
  source's retention, is not the one asked for, or does not extend the committed chain, and then
  nothing is written; every other trouble (a failing source, extraction or commit) leaves the loop
  where it was, to try the same ledger again after a pause of at most \<open>backoffMax\<close>.\<close>

theorem turn_stops_on_integrity_only:
  assumes "lo_backoff l \<le> backoffMax"
  shows "((\<exists>e l'. turn cfg infoOf events an l = Stop e l') \<longleftrightarrow>
      (an_ledger an = Inl ErrBelowRetention
       \<or> (\<exists>meta. an_ledger an = Inr meta \<and> (in_Sequence (infoOf meta) \<noteq> lo_next l
            \<or> lo_expectedPrev l \<noteq> '''' \<and> in_PreviousHash (infoOf meta) \<noteq> lo_expectedPrev l))))
    \<and> (\<forall>e l'. turn cfg infoOf events an l = Stop e l' \<longrightarrow> lo_db l' = lo_db l)
    \<and> (\<forall>l'. turn cfg infoOf events an l = Continue l' None \<longrightarrow>
         lo_next l' = lo_next l \<and> lo_expectedPrev l' = lo_expectedPrev l \<and> lo_db l' = lo_db l \<and> lo_backoff l' \<le> backoffMax)
    \<and> (\<forall>l' i. turn cfg infoOf events an l = Continue l' (Some i) \<longrightarrow> lo_backoff l' = backoffMin)"
proof -
  have iff: "(\<exists>e l'. turn cfg infoOf events an l = Stop e l') \<longleftrightarrow>
      (an_ledger an = Inl ErrBelowRetention
       \<or> (\<exists>meta. an_ledger an = Inr meta \<and> (in_Sequence (infoOf meta) \<noteq> lo_next l
            \<or> lo_expectedPrev l \<noteq> '''' \<and> in_PreviousHash (infoOf meta) \<noteq> lo_expectedPrev l)))"
    by (auto simp: turn_def process_ledger_def Let_def split: sum.split source_error.split option.split)
  have stop: "lo_db l' = lo_db l" if "turn cfg infoOf events an l = Stop e l'" for e l'
    using that by (auto simp: turn_def process_ledger_def Let_def split: sum.splits source_error.splits option.splits if_splits)
  have pause: "lo_backoff l' \<le> backoffMax" if "turn cfg infoOf events an l = Continue l' None" for l'
    using that assms by (auto simp: turn_def process_ledger_def back_off_def markTipReached_def Let_def
        split: sum.splits source_error.splits option.splits if_splits)
  have "lo_backoff l' = backoffMin" if "turn cfg infoOf events an l = Continue l' (Some i)" for l' i
    using that by (auto simp: turn_def process_ledger_def back_off_def markTipReached_def Let_def
        split: sum.splits source_error.splits option.splits if_splits)
  then show ?thesis using iff stop pause turn_wait [of cfg infoOf events an l] by blast
qed

theorem turn_stops_on_integrity_only_witness:
  "\<exists>e l'. turn demo_cfg demo_info (\<lambda>_ _. Inr empty_result) (demo_answers 6) demo_loop = Stop e l'"
proof -
  have "lo_backoff demo_loop \<le> backoffMax" by (simp add: demo_loop_def start_loop_def backoffMin_def backoffMax_def)
  from turn_stops_on_integrity_only [OF this, of demo_cfg demo_info "\<lambda>_ _. Inr empty_result" "demo_answers 6"]
  have "(\<exists>e l'. turn demo_cfg demo_info (\<lambda>_ _. Inr empty_result) (demo_answers 6) demo_loop = Stop e l') \<longleftrightarrow>
      (an_ledger (demo_answers 6) = Inl ErrBelowRetention
       \<or> (\<exists>meta. an_ledger (demo_answers 6) = Inr meta \<and> (in_Sequence (demo_info meta) \<noteq> lo_next demo_loop
            \<or> lo_expectedPrev demo_loop \<noteq> '''' \<and> in_PreviousHash (demo_info meta) \<noteq> lo_expectedPrev demo_loop)))"
    by (rule conjunct1)
  then show ?thesis by (simp add: demo_answers_def demo_info_def demo_loop_def start_loop_def)
qed

end
