(* ===== verification/Go_Path.thy ===== *)
theory Go_Path
  imports Prelude
begin

text \<open>
  What the program uses of Go's slash-separated paths: splitting, the steps that clean a rooted or a
  relative path, and \<open>filepath.Join\<close> of a directory and a name.
\<close>

definition slash :: char where "slash = CHR ''/''"

fun split_slash :: "string \<Rightarrow> string list" where
  "split_slash [] = [[]]"
| "split_slash (c # s) =
     (if c = slash then [] # split_slash s
      else (case split_slash s of [] \<Rightarrow> [[c]] | w # ws \<Rightarrow> (c # w) # ws))"

text \<open>Empty segments and single dots are dropped, two dots go up: not above the root of a rooted path,
  and kept at the start of a relative one.\<close>

definition clean_step :: "string list \<Rightarrow> string \<Rightarrow> string list" where
  "clean_step ds s = (if s = '''' \<or> s = ''.'' then ds else if s = ''..'' then butlast ds else ds @ [s])"

definition clean_step_relative :: "string list \<Rightarrow> string \<Rightarrow> string list" where
  "clean_step_relative ds s =
     (if s = ''..'' \<and> (ds = [] \<or> last ds = ''..'') then ds @ [s] else clean_step ds s)"

definition path_of :: "string list \<Rightarrow> string" where
  "path_of ws = concat (map ((#) slash) ws)"

definition Clean :: "string \<Rightarrow> string" where
  "Clean p =
     (if p \<noteq> '''' \<and> hd p = slash
      then let ss = foldl clean_step [] (split_slash p) in if ss = [] then [slash] else path_of ss
      else let ss = foldl clean_step_relative [] (split_slash p) in if ss = [] then ''.'' else tl (path_of ss))"

definition Join :: "string \<Rightarrow> string \<Rightarrow> string" where
  "Join dir name =
     (case filter (\<lambda>e. e \<noteq> '''') [dir, name] of
        [] \<Rightarrow> ''''
      | es \<Rightarrow> Clean (tl (path_of es)))"

section \<open>Lemmas\<close>

lemma path_of_simps [simp]: "path_of [] = ''''" "path_of (w # ws) = slash # w @ path_of ws"
  by (simp_all add: path_of_def)

lemma Join_example: "Join ''/tmp'' ''sierpe'' = ''/tmp/sierpe''" "Join ''a/../../b/'' ''sierpe'' = ''../b/sierpe''"
  by (simp_all add: Join_def Clean_def clean_step_def clean_step_relative_def slash_def)

end
