(* ===== verification/Source_Captive.thy ===== *)
theory Source_Captive
  imports Ingest_Scan Go_Path
begin

text \<open>
  \<^verbatim>\<open>internal/source/captive/captive.go\<close>: replaying an archive range through a captive core.
  The core is an argument: starting it and preparing a range gives an error or a way to read ledgers.
  The consumer's \<open>emit\<close> callback is a state transformer that may refuse a ledger. \<open>None\<close> is a loop
  that does not end, which happens only for a range up to the largest \<open>uint32\<close>.
\<close>

section \<open>Configuration\<close>

record CaptiveConfig =
  cc_BinaryPath :: string
  cc_Passphrase :: string
  cc_ArchiveURLs :: "string list"
  cc_StoragePath :: string

text \<open>What the SDK builds the core's configuration file from, and what it starts a core with.\<close>

record CaptiveCoreTomlParams =
  tp_NetworkPassphrase :: string
  tp_HistoryArchiveURLs :: "string list"
  tp_CoreBinaryPath :: string
  tp_EmitUnifiedEvents :: bool
  tp_EmitUnifiedEventsBeforeProtocol22 :: bool
  tp_EnforceSorobanDiagnosticEvents :: bool
  tp_EnforceSorobanTransactionMetaExtV1 :: bool

record 't CaptiveCoreConfig =
  qc_BinaryPath :: string
  qc_NetworkPassphrase :: string
  qc_HistoryArchiveURLs :: "string list"
  qc_StoragePath :: string
  qc_Toml :: 't
  qc_UserAgent :: string

definition toml_params :: "CaptiveConfig \<Rightarrow> CaptiveCoreTomlParams" where
  "toml_params cfg =
     \<lparr>tp_NetworkPassphrase = cc_Passphrase cfg, tp_HistoryArchiveURLs = cc_ArchiveURLs cfg,
      tp_CoreBinaryPath = cc_BinaryPath cfg, tp_EmitUnifiedEvents = True, tp_EmitUnifiedEventsBeforeProtocol22 = True,
      tp_EnforceSorobanDiagnosticEvents = True, tp_EnforceSorobanTransactionMetaExtV1 = True\<rparr>"

text \<open>\<open>New\<close>: the configuration is built before anything runs, and every replay starts a core with it.\<close>

definition NewCaptiveSource ::
  "(CaptiveCoreTomlParams \<Rightarrow> string + 't) \<Rightarrow> CaptiveConfig \<Rightarrow> string + 't CaptiveCoreConfig"
where
  "NewCaptiveSource newToml cfg =
     (case newToml (toml_params cfg) of
        Inl e \<Rightarrow> Inl e
      | Inr toml \<Rightarrow> Inr \<lparr>qc_BinaryPath = cc_BinaryPath cfg, qc_NetworkPassphrase = cc_Passphrase cfg,
          qc_HistoryArchiveURLs = cc_ArchiveURLs cfg, qc_StoragePath = Join (cc_StoragePath cfg) ''sierpe-captive'',
          qc_Toml = toml, qc_UserAgent = ''sierpe''\<rparr>)"

section \<open>Operations\<close>

type_synonym 'l core = "u32 \<Rightarrow> u32 \<Rightarrow> string + (u32 \<Rightarrow> string + 'l)"

datatype 'e replay_error =
    InvalidRange u32 u32
  | CoreUnavailable string
  | ReplayFailed u32 string
  | CoreProduced u32 u32
  | EmitRefused 'e

fun replay_loop ::
  "(u32 \<Rightarrow> string + 'l) \<Rightarrow> ('l \<Rightarrow> Info) \<Rightarrow> ('l \<Rightarrow> 's \<Rightarrow> 'e + 's) \<Rightarrow> u32 \<Rightarrow> nat \<Rightarrow> u32 \<Rightarrow> 's
     \<Rightarrow> ('e replay_error + 's) option"
where
  "replay_loop get infoOf emit to 0 seq s = None"
| "replay_loop get infoOf emit to (Suc fuel) seq s =
     (if seq \<le> to
      then case get seq of
             Inl e \<Rightarrow> Some (Inl (ReplayFailed seq e))
           | Inr meta \<Rightarrow>
               if in_Sequence (infoOf meta) \<noteq> seq then Some (Inl (CoreProduced seq (in_Sequence (infoOf meta))))
               else (case emit meta s of
                       Inl e \<Rightarrow> Some (Inl (EmitRefused e))
                     | Inr s' \<Rightarrow> replay_loop get infoOf emit to fuel (seq + 1) s')
      else Some (Inr s))"

definition ReplayRange ::
  "'l core \<Rightarrow> ('l \<Rightarrow> Info) \<Rightarrow> nat \<Rightarrow> u32 \<Rightarrow> u32 \<Rightarrow> ('l \<Rightarrow> 's \<Rightarrow> 'e + 's) \<Rightarrow> 's \<Rightarrow> ('e replay_error + 's) option"
where
  "ReplayRange core infoOf fuel from to emit s =
     (if from = 0 \<or> to < from then Some (Inl (InvalidRange from to))
      else case core from to of
             Inl e \<Rightarrow> Some (Inl (CoreUnavailable e))
           | Inr get \<Rightarrow> replay_loop get infoOf emit to fuel from s)"

section \<open>Lemmas\<close>

lemma replay_loop_Inr:
  assumes "replay_loop get infoOf emit to fuel seq s = Some (Inr s')" and "to < maxU32" and "uint seq \<le> uint to + 1"
  shows "\<exists>ls. map (\<lambda>l. uint (in_Sequence (infoOf l))) ls = [uint seq..uint to] \<and> each emit ls s = Inr s'
    \<and> (\<forall>l\<in>set ls. get (in_Sequence (infoOf l)) = Inr l)"
  using assms(1,3)
proof (induction fuel arbitrary: seq s)
  case (Suc fuel)
  show ?case
  proof (cases "seq \<le> to")
    case False
    then have "uint seq = uint to + 1" "s' = s" using Suc.prems by (auto simp: u32_le_iff)
    then show ?thesis by (intro exI [of _ "[]"]) simp
  next
    case True
    then obtain l s1 where l: "get seq = Inr l" "in_Sequence (infoOf l) = seq" "emit l s = Inr s1"
      "replay_loop get infoOf emit to fuel (seq + 1) s1 = Some (Inr s')"
      using Suc.prems(1) by (auto split: sum.splits if_splits)
    have suc: "uint (seq + 1) = uint seq + 1" using True assms(2) by (intro u32_Suc [of seq maxU32]) simp
    then obtain ls where ls: "map (\<lambda>l. uint (in_Sequence (infoOf l))) ls = [uint seq + 1..uint to]"
      "each emit ls s1 = Inr s'" "\<forall>l\<in>set ls. get (in_Sequence (infoOf l)) = Inr l"
      using Suc.IH [OF l(4)] True by (auto simp: u32_le_iff)
    have "[uint seq..uint to] = uint seq # [uint seq + 1..uint to]"
      using True by (simp add: upto_rec1 u32_le_iff)
    then show ?thesis using ls l by (intro exI [of _ "l # ls"]) simp
  qed
qed simp

text \<open>The loop to the last \<open>uint32\<close> ledger wraps and never succeeds.\<close>

lemma replay_loop_top: "replay_loop get infoOf emit maxU32 fuel seq s \<noteq> Some (Inr s')"
proof (induction fuel arbitrary: seq s)
  case (Suc fuel)
  have "seq \<le> maxU32" using u32_uint_bounds [of seq] by (simp add: u32_le_iff maxU32_def)
  then show ?case using Suc by (auto split: sum.splits)
qed simp

lemma ReplayRange_below: "ReplayRange core infoOf fuel from to emit s = Some (Inr s') \<Longrightarrow> to < maxU32"
proof -
  assume run: "ReplayRange core infoOf fuel from to emit s = Some (Inr s')"
  have "to \<le> maxU32" using u32_uint_bounds [of to] by (simp add: u32_le_iff maxU32_def)
  moreover have "to \<noteq> maxU32" using run by (auto simp: ReplayRange_def replay_loop_top split: if_splits sum.splits)
  ultimately show ?thesis by (rule order_le_neq_trans)
qed

lemma replay_loop_returns:
  assumes "to < maxU32" and "nat (uint to + 1 - uint seq) < fuel" and "uint seq \<le> uint to + 1"
  shows "replay_loop get infoOf emit to fuel seq s \<noteq> None"
  using assms(2,3)
proof (induction fuel arbitrary: seq s)
  case (Suc fuel)
  show ?case
  proof (cases "seq \<le> to")
    case True
    have suc: "uint (seq + 1) = uint seq + 1" using True assms(1) by (intro u32_Suc [of seq maxU32]) simp
    then have "nat (uint to + 1 - uint (seq + 1)) < fuel" "uint (seq + 1) \<le> uint to + 1"
      using True Suc.prems by (auto simp: u32_le_iff)
    from Suc.IH [OF this] show ?thesis using True by (auto split: sum.split)
  qed simp
qed simp

text \<open>A replay that succeeds has emitted exactly the ledgers of the range, in order.\<close>

lemma ReplayRange_Inr:
  assumes "ReplayRange core infoOf fuel from to emit s = Some (Inr s')" and "to < maxU32"
  shows "\<exists>ls get. core from to = Inr get \<and> map (\<lambda>l. uint (in_Sequence (infoOf l))) ls = [uint from..uint to]
    \<and> each emit ls s = Inr s' \<and> (\<forall>l\<in>set ls. get (in_Sequence (infoOf l)) = Inr l) \<and> from \<noteq> 0 \<and> from \<le> to"
proof -
  obtain get where get: "core from to = Inr get" "replay_loop get infoOf emit to fuel from s = Some (Inr s')"
    "from \<noteq> 0" "from \<le> to"
    using assms(1) by (auto simp: ReplayRange_def not_less split: if_splits sum.splits)
  then have "uint from \<le> uint to + 1" by (simp add: u32_le_iff)
  from replay_loop_Inr [OF get(2) assms(2) this] show ?thesis using get by blast
qed

lemma ReplayRange_returns:
  assumes "to < maxU32" and "nat (uint to + 1 - uint from) < fuel"
  shows "ReplayRange core infoOf fuel from to emit s \<noteq> None"
proof (cases "from = 0 \<or> to < from \<or> (\<exists>e. core from to = Inl e)")
  case False
  then obtain get where "core from to = Inr get" by (cases "core from to") auto
  moreover have "uint from \<le> uint to + 1" using False by (simp add: u32_less_iff)
  ultimately show ?thesis using False replay_loop_returns [OF assms] by (simp add: ReplayRange_def)
qed (auto simp: ReplayRange_def)

end
