(* ===== verification/Ingest_Equivalence.thy ===== *)
theory Ingest_Equivalence
  imports Source_Captive "HOL-Library.Multiset"
begin

text \<open>
  The canonical form of \<^verbatim>\<open>internal/ingest/heal.go\<close> under which a replayed ledger is compared
  with the RPC's copy: \<open>canonicalizeChanges\<close> and \<open>normalizeForEquivalence\<close>. Of the ledger's XDR
  only the parts the code touches are spelled out; the rest of every struct is one opaque field, and
  marshalling a unit of changes is an argument.
\<close>

section \<open>Data\<close>

datatype change_type = LedgerEntryCreated | LedgerEntryUpdated | LedgerEntryRemoved | LedgerEntryState
  | LedgerEntryRestored

record ('c, 'x) operationMeta =
  om_Changes :: "'c list"
  om_rest :: 'x

record ('c, 'd, 'x) metaV3 =
  v3_SorobanMeta :: "('d list \<times> 'x) option"
  v3_TxChangesBefore :: "'c list"
  v3_TxChangesAfter :: "'c list"
  v3_Operations :: "('c, 'x) operationMeta list"
  v3_rest :: 'x

record ('c, 'd, 'x) metaV4 =
  v4_DiagnosticEvents :: "'d list"
  v4_TxChangesBefore :: "'c list"
  v4_TxChangesAfter :: "'c list"
  v4_Operations :: "('c, 'x) operationMeta list"
  v4_rest :: 'x

datatype ('c, 'd, 'x) transactionMeta =
    MetaV3 "('c, 'd, 'x) metaV3 option"
  | MetaV4 "('c, 'd, 'x) metaV4 option"
  | MetaOther 'x

record ('c, 'd, 'x) txProcessing =
  tp_FeeProcessing :: "'c list"
  tp_PostTxApplyFeeProcessing :: "'c list"
  tp_TxApplyProcessing :: "('c, 'd, 'x) transactionMeta"
  tp_rest :: 'x

datatype ('c, 'd, 'x) lcm =
    LcmV1 "('c, 'd, 'x) txProcessing list option" 'x
  | LcmV2 "('c, 'd, 'x) txProcessing list option" 'x
  | LcmOther 'x

section \<open>Operations\<close>

text \<open>The grouping loop: a \<open>STATE\<close> travels with the \<open>UPDATED\<close> or \<open>REMOVED\<close> right after it.\<close>

fun units :: "('c \<Rightarrow> change_type) \<Rightarrow> 'c list \<Rightarrow> 'c list list" where
  "units typeOf [] = []"
| "units typeOf [c] = [[c]]"
| "units typeOf (c # d # cs) =
     (if typeOf c = LedgerEntryState \<and> (typeOf d = LedgerEntryUpdated \<or> typeOf d = LedgerEntryRemoved)
      then [c, d] # units typeOf cs else [c] # units typeOf (d # cs))"

definition canonicalizeChanges :: "('c \<Rightarrow> change_type) \<Rightarrow> ('c list \<Rightarrow> string option) \<Rightarrow> 'c list \<Rightarrow> 'c list" where
  "canonicalizeChanges typeOf marshal changes =
     (if length changes < 2 then changes
      else case those (map marshal (units typeOf changes)) of
             None \<Rightarrow> changes
           | Some raws \<Rightarrow> concat (map snd (sort_on fst (zip raws (units typeOf changes)))))"

definition normalizeMeta :: "('c list \<Rightarrow> 'c list) \<Rightarrow> ('c, 'd, 'x) transactionMeta \<Rightarrow> ('c, 'd, 'x) transactionMeta" where
  "normalizeMeta canon meta =
     (let ops = map (\<lambda>om. om\<lparr>om_Changes := canon (om_Changes om)\<rparr>) in
      case meta of
        MetaV3 (Some v) \<Rightarrow> MetaV3 (Some (v\<lparr>v3_SorobanMeta := map_option (\<lambda>(_, x). ([], x)) (v3_SorobanMeta v),
          v3_TxChangesBefore := canon (v3_TxChangesBefore v), v3_TxChangesAfter := canon (v3_TxChangesAfter v),
          v3_Operations := ops (v3_Operations v)\<rparr>))
      | MetaV4 (Some v) \<Rightarrow> MetaV4 (Some (v\<lparr>v4_DiagnosticEvents := [],
          v4_TxChangesBefore := canon (v4_TxChangesBefore v), v4_TxChangesAfter := canon (v4_TxChangesAfter v),
          v4_Operations := ops (v4_Operations v)\<rparr>))
      | m \<Rightarrow> m)"

definition normalizeForEquivalence :: "('c list \<Rightarrow> 'c list) \<Rightarrow> ('c, 'd, 'x) lcm \<Rightarrow> ('c, 'd, 'x) lcm" where
  "normalizeForEquivalence canon m =
     (case m of
        LcmV1 (Some txs) x \<Rightarrow> LcmV1 (Some (map (\<lambda>tx. tx\<lparr>tp_FeeProcessing := canon (tp_FeeProcessing tx),
            tp_TxApplyProcessing := normalizeMeta canon (tp_TxApplyProcessing tx)\<rparr>) txs)) x
      | LcmV2 (Some txs) x \<Rightarrow> LcmV2 (Some (map (\<lambda>tx. tx\<lparr>tp_FeeProcessing := canon (tp_FeeProcessing tx),
            tp_PostTxApplyFeeProcessing := canon (tp_PostTxApplyFeeProcessing tx),
            tp_TxApplyProcessing := normalizeMeta canon (tp_TxApplyProcessing tx)\<rparr>) txs)) x
      | m \<Rightarrow> m)"

section \<open>Lemmas\<close>

lemma units_concat: "concat (units typeOf xs) = xs"
  by (induction typeOf xs rule: units.induct) auto

lemma those_map_Some: "those (map f xs) = Some ys \<longleftrightarrow> map f xs = map Some ys"
proof (induction xs arbitrary: ys)
  case (Cons x xs)
  then show ?case by (cases ys) (auto split: option.splits)
qed auto

lemma those_map_None: "those (map f xs) = None \<longleftrightarrow> (\<exists>x\<in>set xs. f x = None)"
  by (induction xs) (auto split: option.splits)

lemma mset_concat_cong: "mset us = mset vs \<Longrightarrow> mset (concat us) = mset (concat vs)"
  by (metis mset_concat mset_map sum_mset_sum_list)

text \<open>Two change vectors with the same units in some order.\<close>

definition same_units :: "('c \<Rightarrow> change_type) \<Rightarrow> 'c list \<Rightarrow> 'c list \<Rightarrow> bool" where
  "same_units typeOf xs ys \<longleftrightarrow> mset (units typeOf xs) = mset (units typeOf ys)"

lemma same_units_mset: "same_units typeOf xs ys \<Longrightarrow> mset xs = mset ys"
  unfolding same_units_def by (drule mset_concat_cong) (simp add: units_concat)

lemma canonicalizeChanges_mset: "mset (canonicalizeChanges typeOf marshal xs) = mset xs"
proof (cases "length xs < 2 \<or> those (map marshal (units typeOf xs)) = None")
  case False
  then obtain raws where raws: "those (map marshal (units typeOf xs)) = Some raws" by auto
  let ?us = "units typeOf xs"
  have len: "length raws = length ?us" using raws unfolding those_map_Some by (metis length_map)
  have "mset (map snd (sort_on fst (zip raws ?us))) = mset (map snd (zip raws ?us))"
    by (simp only: mset_map mset_sort)
  then have "mset (concat (map snd (sort_on fst (zip raws ?us)))) = mset (concat ?us)"
    using len by (intro mset_concat_cong) simp
  then show ?thesis using False raws by (simp add: canonicalizeChanges_def units_concat)
qed (auto simp: canonicalizeChanges_def)

text \<open>The vectors of a ledger that core may reorder, marshalled without ambiguity.\<close>

definition marshals :: "('c \<Rightarrow> change_type) \<Rightarrow> ('c list \<Rightarrow> string option) \<Rightarrow> 'c list \<Rightarrow> bool" where
  "marshals typeOf marshal xs \<longleftrightarrow>
     (\<forall>u\<in>set (units typeOf xs). marshal u \<noteq> None) \<and> inj_on marshal (set (units typeOf xs))"

lemma canonicalizeChanges_sorted_units:
  assumes "marshals typeOf marshal xs" and "2 \<le> length xs"
  shows "canonicalizeChanges typeOf marshal xs =
    concat (sort_on (\<lambda>u. the (marshal u)) (units typeOf xs))"
proof -
  let ?us = "units typeOf xs"
  have "\<forall>u\<in>set ?us. marshal u \<noteq> None" using assms(1) by (simp add: marshals_def)
  then have "map marshal ?us = map Some (map (\<lambda>u. the (marshal u)) ?us)" by (simp add: o_def)
  then have those: "those (map marshal ?us) = Some (map (\<lambda>u. the (marshal u)) ?us)" unfolding those_map_Some .
  have "map snd (sort_on fst (zip (map f us) us)) = sort_on f us" for f :: "'a list \<Rightarrow> string" and us
  proof (induction us)
    case (Cons u us)
    have "map snd (insort_key fst (f u, u) zs) = insort_key f u (map snd zs)" if "\<forall>z\<in>set zs. fst z = f (snd z)" for zs
      using that by (induction zs) auto
    moreover have "\<forall>z\<in>set (sort_on fst (zip (map f us) us)). fst z = f (snd z)" by (auto simp: in_set_zip)
    ultimately show ?case using Cons by simp
  qed simp
  then show ?thesis using assms(2) those by (simp add: canonicalizeChanges_def)
qed

lemma canonicalizeChanges_same_units:
  assumes "same_units typeOf xs ys" and "marshals typeOf marshal xs"
  shows "canonicalizeChanges typeOf marshal xs = canonicalizeChanges typeOf marshal ys"
proof (cases "2 \<le> length xs")
  case True
  have units: "mset (units typeOf xs) = mset (units typeOf ys)" using assms(1) by (simp add: same_units_def)
  then have set: "set (units typeOf ys) = set (units typeOf xs)" by (metis set_mset_mset)
  have len: "length ys = length xs" using same_units_mset [OF assms(1)] by (metis size_mset)
  have "marshals typeOf marshal ys" using assms(2) set by (simp add: marshals_def)
  moreover have "inj_on (\<lambda>u. the (marshal u)) (set (units typeOf xs))"
    using assms(2) unfolding marshals_def inj_on_def by (metis option.expand)
  then have "sort_on (\<lambda>u. the (marshal u)) (units typeOf xs) = sort_on (\<lambda>u. the (marshal u)) (units typeOf ys)"
    by (intro sort_key_inj_key_eq) (simp_all add: units set)
  ultimately show ?thesis using True len assms(2) by (simp add: canonicalizeChanges_sorted_units)
next
  case False
  have "mset xs = mset ys" by (rule same_units_mset [OF assms(1)])
  moreover obtain "length ys = length xs" using calculation by (metis size_mset)
  ultimately have "xs = ys" using False by (cases xs; cases ys) (auto simp: not_le)
  then show ?thesis by simp
qed

text \<open>Two ledgers that differ only in what core leaves open from run to run: diagnostic events, and
  the order of the change units. Everything the comparison must not touch is equal.\<close>

definition cosmetic_op :: "('c list \<Rightarrow> 'c list \<Rightarrow> bool) \<Rightarrow> ('c, 'x) operationMeta \<Rightarrow> ('c, 'x) operationMeta \<Rightarrow> bool" where
  "cosmetic_op R a b \<longleftrightarrow> R (om_Changes a) (om_Changes b) \<and> om_rest a = om_rest b"

fun cosmetic_meta ::
  "('c list \<Rightarrow> 'c list \<Rightarrow> bool) \<Rightarrow> ('c, 'd, 'x) transactionMeta \<Rightarrow> ('c, 'd, 'x) transactionMeta \<Rightarrow> bool"
where
  "cosmetic_meta R (MetaV3 (Some a)) (MetaV3 (Some b)) \<longleftrightarrow>
     map_option snd (v3_SorobanMeta a) = map_option snd (v3_SorobanMeta b)
     \<and> R (v3_TxChangesBefore a) (v3_TxChangesBefore b) \<and> R (v3_TxChangesAfter a) (v3_TxChangesAfter b)
     \<and> list_all2 (cosmetic_op R) (v3_Operations a) (v3_Operations b) \<and> v3_rest a = v3_rest b"
| "cosmetic_meta R (MetaV4 (Some a)) (MetaV4 (Some b)) \<longleftrightarrow>
     R (v4_TxChangesBefore a) (v4_TxChangesBefore b) \<and> R (v4_TxChangesAfter a) (v4_TxChangesAfter b)
     \<and> list_all2 (cosmetic_op R) (v4_Operations a) (v4_Operations b) \<and> v4_rest a = v4_rest b"
| "cosmetic_meta R a b \<longleftrightarrow> a = b"

definition cosmetic_tx ::
  "bool \<Rightarrow> ('c list \<Rightarrow> 'c list \<Rightarrow> bool) \<Rightarrow> ('c, 'd, 'x) txProcessing \<Rightarrow> ('c, 'd, 'x) txProcessing \<Rightarrow> bool"
where
  "cosmetic_tx post R a b \<longleftrightarrow> R (tp_FeeProcessing a) (tp_FeeProcessing b)
     \<and> (if post then R (tp_PostTxApplyFeeProcessing a) (tp_PostTxApplyFeeProcessing b)
        else tp_PostTxApplyFeeProcessing a = tp_PostTxApplyFeeProcessing b)
     \<and> cosmetic_meta R (tp_TxApplyProcessing a) (tp_TxApplyProcessing b) \<and> tp_rest a = tp_rest b"

fun cosmetic :: "('c list \<Rightarrow> 'c list \<Rightarrow> bool) \<Rightarrow> ('c, 'd, 'x) lcm \<Rightarrow> ('c, 'd, 'x) lcm \<Rightarrow> bool" where
  "cosmetic R (LcmV1 (Some a) x) (LcmV1 (Some b) y) \<longleftrightarrow> list_all2 (cosmetic_tx False R) a b \<and> x = y"
| "cosmetic R (LcmV2 (Some a) x) (LcmV2 (Some b) y) \<longleftrightarrow> list_all2 (cosmetic_tx True R) a b \<and> x = y"
| "cosmetic R a b \<longleftrightarrow> a = b"

lemma map_list_all2:
  assumes "list_all2 R xs ys" and "\<And>x y. R x y \<Longrightarrow> f x = f y"
  shows "map f xs = map f ys"
  using assms(1) by (induction rule: list_all2_induct) (simp_all add: assms(2))

lemma normalizeMeta_cosmetic:
  assumes "cosmetic_meta R a b" and R: "\<And>xs ys. R xs ys \<Longrightarrow> canon xs = canon ys"
  shows "normalizeMeta canon a = normalizeMeta canon b"
proof -
  let ?op = "\<lambda>om. om\<lparr>om_Changes := canon (om_Changes om)\<rparr>"
  have ops: "map ?op xs = map ?op ys" if "list_all2 (cosmetic_op R) xs ys" for xs ys :: "('a, 'c) operationMeta list"
    by (rule map_list_all2 [OF that]) (auto simp: cosmetic_op_def R)
  have sm: "map_option (\<lambda>(_, x). ([] :: 'b list, x)) s = map_option (\<lambda>(_, x). ([], x)) t"
    if "map_option snd s = map_option snd t" for s t :: "('b list \<times> 'c) option"
    using that by (cases s; cases t) auto
  consider u v where "a = MetaV3 (Some u)" "b = MetaV3 (Some v)" | u v where "a = MetaV4 (Some u)" "b = MetaV4 (Some v)"
    | "a = b" using assms(1) by (cases "(R, a, b)" rule: cosmetic_meta.cases) auto
  then show ?thesis
  proof cases
    case 1
    then have "map_option snd (v3_SorobanMeta u) = map_option snd (v3_SorobanMeta v)"
      "canon (v3_TxChangesBefore u) = canon (v3_TxChangesBefore v)" "canon (v3_TxChangesAfter u) = canon (v3_TxChangesAfter v)"
      "map ?op (v3_Operations u) = map ?op (v3_Operations v)" "v3_rest u = v3_rest v"
      using assms(1) by (simp_all add: R ops)
    moreover from this(1) have "map_option (\<lambda>(_, x). ([] :: 'b list, x)) (v3_SorobanMeta u) =
        map_option (\<lambda>(_, x). ([], x)) (v3_SorobanMeta v)" by (rule sm)
    ultimately show ?thesis using 1 by (cases u; cases v) (simp add: normalizeMeta_def)
  next
    case 2
    then have "canon (v4_TxChangesBefore u) = canon (v4_TxChangesBefore v)"
      "canon (v4_TxChangesAfter u) = canon (v4_TxChangesAfter v)"
      "map ?op (v4_Operations u) = map ?op (v4_Operations v)" "v4_rest u = v4_rest v"
      using assms(1) by (simp_all add: R ops)
    then show ?thesis using 2 by (cases u; cases v) (simp add: normalizeMeta_def)
  qed simp
qed

definition normalize_tx :: "bool \<Rightarrow> ('c list \<Rightarrow> 'c list) \<Rightarrow> ('c, 'd, 'x) txProcessing \<Rightarrow> ('c, 'd, 'x) txProcessing" where
  "normalize_tx post canon tx = tx\<lparr>tp_FeeProcessing := canon (tp_FeeProcessing tx),
     tp_PostTxApplyFeeProcessing := (if post then canon else id) (tp_PostTxApplyFeeProcessing tx),
     tp_TxApplyProcessing := normalizeMeta canon (tp_TxApplyProcessing tx)\<rparr>"

lemma normalizeForEquivalence_txs:
  "normalizeForEquivalence canon (LcmV1 (Some txs) x) = LcmV1 (Some (map (normalize_tx False canon) txs)) x"
  "normalizeForEquivalence canon (LcmV2 (Some txs) x) = LcmV2 (Some (map (normalize_tx True canon) txs)) x"
  by (simp_all add: normalizeForEquivalence_def normalize_tx_def)

lemma normalize_tx_cosmetic:
  assumes "cosmetic_tx post R s t" and R: "\<And>xs ys. R xs ys \<Longrightarrow> canon xs = canon ys"
  shows "normalize_tx post canon s = normalize_tx post canon t"
proof -
  have "normalizeMeta canon (tp_TxApplyProcessing s) = normalizeMeta canon (tp_TxApplyProcessing t)"
    using assms by (intro normalizeMeta_cosmetic [of R]) (simp_all add: cosmetic_tx_def)
  moreover have "canon (tp_FeeProcessing s) = canon (tp_FeeProcessing t)" "tp_rest s = tp_rest t"
    "(if post then canon else id) (tp_PostTxApplyFeeProcessing s) = (if post then canon else id) (tp_PostTxApplyFeeProcessing t)"
    using assms by (auto simp: cosmetic_tx_def split: if_splits)
  ultimately show ?thesis unfolding normalize_tx_def by (cases s; cases t) simp
qed

lemma normalize_cosmetic:
  assumes "cosmetic R a b" and R: "\<And>xs ys. R xs ys \<Longrightarrow> canon xs = canon ys"
  shows "normalizeForEquivalence canon a = normalizeForEquivalence canon b"
proof -
  have txs: "map (normalize_tx post canon) u = map (normalize_tx post canon) v"
    if "list_all2 (cosmetic_tx post R) u v" for post and u v :: "('a, 'b, 'c) txProcessing list"
    by (rule map_list_all2 [OF that]) (erule normalize_tx_cosmetic, erule R)
  consider u v x where "a = LcmV1 (Some u) x" "b = LcmV1 (Some v) x" "list_all2 (cosmetic_tx False R) u v"
    | u v x where "a = LcmV2 (Some u) x" "b = LcmV2 (Some v) x" "list_all2 (cosmetic_tx True R) u v"
    | "a = b" using assms(1) by (cases "(R, a, b)" rule: cosmetic.cases) auto
  then show ?thesis using txs by cases (simp_all add: normalizeForEquivalence_txs)
qed

section \<open>Properties\<close>

text \<open>Canonical form. Sorting a change vector by its semantic units keeps exactly its changes,
  and two vectors with the same units in any order have the same canonical form (when units marshal,
  and different units marshal differently).\<close>

theorem canonicalizeChanges_canonical:
  assumes "same_units typeOf xs ys" and "marshals typeOf marshal xs"
  shows "canonicalizeChanges typeOf marshal xs = canonicalizeChanges typeOf marshal ys
    \<and> mset (canonicalizeChanges typeOf marshal xs) = mset xs"
  using canonicalizeChanges_same_units [OF assms] canonicalizeChanges_mset by blast

text \<open>Changes for the concrete instances: a kind and a number, marshalled as their text.\<close>

definition demo_marshal :: "(change_type \<times> nat) list \<Rightarrow> string option" where
  "demo_marshal u = Some (concat (map (\<lambda>c. dec (snd c) @ '':'') u))"

theorem canonicalizeChanges_canonical_witness:
  "canonicalizeChanges fst demo_marshal [(LedgerEntryState, 7), (LedgerEntryUpdated, 8), (LedgerEntryCreated, 3)] =
   canonicalizeChanges fst demo_marshal [(LedgerEntryCreated, 3), (LedgerEntryState, 7), (LedgerEntryUpdated, 8)]"
proof -
  let ?xs = "[(LedgerEntryState, 7), (LedgerEntryUpdated, 8), (LedgerEntryCreated, 3)] :: (change_type \<times> nat) list"
  let ?ys = "[(LedgerEntryCreated, 3), (LedgerEntryState, 7), (LedgerEntryUpdated, 8)] :: (change_type \<times> nat) list"
  have "same_units fst ?xs ?ys" by (simp add: same_units_def)
  moreover have "marshals fst demo_marshal ?xs"
    by (simp add: marshals_def demo_marshal_def) (simp add: dec.simps digit_char_def)
  ultimately show ?thesis using canonicalizeChanges_canonical by blast
qed

text \<open>C23: the equivalence gate tolerates what core leaves open. Two copies of a ledger that differ
  only in diagnostic events and in the order of change units have the same normal form, so a replay
  is never refused for them.\<close>

theorem normalize_forgives_cosmetics:
  assumes "cosmetic (\<lambda>xs ys. same_units typeOf xs ys \<and> marshals typeOf marshal xs) a b"
  shows "normalizeForEquivalence (canonicalizeChanges typeOf marshal) a =
    normalizeForEquivalence (canonicalizeChanges typeOf marshal) b"
  by (rule normalize_cosmetic [OF assms]) (simp add: canonicalizeChanges_same_units)

definition demo_lcm :: "nat list \<Rightarrow> (change_type \<times> nat) list \<Rightarrow> (change_type \<times> nat, nat, nat) lcm" where
  "demo_lcm diag changes = LcmV1 (Some [\<lparr>tp_FeeProcessing = changes, tp_PostTxApplyFeeProcessing = [],
     tp_TxApplyProcessing = MetaV4 (Some \<lparr>v4_DiagnosticEvents = diag, v4_TxChangesBefore = [], v4_TxChangesAfter = [],
       v4_Operations = [], v4_rest = 0\<rparr>), tp_rest = 1\<rparr>]) 2"

theorem normalize_forgives_cosmetics_witness:
  "normalizeForEquivalence (canonicalizeChanges fst demo_marshal)
     (demo_lcm [1, 2] [(LedgerEntryCreated, 3), (LedgerEntryCreated, 4)]) =
   normalizeForEquivalence (canonicalizeChanges fst demo_marshal)
     (demo_lcm [] [(LedgerEntryCreated, 4), (LedgerEntryCreated, 3)])"
proof (rule normalize_forgives_cosmetics)
  show "cosmetic (\<lambda>xs ys. same_units fst xs ys \<and> marshals fst demo_marshal xs)
      (demo_lcm [1, 2] [(LedgerEntryCreated, 3), (LedgerEntryCreated, 4)])
      (demo_lcm [] [(LedgerEntryCreated, 4), (LedgerEntryCreated, 3)])"
    by (simp add: demo_lcm_def cosmetic_tx_def same_units_def marshals_def demo_marshal_def)
qed

end
