(* ===== verification/Ingest_Heal.thy ===== *)
theory Ingest_Heal
  imports Ingest_Loop Ingest_Equivalence
begin

text \<open>
  The gap healer of \<^verbatim>\<open>internal/ingest/heal.go\<close>: \<open>healChunk\<close> replays and commits one chunk of
  one gap, \<open>verifyEquivalence\<close> is the gate no heal passes before, and \<open>claim\<close> and \<open>release\<close> keep
  the workers apart. The workers run concurrently: \<open>pool_step\<close> is one step of one worker, or a
  change another part of the program makes to the database in between.
\<close>

section \<open>Data\<close>

record ('c, 'd, 'x) archive =
  he_core :: "('c, 'd, 'x) lcm core"
  he_rpc :: "('c, 'd, 'x) lcm batch_source"
  he_info :: "('c, 'd, 'x) lcm \<Rightarrow> Info"
  he_events :: "Snapshot \<Rightarrow> ('c, 'd, 'x) lcm extractor"
  he_typeOf :: "'c \<Rightarrow> change_type"
  he_marshalUnit :: "'c list \<Rightarrow> string option"
  he_marshal :: "('c, 'd, 'x) lcm \<Rightarrow> string option"

datatype emit_error =
    Discontinuity u32
  | NotExtracted u32 string
  | NeverServed u32
  | NotMarshalled u32
  | Differs u32

datatype heal_error = ReplayError "emit_error replay_error" | CommitFailed store_error

datatype gate_error =
    NoCursor store_error
  | CursorTooLow u32
  | RpcSide source_error
  | NotEquivalent "emit_error replay_error"

record Healer =
  hl_verified :: bool
  hl_chunk :: u32
  hl_workers :: int
  hl_inFlight :: "string list"
  hl_inst :: Metrics
  hl_obs :: State
  hl_db :: db

definition defaultHealChunkLedgers :: u32 where "defaultHealChunkLedgers = 100000"
definition equivalenceSample :: u32 where "equivalenceSample = 8"
definition healCheckpointFrequency :: u32 where "healCheckpointFrequency = 64"

definition ArchiveStateUnverified :: string where "ArchiveStateUnverified = ''unverified''"
definition ArchiveStateVerified :: string where "ArchiveStateVerified = ''verified''"
definition ArchiveStateFailed :: string where "ArchiveStateFailed = ''equivalence_failed''"

section \<open>Operations\<close>

definition NewHealer :: "u32 \<Rightarrow> int \<Rightarrow> Metrics \<Rightarrow> State \<Rightarrow> db \<Rightarrow> Healer" where
  "NewHealer chunkLedgers workers inst obs d =
     \<lparr>hl_verified = False, hl_chunk = (if chunkLedgers = 0 then defaultHealChunkLedgers else chunkLedgers),
      hl_workers = (if workers < 1 then 1 else workers), hl_inFlight = [], hl_inst = inst, hl_obs = obs, hl_db = d\<rparr>"

fun claim :: "Gap list \<Rightarrow> Healer \<Rightarrow> Gap option \<times> Healer" where
  "claim [] h = (None, h)"
| "claim (g # gaps) h =
     (if g_ID g \<in> set (hl_inFlight h) then claim gaps h
      else (Some g, h\<lparr>hl_inFlight := g_ID g # hl_inFlight h\<rparr>))"

definition release :: "string \<Rightarrow> Healer \<Rightarrow> Healer" where
  "release i h = h\<lparr>hl_inFlight := filter (\<lambda>j. j \<noteq> i) (hl_inFlight h)\<rparr>"

definition heal_emit :: "('l \<Rightarrow> Info) \<Rightarrow> 'l extractor \<Rightarrow> 'l \<Rightarrow> string \<times> Result \<Rightarrow> emit_error + (string \<times> Result)" where
  "heal_emit infoOf ex meta st =
     (let info = infoOf meta in
      if fst st \<noteq> '''' \<and> in_PreviousHash info \<noteq> fst st then Inl (Discontinuity (in_Sequence info))
      else case ex meta of
             Inl e \<Rightarrow> Inl (NotExtracted (in_Sequence info) e)
           | Inr res \<Rightarrow> Inr (in_Hash info, add_result (snd st) res))"

definition healChunkFrom :: "u32 \<Rightarrow> Gap \<Rightarrow> u32" where
  "healChunkFrom chunk gap =
     (let to = g_HealNextTo gap in if to - g_From gap \<ge> chunk then to - chunk + 1 else g_From gap)"

definition healChunk ::
  "string \<Rightarrow> ('c, 'd, 'x) archive \<Rightarrow> nat \<Rightarrow> Snapshot \<Rightarrow> int \<Rightarrow> Gap \<Rightarrow> Healer \<Rightarrow> ((heal_error + unit) \<times> Healer) option"
where
  "healChunk network env fuel snap now gap h =
     (let to = g_HealNextTo gap;
          chunkFrom = healChunkFrom (hl_chunk h) gap
      in case ReplayRange (he_core env) (he_info env) fuel chunkFrom to
                (heal_emit (he_info env) (he_events env snap)) ('''', empty_result) of
           None \<Rightarrow> None
         | Some (Inl e) \<Rightarrow> Some (Inl (ReplayError e), h)
         | Some (Inr st) \<Rightarrow>
             (let acc = snd st;
                  newNextTo = chunkFrom - 1;
                  resolved = (chunkFrom \<le> g_From gap)
              in case CommitHealChunk network gap newNextTo resolved (rows_of acc) now (hl_db h) of
                   Inl e \<Rightarrow> Some (Inl (CommitFailed e), h)
                 | Inr d \<Rightarrow>
                     (let inst = AddHealedLedgers (uint to - uint newNextTo) (hl_inst h);
                          inst = (if resolved then IncGapsHealed inst else inst)
                      in Some (Inr (), h\<lparr>hl_db := d, hl_inst := count_skipped acc (count_rows acc inst)\<rparr>))))"

text \<open>The RPC side of the sample: the last copy served of each ledger.\<close>

fun rpc_sample ::
  "'l batch_source \<Rightarrow> ('l \<Rightarrow> Info) \<Rightarrow> u32 \<Rightarrow> nat \<Rightarrow> u32 \<Rightarrow> (u32 \<rightharpoonup> 'l) \<Rightarrow> (source_error + (u32 \<rightharpoonup> 'l)) option"
where
  "rpc_sample src infoOf cp 0 seq m = None"
| "rpc_sample src infoOf cp (Suc fuel) seq m =
     (if seq \<le> cp
      then case src seq (unat (cp - seq) + 1) of
             Inl e \<Rightarrow> Some (Inl e)
           | Inr batch \<Rightarrow>
               rpc_sample src infoOf cp fuel (seq + of_nat (length batch))
                 (foldl (\<lambda>m l. m(in_Sequence (infoOf l) \<mapsto> l)) m batch)
      else Some (Inr m))"

definition equiv_emit ::
  "('c, 'd, 'x) archive \<Rightarrow> (u32 \<rightharpoonup> ('c, 'd, 'x) lcm) \<Rightarrow> ('c, 'd, 'x) lcm \<Rightarrow> unit \<Rightarrow> emit_error + unit"
where
  "equiv_emit env rpcByLedger meta _ =
     (let seq = in_Sequence (he_info env meta);
          norm = normalizeForEquivalence (canonicalizeChanges (he_typeOf env) (he_marshalUnit env))
      in case rpcByLedger seq of
           None \<Rightarrow> Inl (NeverServed seq)
         | Some rpcLcm \<Rightarrow>
             (case he_marshal env (norm rpcLcm) of
                None \<Rightarrow> Inl (NotMarshalled seq)
              | Some want \<Rightarrow>
                  (case he_marshal env (norm meta) of
                     None \<Rightarrow> Inl (NotMarshalled seq)
                   | Some got \<Rightarrow> if got \<noteq> want then Inl (Differs seq) else Inr ())))"

definition sampleCheckpoint :: "u32 \<Rightarrow> u32" where
  "sampleCheckpoint cursor =
     (cursor - healCheckpointFrequency + 1) div healCheckpointFrequency * healCheckpointFrequency - 1"

definition verifyEquivalence ::
  "string \<Rightarrow> ('c, 'd, 'x) archive \<Rightarrow> nat \<Rightarrow> db \<Rightarrow> (gate_error + unit) option"
where
  "verifyEquivalence network env fuel d =
     (case LoadCursor network d of
        Inl e \<Rightarrow> Some (Inl (NoCursor e))
      | Inr cur \<Rightarrow>
          if cu_Sequence cur < 3 * healCheckpointFrequency then Some (Inl (CursorTooLow (cu_Sequence cur)))
          else let cp = sampleCheckpoint (cu_Sequence cur);
                   from = cp - equivalenceSample + 1
               in case rpc_sample (he_rpc env) (he_info env) cp fuel from Map.empty of
                    None \<Rightarrow> None
                  | Some (Inl e) \<Rightarrow> Some (Inl (RpcSide e))
                  | Some (Inr rpcByLedger) \<Rightarrow>
                      (case ReplayRange (he_core env) (he_info env) fuel from cp (equiv_emit env rpcByLedger) () of
                         None \<Rightarrow> None
                       | Some (Inl e) \<Rightarrow> Some (Inl (NotEquivalent e))
                       | Some (Inr _) \<Rightarrow> Some (Inr ())))"

datatype gate = GateWait | GateOpen | GateDisabled

text \<open>What \<open>Run\<close> reports before the gate has been proven.\<close>

definition begin_healing :: "Healer \<Rightarrow> Healer" where
  "begin_healing h = h\<lparr>hl_obs := SetArchiveState ArchiveStateUnverified (hl_obs h)\<rparr>"

text \<open>One turn of \<open>awaitVerified\<close>, with the listing answered.\<close>

definition gate_turn ::
  "string \<Rightarrow> ('c, 'd, 'x) archive \<Rightarrow> nat \<Rightarrow> Healer \<Rightarrow> (gate \<times> Healer) option"
where
  "gate_turn network env fuel h =
     (if ListOpenGaps network (hl_db h) = [] then Some (GateWait, h)
      else case verifyEquivalence network env fuel (hl_db h) of
             None \<Rightarrow> None
           | Some (Inl e) \<Rightarrow>
               Some (GateDisabled, h\<lparr>hl_inst := IncEquivalenceFailures (hl_inst h),
                                    hl_obs := SetArchiveState ArchiveStateFailed (hl_obs h)\<rparr>)
           | Some (Inr _) \<Rightarrow>
               Some (GateOpen, h\<lparr>hl_verified := True, hl_obs := SetArchiveState ArchiveStateVerified (hl_obs h)\<rparr>))"

section \<open>The worker pool\<close>

datatype worker = Idle | Listed "Gap list" | Healing Gap

record pool =
  po_healer :: Healer
  po_worker :: "nat \<Rightarrow> worker"

inductive pool_step :: "string \<Rightarrow> ('c, 'd, 'x) archive \<Rightarrow> nat \<Rightarrow> pool \<Rightarrow> pool \<Rightarrow> bool"
  for network env fuel
where
  lists: "po_worker p w = Idle \<Longrightarrow> int w < hl_workers (po_healer p) \<Longrightarrow>
    pool_step network env fuel p (p\<lparr>po_worker := (po_worker p)(w := Listed (ListOpenGaps network (hl_db (po_healer p))))\<rparr>)"
| claims: "po_worker p w = Listed gaps \<Longrightarrow> claim gaps (po_healer p) = (Some g, h) \<Longrightarrow>
    pool_step network env fuel p \<lparr>po_healer = h, po_worker = (po_worker p)(w := Healing g)\<rparr>"
| waits: "po_worker p w = Listed gaps \<Longrightarrow> claim gaps (po_healer p) = (None, h) \<Longrightarrow>
    pool_step network env fuel p \<lparr>po_healer = h, po_worker = (po_worker p)(w := Idle)\<rparr>"
| heals: "po_worker p w = Healing g \<Longrightarrow> healChunk network env fuel snap now g (po_healer p) = Some (r, h) \<Longrightarrow>
    pool_step network env fuel p \<lparr>po_healer = release (g_ID g) h, po_worker = (po_worker p)(w := Idle)\<rparr>"
| outside: "pool_step network env fuel p (p\<lparr>po_healer := (po_healer p)\<lparr>hl_db := d\<rparr>\<rparr>)"

inductive pool_run :: "string \<Rightarrow> ('c, 'd, 'x) archive \<Rightarrow> nat \<Rightarrow> pool \<Rightarrow> pool \<Rightarrow> bool" for network env fuel
where
  stay: "pool_run network env fuel p p"
| step: "pool_run network env fuel p q \<Longrightarrow> pool_step network env fuel q r \<Longrightarrow> pool_run network env fuel p r"

inductive_cases pool_stepE: "pool_step network env fuel p q"

definition start_pool :: "Healer \<Rightarrow> pool" where
  "start_pool h = \<lparr>po_healer = h, po_worker = (\<lambda>_. Idle)\<rparr>"

section \<open>Lemmas\<close>

lemma heal_emit_each:
  assumes "each (heal_emit infoOf ex) ls st = Inr st'"
  shows "linked (fst st) (map infoOf ls) \<and> (\<exists>rs. map ex ls = map Inr rs \<and> snd st' = foldl add_result (snd st) rs)"
  using assms
proof (induction ls arbitrary: st)
  case (Cons l ls)
  then obtain st1 where st1: "heal_emit infoOf ex l st = Inr st1" "each (heal_emit infoOf ex) ls st1 = Inr st'"
    by (auto simp: andThen_Inr)
  then obtain r where r: "ex l = Inr r" "st1 = (in_Hash (infoOf l), add_result (snd st) r)"
    "fst st = '''' \<or> in_PreviousHash (infoOf l) = fst st"
    by (auto simp: heal_emit_def Let_def split: if_splits sum.splits)
  obtain rs where "map ex ls = map Inr rs" "snd st' = foldl add_result (snd st1) rs" "linked (fst st1) (map infoOf ls)"
    using Cons.IH [OF st1(2)] by blast
  then show ?case using r by (auto intro!: exI [of _ "r # rs"])
qed simp

lemma u32_nonzero: "(a::u32) \<noteq> 0 \<Longrightarrow> 0 < uint a"
  using u32_uint_bounds [of a] by (auto simp: order_less_le u32_eq_iff)

lemma healChunkFrom_bounds:
  assumes "g_From gap \<le> g_HealNextTo gap" and "chunk \<noteq> 0"
  shows "g_From gap \<le> healChunkFrom chunk gap" "healChunkFrom chunk gap \<le> g_HealNextTo gap"
    "uint (g_HealNextTo gap) - uint (healChunkFrom chunk gap) < uint chunk"
proof -
  let ?t = "uint (g_HealNextTo gap)" and ?f = "uint (g_From gap)" and ?c = "uint chunk"
  have pos: "0 < ?c" by (rule u32_nonzero [OF assms(2)])
  have span: "uint (g_HealNextTo gap - g_From gap) = ?t - ?f" using assms(1) by (simp add: u32_sub u32_le_iff)
  have "g_From gap \<le> healChunkFrom chunk gap \<and> healChunkFrom chunk gap \<le> g_HealNextTo gap \<and> ?t - uint (healChunkFrom chunk gap) < ?c"
  proof (cases "g_HealNextTo gap - g_From gap \<ge> chunk")
    case True
    then have le: "?c \<le> ?t - ?f" using span by (simp add: u32_le_iff)
    then have "uint (g_HealNextTo gap - chunk) = ?t - ?c" using u32_uint_bounds [of "g_From gap"] by (intro u32_sub) linarith
    then have "uint (healChunkFrom chunk gap) = ?t - ?c + 1"
      using True pos u32_add [of "g_HealNextTo gap - chunk" 1] u32_uint_bounds [of "g_HealNextTo gap"]
      by (simp add: healChunkFrom_def)
    then show ?thesis using le pos by (simp add: u32_le_iff)
  next
    case False
    then have "healChunkFrom chunk gap = g_From gap" by (simp add: healChunkFrom_def Let_def)
    moreover have "?t - ?f < ?c" using False span by (simp add: u32_le_iff)
    ultimately show ?thesis using assms(1) by simp
  qed
  then show "g_From gap \<le> healChunkFrom chunk gap" "healChunkFrom chunk gap \<le> g_HealNextTo gap"
    "?t - uint (healChunkFrom chunk gap) < ?c" by blast+
qed

lemma scanGap_columns:
  assumes "wf_gap r"
  shows "uint (g_From (scanGap r)) = gr_from r" "uint (g_HealNextTo (scanGap r)) = heal_top r"
  using assms by (auto simp: scanGap_def wf_gap_def heal_top_def u32_of_column split: option.splits)

text \<open>The sample: every copy collected was served, under its own sequence, and the collection ends
  because no answer is empty.\<close>

lemma collect_copies:
  assumes "foldl (\<lambda>m l. m(in_Sequence (infoOf l) \<mapsto> l)) m ls s = Some l"
  shows "m s = Some l \<or> (l \<in> set ls \<and> in_Sequence (infoOf l) = s)"
  using assms
proof (induction ls rule: rev_induct)
  case (snoc x ls)
  then show ?case by (cases "s = in_Sequence (infoOf x)") auto
qed simp

definition copies :: "'l batch_source \<Rightarrow> ('l \<Rightarrow> Info) \<Rightarrow> (u32 \<rightharpoonup> 'l) \<Rightarrow> bool" where
  "copies src infoOf m \<longleftrightarrow>
     (\<forall>s l. m s = Some l \<longrightarrow> in_Sequence (infoOf l) = s \<and> (\<exists>f k b. src f k = Inr b \<and> l \<in> set b))"

lemma rpc_sample_copies:
  assumes "rpc_sample src infoOf cp fuel seq m = Some (Inr m')" and "copies src infoOf m"
  shows "copies src infoOf m'"
  using assms
proof (induction fuel arbitrary: seq m)
  case (Suc fuel)
  show ?case
  proof (cases "seq \<le> cp")
    case True
    then obtain b where b: "src seq (unat (cp - seq) + 1) = Inr b"
      "rpc_sample src infoOf cp fuel (seq + of_nat (length b)) (foldl (\<lambda>m l. m(in_Sequence (infoOf l) \<mapsto> l)) m b) = Some (Inr m')"
      using Suc.prems(1) by (auto split: sum.splits)
    have "copies src infoOf (foldl (\<lambda>m l. m(in_Sequence (infoOf l) \<mapsto> l)) m b)"
      unfolding copies_def
    proof (intro allI impI)
      fix s l
      assume "foldl (\<lambda>m l. m(in_Sequence (infoOf l) \<mapsto> l)) m b s = Some l"
      from collect_copies [OF this] show "in_Sequence (infoOf l) = s \<and> (\<exists>f k b. src f k = Inr b \<and> l \<in> set b)"
        using Suc.prems(2) b(1) by (auto simp: copies_def)
    qed
    from Suc.IH [OF b(2) this] show ?thesis .
  next
    case False
    then show ?thesis using Suc.prems by simp
  qed
qed simp

lemma rpc_sample_returns:
  assumes "never_empty src" "at_most_asked src" and "cp < maxU32"
    and "nat (uint cp + 1 - uint seq) < fuel" "uint seq \<le> uint cp + 1"
  shows "rpc_sample src infoOf cp fuel seq m \<noteq> None"
  using assms(4,5)
proof (induction fuel arbitrary: seq m)
  case (Suc fuel)
  show ?case
  proof (cases "seq \<le> cp")
    case True
    show ?thesis
    proof (cases "src seq (unat (cp - seq) + 1)")
      case (Inr b)
      have "int (unat (cp - seq)) = uint cp - uint seq" using True by (simp add: u32_sub u32_le_iff)
      moreover have "length b \<le> unat (cp - seq) + 1" "1 \<le> length b"
        using assms(1,2) Inr by (auto simp: at_most_asked_def never_empty_def Suc_le_eq)
      ultimately have len: "int (length b) \<le> uint cp - uint seq + 1" "1 \<le> int (length b)"
        by linarith+
      have "uint (of_nat (length b) :: u32) = int (length b)"
      proof -
        have "uint cp < 4294967295" using assms(3) by (simp add: u32_less_iff)
        then have "length b < 4294967296" using len u32_uint_bounds [of seq] by linarith
        then show ?thesis by (simp add: unsigned_of_nat take_bit_nat_eq_self_iff)
      qed
      then have "uint (seq + of_nat (length b)) = uint seq + int (length b)"
        using u32_add [of seq "of_nat (length b)"] len assms(3) by (simp add: u32_less_iff)
      then have "nat (uint cp + 1 - uint (seq + of_nat (length b))) < fuel" "uint (seq + of_nat (length b)) \<le> uint cp + 1"
        using len Suc.prems True by (auto simp: u32_le_iff)
      from Suc.IH [OF this] show ?thesis using Inr True by simp
    qed (use True in simp)
  qed simp
qed simp

lemma equiv_emit_each:
  assumes "each (equiv_emit env m) ls u = Inr u'" and "l \<in> set ls"
  shows "\<exists>rl bytes. m (in_Sequence (he_info env l)) = Some rl
    \<and> he_marshal env (normalizeForEquivalence (canonicalizeChanges (he_typeOf env) (he_marshalUnit env)) rl) = Some bytes
    \<and> he_marshal env (normalizeForEquivalence (canonicalizeChanges (he_typeOf env) (he_marshalUnit env)) l) = Some bytes"
  using assms
proof (induction ls arbitrary: u)
  case (Cons x ls)
  then obtain v where v: "equiv_emit env m x u = Inr v" "each (equiv_emit env m) ls v = Inr u'"
    by (auto simp: andThen_Inr)
  show ?case
  proof (cases "l = x")
    case True
    then show ?thesis using v(1) by (auto simp: equiv_emit_def Let_def split: option.splits if_splits)
  next
    case False
    then show ?thesis using Cons.IH [OF v(2)] Cons.prems(2) by simp
  qed
qed simp

text \<open>At sequence \<open>s\<close> the replay and a copy the RPC served are the same ledger up to normalisation.\<close>

definition agrees_at :: "('c, 'd, 'x) archive \<Rightarrow> (u32 \<Rightarrow> string + ('c, 'd, 'x) lcm) \<Rightarrow> u32 \<Rightarrow> bool" where
  "agrees_at env get s \<longleftrightarrow>
     (\<exists>l rl f k b bytes. get s = Inr l \<and> in_Sequence (he_info env l) = s
        \<and> he_rpc env f k = Inr b \<and> rl \<in> set b \<and> in_Sequence (he_info env rl) = s
        \<and> he_marshal env (normalizeForEquivalence (canonicalizeChanges (he_typeOf env) (he_marshalUnit env)) rl) = Some bytes
        \<and> he_marshal env (normalizeForEquivalence (canonicalizeChanges (he_typeOf env) (he_marshalUnit env)) l) = Some bytes)"

lemma agrees_at_sample:
  assumes "each (equiv_emit env m) ls u = Inr u'" and "copies (he_rpc env) (he_info env) m"
    and "\<forall>l\<in>set ls. get (in_Sequence (he_info env l)) = Inr l"
    and "map (\<lambda>l. uint (in_Sequence (he_info env l))) ls = [uint lo..uint hi]" and "lo \<le> s" "s \<le> hi"
  shows "agrees_at env get s"
proof -
  have "uint s \<in> set (map (\<lambda>l. uint (in_Sequence (he_info env l))) ls)"
    unfolding assms(4) using assms(5,6) by (simp add: u32_le_iff)
  then obtain l where l: "l \<in> set ls" "in_Sequence (he_info env l) = s" by (auto simp flip: u32_eq_iff)
  from equiv_emit_each [OF assms(1) l(1)] obtain rl bytes where rl: "m s = Some rl"
    "he_marshal env (normalizeForEquivalence (canonicalizeChanges (he_typeOf env) (he_marshalUnit env)) rl) = Some bytes"
    "he_marshal env (normalizeForEquivalence (canonicalizeChanges (he_typeOf env) (he_marshalUnit env)) l) = Some bytes"
    unfolding l(2) by blast
  obtain f k b where "he_rpc env f k = Inr b" "rl \<in> set b" "in_Sequence (he_info env rl) = s"
    using assms(2) rl(1) unfolding copies_def by blast
  moreover have "get s = Inr l" using assms(3) l by blast
  ultimately show ?thesis unfolding agrees_at_def using rl l(2) by blast
qed

text \<open>The sample ends at a checkpoint ledger one full cadence behind the cursor.\<close>

lemma checkpoint_mod: "(q * 64 - 1) mod 64 = (63::int)"
proof -
  have "q * 64 - 1 = 63 + (q - 1) * 64" by simp
  then show ?thesis by (simp only: mod_mult_self1) simp
qed

lemma sampleCheckpoint_bounds:
  assumes "192 \<le> uint c"
  shows "uint (sampleCheckpoint c) = (uint c - 63) div 64 * 64 - 1" "uint (sampleCheckpoint c) mod 64 = 63"
    "uint c - 128 < uint (sampleCheckpoint c)" "uint (sampleCheckpoint c) \<le> uint c - 64"
proof -
  have "uint (c - 64) = uint c - 64" using assms u32_sub [of 64 c] by simp
  then have one: "uint (c - 64 + 1) = uint c - 63"
    using u32_add [of "c - 64" 1] u32_uint_bounds [of c] by simp
  have "uint ((c - 64 + 1) div 64 * 64) = (uint c - 63) div 64 * 64"
    using assms u32_uint_bounds [of c] one by (simp add: uint_word_arith_bintrs uint_div_distrib take_bit_eq_mod)
  moreover have "1 \<le> (uint c - 63) div 64 * 64" using assms by simp
  ultimately show val: "uint (sampleCheckpoint c) = (uint c - 63) div 64 * 64 - 1"
    using u32_sub [of 1 "(c - 64 + 1) div 64 * 64"] by (simp add: sampleCheckpoint_def healCheckpointFrequency_def)
  show "uint (sampleCheckpoint c) mod 64 = 63" unfolding val by (rule checkpoint_mod)
  show "uint c - 128 < uint (sampleCheckpoint c)" "uint (sampleCheckpoint c) \<le> uint c - 64"
    unfolding val using div_mult_mod_eq [of "uint c - 63" 64] pos_mod_bound [of 64 "uint c - 63"] pos_mod_sign [of 64 "uint c - 63"]
    by linarith+
qed

text \<open>A heal that succeeds replayed the chunk at the top of what its gap had left, as the core served it,
  and made one commit of what it extracted, whatever has happened to the gap's row since it was read.\<close>

lemma healChunk_commits:
  assumes "healChunk n env fuel snap now (scanGap r) h = Some (Inr (), h')"
    and "wf_gap r" "open_gap n r" "hl_chunk h \<noteq> 0"
  defines "lo \<equiv> healChunkFrom (hl_chunk h) (scanGap r)"
  shows "\<exists>ls get rs. he_core env lo (g_HealNextTo (scanGap r)) = Inr get
    \<and> map (\<lambda>l. uint (in_Sequence (he_info env l))) ls = [uint lo..heal_top r]
    \<and> (\<forall>l\<in>set ls. get (in_Sequence (he_info env l)) = Inr l)
    \<and> linked '''' (map (he_info env) ls) \<and> map (he_events env snap) ls = map Inr rs
    \<and> CommitHealChunk n (scanGap r) (lo - 1) (lo \<le> g_From (scanGap r)) (rows_of (foldl add_result empty_result rs)) now (hl_db h)
        = Inr (hl_db h')
    \<and> uint (lo - 1) = uint lo - 1 \<and> gr_from r \<le> uint lo \<and> uint lo \<le> heal_top r \<and> heal_top r - uint lo < uint (hl_chunk h)"
proof -
  let ?gap = "scanGap r"
  note cols = scanGap_columns [OF assms(2)]
  have le: "g_From ?gap \<le> g_HealNextTo ?gap"
    using assms(2,3) by (simp add: u32_le_iff cols wf_gap_def open_gap_def)
  note cf = healChunkFrom_bounds [OF le assms(4), folded lo_def]
  obtain st where st: "ReplayRange (he_core env) (he_info env) fuel lo (g_HealNextTo ?gap)
      (heal_emit (he_info env) (he_events env snap)) ('''', empty_result) = Some (Inr st)"
    and d: "CommitHealChunk n ?gap (lo - 1) (lo \<le> g_From ?gap) (rows_of (snd st)) now (hl_db h) = Inr (hl_db h')"
    using assms(1) by (auto simp: healChunk_def lo_def Let_def split: option.splits sum.splits)
  have "lo \<noteq> 0" using ReplayRange_Inr [OF st ReplayRange_below [OF st]] by auto
  then have "0 < uint lo" by (rule u32_nonzero)
  then have pred: "uint (lo - 1) = uint lo - 1" by (rule u32_pred_pos)
  obtain ls get where ls: "he_core env lo (g_HealNextTo ?gap) = Inr get"
    "map (\<lambda>l. uint (in_Sequence (he_info env l))) ls = [uint lo..heal_top r]"
    "each (heal_emit (he_info env) (he_events env snap)) ls ('''', empty_result) = Inr st"
    "\<forall>l\<in>set ls. get (in_Sequence (he_info env l)) = Inr l"
    using ReplayRange_Inr [OF st ReplayRange_below [OF st]] cols by auto
  obtain rs where "linked '''' (map (he_info env) ls)" "map (he_events env snap) ls = map Inr rs"
    "snd st = foldl add_result empty_result rs"
    using heal_emit_each [OF ls(3)] by auto
  then show ?thesis using ls d pred cf cols by (intro exI [of _ ls] exI [of _ get] exI [of _ rs]) (simp add: u32_le_iff)
qed

text \<open>Beside the books, a heal's commit writes the extracted rows and nothing else.\<close>

lemma CommitHealChunk_persists:
  assumes "CommitHealChunk n g w resolved rows now d = Inr d'"
  shows "\<exists>e. persist_rows n rows d = Inr e \<and> d' = e\<lparr>t_gaps := t_gaps d', t_backfill := t_backfill d'\<rparr>"
proof -
  have "\<exists>e gs bs. persist_rows n rows d = Inr e \<and> d' = e\<lparr>t_gaps := gs, t_backfill := bs\<rparr>"
    using assms by (auto simp: CommitHealChunk_def andThen_Inr Let_def split: if_splits)
  then show ?thesis by auto
qed

text \<open>What is stored of a sum of extractions is stored of each.\<close>

lemma rows_stored_sum:
  "rows_stored n (rows_of (foldl add_result acc rs)) d \<Longrightarrow> rows_stored n (rows_of acc) d \<and> (\<forall>r\<in>set rs. rows_stored n (rows_of r) d)"
proof (induction rs arbitrary: acc)
  case (Cons r rs)
  from Cons.IH [of "add_result acc r"] Cons.prems
  have "rows_stored n (rows_of (add_result acc r)) d" "\<forall>r\<in>set rs. rows_stored n (rows_of r) d" by auto
  moreover from this(1) have "rows_stored n (rows_of acc) d" "rows_stored n (rows_of r) d"
    by (auto simp: rows_stored_def rows_of_def add_result_def image_Un)
  ultimately show ?case by simp
qed simp

section \<open>Properties\<close>

text \<open>C20: a heal fills what it takes off the books. When \<open>healChunk\<close> succeeds on an open gap, it
  has replayed consecutive hash-linked ledgers, as the core served them, from within the gap up to its
  watermark, at most one chunk of them, and extracted every one. The commit persists exactly the
  concatenation of those extractions, so every extracted row is in its table afterwards, and exactly those
  ledgers are no longer owed; the gap is resolved exactly when they reach its floor. Other promises are
  untouched.\<close>

theorem healChunk_heals:
  assumes "healChunk n env fuel snap now (scanGap r) h = Some (Inr (), h')"
    and "wf_gaps (t_gaps (hl_db h))" "open_disjoint n (t_gaps (hl_db h))"
    and "r \<in> set (t_gaps (hl_db h))" "open_gap n r" "hl_chunk h \<noteq> 0"
  shows "\<exists>ls get rs lo e. he_core env (word_of_int lo) (word_of_int (heal_top r)) = Inr get
    \<and> map (\<lambda>l. uint (in_Sequence (he_info env l))) ls = [lo..heal_top r]
    \<and> (\<forall>l\<in>set ls. get (in_Sequence (he_info env l)) = Inr l)
    \<and> gr_from r \<le> lo \<and> lo \<le> heal_top r \<and> heal_top r - lo < uint (hl_chunk h)
    \<and> linked '''' (map (he_info env) ls) \<and> map (he_events env snap) ls = map Inr rs
    \<and> persist_rows n (rows_of (foldl add_result empty_result rs)) (hl_db h) = Inr e
    \<and> hl_db h' = e\<lparr>t_gaps := t_gaps (hl_db h'), t_backfill := t_backfill (hl_db h')\<rparr>
    \<and> (\<forall>res\<in>set rs. rows_stored n (rows_of res) (hl_db h'))
    \<and> owed n (t_gaps (hl_db h')) = owed n (t_gaps (hl_db h)) - {lo..heal_top r}
    \<and> declared n (t_gaps (hl_db h')) =
        (if lo = gr_from r then declared n (t_gaps (hl_db h)) - declares n r else declared n (t_gaps (hl_db h)))
    \<and> wf_gaps (t_gaps (hl_db h')) \<and> open_disjoint n (t_gaps (hl_db h'))"
proof -
  let ?gap = "scanGap r" and ?cf = "healChunkFrom (hl_chunk h) (scanGap r)"
  have wfr: "wf_gap r" using assms(2,4) by (simp add: wf_gaps_def)
  note cols = scanGap_columns [OF wfr]
  obtain ls get rs where H: "he_core env ?cf (g_HealNextTo ?gap) = Inr get"
    "map (\<lambda>l. uint (in_Sequence (he_info env l))) ls = [uint ?cf..heal_top r]"
    "\<forall>l\<in>set ls. get (in_Sequence (he_info env l)) = Inr l"
    "linked '''' (map (he_info env) ls)" "map (he_events env snap) ls = map Inr rs"
    and d: "CommitHealChunk n ?gap (?cf - 1) (?cf \<le> g_From ?gap) (rows_of (foldl add_result empty_result rs)) now (hl_db h) = Inr (hl_db h')"
    and pred: "uint (?cf - 1) = uint ?cf - 1" and cf: "gr_from r \<le> uint ?cf" "uint ?cf \<le> heal_top r" "heal_top r - uint ?cf < uint (hl_chunk h)"
    using healChunk_commits [OF assms(1) wfr assms(5,6)] by blast
  have words: "word_of_int (uint ?cf) = ?cf" "word_of_int (heal_top r) = g_HealNextTo ?gap"
    using cols(2) by (simp_all flip: cols(2))
  obtain e where e: "persist_rows n (rows_of (foldl add_result empty_result rs)) (hl_db h) = Inr e"
    "hl_db h' = e\<lparr>t_gaps := t_gaps (hl_db h'), t_backfill := t_backfill (hl_db h')\<rparr>"
    using CommitHealChunk_persists [OF d] by blast
  have "rows_stored n (rows_of (foldl add_result empty_result rs)) (hl_db h')"
    using persist_rows_stores(1) [OF e(1)] by (subst e(2)) (simp add: rows_stored_def)
  then have stored: "\<forall>res\<in>set rs. rows_stored n (rows_of res) (hl_db h')" using rows_stored_sum by blast
  have chunk: "heal_chunk_of n r (?cf - 1) (?cf \<le> g_From ?gap) (hl_db h)"
    using assms(4,5) cf cols pred by (auto simp: heal_chunk_of_def u32_le_iff)
  have "?cf \<le> g_From ?gap \<longleftrightarrow> uint ?cf = gr_from r" using cf(1) cols by (auto simp: u32_le_iff)
  with CommitHealChunk_owed [OF assms(2,3) chunk d]
  have books: "owed n (t_gaps (hl_db h')) = owed n (t_gaps (hl_db h)) - {uint ?cf..heal_top r}"
    "declared n (t_gaps (hl_db h')) =
        (if uint ?cf = gr_from r then declared n (t_gaps (hl_db h)) - declares n r else declared n (t_gaps (hl_db h)))"
    "wf_gaps (t_gaps (hl_db h'))" "open_disjoint n (t_gaps (hl_db h'))" using pred by simp_all
  show ?thesis
    by (intro exI [of _ ls] exI [of _ get] exI [of _ rs] exI [of _ "uint ?cf"] exI [of _ e] conjI)
      (use H cf e stored books words in \<open>simp_all only:\<close>)
qed

text \<open>C21: what the equivalence gate establishes. The check always returns, and when it passes, the
  sample is the eight ledgers up to a checkpoint ledger (63 modulo 64) at least one full cadence
  behind the cursor, and for every one of them the core's replay and a copy the RPC served under the
  same sequence marshal, after normalisation, to the same bytes.\<close>

theorem verifyEquivalence_sound:
  assumes "never_empty (he_rpc env)" "at_most_asked (he_rpc env)" and "8 < fuel"
  shows "\<exists>r. verifyEquivalence n env fuel d = Some r
    \<and> (r = Inr () \<longrightarrow> (\<exists>cur cp get. LoadCursor n d = Inr cur
        \<and> uint cp mod 64 = 63 \<and> uint (cu_Sequence cur) - 128 < uint cp \<and> uint cp \<le> uint (cu_Sequence cur) - 64
        \<and> he_core env (cp - 7) cp = Inr get
        \<and> (\<forall>s. cp - 7 \<le> s \<longrightarrow> s \<le> cp \<longrightarrow> agrees_at env get s)))"
proof (cases "LoadCursor n d")
  case (Inr cur)
  let ?c = "cu_Sequence cur" and ?cp = "sampleCheckpoint (cu_Sequence cur)"
  show ?thesis
  proof (cases "?c < 3 * healCheckpointFrequency")
    case False
    then have c: "192 \<le> uint ?c" by (simp add: healCheckpointFrequency_def u32_less_iff)
    note cp = sampleCheckpoint_bounds [OF c]
    have max: "?cp < maxU32" using cp(4) u32_uint_bounds [of ?c] by (simp add: u32_less_iff)
    have from_eq: "?cp - equivalenceSample + 1 = ?cp - 7" by (simp add: equivalenceSample_def)
    have sub: "uint (?cp - 7) = uint ?cp - 7" using u32_sub [of 7 ?cp] cp(3) c by simp
    then have fuel: "nat (uint ?cp + 1 - uint (?cp - 7)) < fuel" "uint (?cp - 7) \<le> uint ?cp + 1" using assms(3) by auto
    obtain r where r: "rpc_sample (he_rpc env) (he_info env) ?cp fuel (?cp - 7) Map.empty = Some r"
      using rpc_sample_returns [OF assms(1,2) max fuel] by blast
    show ?thesis
    proof (cases r)
      case (Inr m)
      obtain q where q: "ReplayRange (he_core env) (he_info env) fuel (?cp - 7) ?cp (equiv_emit env m) () = Some q"
        using ReplayRange_returns [OF max fuel(1)] by (meson not_None_eq)
      have v: "verifyEquivalence n env fuel d = Some (case q of Inl e \<Rightarrow> Inl (NotEquivalent e) | Inr _ \<Rightarrow> Inr ())"
        using \<open>LoadCursor n d = Inr cur\<close> False r Inr q by (cases q) (simp_all add: verifyEquivalence_def Let_def from_eq)
      show ?thesis
      proof (cases q)
        case (Inr u)
        have "copies (he_rpc env) (he_info env) m"
          using rpc_sample_copies [of "he_rpc env" "he_info env" ?cp fuel "?cp - 7" Map.empty m] r \<open>r = Inr m\<close>
          by (simp add: copies_def)
        moreover obtain ls get where ls: "he_core env (?cp - 7) ?cp = Inr get"
          "map (\<lambda>l. uint (in_Sequence (he_info env l))) ls = [uint (?cp - 7)..uint ?cp]"
          "each (equiv_emit env m) ls () = Inr u" "\<forall>l\<in>set ls. get (in_Sequence (he_info env l)) = Inr l"
          using ReplayRange_Inr [OF q [unfolded Inr] max] by blast
        ultimately have "agrees_at env get s" if "?cp - 7 \<le> s" "s \<le> ?cp" for s
          using agrees_at_sample [OF ls(3) _ ls(4,2)] that by blast
        then show ?thesis using v Inr \<open>LoadCursor n d = Inr cur\<close> cp(2-4) ls(1) by auto
      qed (use v in simp)
    qed (use \<open>LoadCursor n d = Inr cur\<close> False r in \<open>simp add: verifyEquivalence_def Let_def from_eq\<close>)
  qed (simp add: verifyEquivalence_def Inr)
qed (simp add: verifyEquivalence_def)

text \<open>The gate does not tell a divergence from a source that did not answer: one failed RPC call
  while sampling disables healing and reports the archive as not equivalent, whatever the core
  would have replayed.\<close>

theorem gate_disabled_by_transient_failure:
  assumes "ListOpenGaps n (hl_db h) \<noteq> []" and "LoadCursor n (hl_db h) = Inr cur" "\<not> cu_Sequence cur < 192"
    and "\<And>s k. he_rpc env s k = Inl (SourceFailure e)"
  shows "\<exists>h'. gate_turn n env (Suc fuel) h = Some (GateDisabled, h') \<and> h_archive (hl_obs h') = Some ''equivalence_failed''"
proof -
  let ?cp = "sampleCheckpoint (cu_Sequence cur)"
  have c: "192 \<le> uint (cu_Sequence cur)" using assms(3) by (simp add: u32_less_iff)
  have from_eq: "?cp - equivalenceSample + 1 = ?cp - 7" by (simp add: equivalenceSample_def)
  have "uint (?cp - 7) = uint ?cp - 7" using u32_sub [of 7 ?cp] sampleCheckpoint_bounds(3) [OF c] c by simp
  then have "?cp - 7 \<le> ?cp" by (simp add: u32_le_iff)
  then have "verifyEquivalence n env (Suc fuel) (hl_db h) = Some (Inl (RpcSide (SourceFailure e)))"
    using assms(2-4) by (simp add: verifyEquivalence_def Let_def from_eq healCheckpointFrequency_def)
  then show ?thesis using assms(1) by (simp add: gate_turn_def SetArchiveState_def ArchiveStateFailed_def)
qed

text \<open>A small archive for the concrete instances: ledgers carry their sequence, the core and the
  source serve all of them, and every ledger extracts to nothing.\<close>

definition demo_ledger :: "u32 \<Rightarrow> (change_type \<times> nat, nat, nat) lcm" where
  "demo_ledger s = LcmOther (unat s)"

definition demo_ledger_info :: "(change_type \<times> nat, nat, nat) lcm \<Rightarrow> Info" where
  "demo_ledger_info m = (case m of LcmOther s \<Rightarrow> demo_info (of_nat s) | _ \<Rightarrow> demo_info 0)"

definition demo_archive :: "(change_type \<times> nat, nat, nat) archive" where
  "demo_archive = \<lparr>he_core = (\<lambda>f t. Inr (\<lambda>s. Inr (demo_ledger s))),
     he_rpc = (\<lambda>s k. if k = 0 then Inl (SourceFailure '''') else Inr [demo_ledger s]),
     he_info = demo_ledger_info, he_events = (\<lambda>_ _. Inr empty_result), he_typeOf = fst, he_marshalUnit = demo_marshal,
     he_marshal = (\<lambda>m. Some (case m of LcmOther s \<Rightarrow> dec s | _ \<Rightarrow> ''''))\<rparr>"

definition demo_healer :: Healer where
  "demo_healer = NewHealer 2 0 NewMetrics demo_health demo_db"

lemma demo_ledger_info_simp [simp]: "demo_ledger_info (demo_ledger s) = demo_info s"
  by (simp add: demo_ledger_info_def demo_ledger_def)

lemma demo_heal:
  "\<exists>h'. healChunk ''testnet'' demo_archive 4 [] 7 (scanGap (demo_gap ''testnet'' 1000 1199)) demo_healer = Some (Inr (), h')"
proof -
  let ?gap = "scanGap (demo_gap ''testnet'' 1000 1199)"
  have rows: "rows_of (add_result (add_result empty_result empty_result) empty_result) = no_rows"
    by (simp add: rows_of_def add_result_def empty_result_def no_rows_def)
  have cols: "g_From ?gap = 1000" "g_HealNextTo ?gap = 1199" "hl_chunk demo_healer = 2" "hl_db demo_healer = demo_db"
    by (simp_all add: scanGap_def demo_gap_def demo_healer_def NewHealer_def)
  have four: "(4::nat) = Suc (Suc (Suc (Suc 0)))" by simp
  have "ReplayRange (he_core demo_archive) (he_info demo_archive) 4 1198 1199
      (heal_emit (he_info demo_archive) (he_events demo_archive [])) ('''', empty_result) =
      Some (Inr (in_Hash (demo_info 1199), add_result (add_result empty_result empty_result) empty_result))"
    unfolding four by (simp add: ReplayRange_def demo_archive_def heal_emit_def demo_info_def)
  moreover have "\<exists>d. CommitHealChunk ''testnet'' ?gap 1197 False no_rows 7 demo_db = Inr d"
    by (simp add: CommitHealChunk_def no_rows_persist sql_count_def heal_hit_def demo_db_def demo_gap_def scanGap_def)
  ultimately show ?thesis using rows cols by (auto simp: healChunk_def healChunkFrom_def Let_def)
qed

theorem healChunk_heals_witness:
  "\<exists>h' lo. healChunk ''testnet'' demo_archive 4 [] 7 (scanGap (demo_gap ''testnet'' 1000 1199)) demo_healer = Some (Inr (), h')
    \<and> owed ''testnet'' (t_gaps (hl_db h')) = owed ''testnet'' (t_gaps demo_db) - {lo..1199} \<and> lo \<le> 1199"
proof -
  let ?r = "demo_gap ''testnet'' 1000 1199"
  obtain h' where h': "healChunk ''testnet'' demo_archive 4 [] 7 (scanGap ?r) demo_healer = Some (Inr (), h')"
    using demo_heal by blast
  have db: "hl_db demo_healer = demo_db" "hl_chunk demo_healer \<noteq> 0" by (simp_all add: demo_healer_def NewHealer_def)
  have r: "?r \<in> set (t_gaps (hl_db demo_healer))" "open_gap ''testnet'' ?r" "heal_top ?r = 1199" by (simp_all add: db demo_db_def demo_gap_def open_gap_def heal_top_def)
  have "wf_gaps (t_gaps (hl_db demo_healer))" "open_disjoint ''testnet'' (t_gaps (hl_db demo_healer))"
    using demo_db_ok(1,2) db by simp_all
  from healChunk_heals [OF h' this r(1,2) db(2)] obtain lo where
    "owed ''testnet'' (t_gaps (hl_db h')) = owed ''testnet'' (t_gaps (hl_db demo_healer)) - {lo..heal_top ?r}" "lo \<le> heal_top ?r"
    by blast
  then show ?thesis using h' db r(3) by auto
qed

text \<open>The pool: a worker's claim is in \<open>inFlight\<close> for exactly as long as it heals.\<close>

definition claims_match :: "pool \<Rightarrow> bool" where
  "claims_match p \<longleftrightarrow>
     distinct (hl_inFlight (po_healer p))
     \<and> set (hl_inFlight (po_healer p)) = {g_ID g |w g. po_worker p w = Healing g}
     \<and> (\<forall>v w g g'. po_worker p v = Healing g \<longrightarrow> po_worker p w = Healing g' \<longrightarrow> g_ID g = g_ID g' \<longrightarrow> v = w)"

lemma claim_effect:
  assumes "claim gaps h = (r, h')"
  shows "case r of None \<Rightarrow> h' = h | Some g \<Rightarrow> g_ID g \<notin> set (hl_inFlight h) \<and> h' = h\<lparr>hl_inFlight := g_ID g # hl_inFlight h\<rparr>"
  using assms by (induction gaps h rule: claim.induct) (auto split: if_splits)

lemma healChunk_inFlight:
  "healChunk n env fuel snap now gap h = Some (r, h') \<Longrightarrow> hl_inFlight h' = hl_inFlight h"
  by (auto simp: healChunk_def Let_def split: option.splits sum.splits)

lemma healing_unchanged:
  "f w = Idle \<or> f w = Listed gs \<Longrightarrow> x = Idle \<or> x = Listed gs' \<Longrightarrow> (f(w := x)) v = Healing g \<longleftrightarrow> f v = Healing g"
  by auto

lemma claims_match_step:
  assumes "pool_step n env fuel p q" and "claims_match p"
  shows "claims_match q"
  using assms(1)
proof (cases rule: pool_step.cases)
  case (lists w)
  then show ?thesis using assms(2) by (simp add: claims_match_def healing_unchanged del: fun_upd_apply)
next
  case (claims w gaps g h)
  from claim_effect [OF claims(3)]
  have "g_ID g \<notin> set (hl_inFlight (po_healer p))" "h = (po_healer p)\<lparr>hl_inFlight := g_ID g # hl_inFlight (po_healer p)\<rparr>" by auto
  moreover have "((po_worker p)(w := Healing g)) v = Healing g' \<longleftrightarrow> v = w \<and> g' = g \<or> po_worker p v = Healing g'" for v g'
    using claims(2) by auto
  ultimately show ?thesis using assms(2) claims(1) by (auto simp: claims_match_def simp del: fun_upd_apply)
next
  case (waits w gaps h)
  then show ?thesis using assms(2) claim_effect [OF waits(3)]
    by (simp add: claims_match_def healing_unchanged del: fun_upd_apply)
next
  case (heals w g snap now r h)
  have "g_ID g' \<noteq> g_ID g \<longleftrightarrow> v \<noteq> w" if "po_worker p v = Healing g'" for v g'
    using that heals(2) assms(2) unfolding claims_match_def by (metis worker.inject(2))
  then have "((po_worker p)(w := Idle)) v = Healing g' \<longleftrightarrow> po_worker p v = Healing g' \<and> g_ID g' \<noteq> g_ID g" for v g' by auto
  then show ?thesis using assms(2) heals(1,2) healChunk_inFlight [OF heals(3)]
    by (auto simp: claims_match_def release_def simp del: fun_upd_apply)
next
  case (outside d)
  then show ?thesis using assms(2) by (simp add: claims_match_def)
qed

lemma claims_match_run: "pool_run n env fuel p q \<Longrightarrow> claims_match p \<Longrightarrow> claims_match q"
  by (induction rule: pool_run.induct) (blast intro: claims_match_step)+

text \<open>C22: the workers stay apart. However the steps of the workers and of the rest of the program
  interleave, two workers never heal the same gap at once, a gap is claimed exactly while a worker
  heals it, and when every worker is idle no claim is left behind.\<close>

theorem workers_apart:
  assumes "pool_run n env fuel (start_pool (NewHealer chunk k inst obs d)) p"
  shows "(\<forall>v w g g'. po_worker p v = Healing g \<longrightarrow> po_worker p w = Healing g' \<longrightarrow> v \<noteq> w \<longrightarrow> g_ID g \<noteq> g_ID g')
    \<and> (\<forall>i. i \<in> set (hl_inFlight (po_healer p)) \<longleftrightarrow> (\<exists>w g. po_worker p w = Healing g \<and> g_ID g = i))
    \<and> ((\<forall>w. po_worker p w = Idle) \<longrightarrow> hl_inFlight (po_healer p) = [])"
proof -
  have "claims_match (start_pool (NewHealer chunk k inst obs d))"
    by (simp add: claims_match_def start_pool_def NewHealer_def)
  with assms have "claims_match p" by (rule claims_match_run)
  then have inv: "set (hl_inFlight (po_healer p)) = {g_ID g |w g. po_worker p w = Healing g}"
    "\<And>v w g g'. po_worker p v = Healing g \<Longrightarrow> po_worker p w = Healing g' \<Longrightarrow> g_ID g = g_ID g' \<Longrightarrow> v = w"
    unfolding claims_match_def by blast+
  moreover have "hl_inFlight (po_healer p) = []" if "\<forall>w. po_worker p w = Idle"
    using inv(1) that by (simp flip: set_empty)
  ultimately show ?thesis by (intro conjI allI impI) auto
qed

theorem workers_apart_witness:
  "\<exists>p g. pool_run ''testnet'' demo_archive 4 (start_pool demo_healer) p \<and> po_worker p 0 = Healing g
    \<and> g_ID g \<in> set (hl_inFlight (po_healer p))"
proof -
  let ?p = "start_pool demo_healer"
  let ?gaps = "ListOpenGaps ''testnet'' demo_db"
  let ?q = "?p\<lparr>po_worker := (po_worker ?p)(0 := Listed ?gaps)\<rparr>"
  have db: "hl_db demo_healer = demo_db" "hl_inFlight demo_healer = []" "hl_workers demo_healer = 1"
    by (simp_all add: demo_healer_def NewHealer_def)
  have "set ?gaps \<noteq> {}" by (simp add: ListOpenGaps_def demo_db_def demo_gap_def open_gap_def)
  then obtain g gs where gs: "?gaps = g # gs" by (cases ?gaps) auto
  let ?h = "demo_healer\<lparr>hl_inFlight := [g_ID g]\<rparr>"
  let ?r = "\<lparr>po_healer = ?h, po_worker = (po_worker ?q)(0 := Healing g)\<rparr>"
  have "pool_step ''testnet'' demo_archive 4 ?p ?q"
    using pool_step.lists [of ?p 0 "''testnet''" demo_archive 4] db by (simp add: start_pool_def)
  moreover have "claim ?gaps (po_healer ?q) = (Some g, ?h)" using db gs by (simp add: start_pool_def)
  then have "pool_step ''testnet'' demo_archive 4 ?q ?r"
    using pool_step.claims [of ?q 0 ?gaps g ?h "''testnet''" demo_archive 4] by (simp add: start_pool_def)
  ultimately have run: "pool_run ''testnet'' demo_archive 4 ?p ?r" by (meson pool_run.intros)
  have "g_ID g \<in> set (hl_inFlight (po_healer ?r))"
    using workers_apart [OF run [unfolded demo_healer_def]] by (auto simp: demo_healer_def)
  then show ?thesis using run by auto
qed

definition demo_cursor_db :: db where
  "demo_cursor_db = demo_db\<lparr>t_cursor := [\<lparr>cr_network = ''testnet'', cr_last_sequence = 200, cr_last_hash = ''h''\<rparr>]\<rparr>"

lemma demo_cursor: "LoadCursor ''testnet'' demo_cursor_db = Inr \<lparr>cu_Sequence = 200, cu_Hash = ''h''\<rparr>"
  by (simp add: LoadCursor_def demo_cursor_db_def)

lemma demo_gate: "verifyEquivalence ''testnet'' demo_archive 9 demo_cursor_db = Some (Inr ())"
proof -
  have nine: "(9::nat) = Suc (Suc (Suc (Suc (Suc (Suc (Suc (Suc (Suc 0))))))))" by simp
  have cp: "sampleCheckpoint 200 = 127" by (simp add: sampleCheckpoint_def healCheckpointFrequency_def)
  let ?m = "Map.empty(120 \<mapsto> demo_ledger 120, 121 \<mapsto> demo_ledger 121, 122 \<mapsto> demo_ledger 122, 123 \<mapsto> demo_ledger 123,
    124 \<mapsto> demo_ledger 124, 125 \<mapsto> demo_ledger 125, 126 \<mapsto> demo_ledger 126, 127 \<mapsto> demo_ledger 127) :: u32 \<rightharpoonup> _"
  have "rpc_sample (he_rpc demo_archive) (he_info demo_archive) 127 9 120 Map.empty = Some (Inr ?m)"
    unfolding nine by (simp add: demo_archive_def demo_info_def)
  moreover have emit: "equiv_emit demo_archive m (demo_ledger s) () = Inr ()" if "m s = Some (demo_ledger s)" for s m
  proof -
    have "normalizeForEquivalence c (demo_ledger s) = demo_ledger s" for c by (simp add: demo_ledger_def normalizeForEquivalence_def)
    then show ?thesis using that by (simp add: equiv_emit_def Let_def demo_archive_def demo_info_def)
  qed
  have core: "he_core demo_archive f t = Inr (\<lambda>s. Inr (demo_ledger s))" "in_Sequence (he_info demo_archive (demo_ledger s)) = s"
    for f t s by (simp_all add: demo_archive_def demo_info_def)
  define emit where "emit = equiv_emit demo_archive ?m"
  have emits: "emit (demo_ledger 120) () = Inr ()" "emit (demo_ledger 121) () = Inr ()" "emit (demo_ledger 122) () = Inr ()"
    "emit (demo_ledger 123) () = Inr ()" "emit (demo_ledger 124) () = Inr ()" "emit (demo_ledger 125) () = Inr ()"
    "emit (demo_ledger 126) () = Inr ()" "emit (demo_ledger 127) () = Inr ()" unfolding emit_def by (rule emit; simp)+
  then have "ReplayRange (he_core demo_archive) (he_info demo_archive) 9 120 127 emit () = Some (Inr ())"
    unfolding nine by (simp add: ReplayRange_def core)
  ultimately show ?thesis using cp unfolding emit_def
    by (simp add: verifyEquivalence_def demo_cursor healCheckpointFrequency_def equivalenceSample_def)
qed

theorem verifyEquivalence_sound_witness:
  "verifyEquivalence ''testnet'' demo_archive 9 demo_cursor_db = Some (Inr ())
    \<and> (\<exists>cp get. uint cp mod 64 = 63 \<and> agrees_at demo_archive get cp)"
proof -
  have "never_empty (he_rpc demo_archive)" "at_most_asked (he_rpc demo_archive)" "8 < (9::nat)"
    by (simp_all add: never_empty_def at_most_asked_def demo_archive_def)
  from verifyEquivalence_sound [OF this, of "''testnet''" demo_cursor_db] obtain cur cp get
    where cp: "LoadCursor ''testnet'' demo_cursor_db = Inr cur" "uint cp mod 64 = 63" "uint (cu_Sequence cur) - 128 < uint cp"
      "\<And>s. cp - 7 \<le> s \<Longrightarrow> s \<le> cp \<Longrightarrow> agrees_at demo_archive get s"
    unfolding demo_gate by blast
  have "cu_Sequence cur = 200" using cp(1) by (auto simp: demo_cursor)
  then have "uint (cp - 7) = uint cp - 7" using cp(3) u32_sub [of 7 cp] by simp
  then have "agrees_at demo_archive get cp" by (intro cp(4)) (simp_all add: u32_le_iff)
  then show ?thesis using demo_gate cp(2) by blast
qed

end
