(* ===== verification/Ingest_Diff.thy ===== *)
theory Ingest_Diff
  imports Prelude
begin

text \<open>
  The diagnosis of \<^verbatim>\<open>internal/ingest/heal.go\<close> when the equivalence gate fails: the first differing byte
  and the first differing component of two ledgers (\<open>diffDetail\<close>, \<open>structuredDiff\<close>). Components are
  compared by their XDR bytes; the marshallers are arguments, and a failed one counts as no bytes. The
  messages are the constructors of \<open>diff\<close>.
\<close>

section \<open>Data\<close>

record 'x diff_op =
  op_Changes :: 'x
  op_Events :: "'x list"
  op_Ext :: 'x

record 'x meta_v4 =
  mv_Events :: "'x list"
  mv_DiagnosticEvents :: "'x list"
  mv_Operations :: "'x diff_op list"
  mv_TxChangesBefore :: 'x
  mv_TxChangesAfter :: 'x
  mv_SorobanMeta :: 'x
  mv_Ext :: 'x

datatype 'x apply_meta = ApplyV4 "'x meta_v4" | ApplyOther 'x

record 'x diff_tx =
  dt_Result :: 'x
  dt_FeeProcessing :: 'x
  dt_PostTxApplyFeeProcessing :: 'x
  dt_TxApplyProcessing :: "'x apply_meta"

record 'x meta_v2 =
  m2_Ext :: 'x
  m2_LedgerHeader :: 'x
  m2_TxSet :: 'x
  m2_TxProcessing :: "'x diff_tx list"
  m2_UpgradesProcessing :: 'x
  m2_ScpInfo :: 'x
  m2_TotalByteSize :: nat
  m2_EvictedKeys :: 'x

record 'x close_meta =
  cm_V :: int
  cm_V2 :: "'x meta_v2 option"

record 'x marshaller =
  ms_part :: "'x \<Rightarrow> string option"
  ms_list :: "'x list \<Rightarrow> string option"
  ms_ops :: "'x diff_op list \<Rightarrow> string option"
  ms_meta :: "'x apply_meta \<Rightarrow> string option"

datatype op_diff = OpChanges nat string string | OpEvents nat nat nat | OpExt nat

datatype apply_diff =
    NoDetail | TxEventsDiffer | DiagnosticEventsDiffer | OperationCount nat nat | OperationMeta "op_diff option"
  | TxChangesDiffer | SorobanMetaDiffers | MetaExtDiffers

datatype diff =
    MetaVersion int int | OnlyV2Decoded int
  | CloseMetaExt | LedgerHeaderDiffers | TxSetDiffers | TxCount nat nat
  | TxResult nat | TxFee nat | TxPostApplyFee nat | TxApply nat apply_diff
  | UpgradesDiffer | ScpInfoDiffers | StateSize nat nat | EvictedKeysDiffer | OutsideDecoded

section \<open>Operations\<close>

definition bytes_of :: "string option \<Rightarrow> string" where
  "bytes_of r = (case r of None \<Rightarrow> '''' | Some b \<Rightarrow> b)"

fun first_difference :: "string \<Rightarrow> string \<Rightarrow> nat" where
  "first_difference (g # got) (w # want) = (if g = w then Suc (first_difference got want) else 0)"
| "first_difference _ _ = 0"

definition differs :: "('a \<Rightarrow> string option) \<Rightarrow> 'a \<Rightarrow> 'a \<Rightarrow> bool" where
  "differs marshal a b \<longleftrightarrow> bytes_of (marshal a) \<noteq> bytes_of (marshal b)"

text \<open>Both loops stop at the first index whose elements differ.\<close>

fun first_pair :: "(nat \<Rightarrow> 'a \<Rightarrow> 'a \<Rightarrow> 'd option) \<Rightarrow> nat \<Rightarrow> 'a list \<Rightarrow> 'a list \<Rightarrow> 'd option" where
  "first_pair f i (a # as) (b # bs) = (case f i a b of Some d \<Rightarrow> Some d | None \<Rightarrow> first_pair f (Suc i) as bs)"
| "first_pair f i _ _ = None"

definition op_difference :: "'x marshaller \<Rightarrow> nat \<Rightarrow> 'x diff_op \<Rightarrow> 'x diff_op \<Rightarrow> op_diff option" where
  "op_difference M op a b =
     (if differs (ms_part M) (op_Changes a) (op_Changes b)
      then Some (OpChanges op (bytes_of (ms_part M (op_Changes a))) (bytes_of (ms_part M (op_Changes b))))
      else if differs (ms_list M) (op_Events a) (op_Events b)
      then Some (OpEvents op (length (op_Events a)) (length (op_Events b)))
      else if differs (ms_part M) (op_Ext a) (op_Ext b) then Some (OpExt op)
      else None)"

definition v4_difference :: "'x marshaller \<Rightarrow> 'x meta_v4 \<Rightarrow> 'x meta_v4 \<Rightarrow> apply_diff" where
  "v4_difference M a b =
     (if differs (ms_list M) (mv_Events a) (mv_Events b) then TxEventsDiffer
      else if differs (ms_list M) (mv_DiagnosticEvents a) (mv_DiagnosticEvents b) then DiagnosticEventsDiffer
      else if differs (ms_ops M) (mv_Operations a) (mv_Operations b)
      then (if length (mv_Operations a) \<noteq> length (mv_Operations b)
            then OperationCount (length (mv_Operations a)) (length (mv_Operations b))
            else OperationMeta (first_pair (op_difference M) 0 (mv_Operations a) (mv_Operations b)))
      else if differs (ms_part M) (mv_TxChangesBefore a) (mv_TxChangesBefore b)
        \<or> differs (ms_part M) (mv_TxChangesAfter a) (mv_TxChangesAfter b) then TxChangesDiffer
      else if differs (ms_part M) (mv_SorobanMeta a) (mv_SorobanMeta b) then SorobanMetaDiffers
      else MetaExtDiffers)"

definition apply_difference :: "'x marshaller \<Rightarrow> 'x apply_meta \<Rightarrow> 'x apply_meta \<Rightarrow> apply_diff" where
  "apply_difference M a b =
     (case (a, b) of (ApplyV4 am, ApplyV4 bm) \<Rightarrow> v4_difference M am bm | _ \<Rightarrow> NoDetail)"

definition tx_difference :: "'x marshaller \<Rightarrow> nat \<Rightarrow> 'x diff_tx \<Rightarrow> 'x diff_tx \<Rightarrow> diff option" where
  "tx_difference M i a b =
     (if differs (ms_part M) (dt_Result a) (dt_Result b) then Some (TxResult i)
      else if differs (ms_part M) (dt_FeeProcessing a) (dt_FeeProcessing b) then Some (TxFee i)
      else if differs (ms_part M) (dt_PostTxApplyFeeProcessing a) (dt_PostTxApplyFeeProcessing b)
      then Some (TxPostApplyFee i)
      else if differs (ms_meta M) (dt_TxApplyProcessing a) (dt_TxApplyProcessing b)
      then Some (TxApply i (apply_difference M (dt_TxApplyProcessing a) (dt_TxApplyProcessing b)))
      else None)"

definition v2_difference :: "'x marshaller \<Rightarrow> 'x meta_v2 \<Rightarrow> 'x meta_v2 \<Rightarrow> diff" where
  "v2_difference M a b =
     (if differs (ms_part M) (m2_Ext a) (m2_Ext b) then CloseMetaExt
      else if differs (ms_part M) (m2_LedgerHeader a) (m2_LedgerHeader b) then LedgerHeaderDiffers
      else if differs (ms_part M) (m2_TxSet a) (m2_TxSet b) then TxSetDiffers
      else if length (m2_TxProcessing a) \<noteq> length (m2_TxProcessing b)
      then TxCount (length (m2_TxProcessing a)) (length (m2_TxProcessing b))
      else (case first_pair (tx_difference M) 0 (m2_TxProcessing a) (m2_TxProcessing b) of
          Some d \<Rightarrow> d
        | None \<Rightarrow>
            if differs (ms_part M) (m2_UpgradesProcessing a) (m2_UpgradesProcessing b) then UpgradesDiffer
            else if differs (ms_part M) (m2_ScpInfo a) (m2_ScpInfo b) then ScpInfoDiffers
            else if m2_TotalByteSize a \<noteq> m2_TotalByteSize b then StateSize (m2_TotalByteSize a) (m2_TotalByteSize b)
            else if differs (ms_part M) (m2_EvictedKeys a) (m2_EvictedKeys b) then EvictedKeysDiffer
            else OutsideDecoded))"

definition structuredDiff :: "'x marshaller \<Rightarrow> 'x close_meta \<Rightarrow> 'x close_meta \<Rightarrow> diff" where
  "structuredDiff M replayed rpc =
     (if cm_V replayed \<noteq> cm_V rpc then MetaVersion (cm_V replayed) (cm_V rpc)
      else if cm_V replayed \<noteq> 2 then OnlyV2Decoded (cm_V replayed)
      else (case (cm_V2 replayed, cm_V2 rpc) of
          (Some a, Some b) \<Rightarrow> v2_difference M a b
        | _ \<Rightarrow> OnlyV2Decoded (cm_V replayed)))"

definition diffDetail ::
  "'x marshaller \<Rightarrow> ('x close_meta \<Rightarrow> string) \<Rightarrow> string \<Rightarrow> string \<Rightarrow> 'x close_meta \<Rightarrow> 'x close_meta \<Rightarrow> nat \<times> diff \<times> string"
where
  "diffDetail M hashOf got want replayed rpc =
     (first_difference got want, structuredDiff M replayed rpc, hashOf replayed)"

section \<open>Lemmas\<close>

lemma ex_index: "(\<exists>i. P i) \<longleftrightarrow> P 0 \<or> (\<exists>i. P (Suc i))"
  by (metis not0_implies_Suc)

lemma first_pair_Some:
  "first_pair f k as bs = Some d \<longleftrightarrow>
     (\<exists>i. i < length as \<and> i < length bs \<and> (\<forall>j<i. f (k + j) (as ! j) (bs ! j) = None) \<and> f (k + i) (as ! i) (bs ! i) = Some d)"
proof (induction f k as bs rule: first_pair.induct)
  case (1 f k a as b bs)
  show ?case
  proof (cases "f k a b")
    case None
    have "(\<exists>i. i < length (a # as) \<and> i < length (b # bs) \<and> (\<forall>j<i. f (k + j) ((a # as) ! j) ((b # bs) ! j) = None)
        \<and> f (k + i) ((a # as) ! i) ((b # bs) ! i) = Some d)
      \<longleftrightarrow> (\<exists>i. i < length as \<and> i < length bs \<and> (\<forall>j<i. f (Suc k + j) (as ! j) (bs ! j) = None)
        \<and> f (Suc k + i) (as ! i) (bs ! i) = Some d)"
      by (subst ex_index) (simp add: None All_less_Suc2)
    then show ?thesis using None 1 by simp
  next
    case (Some d')
    show ?thesis
    proof
      assume "first_pair f k (a # as) (b # bs) = Some d"
      then show "\<exists>i. i < length (a # as) \<and> i < length (b # bs) \<and> (\<forall>j<i. f (k + j) ((a # as) ! j) ((b # bs) ! j) = None)
        \<and> f (k + i) ((a # as) ! i) ((b # bs) ! i) = Some d"
        using Some by (intro exI [of _ 0]) simp
    next
      assume "\<exists>i. i < length (a # as) \<and> i < length (b # bs) \<and> (\<forall>j<i. f (k + j) ((a # as) ! j) ((b # bs) ! j) = None)
        \<and> f (k + i) ((a # as) ! i) ((b # bs) ! i) = Some d"
      then obtain i where i: "\<forall>j<i. f (k + j) ((a # as) ! j) ((b # bs) ! j) = None"
        "f (k + i) ((a # as) ! i) ((b # bs) ! i) = Some d" by blast
      then have "i = 0" using Some by (cases i) auto
      then show "first_pair f k (a # as) (b # bs) = Some d" using i(2) by simp
    qed
  qed
qed simp_all

lemma first_pair_None:
  "length as = length bs \<Longrightarrow> first_pair f k as bs = None \<longleftrightarrow> (\<forall>i<length as. f (k + i) (as ! i) (bs ! i) = None)"
proof (induction as arbitrary: bs k)
  case (Cons a as)
  then show ?case by (cases bs) (auto simp: All_less_Suc2 split: option.splits)
qed simp

definition ops_agree :: "'x marshaller \<Rightarrow> 'x diff_op \<Rightarrow> 'x diff_op \<Rightarrow> bool" where
  "ops_agree M a b \<longleftrightarrow> \<not> differs (ms_part M) (op_Changes a) (op_Changes b)
     \<and> \<not> differs (ms_list M) (op_Events a) (op_Events b) \<and> \<not> differs (ms_part M) (op_Ext a) (op_Ext b)"

definition txs_agree :: "'x marshaller \<Rightarrow> 'x diff_tx \<Rightarrow> 'x diff_tx \<Rightarrow> bool" where
  "txs_agree M a b \<longleftrightarrow> \<not> differs (ms_part M) (dt_Result a) (dt_Result b)
     \<and> \<not> differs (ms_part M) (dt_FeeProcessing a) (dt_FeeProcessing b)
     \<and> \<not> differs (ms_part M) (dt_PostTxApplyFeeProcessing a) (dt_PostTxApplyFeeProcessing b)
     \<and> \<not> differs (ms_meta M) (dt_TxApplyProcessing a) (dt_TxApplyProcessing b)"

definition metas_agree :: "'x marshaller \<Rightarrow> 'x meta_v2 \<Rightarrow> 'x meta_v2 \<Rightarrow> bool" where
  "metas_agree M a b \<longleftrightarrow> \<not> differs (ms_part M) (m2_Ext a) (m2_Ext b)
     \<and> \<not> differs (ms_part M) (m2_LedgerHeader a) (m2_LedgerHeader b) \<and> \<not> differs (ms_part M) (m2_TxSet a) (m2_TxSet b)
     \<and> list_all2 (txs_agree M) (m2_TxProcessing a) (m2_TxProcessing b)
     \<and> \<not> differs (ms_part M) (m2_UpgradesProcessing a) (m2_UpgradesProcessing b)
     \<and> \<not> differs (ms_part M) (m2_ScpInfo a) (m2_ScpInfo b) \<and> m2_TotalByteSize a = m2_TotalByteSize b
     \<and> \<not> differs (ms_part M) (m2_EvictedKeys a) (m2_EvictedKeys b)"

text \<open>Elements before an index agree, and the index is in both lists.\<close>

definition agree_before :: "('a \<Rightarrow> 'a \<Rightarrow> bool) \<Rightarrow> 'a list \<Rightarrow> 'a list \<Rightarrow> nat \<Rightarrow> bool" where
  "agree_before same as bs i \<longleftrightarrow> i < length as \<and> i < length bs \<and> (\<forall>j<i. same (as ! j) (bs ! j))"

fun op_truth :: "'x marshaller \<Rightarrow> 'x diff_op list \<Rightarrow> 'x diff_op list \<Rightarrow> op_diff \<Rightarrow> bool" where
  "op_truth M as bs (OpChanges i x y) \<longleftrightarrow> agree_before (ops_agree M) as bs i \<and> x \<noteq> y
     \<and> x = bytes_of (ms_part M (op_Changes (as ! i))) \<and> y = bytes_of (ms_part M (op_Changes (bs ! i)))"
| "op_truth M as bs (OpEvents i m n) \<longleftrightarrow> agree_before (ops_agree M) as bs i
     \<and> differs (ms_list M) (op_Events (as ! i)) (op_Events (bs ! i))
     \<and> m = length (op_Events (as ! i)) \<and> n = length (op_Events (bs ! i))"
| "op_truth M as bs (OpExt i) \<longleftrightarrow> agree_before (ops_agree M) as bs i
     \<and> differs (ms_part M) (op_Ext (as ! i)) (op_Ext (bs ! i))"

lemma op_difference_None: "op_difference M i a b = None \<longleftrightarrow> ops_agree M a b"
  by (simp add: op_difference_def ops_agree_def)

lemma first_pair_op_truth:
  assumes "first_pair (op_difference M) 0 as bs = Some d"
  shows "op_truth M as bs d"
proof -
  from assms obtain i where i: "i < length as" "i < length bs" "\<forall>j<i. ops_agree M (as ! j) (bs ! j)"
    "op_difference M i (as ! i) (bs ! i) = Some d"
    by (auto simp: first_pair_Some op_difference_None)
  then have "agree_before (ops_agree M) as bs i" by (simp add: agree_before_def)
  with i(4) show ?thesis by (auto simp: op_difference_def differs_def split: if_splits)
qed

fun v4_truth :: "'x marshaller \<Rightarrow> 'x meta_v4 \<Rightarrow> 'x meta_v4 \<Rightarrow> apply_diff \<Rightarrow> bool" where
  "v4_truth M a b NoDetail \<longleftrightarrow> False"
| "v4_truth M a b TxEventsDiffer \<longleftrightarrow> differs (ms_list M) (mv_Events a) (mv_Events b)"
| "v4_truth M a b DiagnosticEventsDiffer \<longleftrightarrow> differs (ms_list M) (mv_DiagnosticEvents a) (mv_DiagnosticEvents b)"
| "v4_truth M a b (OperationCount m n) \<longleftrightarrow> m \<noteq> n \<and> m = length (mv_Operations a) \<and> n = length (mv_Operations b)"
| "v4_truth M a b (OperationMeta d) \<longleftrightarrow> differs (ms_ops M) (mv_Operations a) (mv_Operations b)
     \<and> (case d of None \<Rightarrow> list_all2 (ops_agree M) (mv_Operations a) (mv_Operations b)
        | Some d \<Rightarrow> op_truth M (mv_Operations a) (mv_Operations b) d)"
| "v4_truth M a b TxChangesDiffer \<longleftrightarrow> differs (ms_part M) (mv_TxChangesBefore a) (mv_TxChangesBefore b)
     \<or> differs (ms_part M) (mv_TxChangesAfter a) (mv_TxChangesAfter b)"
| "v4_truth M a b SorobanMetaDiffers \<longleftrightarrow> differs (ms_part M) (mv_SorobanMeta a) (mv_SorobanMeta b)"
| "v4_truth M a b MetaExtDiffers \<longleftrightarrow>
     \<not> differs (ms_list M) (mv_Events a) (mv_Events b) \<and> \<not> differs (ms_list M) (mv_DiagnosticEvents a) (mv_DiagnosticEvents b)
     \<and> \<not> differs (ms_ops M) (mv_Operations a) (mv_Operations b)
     \<and> \<not> differs (ms_part M) (mv_TxChangesBefore a) (mv_TxChangesBefore b)
     \<and> \<not> differs (ms_part M) (mv_TxChangesAfter a) (mv_TxChangesAfter b)
     \<and> \<not> differs (ms_part M) (mv_SorobanMeta a) (mv_SorobanMeta b)"

lemma v4_difference_truth: "v4_truth M a b (v4_difference M a b)"
proof -
  have "v4_truth M a b (OperationMeta (first_pair (op_difference M) 0 (mv_Operations a) (mv_Operations b)))"
    if "differs (ms_ops M) (mv_Operations a) (mv_Operations b)" "length (mv_Operations a) = length (mv_Operations b)"
    using that first_pair_op_truth [of M "mv_Operations a" "mv_Operations b"]
      first_pair_None [OF that(2), of "op_difference M" 0]
    by (auto simp: op_difference_None list_all2_conv_all_nth split: option.splits)
  then show ?thesis by (simp add: v4_difference_def)
qed

definition apply_truth :: "'x marshaller \<Rightarrow> 'x apply_meta \<Rightarrow> 'x apply_meta \<Rightarrow> apply_diff \<Rightarrow> bool" where
  "apply_truth M a b d \<longleftrightarrow>
     (case (a, b) of (ApplyV4 am, ApplyV4 bm) \<Rightarrow> v4_truth M am bm d | _ \<Rightarrow> d = NoDetail)"

lemma apply_difference_truth: "apply_truth M a b (apply_difference M a b)"
  by (auto simp: apply_truth_def apply_difference_def v4_difference_truth split: apply_meta.splits)

text \<open>The finding of one transaction, and of the whole.\<close>

fun diff_truth :: "'x marshaller \<Rightarrow> 'x meta_v2 \<Rightarrow> 'x meta_v2 \<Rightarrow> diff \<Rightarrow> bool" where
  "diff_truth M a b CloseMetaExt \<longleftrightarrow> differs (ms_part M) (m2_Ext a) (m2_Ext b)"
| "diff_truth M a b LedgerHeaderDiffers \<longleftrightarrow> differs (ms_part M) (m2_LedgerHeader a) (m2_LedgerHeader b)"
| "diff_truth M a b TxSetDiffers \<longleftrightarrow> differs (ms_part M) (m2_TxSet a) (m2_TxSet b)"
| "diff_truth M a b (TxCount m n) \<longleftrightarrow> m \<noteq> n \<and> m = length (m2_TxProcessing a) \<and> n = length (m2_TxProcessing b)"
| "diff_truth M a b (TxResult i) \<longleftrightarrow> agree_before (txs_agree M) (m2_TxProcessing a) (m2_TxProcessing b) i
     \<and> differs (ms_part M) (dt_Result (m2_TxProcessing a ! i)) (dt_Result (m2_TxProcessing b ! i))"
| "diff_truth M a b (TxFee i) \<longleftrightarrow> agree_before (txs_agree M) (m2_TxProcessing a) (m2_TxProcessing b) i
     \<and> differs (ms_part M) (dt_FeeProcessing (m2_TxProcessing a ! i)) (dt_FeeProcessing (m2_TxProcessing b ! i))"
| "diff_truth M a b (TxPostApplyFee i) \<longleftrightarrow> agree_before (txs_agree M) (m2_TxProcessing a) (m2_TxProcessing b) i
     \<and> differs (ms_part M) (dt_PostTxApplyFeeProcessing (m2_TxProcessing a ! i))
         (dt_PostTxApplyFeeProcessing (m2_TxProcessing b ! i))"
| "diff_truth M a b (TxApply i d) \<longleftrightarrow> agree_before (txs_agree M) (m2_TxProcessing a) (m2_TxProcessing b) i
     \<and> differs (ms_meta M) (dt_TxApplyProcessing (m2_TxProcessing a ! i)) (dt_TxApplyProcessing (m2_TxProcessing b ! i))
     \<and> apply_truth M (dt_TxApplyProcessing (m2_TxProcessing a ! i)) (dt_TxApplyProcessing (m2_TxProcessing b ! i)) d"
| "diff_truth M a b UpgradesDiffer \<longleftrightarrow> differs (ms_part M) (m2_UpgradesProcessing a) (m2_UpgradesProcessing b)"
| "diff_truth M a b ScpInfoDiffers \<longleftrightarrow> differs (ms_part M) (m2_ScpInfo a) (m2_ScpInfo b)"
| "diff_truth M a b (StateSize m n) \<longleftrightarrow> m \<noteq> n \<and> m = m2_TotalByteSize a \<and> n = m2_TotalByteSize b"
| "diff_truth M a b EvictedKeysDiffer \<longleftrightarrow> differs (ms_part M) (m2_EvictedKeys a) (m2_EvictedKeys b)"
| "diff_truth M a b OutsideDecoded \<longleftrightarrow> metas_agree M a b"
| "diff_truth M a b _ \<longleftrightarrow> False"

lemma tx_difference_None: "tx_difference M i a b = None \<longleftrightarrow> txs_agree M a b"
  by (simp add: tx_difference_def txs_agree_def)

lemma first_pair_tx_truth:
  assumes "first_pair (tx_difference M) 0 (m2_TxProcessing a) (m2_TxProcessing b) = Some d"
  shows "diff_truth M a b d"
proof -
  from assms obtain i where i: "i < length (m2_TxProcessing a)" "i < length (m2_TxProcessing b)"
    "\<forall>j<i. txs_agree M (m2_TxProcessing a ! j) (m2_TxProcessing b ! j)"
    "tx_difference M i (m2_TxProcessing a ! i) (m2_TxProcessing b ! i) = Some d"
    by (auto simp: first_pair_Some tx_difference_None)
  then have "agree_before (txs_agree M) (m2_TxProcessing a) (m2_TxProcessing b) i" by (simp add: agree_before_def)
  with i(4) show ?thesis by (auto simp: tx_difference_def apply_difference_truth split: if_splits)
qed

lemma v2_difference_truth: "diff_truth M a b (v2_difference M a b)"
proof (cases "length (m2_TxProcessing a) = length (m2_TxProcessing b)")
  case True
  show ?thesis
  proof (cases "first_pair (tx_difference M) 0 (m2_TxProcessing a) (m2_TxProcessing b)")
    case None
    then have "list_all2 (txs_agree M) (m2_TxProcessing a) (m2_TxProcessing b)"
      using True by (simp add: first_pair_None tx_difference_None list_all2_conv_all_nth)
    then show ?thesis using True None by (simp add: v2_difference_def metas_agree_def)
  next
    case (Some d)
    then show ?thesis using True first_pair_tx_truth [OF Some] by (simp add: v2_difference_def)
  qed
qed (simp add: v2_difference_def)

section \<open>Properties\<close>

text \<open>The diagnosis of a failed equivalence check is true. A difference it names between two V2
  metas is there, at the first transaction and operation where the two differ, with the counts and
  bytes it quotes; it says that no decoded component differs exactly when none does.\<close>

theorem diagnosis_is_true:
  "(let d = structuredDiff M \<lparr>cm_V = 2, cm_V2 = Some a\<rparr> \<lparr>cm_V = 2, cm_V2 = Some b\<rparr> in
     diff_truth M a b d \<and> (d = OutsideDecoded \<longleftrightarrow> metas_agree M a b))"
proof -
  have "v2_difference M a b = OutsideDecoded" if "metas_agree M a b"
  proof -
    have "length (m2_TxProcessing a) = length (m2_TxProcessing b)"
      using that by (auto simp: metas_agree_def dest: list_all2_lengthD)
    moreover from this that have "first_pair (tx_difference M) 0 (m2_TxProcessing a) (m2_TxProcessing b) = None"
      by (simp add: first_pair_None tx_difference_None metas_agree_def list_all2_conv_all_nth)
    ultimately show ?thesis using that by (simp add: v2_difference_def metas_agree_def)
  qed
  then show ?thesis
    using v2_difference_truth [of M a b] by (auto simp: structuredDiff_def)
qed

end
