(* ===== verification/Json.thy ===== *)
theory Json
  imports Prelude
begin

text \<open>
  The parts of Go's standard library the API's cursors rest on, as far as they use them:
  \<^verbatim>\<open>base64.RawURLEncoding\<close> (digits \<^verbatim>\<open>A-Za-z0-9-_\<close>, no padding, line breaks skipped, trailing bits
  not checked) and \<^verbatim>\<open>encoding/json\<close>'s text of a value and its parser. Strings are byte lists. Bytes
  above 127 are copied through, so the replacement of invalid UTF-8 and the nesting limit of the
  parser are the two things not modelled. The last section is how \<^verbatim>\<open>json.Unmarshal\<close> fills a struct.
\<close>

section \<open>Base64\<close>

definition code :: "char \<Rightarrow> nat" where
  "code c = of_char c"

definition b64_digit :: "nat \<Rightarrow> char" where
  "b64_digit n =
     char_of (if n < 26 then 65 + n else if n < 52 then 71 + n else if n < 62 then n - 4 else if n = 62 then 45 else (95::nat))"

definition b64_value :: "char \<Rightarrow> nat option" where
  "b64_value c =
     (let n = code c in
      if 65 \<le> n \<and> n \<le> 90 then Some (n - 65) else if 97 \<le> n \<and> n \<le> 122 then Some (n - 71)
      else if 48 \<le> n \<and> n \<le> 57 then Some (n + 4) else if n = 45 then Some 62 else if n = 95 then Some 63 else None)"

fun b64_pack :: "nat list \<Rightarrow> nat list" where
  "b64_pack [] = []"
| "b64_pack [a] = [a div 4, a mod 4 * 16]"
| "b64_pack [a, b] = [a div 4, a mod 4 * 16 + b div 16, b mod 16 * 4]"
| "b64_pack (a # b # c # r) = [a div 4, a mod 4 * 16 + b div 16, b mod 16 * 4 + c div 64, c mod 64] @ b64_pack r"

fun b64_unpack :: "nat list \<Rightarrow> nat list option" where
  "b64_unpack [] = Some []"
| "b64_unpack [x] = None"
| "b64_unpack [x, y] = Some [x * 4 + y div 16]"
| "b64_unpack [x, y, z] = Some [x * 4 + y div 16, y mod 16 * 16 + z div 4]"
| "b64_unpack (x # y # z # w # r) =
     map_option (\<lambda>bs. [x * 4 + y div 16, y mod 16 * 16 + z div 4, z mod 4 * 64 + w] @ bs) (b64_unpack r)"

definition EncodeToString :: "string \<Rightarrow> string" where
  "EncodeToString s = map b64_digit (b64_pack (map code s))"

definition DecodeString :: "string \<Rightarrow> string option" where
  "DecodeString s =
     Option.bind (those (map b64_value (filter (\<lambda>c. code c \<noteq> 10 \<and> code c \<noteq> 13) s)))
       (\<lambda>xs. map_option (map char_of) (b64_unpack xs))"

lemma code_less: "code c < 256"
  by (simp add: code_def)

lemma char_of_code [simp]: "char_of (code c) = c"
  by (simp add: code_def)

lemma code_char_of: "n < 256 \<Longrightarrow> code (char_of n) = n"
  by (simp add: code_def)

lemma code_b64_digit: "n < 64 \<Longrightarrow> code (b64_digit n) =
    (if n < 26 then 65 + n else if n < 52 then 71 + n else if n < 62 then n - 4 else if n = 62 then 45 else 95)"
  by (simp add: b64_digit_def code_char_of)

lemma b64_value_digit [simp]: "n < 64 \<Longrightarrow> b64_value (b64_digit n) = Some n"
  by (auto simp: b64_value_def code_b64_digit Let_def)

lemma b64_digit_no_break: "n < 64 \<Longrightarrow> code (b64_digit n) \<noteq> 10 \<and> code (b64_digit n) \<noteq> 13"
  by (auto simp: code_b64_digit)

lemma six_bits:
  assumes "(b::nat) < 256"
  shows "a mod 4 * 16 + b div 16 < 64" "a mod 16 * 4 + b div 64 < 64" "b div 4 < 64" "a mod 16 * 4 < 64" "a mod 4 * 16 < 64"
proof -
  have "a mod 4 \<le> 3" "a mod 16 \<le> 15" using mod_less_divisor [of 4 a] mod_less_divisor [of 16 a] by linarith+
  moreover have "b div 16 < 16" "b div 64 < 4" "b div 4 < 64" using assms by auto
  ultimately show "a mod 4 * 16 + b div 16 < 64" "a mod 16 * 4 + b div 64 < 64" "b div 4 < 64" "a mod 16 * 4 < 64" "a mod 4 * 16 < 64"
    by linarith+
qed

lemma b64_pack_digits: "\<forall>a\<in>set as. a < 256 \<Longrightarrow> \<forall>x\<in>set (b64_pack as). x < 64"
  by (induction as rule: b64_pack.induct) (auto intro: six_bits)

lemma b64_unpack_pack: "\<forall>a\<in>set as. a < 256 \<Longrightarrow> b64_unpack (b64_pack as) = Some as"
proof (induction as rule: b64_pack.induct)
  case (4 a b c r)
  then have "b div 16 < 16" "c div 64 < 4" by auto
  then show ?case using 4 by (simp add: mult.commute div_mult_mod_eq)
next
  case (3 a b)
  then have "b div 16 < 16" by auto
  then show ?case by (simp add: mult.commute)
qed (simp_all add: mult.commute)

lemma those_map_value: "\<forall>x\<in>set xs. x < 64 \<Longrightarrow> those (map b64_value (map b64_digit xs)) = Some xs"
  by (induction xs) simp_all

theorem DecodeString_EncodeToString [simp]: "DecodeString (EncodeToString s) = Some s"
proof -
  have bytes: "\<forall>a\<in>set (map code s). a < 256" by (simp add: code_less)
  let ?xs = "b64_pack (map code s)"
  have "filter (\<lambda>c. code c \<noteq> 10 \<and> code c \<noteq> 13) (map b64_digit ?xs) = map b64_digit ?xs"
    using b64_pack_digits [OF bytes] b64_digit_no_break by (simp add: filter_id_conv)
  then have "DecodeString (EncodeToString s) = map_option (map char_of) (b64_unpack ?xs)"
    using those_map_value [OF b64_pack_digits [OF bytes]] by (simp add: DecodeString_def EncodeToString_def)
  then show ?thesis using b64_unpack_pack [OF bytes] by (simp add: comp_def map_idI)
qed

section \<open>JSON text\<close>

datatype json =
    JNull
  | JBool bool
  | JNumber string
  | JString string
  | JArray "json list"
  | JObject "(string \<times> json) list"

definition hex_char :: "nat \<Rightarrow> char" where
  "hex_char n = char_of (if n < 10 then 48 + n else 87 + n)"

definition hex_val :: "char \<Rightarrow> nat option" where
  "hex_val c =
     (let n = code c in
      if 48 \<le> n \<and> n \<le> 57 then Some (n - 48) else if 97 \<le> n \<and> n \<le> 102 then Some (n - 87)
      else if 65 \<le> n \<and> n \<le> 70 then Some (n - 55) else None)"

text \<open>The encoder's escapes, HTML-safe by default.\<close>

definition escape :: "char \<Rightarrow> string" where
  "escape c =
     (let n = code c in
      if n = 34 \<or> n = 92 then [CHR 0x5C, c]
      else if n = 8 then [CHR 0x5C, CHR ''b''] else if n = 12 then [CHR 0x5C, CHR ''f''] else if n = 10 then [CHR 0x5C, CHR ''n'']
      else if n = 13 then [CHR 0x5C, CHR ''r''] else if n = 9 then [CHR 0x5C, CHR ''t'']
      else if n < 32 \<or> n = 60 \<or> n = 62 \<or> n = 38 then [CHR 0x5C, CHR ''u'', CHR ''0'', CHR ''0'', hex_char (n div 16), hex_char (n mod 16)]
      else [c])"

definition quote :: "string \<Rightarrow> string" where
  "quote s = CHR 0x22 # concat (map escape s) @ [CHR 0x22]"

fun joined :: "string list \<Rightarrow> string" where
  "joined [] = ''''"
| "joined [s] = s"
| "joined (s # ss) = s @ CHR '','' # joined ss"

fun json_text :: "json \<Rightarrow> string" where
  "json_text JNull = ''null''"
| "json_text (JBool b) = (if b then ''true'' else ''false'')"
| "json_text (JNumber l) = l"
| "json_text (JString s) = quote s"
| "json_text (JArray js) = CHR ''['' # joined (map json_text js) @ [CHR '']'']"
| "json_text (JObject kvs) =
     CHR ''{'' # joined (map (\<lambda>kv. quote (fst kv) @ CHR '':'' # json_text (snd kv)) kvs) @ [CHR ''}'']"

text \<open>The parser. A backslash escape of a surrogate pair is one code point, of a lone surrogate the
  replacement character.\<close>

definition utf8 :: "nat \<Rightarrow> string" where
  "utf8 n = map char_of
     (if n < 128 then [n]
      else if n < 2048 then [192 + n div 64, 128 + n mod 64]
      else if n < 65536 then [224 + n div 4096, 128 + n div 64 mod 64, 128 + n mod 64]
      else [240 + n div 262144, 128 + n div 4096 mod 64, 128 + n div 64 mod 64, 128 + n mod 64])"

definition hex4 :: "string \<Rightarrow> nat option" where
  "hex4 s = (if length s < 4 then None
     else map_option (foldl (\<lambda>a d. 16 * a + d) 0) (those (map hex_val (take 4 s))))"

definition low_surrogate :: "string \<Rightarrow> nat option" where
  "low_surrogate s =
     (if take 2 s = [CHR 0x5C, CHR ''u''] then (case hex4 (drop 2 s) of Some n \<Rightarrow> if 56320 \<le> n \<and> n < 57344 then Some n else None | None \<Rightarrow> None)
      else None)"

definition plain_escape :: "char \<Rightarrow> char option" where
  "plain_escape c =
     (if c \<in> {CHR 0x22, CHR 0x5C, CHR ''/''} then Some c
      else if c = CHR ''b'' then Some (CHR 0x08) else if c = CHR ''f'' then Some (CHR 0x0C)
      else if c = CHR ''n'' then Some (CHR 0x0A) else if c = CHR ''r'' then Some (CHR 0x0D)
      else if c = CHR ''t'' then Some (CHR 0x09) else None)"

abbreviation extend :: "string \<Rightarrow> (string \<times> string) option \<Rightarrow> (string \<times> string) option" where
  "extend s \<equiv> map_option (\<lambda>(t, r). (s @ t, r))"

fun unquote :: "string \<Rightarrow> (string \<times> string) option" where
  "unquote [] = None"
| "unquote (c # r) =
     (if code c = 34 then Some ('''', r)
      else if code c < 32 then None
      else if code c \<noteq> 92 then extend [c] (unquote r)
      else (case r of
              [] \<Rightarrow> None
            | e # r' \<Rightarrow>
                if e \<noteq> CHR ''u'' then (case plain_escape e of None \<Rightarrow> None | Some x \<Rightarrow> extend [x] (unquote r'))
                else (case hex4 r' of
                        None \<Rightarrow> None
                      | Some n \<Rightarrow>
                          if n < 55296 \<or> 57344 \<le> n then extend (utf8 n) (unquote (drop 4 r'))
                          else if n < 56320 then
                            (case low_surrogate (drop 4 r') of
                               Some m \<Rightarrow> extend (utf8 (65536 + (n - 55296) * 1024 + (m - 56320))) (unquote (drop 10 r'))
                             | None \<Rightarrow> extend (utf8 65533) (unquote (drop 4 r')))
                          else extend (utf8 65533) (unquote (drop 4 r')))))"

definition is_digit :: "char \<Rightarrow> bool" where
  "is_digit c \<longleftrightarrow> 48 \<le> code c \<and> code c \<le> 57"

definition digits :: "string \<Rightarrow> bool" where
  "digits s \<longleftrightarrow> s \<noteq> [] \<and> list_all is_digit s"

definition number_char :: "char \<Rightarrow> bool" where
  "number_char c \<longleftrightarrow> is_digit c \<or> c \<in> set ''+-.eE''"

text \<open>An optional minus, an integer part without leading zeros, an optional fraction and exponent.\<close>

definition number_ok :: "string \<Rightarrow> bool" where
  "number_ok l =
     (let l = (if l \<noteq> [] \<and> hd l = CHR ''-'' then tl l else l);
          i = takeWhile is_digit l; r = dropWhile is_digit l;
          (frac_ok, r) = (if r \<noteq> [] \<and> hd r = CHR ''.'' then (digits (takeWhile is_digit (tl r)), dropWhile is_digit (tl r)) else (True, r))
      in digits i \<and> (hd i = CHR ''0'' \<longrightarrow> length i = 1) \<and> frac_ok
         \<and> (r = [] \<or> ((hd r = CHR ''e'' \<or> hd r = CHR ''E'')
              \<and> digits (if tl r \<noteq> [] \<and> (hd (tl r) = CHR ''+'' \<or> hd (tl r) = CHR ''-'') then tl (tl r) else tl r))))"

definition skip :: "string \<Rightarrow> string" where
  "skip = dropWhile (\<lambda>c. code c \<in> {32, 9, 10, 13})"

fun parse_value :: "nat \<Rightarrow> string \<Rightarrow> (json \<times> string) option"
and parse_elements :: "nat \<Rightarrow> string \<Rightarrow> (json list \<times> string) option"
and parse_members :: "nat \<Rightarrow> string \<Rightarrow> ((string \<times> json) list \<times> string) option"
where
  "parse_value 0 s = None"
| "parse_value (Suc n) s =
     (case skip s of
        [] \<Rightarrow> None
      | c # r \<Rightarrow>
          if code c = 34 then map_option (\<lambda>(t, r). (JString t, r)) (unquote r)
          else if c = CHR ''{'' then
            (if skip r \<noteq> [] \<and> hd (skip r) = CHR ''}'' then Some (JObject [], tl (skip r))
             else map_option (\<lambda>(kvs, r). (JObject kvs, r)) (parse_members n r))
          else if c = CHR ''['' then
            (if skip r \<noteq> [] \<and> hd (skip r) = CHR '']'' then Some (JArray [], tl (skip r))
             else map_option (\<lambda>(js, r). (JArray js, r)) (parse_elements n r))
          else if take 4 (c # r) = ''null'' then Some (JNull, drop 4 (c # r))
          else if take 4 (c # r) = ''true'' then Some (JBool True, drop 4 (c # r))
          else if take 5 (c # r) = ''false'' then Some (JBool False, drop 5 (c # r))
          else (let l = takeWhile number_char (c # r) in
                if number_ok l then Some (JNumber l, dropWhile number_char (c # r)) else None))"
| "parse_elements 0 s = None"
| "parse_elements (Suc n) s =
     (case parse_value n s of
        None \<Rightarrow> None
      | Some (j, r) \<Rightarrow>
          (case skip r of
             [] \<Rightarrow> None
           | c # r' \<Rightarrow>
               if c = CHR '']'' then Some ([j], r')
               else if c = CHR '','' then map_option (\<lambda>(js, r). (j # js, r)) (parse_elements n r')
               else None))"
| "parse_members 0 s = None"
| "parse_members (Suc n) s =
     (case skip s of
        [] \<Rightarrow> None
      | q # s' \<Rightarrow>
          if code q \<noteq> 34 then None
          else (case unquote s' of
                  None \<Rightarrow> None
                | Some (k, r) \<Rightarrow>
                    (case skip r of
                       [] \<Rightarrow> None
                     | c # r1 \<Rightarrow>
                         if c \<noteq> CHR '':'' then None
                         else (case parse_value n r1 of
                                 None \<Rightarrow> None
                               | Some (j, r2) \<Rightarrow>
                                   (case skip r2 of
                                      [] \<Rightarrow> None
                                    | d # r3 \<Rightarrow>
                                        if d = CHR ''}'' then Some ([(k, j)], r3)
                                        else if d = CHR '','' then map_option (\<lambda>(kvs, r). ((k, j) # kvs, r)) (parse_members n r3)
                                        else None)))))"

definition json_parse :: "string \<Rightarrow> json option" where
  "json_parse s =
     (case parse_value (2 * length s + 2) s of
        None \<Rightarrow> None
      | Some (j, r) \<Rightarrow> if skip r = [] then Some j else None)"

section \<open>Text round trip\<close>

definition ascii :: "string \<Rightarrow> bool" where
  "ascii = list_all (\<lambda>c. code c < 128)"

lemma code_eq: "n < 256 \<Longrightarrow> code c = n \<longleftrightarrow> c = char_of n"
  by (auto simp: code_def)

lemma code_inject: "code c = code d \<longleftrightarrow> c = d"
  by (metis char_of_code)

lemma code_hex_char: "n < 16 \<Longrightarrow> code (hex_char n) = (if n < 10 then 48 + n else 87 + n)"
  by (simp add: hex_char_def code_char_of)

lemma hex_val_char [simp]: "n < 16 \<Longrightarrow> hex_val (hex_char n) = Some n"
  by (auto simp: hex_val_def Let_def code_hex_char)

lemma hex4_escape: "code c < 128 \<Longrightarrow> hex4 (CHR ''0'' # CHR ''0'' # hex_char (code c div 16) # hex_char (code c mod 16) # t) = Some (code c)"
proof -
  assume "code c < 128"
  then have "code c div 16 < 16" "code c mod 16 < 16" by auto
  moreover have "hex_val (CHR ''0'') = Some 0" by (simp add: hex_val_def code_def)
  ultimately show ?thesis by (simp add: hex4_def)
qed

lemma code_simps [simp]:
  "code (CHR 0x22) = 34" "code (CHR 0x5C) = 92" "code (CHR 0x08) = 8" "code (CHR 0x0C) = 12" "code (CHR 0x0A) = 10"
  "code (CHR 0x0D) = 13" "code (CHR 0x09) = 9" "code (CHR ''['') = 91" "code (CHR '']'') = 93" "code (CHR ''{'') = 123"
  "code (CHR ''}'') = 125" "code (CHR '','') = 44" "code (CHR '':'') = 58" "code (CHR ''n'') = 110" "code (CHR ''t'') = 116"
  "code (CHR ''f'') = 102" "code (CHR ''0'') = 48" "code (CHR ''-'') = 45"
  by (simp_all add: code_def)

lemma code_eqs:
  "code c = 34 \<longleftrightarrow> c = CHR 0x22" "code c = 92 \<longleftrightarrow> c = CHR 0x5C" "code c = 8 \<longleftrightarrow> c = CHR 0x08" "code c = 12 \<longleftrightarrow> c = CHR 0x0C"
  "code c = 10 \<longleftrightarrow> c = CHR 0x0A" "code c = 13 \<longleftrightarrow> c = CHR 0x0D" "code c = 9 \<longleftrightarrow> c = CHR 0x09" "code c = 91 \<longleftrightarrow> c = CHR ''[''"
  "code c = 123 \<longleftrightarrow> c = CHR ''{''" "code c = 110 \<longleftrightarrow> c = CHR ''n''" "code c = 116 \<longleftrightarrow> c = CHR ''t''" "code c = 102 \<longleftrightarrow> c = CHR ''f''"
  by (simp_all flip: code_inject)

lemma unquote_escape:
  assumes "code c < 128"
  shows "unquote (escape c @ t) = extend [c] (unquote t)"
proof -
  consider "c \<in> {CHR 0x22, CHR 0x5C, CHR 0x08, CHR 0x0C, CHR 0x0A, CHR 0x0D, CHR 0x09}"
    | "c \<notin> {CHR 0x22, CHR 0x5C, CHR 0x08, CHR 0x0C, CHR 0x0A, CHR 0x0D, CHR 0x09}"
      "code c < 32 \<or> code c = 60 \<or> code c = 62 \<or> code c = 38"
    | "c \<notin> {CHR 0x22, CHR 0x5C, CHR 0x08, CHR 0x0C, CHR 0x0A, CHR 0x0D, CHR 0x09}"
      "\<not> (code c < 32 \<or> code c = 60 \<or> code c = 62 \<or> code c = 38)" by blast
  then show ?thesis
  proof cases
    case 1
    then show ?thesis by (elim insertE emptyE) (simp_all add: escape_def plain_escape_def)
  next
    case 2
    then have "code c \<notin> {34, 92, 8, 12, 10, 13, 9}" by (auto simp: code_eqs)
    then have "escape c = CHR 0x5C # CHR ''u'' # CHR ''0'' # CHR ''0'' # [hex_char (code c div 16), hex_char (code c mod 16)]"
      using 2 by (auto simp: escape_def Let_def)
    moreover have "utf8 (code c) = [c]" using assms by (simp add: utf8_def)
    ultimately show ?thesis using hex4_escape [OF assms] assms by simp
  next
    case 3
    then have "code c \<notin> {34, 92, 8, 12, 10, 13, 9}" by (auto simp: code_eqs)
    then show ?thesis using 3 by (simp add: escape_def Let_def)
  qed
qed

lemma unquote_quote: "ascii s \<Longrightarrow> unquote (concat (map escape s) @ CHR 0x22 # r) = Some (s, r)"
  by (induction s) (simp_all add: ascii_def unquote_escape del: unquote.simps(2), simp)

lemma json_text_Cons: "ascii s \<Longrightarrow> quote s @ r = CHR 0x22 # (concat (map escape s) @ CHR 0x22 # r)"
  by (simp add: quote_def)

lemma skip_id: "s = [] \<or> code (hd s) \<notin> {32, 9, 10, 13} \<Longrightarrow> skip s = s"
  by (cases s) (auto simp: skip_def)

text \<open>The values whose text parses back: ASCII strings and well-formed numbers.\<close>

fun plain :: "json \<Rightarrow> bool" where
  "plain JNull = True"
| "plain (JBool b) = True"
| "plain (JNumber l) = (number_ok l \<and> list_all number_char l)"
| "plain (JString s) = ascii s"
| "plain (JArray js) = list_all plain js"
| "plain (JObject kvs) = list_all (\<lambda>kv. ascii (fst kv) \<and> plain (snd kv)) kvs"

lemma number_head:
  assumes "number_ok l"
  shows "\<exists>c t. l = c # t \<and> (is_digit c \<or> c = CHR ''-'')"
proof (cases l)
  case Nil
  then show ?thesis using assms by (simp add: number_ok_def digits_def)
next
  case (Cons c t)
  then show ?thesis using assms by (auto simp: number_ok_def digits_def Let_def split: if_splits)
qed

lemma text_head: "plain j \<Longrightarrow> \<exists>c t. json_text j = c # t \<and> code c \<notin> {32, 9, 10, 13, 93, 125}"
proof (cases j)
  case (JNumber l)
  assume "plain j"
  then obtain c t where "l = c # t" "is_digit c \<or> c = CHR ''-''" using number_head [of l] JNumber by auto
  moreover from this have "code c \<notin> {32, 9, 10, 13, 93, 125}" by (auto simp: is_digit_def)
  ultimately show ?thesis using JNumber by simp
qed (auto simp: quote_def)

lemma text_skip: "plain j \<Longrightarrow> skip (json_text j @ r) = json_text j @ r"
  using text_head [of j] by (auto intro!: skip_id)

lemma take_number:
  assumes "list_all number_char l" and "r = [] \<or> \<not> number_char (hd r)"
  shows "takeWhile number_char (l @ r) = l" "dropWhile number_char (l @ r) = r"
  using assms by (cases r; simp add: list_all_iff takeWhile_append2 dropWhile_append2)+

lemma joined_Cons: "joined (s # ss) = s @ (if ss = [] then '''' else CHR '','' # joined ss)"
  by (cases ss) auto

lemma parse_elements_text:
  assumes "\<And>j n r. j \<in> set js \<Longrightarrow> 2 * length (json_text j) \<le> n \<Longrightarrow> r = [] \<or> \<not> number_char (hd r) \<Longrightarrow>
      parse_value (Suc n) (json_text j @ r) = Some (j, r)"
    and "js \<noteq> []" and "2 * length (joined (map json_text js)) + 2 \<le> n"
  shows "parse_elements n (joined (map json_text js) @ CHR '']'' # r) = Some (js, r)"
  using assms
proof (induction js arbitrary: n)
  case (Cons j js)
  obtain m where m: "n = Suc (Suc m)" using Cons.prems(3) by (metis add_2_eq_Suc' le_iff_add add_Suc)
  have sep: "\<not> number_char (CHR '','')" "\<not> number_char (CHR '']'')"
    by (simp_all add: number_char_def is_digit_def)
  show ?case
  proof (cases "js = []")
    case True
    then show ?thesis using Cons.prems(1) [of j m "CHR '']'' # r"] Cons.prems(3) m sep by (simp add: skip_id)
  next
    case False
    then have "parse_elements (Suc m) (joined (map json_text js) @ CHR '']'' # r) = Some (js, r)"
      using Cons.IH [of "Suc m"] Cons.prems(1,3) m by (simp add: joined_Cons)
    then show ?thesis
      using Cons.prems(1) [of j m "CHR '','' # joined (map json_text js) @ CHR '']'' # r"] Cons.prems(3) m sep False
      by (simp add: joined_Cons skip_id)
  qed
qed simp

lemma parse_members_text:
  assumes "\<And>kv n r. kv \<in> set kvs \<Longrightarrow> 2 * length (json_text (snd kv)) \<le> n \<Longrightarrow> r = [] \<or> \<not> number_char (hd r) \<Longrightarrow>
      parse_value (Suc n) (json_text (snd kv) @ r) = Some (snd kv, r)"
    and "\<And>kv. kv \<in> set kvs \<Longrightarrow> ascii (fst kv)"
    and "kvs \<noteq> []" and "2 * length (joined (map (\<lambda>kv. quote (fst kv) @ CHR '':'' # json_text (snd kv)) kvs)) + 2 \<le> n"
  shows "parse_members n (joined (map (\<lambda>kv. quote (fst kv) @ CHR '':'' # json_text (snd kv)) kvs) @ CHR ''}'' # r) = Some (kvs, r)"
  using assms
proof (induction kvs arbitrary: n)
  case (Cons kv kvs)
  let ?members = "joined (map (\<lambda>kv. quote (fst kv) @ CHR '':'' # json_text (snd kv)) kvs)"
  obtain m where m: "n = Suc (Suc m)" using Cons.prems(4) by (metis add_2_eq_Suc' le_iff_add add_Suc)
  have sep: "\<not> number_char (CHR '','')" "\<not> number_char (CHR ''}'')"
    by (simp_all add: number_char_def is_digit_def)
  have key: "unquote (concat (map escape (fst kv)) @ CHR 0x22 # t) = Some (fst kv, t)" for t
    by (rule unquote_quote) (simp add: Cons.prems(2))
  show ?case
  proof (cases "kvs = []")
    case True
    then show ?thesis using Cons.prems(1) [of kv m "CHR ''}'' # r"] Cons.prems(4) m sep key
      by (cases kv) (simp add: quote_def skip_id)
  next
    case False
    then have "parse_members (Suc m) (?members @ CHR ''}'' # r) = Some (kvs, r)"
      using Cons.IH [of "Suc m"] Cons.prems(1,2,4) m by (simp add: joined_Cons)
    then show ?thesis
      using Cons.prems(1) [of kv m "CHR '','' # ?members @ CHR ''}'' # r"] Cons.prems(4) m sep key False
      by (cases kv) (simp add: joined_Cons skip_id quote_def)
  qed
qed simp

lemma parse_value_text:
  "plain j \<Longrightarrow> 2 * length (json_text j) \<le> n \<Longrightarrow> r = [] \<or> \<not> number_char (hd r) \<Longrightarrow>
    parse_value (Suc n) (json_text j @ r) = Some (j, r)"
proof (induction j arbitrary: n r rule: plain.induct)
  case (3 l)
  obtain c t where c: "l = c # t" "is_digit c \<or> c = CHR ''-''" using number_head 3(1) by (metis plain.simps(3))
  then have "code c \<notin> {34, 123, 91, 110, 116, 102}" by (auto simp: is_digit_def)
  moreover have "skip (l @ r) = l @ r" using text_skip [OF 3(1)] by simp
  ultimately show ?case using 3 c(1) take_number [of l r] by (auto simp: code_eqs)
next
  case (4 s)
  then show ?case using json_text_Cons [of s r] unquote_quote [of s r] by (simp add: skip_id)
next
  case (5 js)
  show ?case
  proof (cases "js = []")
    case False
    then obtain c t where "joined (map json_text js) = c # t" "code c \<notin> {32, 9, 10, 13, 93, 125}"
      using text_head [of "hd js"] 5(2) by (cases js) (auto simp: joined_Cons)
    moreover have "parse_elements n (joined (map json_text js) @ CHR '']'' # r) = Some (js, r)"
      using 5 False by (intro parse_elements_text) (simp_all add: list_all_iff)
    ultimately show ?thesis by (auto simp: skip_id)
  qed (simp add: skip_id)
next
  case (6 kvs)
  let ?members = "joined (map (\<lambda>kv. quote (fst kv) @ CHR '':'' # json_text (snd kv)) kvs)"
  show ?case
  proof (cases "kvs = []")
    case False
    then have "\<exists>t. ?members = CHR 0x22 # t" by (cases kvs) (simp_all add: joined_Cons quote_def)
    moreover have "parse_members n (?members @ CHR ''}'' # r) = Some (kvs, r)"
      using 6 False by (intro parse_members_text) (auto simp add: list_all_iff)
    ultimately show ?thesis by (auto simp: skip_id)
  qed (simp add: skip_id)
qed (simp_all add: skip_id)

theorem json_parse_text: "plain j \<Longrightarrow> json_parse (json_text j) = Some j"
  using parse_value_text [of j "2 * length (json_text j) + 1" "[]"] by (simp add: json_parse_def skip_def)

section \<open>Integers in text\<close>

text \<open>\<open>strconv.ParseUint(s, 10, _)\<close> with the largest value of its size, and \<open>strconv.ParseInt(s, 10, 64)\<close>,
  which is also \<open>strconv.Atoi\<close>.\<close>

definition ParseUint :: "nat \<Rightarrow> string \<Rightarrow> nat option" where
  "ParseUint largest s = (if digits s \<and> undec s \<le> largest then Some (undec s) else None)"

definition ParseInt :: "string \<Rightarrow> int option" where
  "ParseInt s =
     (let neg = (s \<noteq> [] \<and> hd s = CHR ''-'');
          ds = (if s \<noteq> [] \<and> (hd s = CHR ''-'' \<or> hd s = CHR ''+'') then tl s else s)
      in if digits ds \<and> int (undec ds) \<le> 9223372036854775807 + (if neg then 1 else 0)
         then Some (if neg then - int (undec ds) else int (undec ds)) else None)"

lemma digit_char_digit: "d < 10 \<Longrightarrow> is_digit (digit_char d)"
  by (simp add: is_digit_def digit_char_def code_char_of)

lemma digits_dec [simp]: "digits (dec n)"
proof (induction n rule: dec.induct)
  case (1 n)
  then show ?case by (subst dec.simps) (auto simp: digits_def digit_char_digit)
qed

lemma digit_char_zero: "0 < d \<Longrightarrow> d < 10 \<Longrightarrow> digit_char d \<noteq> CHR ''0''"
proof
  assume "0 < d" "d < 10" "digit_char d = CHR ''0''"
  then have "digit_val (CHR ''0'') = d" by (metis digit_val_char)
  then show False using \<open>0 < d\<close> by (simp add: digit_val_def)
qed

lemma dec_head: "0 < n \<Longrightarrow> hd (dec n) \<noteq> CHR ''0''"
proof (induction n rule: dec.induct)
  case (1 n)
  then show ?case using digit_char_zero [of n] by (subst dec.simps) (auto simp: hd_append)
qed

lemma ParseUint_dec: "ParseUint largest (dec n) = (if n \<le> largest then Some n else None)"
  by (simp add: ParseUint_def)

lemma digits_no_sign: "digits s \<Longrightarrow> hd s \<noteq> CHR ''-'' \<and> hd s \<noteq> CHR ''+''"
  by (cases s) (auto simp: digits_def is_digit_def code_def)

lemma ParseInt_dec_int: "- 9223372036854775808 \<le> i \<Longrightarrow> i \<le> 9223372036854775807 \<Longrightarrow> ParseInt (dec_int i) = Some i"
  using digits_no_sign [OF digits_dec [of "nat i"]] by (auto simp: ParseInt_def dec_int_def Let_def)

lemma number_ok_digits:
  assumes "digits ds" and "hd ds = CHR ''0'' \<longrightarrow> length ds = 1"
  shows "number_ok ds" "number_ok (CHR ''-'' # ds)"
proof -
  have tw: "takeWhile is_digit ds = ds" and dw: "dropWhile is_digit ds = []"
    using assms(1) by (auto simp: digits_def list_all_iff)
  moreover have "\<forall>x\<in>set ds. is_digit x" using assms(1) by (simp add: digits_def list_all_iff)
  moreover have "hd ds \<noteq> CHR ''-''" using digits_no_sign [OF assms(1)] by simp
  ultimately show "number_ok ds" "number_ok (CHR ''-'' # ds)" using assms by (simp_all add: number_ok_def Let_def tw dw)
qed

lemma dec_number: "hd (dec n) = CHR ''0'' \<longrightarrow> length (dec n) = 1" "list_all number_char (dec n)"
proof -
  have "length (dec 0) = 1" by (subst dec.simps) simp
  then show "hd (dec n) = CHR ''0'' \<longrightarrow> length (dec n) = 1" using dec_head [of n] by (cases "n = 0") auto
  show "list_all number_char (dec n)" using digits_dec [of n] by (auto simp: digits_def list_all_iff number_char_def)
qed

lemma number_ok_dec_int [simp]: "number_ok (dec_int i)" "list_all number_char (dec_int i)"
  using number_ok_digits [OF digits_dec dec_number(1)] dec_number(2) by (auto simp: dec_int_def number_char_def)

section \<open>Filling a struct\<close>

text \<open>\<open>json.Unmarshal\<close>: a field takes a value of its type, \<open>null\<close> leaves it alone, anything else is an
  error. Keys match field names without regard to case, unknown keys are ignored, the last of
  several wins.\<close>

definition as_string :: "json \<Rightarrow> string \<Rightarrow> string option" where
  "as_string j old = (case j of JNull \<Rightarrow> Some old | JString s \<Rightarrow> Some s | _ \<Rightarrow> None)"

definition as_int :: "json \<Rightarrow> int \<Rightarrow> int option" where
  "as_int j old = (case j of JNull \<Rightarrow> Some old | JNumber l \<Rightarrow> (if hd l = CHR ''+'' then None else ParseInt l) | _ \<Rightarrow> None)"

definition as_uint32 :: "json \<Rightarrow> u32 \<Rightarrow> u32 option" where
  "as_uint32 j old =
     (case j of JNull \<Rightarrow> Some old | JNumber l \<Rightarrow> map_option of_nat (ParseUint 4294967295 l) | _ \<Rightarrow> None)"

definition as_pointer :: "json \<Rightarrow> string option option" where
  "as_pointer j = (case j of JNull \<Rightarrow> Some None | JString s \<Rightarrow> Some (Some s) | _ \<Rightarrow> None)"

text \<open>A fixed array of \<open>n\<close> pointers: surplus elements are dropped, missing ones are nil.\<close>

definition as_pointers :: "nat \<Rightarrow> json \<Rightarrow> string option list \<Rightarrow> string option list option" where
  "as_pointers n j old =
     (case j of
        JNull \<Rightarrow> Some old
      | JArray js \<Rightarrow> map_option (\<lambda>ps. ps @ replicate (n - length ps) None) (those (map as_pointer (take n js)))
      | _ \<Rightarrow> None)"

definition Unmarshal :: "(string \<Rightarrow> json \<Rightarrow> 'p \<Rightarrow> 'p option) \<Rightarrow> 'p \<Rightarrow> string \<Rightarrow> 'p option" where
  "Unmarshal set_field zero raw =
     (case json_parse raw of
        None \<Rightarrow> None
      | Some JNull \<Rightarrow> Some zero
      | Some (JObject kvs) \<Rightarrow> foldl (\<lambda>p kv. Option.bind p (set_field (ToLower (fst kv)) (snd kv))) (Some zero) kvs
      | Some _ \<Rightarrow> None)"

text \<open>\<open>omitempty\<close> drops an empty string or a zero.\<close>

definition string_field :: "string \<Rightarrow> string \<Rightarrow> (string \<times> json) list" where
  "string_field k s = [(k, JString s)]"

definition opt_string_field :: "string \<Rightarrow> string \<Rightarrow> (string \<times> json) list" where
  "opt_string_field k s = (if s = '''' then [] else [(k, JString s)])"

definition int_field :: "string \<Rightarrow> int \<Rightarrow> (string \<times> json) list" where
  "int_field k i = [(k, JNumber (dec_int i))]"

definition opt_uint32_field :: "string \<Rightarrow> u32 \<Rightarrow> (string \<times> json) list" where
  "opt_uint32_field k w = (if w = 0 then [] else int_field k (uint w))"

lemma as_uint32_dec: "as_uint32 (JNumber (dec_int (uint w))) old = Some w"
proof -
  have "ParseUint 4294967295 (dec (nat (uint w))) = Some (nat (uint w))"
    using u32_uint_bounds [of w] by (simp add: ParseUint_dec nat_le_iff del: nat_uint_eq)
  then show ?thesis by (simp add: as_uint32_def dec_int_def)
qed

lemma as_int_dec: "- 9223372036854775808 \<le> i \<Longrightarrow> i \<le> 9223372036854775807 \<Longrightarrow> as_int (JNumber (dec_int i)) old = Some i"
  using digits_no_sign [OF digits_dec [of "nat i"]] by (auto simp: as_int_def ParseInt_dec_int) (simp add: dec_int_def split: if_splits)

lemma as_string_string [simp]: "as_string (JString s) old = Some s"
  by (simp add: as_string_def)

text \<open>What reads a plain object back.\<close>

lemma Unmarshal_object:
  assumes "list_all (\<lambda>kv. ascii (fst kv) \<and> plain (snd kv)) kvs"
  shows "Unmarshal set_field zero (json_text (JObject kvs)) =
    foldl (\<lambda>p kv. Option.bind p (set_field (ToLower (fst kv)) (snd kv))) (Some zero) kvs"
  using assms json_parse_text [of "JObject kvs"] by (simp add: Unmarshal_def)

end
