(* ===== verification/Api_Cursor.thy ===== *)
theory Api_Cursor
  imports Json Store_Queries
begin

text \<open>
  The opaque page cursors of \<^verbatim>\<open>internal/api/cursor.go\<close>: base64 of the JSON of a payload that holds
  the whole query, the position to resume at, and the endpoint, network and contract it was minted
  for. One payload record, encoder and decoder per endpoint, as in the code; \<open>set_*\<close> is what
  \<^verbatim>\<open>json.Unmarshal\<close> does with one member of the object, by the field tags.
\<close>

section \<open>Constants and errors\<close>

definition cursorVersion :: int where "cursorVersion = 1"

definition kindEvents :: string where "kindEvents = ''events''"
definition kindSnapshot :: string where "kindSnapshot = ''state''"
definition kindHistory :: string where "kindHistory = ''state_history''"
definition kindTransfers :: string where "kindTransfers = ''transfers''"
definition kindTrustlines :: string where "kindTrustlines = ''trustlines''"
definition kindTrustlineHistory :: string where "kindTrustlineHistory = ''trustlines_history''"
definition kindMovements :: string where "kindMovements = ''movements''"

definition defaultLimit :: int where "defaultLimit = 100"
definition maxLimit :: int where "maxLimit = 1000"

datatype cursor_error =
    NotBase64
  | NotAPayload
  | UnsupportedVersion int
  | DifferentEndpoint
  | DifferentDataset
  | LimitOutOfRange int

definition validateCursorLimit :: "int \<Rightarrow> cursor_error + unit" where
  "validateCursorLimit limit = (if limit < 1 \<or> limit > maxLimit then Inl (LimitOutOfRange limit) else Inr ())"

definition pointer_json :: "string option \<Rightarrow> json" where
  "pointer_json p = (case p of None \<Rightarrow> JNull | Some s \<Rightarrow> JString s)"

section \<open>Payloads and codecs\<close>

record cursorPayload =
  cp_V :: int
  cp_Kind :: string
  cp_Network :: string
  cp_ContractID :: string
  cp_Topics :: "string option list"
  cp_FromLedger :: u32
  cp_ToLedger :: u32
  cp_Limit :: int
  cp_AfterID :: string

definition empty_cursorPayload :: cursorPayload where
  "empty_cursorPayload =
     \<lparr>cp_V = 0, cp_Kind = '''', cp_Network = '''', cp_ContractID = '''', cp_Topics = replicate 4 None, cp_FromLedger = 0, cp_ToLedger = 0, cp_Limit = 0, cp_AfterID = ''''\<rparr>"

definition cursorPayload_json :: "cursorPayload \<Rightarrow> json" where
  "cursorPayload_json p = JObject
     (int_field ''v'' (cp_V p) @ opt_string_field ''k'' (cp_Kind p) @ string_field ''n'' (cp_Network p)
      @ string_field ''c'' (cp_ContractID p) @ [(''t'', JArray (map pointer_json (cp_Topics p)))] @ int_field ''f'' (uint (cp_FromLedger p))
      @ int_field ''e'' (uint (cp_ToLedger p)) @ int_field ''l'' (cp_Limit p) @ string_field ''a'' (cp_AfterID p))"

definition set_cursorPayload :: "string \<Rightarrow> json \<Rightarrow> cursorPayload \<Rightarrow> cursorPayload option" where
  "set_cursorPayload k j p =
     (if k = ''v'' then map_option (\<lambda>x. p\<lparr>cp_V := x\<rparr>) (as_int j (cp_V p))
      else if k = ''k'' then map_option (\<lambda>x. p\<lparr>cp_Kind := x\<rparr>) (as_string j (cp_Kind p))
      else if k = ''n'' then map_option (\<lambda>x. p\<lparr>cp_Network := x\<rparr>) (as_string j (cp_Network p))
      else if k = ''c'' then map_option (\<lambda>x. p\<lparr>cp_ContractID := x\<rparr>) (as_string j (cp_ContractID p))
      else if k = ''t'' then map_option (\<lambda>x. p\<lparr>cp_Topics := x\<rparr>) (as_pointers 4 j (cp_Topics p))
      else if k = ''f'' then map_option (\<lambda>x. p\<lparr>cp_FromLedger := x\<rparr>) (as_uint32 j (cp_FromLedger p))
      else if k = ''e'' then map_option (\<lambda>x. p\<lparr>cp_ToLedger := x\<rparr>) (as_uint32 j (cp_ToLedger p))
      else if k = ''l'' then map_option (\<lambda>x. p\<lparr>cp_Limit := x\<rparr>) (as_int j (cp_Limit p))
      else if k = ''a'' then map_option (\<lambda>x. p\<lparr>cp_AfterID := x\<rparr>) (as_string j (cp_AfterID p))
      else Some p)"

definition encodeCursor :: "string \<Rightarrow> EventQuery \<Rightarrow> string \<Rightarrow> string" where
  "encodeCursor network q afterID =
     EncodeToString (json_text (cursorPayload_json
       \<lparr>cp_V = cursorVersion, cp_Kind = kindEvents, cp_Network = network, cp_ContractID = eq_ContractID q,
        cp_Topics = eq_Topics q, cp_FromLedger = eq_FromLedger q, cp_ToLedger = eq_ToLedger q, cp_Limit = int (eq_Limit q),
        cp_AfterID = afterID\<rparr>))"

definition decodeCursor :: "string \<Rightarrow> string \<Rightarrow> string \<Rightarrow> cursor_error + EventQuery" where
  "decodeCursor network contractID cursor =
     (case DecodeString cursor of
        None \<Rightarrow> Inl NotBase64
      | Some raw \<Rightarrow>
          (case Unmarshal set_cursorPayload empty_cursorPayload raw of
             None \<Rightarrow> Inl NotAPayload
           | Some p \<Rightarrow>
               if cp_V p \<noteq> cursorVersion then Inl (UnsupportedVersion (cp_V p))
               else if cp_Kind p \<noteq> '''' \<and> cp_Kind p \<noteq> kindEvents then Inl DifferentEndpoint
               else if cp_Network p \<noteq> network \<or> cp_ContractID p \<noteq> contractID then Inl DifferentDataset
               else (case validateCursorLimit (cp_Limit p) of
                       Inl e \<Rightarrow> Inl e
                     | Inr _ \<Rightarrow> Inr
                         \<lparr>eq_ContractID = cp_ContractID p, eq_Topics = cp_Topics p, eq_FromLedger = cp_FromLedger p, eq_ToLedger = cp_ToLedger p,
                          eq_AfterID = cp_AfterID p, eq_Limit = nat (cp_Limit p)\<rparr>)))"

record movementsCursorPayload =
  mp_V :: int
  mp_Kind :: string
  mp_Network :: string
  mp_ContractID :: string
  mp_Role :: string
  mp_Token :: string
  mp_Type :: string
  mp_FromLedger :: u32
  mp_ToLedger :: u32
  mp_Limit :: int
  mp_AfterID :: string
  mp_AfterRole :: string

definition empty_movementsCursorPayload :: movementsCursorPayload where
  "empty_movementsCursorPayload =
     \<lparr>mp_V = 0, mp_Kind = '''', mp_Network = '''', mp_ContractID = '''', mp_Role = '''', mp_Token = '''', mp_Type = '''', mp_FromLedger = 0, mp_ToLedger = 0, mp_Limit = 0, mp_AfterID = '''', mp_AfterRole = ''''\<rparr>"

definition movementsCursorPayload_json :: "movementsCursorPayload \<Rightarrow> json" where
  "movementsCursorPayload_json p = JObject
     (int_field ''v'' (mp_V p) @ string_field ''k'' (mp_Kind p) @ string_field ''n'' (mp_Network p)
      @ string_field ''c'' (mp_ContractID p) @ opt_string_field ''r'' (mp_Role p) @ opt_string_field ''tk'' (mp_Token p)
      @ opt_string_field ''tt'' (mp_Type p) @ opt_uint32_field ''f'' (mp_FromLedger p) @ opt_uint32_field ''e'' (mp_ToLedger p)
      @ int_field ''l'' (mp_Limit p) @ opt_string_field ''a'' (mp_AfterID p) @ opt_string_field ''ar'' (mp_AfterRole p))"

definition set_movementsCursorPayload :: "string \<Rightarrow> json \<Rightarrow> movementsCursorPayload \<Rightarrow> movementsCursorPayload option" where
  "set_movementsCursorPayload k j p =
     (if k = ''v'' then map_option (\<lambda>x. p\<lparr>mp_V := x\<rparr>) (as_int j (mp_V p))
      else if k = ''k'' then map_option (\<lambda>x. p\<lparr>mp_Kind := x\<rparr>) (as_string j (mp_Kind p))
      else if k = ''n'' then map_option (\<lambda>x. p\<lparr>mp_Network := x\<rparr>) (as_string j (mp_Network p))
      else if k = ''c'' then map_option (\<lambda>x. p\<lparr>mp_ContractID := x\<rparr>) (as_string j (mp_ContractID p))
      else if k = ''r'' then map_option (\<lambda>x. p\<lparr>mp_Role := x\<rparr>) (as_string j (mp_Role p))
      else if k = ''tk'' then map_option (\<lambda>x. p\<lparr>mp_Token := x\<rparr>) (as_string j (mp_Token p))
      else if k = ''tt'' then map_option (\<lambda>x. p\<lparr>mp_Type := x\<rparr>) (as_string j (mp_Type p))
      else if k = ''f'' then map_option (\<lambda>x. p\<lparr>mp_FromLedger := x\<rparr>) (as_uint32 j (mp_FromLedger p))
      else if k = ''e'' then map_option (\<lambda>x. p\<lparr>mp_ToLedger := x\<rparr>) (as_uint32 j (mp_ToLedger p))
      else if k = ''l'' then map_option (\<lambda>x. p\<lparr>mp_Limit := x\<rparr>) (as_int j (mp_Limit p))
      else if k = ''a'' then map_option (\<lambda>x. p\<lparr>mp_AfterID := x\<rparr>) (as_string j (mp_AfterID p))
      else if k = ''ar'' then map_option (\<lambda>x. p\<lparr>mp_AfterRole := x\<rparr>) (as_string j (mp_AfterRole p))
      else Some p)"

definition encodeMovementsCursor :: "string \<Rightarrow> MovementQuery \<Rightarrow> string" where
  "encodeMovementsCursor network q =
     EncodeToString (json_text (movementsCursorPayload_json
       \<lparr>mp_V = cursorVersion, mp_Kind = kindMovements, mp_Network = network, mp_ContractID = mq_ContractID q,
        mp_Role = mq_Role q, mp_Token = mq_Token q, mp_Type = mq_Type q, mp_FromLedger = mq_FromLedger q,
        mp_ToLedger = mq_ToLedger q, mp_Limit = int (mq_Limit q), mp_AfterID = mq_AfterID q, mp_AfterRole = mq_AfterRole q\<rparr>))"

definition decodeMovementsCursor :: "string \<Rightarrow> string \<Rightarrow> string \<Rightarrow> cursor_error + MovementQuery" where
  "decodeMovementsCursor network contractID cursor =
     (case DecodeString cursor of
        None \<Rightarrow> Inl NotBase64
      | Some raw \<Rightarrow>
          (case Unmarshal set_movementsCursorPayload empty_movementsCursorPayload raw of
             None \<Rightarrow> Inl NotAPayload
           | Some p \<Rightarrow>
               if mp_V p \<noteq> cursorVersion then Inl (UnsupportedVersion (mp_V p))
               else if mp_Kind p \<noteq> kindMovements then Inl DifferentEndpoint
               else if mp_Network p \<noteq> network \<or> mp_ContractID p \<noteq> contractID then Inl DifferentDataset
               else (case validateCursorLimit (mp_Limit p) of
                       Inl e \<Rightarrow> Inl e
                     | Inr _ \<Rightarrow> Inr
                         \<lparr>mq_ContractID = mp_ContractID p, mq_Role = mp_Role p, mq_Token = mp_Token p, mq_Type = mp_Type p,
                          mq_FromLedger = mp_FromLedger p, mq_ToLedger = mp_ToLedger p, mq_AfterID = mp_AfterID p, mq_AfterRole = mp_AfterRole p,
                          mq_Limit = nat (mp_Limit p)\<rparr>)))"

record trustlinesCursorPayload =
  lp_V :: int
  lp_Kind :: string
  lp_Network :: string
  lp_ContractID :: string
  lp_AccountID :: string
  lp_FromLedger :: u32
  lp_ToLedger :: u32
  lp_Limit :: int
  lp_AfterID :: string
  lp_AfterAccount :: string

definition empty_trustlinesCursorPayload :: trustlinesCursorPayload where
  "empty_trustlinesCursorPayload =
     \<lparr>lp_V = 0, lp_Kind = '''', lp_Network = '''', lp_ContractID = '''', lp_AccountID = '''', lp_FromLedger = 0, lp_ToLedger = 0, lp_Limit = 0, lp_AfterID = '''', lp_AfterAccount = ''''\<rparr>"

definition trustlinesCursorPayload_json :: "trustlinesCursorPayload \<Rightarrow> json" where
  "trustlinesCursorPayload_json p = JObject
     (int_field ''v'' (lp_V p) @ string_field ''k'' (lp_Kind p) @ string_field ''n'' (lp_Network p)
      @ string_field ''c'' (lp_ContractID p) @ opt_string_field ''acc'' (lp_AccountID p) @ opt_uint32_field ''f'' (lp_FromLedger p)
      @ opt_uint32_field ''e'' (lp_ToLedger p) @ int_field ''l'' (lp_Limit p) @ opt_string_field ''a'' (lp_AfterID p)
      @ opt_string_field ''aa'' (lp_AfterAccount p))"

definition set_trustlinesCursorPayload :: "string \<Rightarrow> json \<Rightarrow> trustlinesCursorPayload \<Rightarrow> trustlinesCursorPayload option" where
  "set_trustlinesCursorPayload k j p =
     (if k = ''v'' then map_option (\<lambda>x. p\<lparr>lp_V := x\<rparr>) (as_int j (lp_V p))
      else if k = ''k'' then map_option (\<lambda>x. p\<lparr>lp_Kind := x\<rparr>) (as_string j (lp_Kind p))
      else if k = ''n'' then map_option (\<lambda>x. p\<lparr>lp_Network := x\<rparr>) (as_string j (lp_Network p))
      else if k = ''c'' then map_option (\<lambda>x. p\<lparr>lp_ContractID := x\<rparr>) (as_string j (lp_ContractID p))
      else if k = ''acc'' then map_option (\<lambda>x. p\<lparr>lp_AccountID := x\<rparr>) (as_string j (lp_AccountID p))
      else if k = ''f'' then map_option (\<lambda>x. p\<lparr>lp_FromLedger := x\<rparr>) (as_uint32 j (lp_FromLedger p))
      else if k = ''e'' then map_option (\<lambda>x. p\<lparr>lp_ToLedger := x\<rparr>) (as_uint32 j (lp_ToLedger p))
      else if k = ''l'' then map_option (\<lambda>x. p\<lparr>lp_Limit := x\<rparr>) (as_int j (lp_Limit p))
      else if k = ''a'' then map_option (\<lambda>x. p\<lparr>lp_AfterID := x\<rparr>) (as_string j (lp_AfterID p))
      else if k = ''aa'' then map_option (\<lambda>x. p\<lparr>lp_AfterAccount := x\<rparr>) (as_string j (lp_AfterAccount p))
      else Some p)"

definition encodeTrustlinesCursor :: "string \<Rightarrow> string \<Rightarrow> TrustlineQuery \<Rightarrow> string" where
  "encodeTrustlinesCursor network kind q =
     EncodeToString (json_text (trustlinesCursorPayload_json
       \<lparr>lp_V = cursorVersion, lp_Kind = kind, lp_Network = network, lp_ContractID = lq_ContractID q,
        lp_AccountID = lq_AccountID q, lp_FromLedger = lq_FromLedger q, lp_ToLedger = lq_ToLedger q, lp_Limit = int (lq_Limit q),
        lp_AfterID = lq_AfterID q, lp_AfterAccount = lq_AfterAccount q\<rparr>))"

definition decodeTrustlinesCursor :: "string \<Rightarrow> string \<Rightarrow> string \<Rightarrow> string \<Rightarrow> cursor_error + TrustlineQuery" where
  "decodeTrustlinesCursor network contractID kind cursor =
     (case DecodeString cursor of
        None \<Rightarrow> Inl NotBase64
      | Some raw \<Rightarrow>
          (case Unmarshal set_trustlinesCursorPayload empty_trustlinesCursorPayload raw of
             None \<Rightarrow> Inl NotAPayload
           | Some p \<Rightarrow>
               if lp_V p \<noteq> cursorVersion then Inl (UnsupportedVersion (lp_V p))
               else if lp_Kind p \<noteq> kind then Inl DifferentEndpoint
               else if lp_Network p \<noteq> network \<or> lp_ContractID p \<noteq> contractID then Inl DifferentDataset
               else (case validateCursorLimit (lp_Limit p) of
                       Inl e \<Rightarrow> Inl e
                     | Inr _ \<Rightarrow> Inr
                         \<lparr>lq_ContractID = lp_ContractID p, lq_AccountID = lp_AccountID p, lq_FromLedger = lp_FromLedger p, lq_ToLedger = lp_ToLedger p,
                          lq_AfterID = lp_AfterID p, lq_AfterAccount = lp_AfterAccount p, lq_Limit = nat (lp_Limit p)\<rparr>)))"

record transfersCursorPayload =
  xp_V :: int
  xp_Kind :: string
  xp_Network :: string
  xp_ContractID :: string
  xp_Account :: string
  xp_From :: string
  xp_To :: string
  xp_TransferType :: string
  xp_FromLedger :: u32
  xp_ToLedger :: u32
  xp_Limit :: int
  xp_AfterID :: string

definition empty_transfersCursorPayload :: transfersCursorPayload where
  "empty_transfersCursorPayload =
     \<lparr>xp_V = 0, xp_Kind = '''', xp_Network = '''', xp_ContractID = '''', xp_Account = '''', xp_From = '''', xp_To = '''', xp_TransferType = '''', xp_FromLedger = 0, xp_ToLedger = 0, xp_Limit = 0, xp_AfterID = ''''\<rparr>"

definition transfersCursorPayload_json :: "transfersCursorPayload \<Rightarrow> json" where
  "transfersCursorPayload_json p = JObject
     (int_field ''v'' (xp_V p) @ string_field ''k'' (xp_Kind p) @ string_field ''n'' (xp_Network p)
      @ string_field ''c'' (xp_ContractID p) @ opt_string_field ''acc'' (xp_Account p) @ opt_string_field ''from'' (xp_From p)
      @ opt_string_field ''to'' (xp_To p) @ opt_string_field ''tt'' (xp_TransferType p) @ opt_uint32_field ''f'' (xp_FromLedger p)
      @ opt_uint32_field ''e'' (xp_ToLedger p) @ int_field ''l'' (xp_Limit p) @ opt_string_field ''a'' (xp_AfterID p))"

definition set_transfersCursorPayload :: "string \<Rightarrow> json \<Rightarrow> transfersCursorPayload \<Rightarrow> transfersCursorPayload option" where
  "set_transfersCursorPayload k j p =
     (if k = ''v'' then map_option (\<lambda>x. p\<lparr>xp_V := x\<rparr>) (as_int j (xp_V p))
      else if k = ''k'' then map_option (\<lambda>x. p\<lparr>xp_Kind := x\<rparr>) (as_string j (xp_Kind p))
      else if k = ''n'' then map_option (\<lambda>x. p\<lparr>xp_Network := x\<rparr>) (as_string j (xp_Network p))
      else if k = ''c'' then map_option (\<lambda>x. p\<lparr>xp_ContractID := x\<rparr>) (as_string j (xp_ContractID p))
      else if k = ''acc'' then map_option (\<lambda>x. p\<lparr>xp_Account := x\<rparr>) (as_string j (xp_Account p))
      else if k = ''from'' then map_option (\<lambda>x. p\<lparr>xp_From := x\<rparr>) (as_string j (xp_From p))
      else if k = ''to'' then map_option (\<lambda>x. p\<lparr>xp_To := x\<rparr>) (as_string j (xp_To p))
      else if k = ''tt'' then map_option (\<lambda>x. p\<lparr>xp_TransferType := x\<rparr>) (as_string j (xp_TransferType p))
      else if k = ''f'' then map_option (\<lambda>x. p\<lparr>xp_FromLedger := x\<rparr>) (as_uint32 j (xp_FromLedger p))
      else if k = ''e'' then map_option (\<lambda>x. p\<lparr>xp_ToLedger := x\<rparr>) (as_uint32 j (xp_ToLedger p))
      else if k = ''l'' then map_option (\<lambda>x. p\<lparr>xp_Limit := x\<rparr>) (as_int j (xp_Limit p))
      else if k = ''a'' then map_option (\<lambda>x. p\<lparr>xp_AfterID := x\<rparr>) (as_string j (xp_AfterID p))
      else Some p)"

definition encodeTransfersCursor :: "string \<Rightarrow> TransferQuery \<Rightarrow> string" where
  "encodeTransfersCursor network q =
     EncodeToString (json_text (transfersCursorPayload_json
       \<lparr>xp_V = cursorVersion, xp_Kind = kindTransfers, xp_Network = network, xp_ContractID = tq_ContractID q,
        xp_Account = tq_Account q, xp_From = tq_From q, xp_To = tq_To q, xp_TransferType = tq_TransferType q,
        xp_FromLedger = tq_FromLedger q, xp_ToLedger = tq_ToLedger q, xp_Limit = int (tq_Limit q), xp_AfterID = tq_AfterID q\<rparr>))"

definition decodeTransfersCursor :: "string \<Rightarrow> string \<Rightarrow> string \<Rightarrow> cursor_error + TransferQuery" where
  "decodeTransfersCursor network contractID cursor =
     (case DecodeString cursor of
        None \<Rightarrow> Inl NotBase64
      | Some raw \<Rightarrow>
          (case Unmarshal set_transfersCursorPayload empty_transfersCursorPayload raw of
             None \<Rightarrow> Inl NotAPayload
           | Some p \<Rightarrow>
               if xp_V p \<noteq> cursorVersion then Inl (UnsupportedVersion (xp_V p))
               else if xp_Kind p \<noteq> kindTransfers then Inl DifferentEndpoint
               else if xp_Network p \<noteq> network \<or> xp_ContractID p \<noteq> contractID then Inl DifferentDataset
               else (case validateCursorLimit (xp_Limit p) of
                       Inl e \<Rightarrow> Inl e
                     | Inr _ \<Rightarrow> Inr
                         \<lparr>tq_ContractID = xp_ContractID p, tq_Account = xp_Account p, tq_From = xp_From p, tq_To = xp_To p,
                          tq_TransferType = xp_TransferType p, tq_FromLedger = xp_FromLedger p, tq_ToLedger = xp_ToLedger p, tq_AfterID = xp_AfterID p,
                          tq_Limit = nat (xp_Limit p)\<rparr>)))"

record stateCursorPayload =
  sp_V :: int
  sp_Kind :: string
  sp_Network :: string
  sp_ContractID :: string
  sp_KeyXDR :: string
  sp_FromLedger :: u32
  sp_ToLedger :: u32
  sp_Limit :: int
  sp_AfterID :: string
  sp_AfterKey :: string
  sp_AfterDur :: string

definition empty_stateCursorPayload :: stateCursorPayload where
  "empty_stateCursorPayload =
     \<lparr>sp_V = 0, sp_Kind = '''', sp_Network = '''', sp_ContractID = '''', sp_KeyXDR = '''', sp_FromLedger = 0, sp_ToLedger = 0, sp_Limit = 0, sp_AfterID = '''', sp_AfterKey = '''', sp_AfterDur = ''''\<rparr>"

definition stateCursorPayload_json :: "stateCursorPayload \<Rightarrow> json" where
  "stateCursorPayload_json p = JObject
     (int_field ''v'' (sp_V p) @ string_field ''k'' (sp_Kind p) @ string_field ''n'' (sp_Network p)
      @ string_field ''c'' (sp_ContractID p) @ opt_string_field ''key'' (sp_KeyXDR p) @ opt_uint32_field ''f'' (sp_FromLedger p)
      @ opt_uint32_field ''e'' (sp_ToLedger p) @ int_field ''l'' (sp_Limit p) @ opt_string_field ''a'' (sp_AfterID p)
      @ opt_string_field ''ak'' (sp_AfterKey p) @ opt_string_field ''ad'' (sp_AfterDur p))"

definition set_stateCursorPayload :: "string \<Rightarrow> json \<Rightarrow> stateCursorPayload \<Rightarrow> stateCursorPayload option" where
  "set_stateCursorPayload k j p =
     (if k = ''v'' then map_option (\<lambda>x. p\<lparr>sp_V := x\<rparr>) (as_int j (sp_V p))
      else if k = ''k'' then map_option (\<lambda>x. p\<lparr>sp_Kind := x\<rparr>) (as_string j (sp_Kind p))
      else if k = ''n'' then map_option (\<lambda>x. p\<lparr>sp_Network := x\<rparr>) (as_string j (sp_Network p))
      else if k = ''c'' then map_option (\<lambda>x. p\<lparr>sp_ContractID := x\<rparr>) (as_string j (sp_ContractID p))
      else if k = ''key'' then map_option (\<lambda>x. p\<lparr>sp_KeyXDR := x\<rparr>) (as_string j (sp_KeyXDR p))
      else if k = ''f'' then map_option (\<lambda>x. p\<lparr>sp_FromLedger := x\<rparr>) (as_uint32 j (sp_FromLedger p))
      else if k = ''e'' then map_option (\<lambda>x. p\<lparr>sp_ToLedger := x\<rparr>) (as_uint32 j (sp_ToLedger p))
      else if k = ''l'' then map_option (\<lambda>x. p\<lparr>sp_Limit := x\<rparr>) (as_int j (sp_Limit p))
      else if k = ''a'' then map_option (\<lambda>x. p\<lparr>sp_AfterID := x\<rparr>) (as_string j (sp_AfterID p))
      else if k = ''ak'' then map_option (\<lambda>x. p\<lparr>sp_AfterKey := x\<rparr>) (as_string j (sp_AfterKey p))
      else if k = ''ad'' then map_option (\<lambda>x. p\<lparr>sp_AfterDur := x\<rparr>) (as_string j (sp_AfterDur p))
      else Some p)"

definition encodeStateCursor :: "string \<Rightarrow> string \<Rightarrow> StateQuery \<Rightarrow> string" where
  "encodeStateCursor network kind q =
     EncodeToString (json_text (stateCursorPayload_json
       \<lparr>sp_V = cursorVersion, sp_Kind = kind, sp_Network = network, sp_ContractID = sq_ContractID q,
        sp_KeyXDR = sq_KeyXDR q, sp_FromLedger = sq_FromLedger q, sp_ToLedger = sq_ToLedger q, sp_Limit = int (sq_Limit q),
        sp_AfterID = sq_AfterID q, sp_AfterKey = sq_AfterKey q, sp_AfterDur = sq_AfterDurability q\<rparr>))"

definition decodeStateCursor :: "string \<Rightarrow> string \<Rightarrow> string \<Rightarrow> string \<Rightarrow> cursor_error + StateQuery" where
  "decodeStateCursor network contractID kind cursor =
     (case DecodeString cursor of
        None \<Rightarrow> Inl NotBase64
      | Some raw \<Rightarrow>
          (case Unmarshal set_stateCursorPayload empty_stateCursorPayload raw of
             None \<Rightarrow> Inl NotAPayload
           | Some p \<Rightarrow>
               if sp_V p \<noteq> cursorVersion then Inl (UnsupportedVersion (sp_V p))
               else if sp_Kind p \<noteq> kind then Inl DifferentEndpoint
               else if sp_Network p \<noteq> network \<or> sp_ContractID p \<noteq> contractID then Inl DifferentDataset
               else (case validateCursorLimit (sp_Limit p) of
                       Inl e \<Rightarrow> Inl e
                     | Inr _ \<Rightarrow> Inr
                         \<lparr>sq_ContractID = sp_ContractID p, sq_KeyXDR = sp_KeyXDR p, sq_FromLedger = sp_FromLedger p, sq_ToLedger = sp_ToLedger p,
                          sq_AfterID = sp_AfterID p, sq_AfterKey = sp_AfterKey p, sq_AfterDurability = sp_AfterDur p, sq_Limit = nat (sp_Limit p)\<rparr>)))"

section \<open>Lemmas\<close>

abbreviation plain_member :: "string \<times> json \<Rightarrow> bool" where
  "plain_member kv \<equiv> ascii (fst kv) \<and> plain (snd kv)"

abbreviation fill :: "(string \<Rightarrow> json \<Rightarrow> 'p \<Rightarrow> 'p option) \<Rightarrow> 'p option \<Rightarrow> (string \<times> json) list \<Rightarrow> 'p option" where
  "fill set_field \<equiv> foldl (\<lambda>p kv. Option.bind p (set_field (ToLower (fst kv)) (snd kv)))"

lemma plain_fields [simp]:
  "ascii k \<Longrightarrow> ascii s \<Longrightarrow> list_all plain_member (string_field k s)"
  "ascii k \<Longrightarrow> ascii s \<Longrightarrow> list_all plain_member (opt_string_field k s)"
  "ascii k \<Longrightarrow> list_all plain_member (int_field k i)"
  "ascii k \<Longrightarrow> list_all plain_member (opt_uint32_field k w)"
  by (simp_all add: string_field_def opt_string_field_def int_field_def opt_uint32_field_def)

lemma fill_fields [simp]:
  "fill set_field (Some p) (string_field k s) = set_field (ToLower k) (JString s) p"
  "fill set_field (Some p) (opt_string_field k s) = (if s = '''' then Some p else set_field (ToLower k) (JString s) p)"
  "fill set_field (Some p) (int_field k i) = set_field (ToLower k) (JNumber (dec_int i)) p"
  "fill set_field (Some p) (opt_uint32_field k w) = (if w = 0 then Some p else set_field (ToLower k) (JNumber (dec_int (uint w))) p)"
  by (simp_all add: string_field_def opt_string_field_def int_field_def opt_uint32_field_def)

lemma omitted:
  "(s = '''' \<Longrightarrow> a = b) \<Longrightarrow> (if s = '''' then a else b) = b"
  "(w = (0::u32) \<Longrightarrow> a = b) \<Longrightarrow> (if w = 0 then a else b) = b"
  by auto

definition int64 :: "int \<Rightarrow> bool" where
  "int64 i \<longleftrightarrow> - 9223372036854775808 \<le> i \<and> i \<le> 9223372036854775807"

lemma read_int: "int64 i \<Longrightarrow> as_int (JNumber (dec_int i)) old = Some i"
  by (simp add: int64_def as_int_dec)

lemma ascii_simps [simp]: "ascii ''''" "ascii (c # s) \<longleftrightarrow> code c < 128 \<and> ascii s"
  by (simp_all add: ascii_def)

lemma as_pointers_json:
  assumes "length ps = n"
  shows "as_pointers n (JArray (map pointer_json ps)) old = Some ps"
proof -
  have "those (map as_pointer (map pointer_json ps)) = Some ps"
    by (induction ps) (auto simp: as_pointer_def pointer_json_def split: option.splits)
  then show ?thesis using assms by (simp add: as_pointers_def)
qed

lemma ToLower_simps [simp]:
  "ToLower [] = []"
  "ToLower (c # s) = (if 65 \<le> (of_char c :: nat) \<and> (of_char c :: nat) \<le> 90 then char_of ((of_char c :: nat) + 32) else c) # ToLower s"
  by (simp_all add: ToLower_def)

lemmas payload_simps = read_int as_uint32_dec as_pointers_json omitted code_def

text \<open>Each payload's text reads back.\<close>

lemma movementsCursorPayload_read:
  assumes "int64 (mp_V p)" "int64 (mp_Limit p)"
    "list_all ascii [mp_Kind p, mp_Network p, mp_ContractID p, mp_Role p, mp_Token p, mp_Type p, mp_AfterID p, mp_AfterRole p]"
  shows "Unmarshal set_movementsCursorPayload empty_movementsCursorPayload (json_text (movementsCursorPayload_json p)) = Some p"
  using assms unfolding movementsCursorPayload_json_def
  by (cases p) (subst Unmarshal_object,
    simp_all add: payload_simps set_movementsCursorPayload_def empty_movementsCursorPayload_def del: json_text.simps)

lemma plain_topics:
  "list_all (\<lambda>t. case t of None \<Rightarrow> True | Some s \<Rightarrow> ascii s) ps \<Longrightarrow> list_all plain (map pointer_json ps)"
  by (induction ps) (auto simp: pointer_json_def split: option.splits)

lemma cursorPayload_read:
  assumes "int64 (cp_V p)" "int64 (cp_Limit p)" "length (cp_Topics p) = 4" "list_all (\<lambda>t. case t of None \<Rightarrow> True | Some s \<Rightarrow> ascii s) (cp_Topics p)"
    "list_all ascii [cp_Kind p, cp_Network p, cp_ContractID p, cp_AfterID p]"
  shows "Unmarshal set_cursorPayload empty_cursorPayload (json_text (cursorPayload_json p)) = Some p"
  using assms unfolding cursorPayload_json_def
  by (cases p) (subst Unmarshal_object,
    simp_all add: payload_simps plain_topics set_cursorPayload_def empty_cursorPayload_def del: json_text.simps)

lemma trustlinesCursorPayload_read:
  assumes "int64 (lp_V p)" "int64 (lp_Limit p)"
    "list_all ascii [lp_Kind p, lp_Network p, lp_ContractID p, lp_AccountID p, lp_AfterID p, lp_AfterAccount p]"
  shows "Unmarshal set_trustlinesCursorPayload empty_trustlinesCursorPayload (json_text (trustlinesCursorPayload_json p)) = Some p"
  using assms unfolding trustlinesCursorPayload_json_def
  by (cases p) (subst Unmarshal_object,
    simp_all add: payload_simps set_trustlinesCursorPayload_def empty_trustlinesCursorPayload_def del: json_text.simps)

lemma transfersCursorPayload_read:
  assumes "int64 (xp_V p)" "int64 (xp_Limit p)"
    "list_all ascii [xp_Kind p, xp_Network p, xp_ContractID p, xp_Account p, xp_From p, xp_To p, xp_TransferType p, xp_AfterID p]"
  shows "Unmarshal set_transfersCursorPayload empty_transfersCursorPayload (json_text (transfersCursorPayload_json p)) = Some p"
  using assms unfolding transfersCursorPayload_json_def
  by (cases p) (subst Unmarshal_object,
    simp_all add: payload_simps set_transfersCursorPayload_def empty_transfersCursorPayload_def del: json_text.simps)

lemma stateCursorPayload_read:
  assumes "int64 (sp_V p)" "int64 (sp_Limit p)"
    "list_all ascii [sp_Kind p, sp_Network p, sp_ContractID p, sp_KeyXDR p, sp_AfterID p, sp_AfterKey p, sp_AfterDur p]"
  shows "Unmarshal set_stateCursorPayload empty_stateCursorPayload (json_text (stateCursorPayload_json p)) = Some p"
  using assms unfolding stateCursorPayload_json_def
  by (cases p) (subst Unmarshal_object,
    simp_all add: payload_simps set_stateCursorPayload_def empty_stateCursorPayload_def del: json_text.simps)

text \<open>The field \<open>key\<close> of a payload comes from the one member of that name.\<close>

locale tagged_payload =
  fixes set_field :: "string \<Rightarrow> json \<Rightarrow> 'p \<Rightarrow> 'p option" and field :: "'p \<Rightarrow> string" and key :: string
  assumes frame: "set_field k j p = Some p' \<Longrightarrow> k \<noteq> key \<Longrightarrow> field p' = field p"
    and assigns: "set_field key (JString s) p = Some p' \<Longrightarrow> field p' = s"
begin

lemma fill_None [simp]: "fill set_field None kvs = None"
  by (induction kvs) simp_all

lemma fill_frame:
  "fill set_field (Some p) kvs = Some p' \<Longrightarrow> list_all (\<lambda>kv. ToLower (fst kv) \<noteq> key) kvs \<Longrightarrow> field p' = field p"
proof (induction kvs arbitrary: p)
  case (Cons kv kvs)
  then obtain p1 where p1: "set_field (ToLower (fst kv)) (snd kv) p = Some p1"
    by (cases "set_field (ToLower (fst kv)) (snd kv) p") auto
  then have "field p' = field p1" using Cons by simp
  then show ?case using frame [OF p1] Cons.prems(2) by simp
qed simp

lemma Unmarshal_tag:
  assumes "Unmarshal set_field zero (json_text (JObject (before @ (k, JString s) # after))) = Some p"
    and "ToLower k = key" "list_all (\<lambda>kv. ToLower (fst kv) \<noteq> key) after"
    and "list_all plain_member (before @ (k, JString s) # after)"
  shows "field p = s"
proof -
  let ?q = "fill set_field (Some zero) before"
  have run: "fill set_field (Option.bind ?q (set_field key (JString s))) after = Some p"
    using assms(1,2) unfolding Unmarshal_object [OF assms(4), of set_field zero] by simp
  then obtain p1 where p1: "?q = Some p1" by (cases ?q) simp_all
  with run obtain p2 where p2: "set_field key (JString s) p1 = Some p2" by (cases "set_field key (JString s) p1") simp_all
  with run p1 have "fill set_field (Some p2) after = Some p" by simp
  from fill_frame [OF this assms(3)] show ?thesis using assigns [OF p2] by simp
qed

end

interpretation events_kind: tagged_payload set_cursorPayload cp_Kind "''k''"
  by unfold_locales (auto simp: set_cursorPayload_def split: if_splits)

interpretation movements_kind: tagged_payload set_movementsCursorPayload mp_Kind "''k''"
  by unfold_locales (auto simp: set_movementsCursorPayload_def split: if_splits)

interpretation trustlines_kind: tagged_payload set_trustlinesCursorPayload lp_Kind "''k''"
  by unfold_locales (auto simp: set_trustlinesCursorPayload_def split: if_splits)

interpretation transfers_kind: tagged_payload set_transfersCursorPayload xp_Kind "''k''"
  by unfold_locales (auto simp: set_transfersCursorPayload_def split: if_splits)

interpretation state_kind: tagged_payload set_stateCursorPayload sp_Kind "''k''"
  by unfold_locales (auto simp: set_stateCursorPayload_def split: if_splits)

text \<open>What the endpoints mint: a query of a kind, for a network.\<close>

datatype minted =
    EventsPage string EventQuery
  | MovementsPage string MovementQuery
  | TrustlinesPage string string TrustlineQuery
  | TransfersPage string TransferQuery
  | StatePage string string StateQuery

fun cursor_of :: "minted \<Rightarrow> string" where
  "cursor_of (EventsPage n q) = encodeCursor n q (eq_AfterID q)"
| "cursor_of (MovementsPage n q) = encodeMovementsCursor n q"
| "cursor_of (TrustlinesPage n k q) = encodeTrustlinesCursor n k q"
| "cursor_of (TransfersPage n q) = encodeTransfersCursor n q"
| "cursor_of (StatePage n k q) = encodeStateCursor n k q"

text \<open>Kind, network and contract.\<close>

fun minted_for :: "minted \<Rightarrow> string \<times> string \<times> string" where
  "minted_for (EventsPage n q) = (kindEvents, n, eq_ContractID q)"
| "minted_for (MovementsPage n q) = (kindMovements, n, mq_ContractID q)"
| "minted_for (TrustlinesPage n k q) = (k, n, lq_ContractID q)"
| "minted_for (TransfersPage n q) = (kindTransfers, n, tq_ContractID q)"
| "minted_for (StatePage n k q) = (k, n, sq_ContractID q)"

definition limit_ok :: "nat \<Rightarrow> bool" where
  "limit_ok l \<longleftrightarrow> 1 \<le> l \<and> l \<le> 1000"

fun mintable :: "minted \<Rightarrow> bool" where
  "mintable (EventsPage n q) =
     (limit_ok (eq_Limit q) \<and> length (eq_Topics q) = 4 \<and> list_all ascii [n, eq_ContractID q, eq_AfterID q]
      \<and> list_all (\<lambda>t. case t of None \<Rightarrow> True | Some s \<Rightarrow> ascii s) (eq_Topics q))"
| "mintable (MovementsPage n q) =
     (limit_ok (mq_Limit q)
      \<and> list_all ascii [n, mq_ContractID q, mq_Role q, mq_Token q, mq_Type q, mq_AfterID q, mq_AfterRole q])"
| "mintable (TrustlinesPage n k q) =
     (limit_ok (lq_Limit q) \<and> k \<in> {kindTrustlines, kindTrustlineHistory}
      \<and> list_all ascii [n, lq_ContractID q, lq_AccountID q, lq_AfterID q, lq_AfterAccount q])"
| "mintable (TransfersPage n q) =
     (limit_ok (tq_Limit q)
      \<and> list_all ascii [n, tq_ContractID q, tq_Account q, tq_From q, tq_To q, tq_TransferType q, tq_AfterID q])"
| "mintable (StatePage n k q) =
     (limit_ok (sq_Limit q) \<and> k \<in> {kindSnapshot, kindHistory}
      \<and> list_all ascii [n, sq_ContractID q, sq_KeyXDR q, sq_AfterID q, sq_AfterKey q, sq_AfterDurability q])"

text \<open>Presenting a cursor to the endpoint of a kind.\<close>

definition opens :: "string \<Rightarrow> string \<Rightarrow> string \<Rightarrow> string \<Rightarrow> minted option" where
  "opens kind network contractID cursor =
     (if kind = kindEvents then case_sum (\<lambda>_. None) (\<lambda>q. Some (EventsPage network q)) (decodeCursor network contractID cursor)
      else if kind = kindMovements then case_sum (\<lambda>_. None) (\<lambda>q. Some (MovementsPage network q)) (decodeMovementsCursor network contractID cursor)
      else if kind = kindTransfers then case_sum (\<lambda>_. None) (\<lambda>q. Some (TransfersPage network q)) (decodeTransfersCursor network contractID cursor)
      else if kind = kindSnapshot \<or> kind = kindHistory then
        case_sum (\<lambda>_. None) (\<lambda>q. Some (StatePage network kind q)) (decodeStateCursor network contractID kind cursor)
      else if kind = kindTrustlines \<or> kind = kindTrustlineHistory then
        case_sum (\<lambda>_. None) (\<lambda>q. Some (TrustlinesPage network kind q)) (decodeTrustlinesCursor network contractID kind cursor)
      else None)"

lemmas kind_defs = kindEvents_def kindSnapshot_def kindHistory_def kindTransfers_def kindTrustlines_def kindTrustlineHistory_def kindMovements_def

text \<open>Every minted cursor is one object whose only \<open>k\<close> is its kind.\<close>

definition tagged_object :: "string \<Rightarrow> string \<Rightarrow> bool" where
  "tagged_object s cursor \<longleftrightarrow>
     (\<exists>before after. cursor = EncodeToString (json_text (JObject (before @ (''k'', JString s) # after)))
        \<and> list_all (\<lambda>kv. ToLower (fst kv) \<noteq> ''k'') after \<and> list_all plain_member (before @ (''k'', JString s) # after))"

lemma untagged_fields [simp]:
  "ToLower k \<noteq> x \<Longrightarrow> list_all (\<lambda>kv. ToLower (fst kv) \<noteq> x) (string_field k s)"
  "ToLower k \<noteq> x \<Longrightarrow> list_all (\<lambda>kv. ToLower (fst kv) \<noteq> x) (opt_string_field k s)"
  "ToLower k \<noteq> x \<Longrightarrow> list_all (\<lambda>kv. ToLower (fst kv) \<noteq> x) (int_field k i)"
  "ToLower k \<noteq> x \<Longrightarrow> list_all (\<lambda>kv. ToLower (fst kv) \<noteq> x) (opt_uint32_field k w)"
  by (simp_all add: string_field_def opt_string_field_def int_field_def opt_uint32_field_def)

lemma tagged_objectI:
  assumes "cursor = EncodeToString (json_text (JObject (int_field ''v'' i @ string_field ''k'' s @ after)))"
    and "list_all (\<lambda>kv. ToLower (fst kv) \<noteq> ''k'') after" "list_all plain_member after" "ascii s"
  shows "tagged_object s cursor"
  unfolding tagged_object_def using assms
  by (intro exI [of _ "int_field ''v'' i"] exI [of _ after]) (simp add: string_field_def int_field_def code_def)

lemma events_tag: "opt_string_field ''k'' kindEvents = string_field ''k'' kindEvents"
  by (simp add: opt_string_field_def string_field_def kindEvents_def)

lemma tagged_cursor:
  assumes "mintable m"
  shows "tagged_object (fst (minted_for m)) (cursor_of m)"
proof (cases m)
  case (EventsPage n q)
  show ?thesis
    unfolding EventsPage cursor_of.simps minted_for.simps fst_conv encodeCursor_def cursorPayload_json_def cursorPayload.simps events_tag
    by (rule tagged_objectI [OF refl]) (use assms in \<open>auto simp: EventsPage kind_defs code_def plain_topics\<close>)
next
  case (MovementsPage n q)
  show ?thesis
    unfolding MovementsPage cursor_of.simps minted_for.simps fst_conv encodeMovementsCursor_def movementsCursorPayload_json_def movementsCursorPayload.simps
    by (rule tagged_objectI [OF refl]) (use assms in \<open>auto simp: MovementsPage kind_defs code_def\<close>)
next
  case (TrustlinesPage n k q)
  show ?thesis
    unfolding TrustlinesPage cursor_of.simps minted_for.simps fst_conv encodeTrustlinesCursor_def trustlinesCursorPayload_json_def trustlinesCursorPayload.simps
    by (rule tagged_objectI [OF refl]) (use assms in \<open>auto simp: TrustlinesPage kind_defs code_def\<close>)
next
  case (TransfersPage n q)
  show ?thesis
    unfolding TransfersPage cursor_of.simps minted_for.simps fst_conv encodeTransfersCursor_def transfersCursorPayload_json_def transfersCursorPayload.simps
    by (rule tagged_objectI [OF refl]) (use assms in \<open>auto simp: TransfersPage kind_defs code_def\<close>)
next
  case (StatePage n k q)
  show ?thesis
    unfolding StatePage cursor_of.simps minted_for.simps fst_conv encodeStateCursor_def stateCursorPayload_json_def stateCursorPayload.simps
    by (rule tagged_objectI [OF refl]) (use assms in \<open>auto simp: StatePage kind_defs code_def\<close>)
qed

lemma opens_tagged:
  assumes "tagged_object s cursor" and "opens kind n c cursor = Some m" and "s \<noteq> ''''"
  shows "kind = s"
proof -
  obtain before after where t: "DecodeString cursor = Some (json_text (JObject (before @ (''k'', JString s) # after)))"
    "list_all (\<lambda>kv. ToLower (fst kv) \<noteq> ''k'') after" "list_all plain_member (before @ (''k'', JString s) # after)"
    using assms(1) unfolding tagged_object_def by auto
  have low: "ToLower ''k'' = ''k''" by simp
  note tags = events_kind.Unmarshal_tag [OF _ low t(2,3)] movements_kind.Unmarshal_tag [OF _ low t(2,3)]
    trustlines_kind.Unmarshal_tag [OF _ low t(2,3)] transfers_kind.Unmarshal_tag [OF _ low t(2,3)] state_kind.Unmarshal_tag [OF _ low t(2,3)]
  show ?thesis
    using assms(2,3) unfolding opens_def decodeCursor_def decodeMovementsCursor_def decodeTransfersCursor_def decodeStateCursor_def
      decodeTrustlinesCursor_def t(1)
    by (auto simp del: json_text.simps split: if_splits option.splits dest: tags)
qed

lemma opens_by_kind:
  "k = kindTrustlines \<or> k = kindTrustlineHistory \<Longrightarrow>
    opens k n c cur = case_sum (\<lambda>_. None) (\<lambda>q. Some (TrustlinesPage n k q)) (decodeTrustlinesCursor n c k cur)"
  "k = kindSnapshot \<or> k = kindHistory \<Longrightarrow>
    opens k n c cur = case_sum (\<lambda>_. None) (\<lambda>q. Some (StatePage n k q)) (decodeStateCursor n c k cur)"
  by (auto simp: opens_def kind_defs)

lemma decodeTrustlinesCursor_minted:
  assumes "limit_ok (lq_Limit q)" and "list_all ascii [n', k, lq_ContractID q, lq_AccountID q, lq_AfterID q, lq_AfterAccount q]"
  shows "decodeTrustlinesCursor n c k (encodeTrustlinesCursor n' k q) =
    (if n = n' \<and> c = lq_ContractID q then Inr q else Inl DifferentDataset)"
  using assms by (cases q) (simp add: encodeTrustlinesCursor_def decodeTrustlinesCursor_def trustlinesCursorPayload_read int64_def limit_ok_def
      cursorVersion_def validateCursorLimit_def maxLimit_def del: json_text.simps)

lemma decodeStateCursor_minted:
  assumes "limit_ok (sq_Limit q)" and "list_all ascii [n', k, sq_ContractID q, sq_KeyXDR q, sq_AfterID q, sq_AfterKey q, sq_AfterDurability q]"
  shows "decodeStateCursor n c k (encodeStateCursor n' k q) =
    (if n = n' \<and> c = sq_ContractID q then Inr q else Inl DifferentDataset)"
  using assms by (cases q) (simp add: encodeStateCursor_def decodeStateCursor_def stateCursorPayload_read int64_def limit_ok_def
      cursorVersion_def validateCursorLimit_def maxLimit_def del: json_text.simps)

lemma opens_own:
  assumes "mintable m"
  shows "opens (fst (minted_for m)) n c (cursor_of m) = (if (n, c) = snd (minted_for m) then Some m else None)"
proof (cases m)
  case (EventsPage n' q)
  then show ?thesis using assms
    by (cases q) (auto simp: opens_def encodeCursor_def decodeCursor_def cursorPayload_read int64_def limit_ok_def cursorVersion_def
      validateCursorLimit_def maxLimit_def kind_defs code_def simp del: json_text.simps)
next
  case (MovementsPage n' q)
  then show ?thesis using assms
    by (cases q) (auto simp: opens_def encodeMovementsCursor_def decodeMovementsCursor_def movementsCursorPayload_read int64_def limit_ok_def
      cursorVersion_def validateCursorLimit_def maxLimit_def kind_defs code_def simp del: json_text.simps)
next
  case (TrustlinesPage n' k q)
  then have k: "k \<in> {kindTrustlines, kindTrustlineHistory}" and lim: "limit_ok (lq_Limit q)" using assms by simp_all
  from k have "ascii k" by (auto simp: kind_defs code_def)
  then have "list_all ascii [n', k, lq_ContractID q, lq_AccountID q, lq_AfterID q, lq_AfterAccount q]"
    using assms unfolding TrustlinesPage by simp
  note dec = decodeTrustlinesCursor_minted [OF lim this, of n c]
  show ?thesis using TrustlinesPage k by (simp add: opens_by_kind dec)
next
  case (TransfersPage n' q)
  then show ?thesis using assms
    by (cases q) (auto simp: opens_def encodeTransfersCursor_def decodeTransfersCursor_def transfersCursorPayload_read int64_def limit_ok_def
      cursorVersion_def validateCursorLimit_def maxLimit_def kind_defs code_def simp del: json_text.simps)
next
  case (StatePage n' k q)
  then have k: "k \<in> {kindSnapshot, kindHistory}" and lim: "limit_ok (sq_Limit q)" using assms by simp_all
  from k have "ascii k" by (auto simp: kind_defs code_def)
  then have "list_all ascii [n', k, sq_ContractID q, sq_KeyXDR q, sq_AfterID q, sq_AfterKey q, sq_AfterDurability q]"
    using assms unfolding StatePage by simp
  note dec = decodeStateCursor_minted [OF lim this, of n c]
  show ?thesis using StatePage k by (simp add: opens_by_kind dec)
qed

lemma opens_minted:
  assumes "mintable m"
  shows "opens kind n c (cursor_of m) = (if (kind, n, c) = minted_for m then Some m else None)"
proof (cases "kind = fst (minted_for m)")
  case True
  then show ?thesis using opens_own [OF assms, of n c] by (cases "minted_for m") auto
next
  case False
  have "fst (minted_for m) \<noteq> ''''" using assms by (cases m) (auto simp: kind_defs)
  then have "opens kind n c (cursor_of m) = None"
    using opens_tagged [OF tagged_cursor [OF assms]] False by (cases "opens kind n c (cursor_of m)") auto
  then show ?thesis using False by (cases "minted_for m") auto
qed

section \<open>Properties\<close>

text \<open>C24: cursors round-trip and are bound to what they were minted for. Presented to an endpoint, the
  cursor of a page opens exactly that page's query, network and contract, when the endpoint, the
  network and the contract are the ones it was minted for, and is refused by every other endpoint
  and for every other network or contract.\<close>

theorem cursor_opens_only_its_page:
  assumes "mintable m"
  shows "opens kind network contractID (cursor_of m) =
    (if (kind, network, contractID) = minted_for m then Some m else None)"
  by (rule opens_minted [OF assms])

definition demo_page :: minted where
  "demo_page = MovementsPage ''testnet''
     \<lparr>mq_ContractID = ''C1'', mq_Role = ''recipient'', mq_Token = '''', mq_Type = ''mint'', mq_FromLedger = 5, mq_ToLedger = 0,
      mq_AfterID = ''0005-1'', mq_AfterRole = ''recipient'', mq_Limit = 100\<rparr>"

theorem cursor_opens_only_its_page_witness:
  "opens kindMovements ''testnet'' ''C1'' (cursor_of demo_page) = Some demo_page
    \<and> opens kindEvents ''testnet'' ''C1'' (cursor_of demo_page) = None
    \<and> opens kindMovements ''testnet'' ''C2'' (cursor_of demo_page) = None"
proof -
  have "mintable demo_page" by (simp add: demo_page_def limit_ok_def code_def)
  note opens = cursor_opens_only_its_page [OF this]
  show ?thesis unfolding opens by (simp add: demo_page_def kind_defs)
qed

text \<open>C25: a cursor is opaque, not trusted. Whatever bytes a client presents, what an endpoint accepts
  is a query for the contract of the request with a limit from 1 to 1000, so no crafted cursor
  reaches another contract's rows or an unbounded page.\<close>

theorem crafted_cursor_bounded:
  assumes "opens kind network contractID cursor = Some m"
  shows "snd (minted_for m) = (network, contractID)
    \<and> (case m of EventsPage _ q \<Rightarrow> limit_ok (eq_Limit q) | MovementsPage _ q \<Rightarrow> limit_ok (mq_Limit q)
        | TrustlinesPage _ _ q \<Rightarrow> limit_ok (lq_Limit q) | TransfersPage _ q \<Rightarrow> limit_ok (tq_Limit q)
        | StatePage _ _ q \<Rightarrow> limit_ok (sq_Limit q))"
  using assms unfolding opens_def decodeCursor_def decodeMovementsCursor_def decodeTransfersCursor_def decodeStateCursor_def
    decodeTrustlinesCursor_def
  by (auto simp: validateCursorLimit_def maxLimit_def limit_ok_def split: if_splits option.splits sum.splits)

theorem crafted_cursor_bounded_witness:
  "\<exists>m. opens kindMovements ''testnet'' ''C1'' (cursor_of demo_page) = Some m \<and> snd (minted_for m) = (''testnet'', ''C1'')"
proof -
  have "mintable demo_page" by (simp add: demo_page_def limit_ok_def code_def)
  then have "opens kindMovements ''testnet'' ''C1'' (cursor_of demo_page) = Some demo_page"
    by (simp add: opens_minted) (simp add: demo_page_def kind_defs)
  then show ?thesis using crafted_cursor_bounded by blast
qed

end
