(* ===== verification/Api.thy ===== *)
theory Api
  imports Api_Cursor Store_Backfill Store_Ledger
begin

text \<open>
  The public read surface of \<^verbatim>\<open>internal/api/api.go\<close>: the events endpoint, the contract endpoints, and
  what every endpoint shares (the path's contract, the parameters, coverage and scan status). A
  handler is a function of the request and of the database its statements find, the row handlers of one
  state per statement; \<open>Inl\<close> is an error response. Whether a
  string is a contract address or the base64 of an \<open>ScVal\<close> is the Stellar SDK's to say, so both are
  arguments. Times stay integers, and a response is a value: routes, statuses and the database
  that does not answer (a 500 everywhere) are in \<open>Http\<close>.
\<close>

section \<open>Requests and errors\<close>

type_synonym params = "string \<rightharpoonup> string list"

definition pGet :: "params \<Rightarrow> string \<Rightarrow> string" where
  "pGet p k = (case p k of Some (v # _) \<Rightarrow> v | _ \<Rightarrow> '''')"

definition pHas :: "params \<Rightarrow> string \<Rightarrow> bool" where
  "pHas p k \<longleftrightarrow> p k \<noteq> None"

datatype bad_request =
    NotContractAddress string
  | CursorCombined string
  | BadCursor cursor_error
  | BadParameter string string
  | EndBelowStart u32 u32
  | AccountWithSides

datatype http_error = BadRequest bad_request | NotRegistered string

record sdk =
  isAddress :: "string \<Rightarrow> bool"
  isScVal :: "string \<Rightarrow> bool"

section \<open>Shared pieces\<close>

definition scanHasMore :: string where "scanHasMore = ''HAS_MORE''"
definition scanWaitingForLedgers :: string where "scanWaitingForLedgers = ''WAITING_FOR_LEDGERS''"
definition scanOldestReached :: string where "scanOldestReached = ''OLDEST_REACHED''"
definition scanComplete :: string where "scanComplete = ''COMPLETE''"

definition knownContract :: "sdk \<Rightarrow> string \<Rightarrow> string \<Rightarrow> db \<Rightarrow> http_error + Contract" where
  "knownContract env network contractID d =
     (if \<not> isAddress env contractID then Inl (BadRequest (NotContractAddress contractID))
      else case GetContract network contractID d of
             Inl _ \<Rightarrow> Inl (NotRegistered contractID)
           | Inr c \<Rightarrow> Inr c)"

definition cursorSequence :: "string \<Rightarrow> db \<Rightarrow> u32" where
  "cursorSequence network d = (case LoadCursor network d of Inl _ \<Rightarrow> 0 | Inr cur \<Rightarrow> cu_Sequence cur)"

definition banned_with_cursor :: "string list \<Rightarrow> params \<Rightarrow> http_error + unit" where
  "banned_with_cursor names p =
     (case find (pHas p) names of None \<Rightarrow> Inr () | Some b \<Rightarrow> Inl (BadRequest (CursorCombined b)))"

definition from_cursor :: "(cursor_error + 'q) \<Rightarrow> http_error + 'q" where
  "from_cursor r = (case r of Inl e \<Rightarrow> Inl (BadRequest (BadCursor e)) | Inr q \<Rightarrow> Inr q)"

definition keyParam :: "sdk \<Rightarrow> string \<Rightarrow> http_error + string" where
  "keyParam env raw =
     (if raw = '''' then Inr '''' else if isScVal env raw then Inr raw else Inl (BadRequest (BadParameter ''key'' raw)))"

definition limitParam :: "string \<Rightarrow> http_error + nat" where
  "limitParam raw =
     (if raw = '''' then Inr (nat defaultLimit)
      else case ParseInt raw of
             None \<Rightarrow> Inl (BadRequest (BadParameter ''limit'' raw))
           | Some v \<Rightarrow> if v < 1 \<or> v > maxLimit then Inl (BadRequest (BadParameter ''limit'' raw)) else Inr (nat v))"

definition ledgerParam :: "string \<Rightarrow> params \<Rightarrow> u32 \<Rightarrow> http_error + u32" where
  "ledgerParam name p absent =
     (let raw = pGet p name in
      if raw = '''' then Inr absent
      else case ParseUint 4294967295 raw of
             None \<Rightarrow> Inl (BadRequest (BadParameter name raw))
           | Some v \<Rightarrow> if v = 0 then Inl (BadRequest (BadParameter name raw)) else Inr (of_nat v))"

section \<open>Coverage\<close>

record coverageInfo =
  co_Kind :: string
  co_KindDerived :: bool
  co_RequestedFromLedger :: u32
  co_RequestedToLedger :: "u32 option"
  co_IndexedFromLedger :: u32
  co_IndexedToLedger :: u32
  co_BackfillPending :: bool
  co_ClampedAt :: "u32 option"

definition coverage :: "string \<Rightarrow> Contract \<Rightarrow> string \<Rightarrow> EventQuery \<Rightarrow> u32 \<Rightarrow> db \<Rightarrow> coverageInfo" where
  "coverage network contract kind q cursorSeq d =
     (let to = eq_ToLedger q;
          cov = \<lparr>co_Kind = kind, co_KindDerived = HasKind contract kind, co_RequestedFromLedger = eq_FromLedger q,
                 co_RequestedToLedger = (if to > 0 then Some to else None), co_IndexedFromLedger = 0,
                 co_IndexedToLedger = (if to > 0 \<and> to < cursorSeq then to else cursorSeq),
                 co_BackfillPending = False, co_ClampedAt = None\<rparr>
      in if \<not> co_KindDerived cov then cov\<lparr>co_IndexedFromLedger := 0, co_IndexedToLedger := 0\<rparr>
         else let cov = (case GetBackfill network (ct_ContractID contract) d of
                           Inl _ \<Rightarrow> cov\<lparr>co_IndexedFromLedger := cursorSeq\<rparr>
                         | Inr bf \<Rightarrow>
                             if \<not> CoversKind bf kind then cov\<lparr>co_IndexedFromLedger := cursorSeq, co_BackfillPending := True\<rparr>
                             else cov\<lparr>co_IndexedFromLedger := b_NextTo bf + 1, co_BackfillPending := \<not> b_Done bf,
                                      co_ClampedAt := b_ClampedAt bf\<rparr>)
              in if co_IndexedFromLedger cov < eq_FromLedger q then cov\<lparr>co_IndexedFromLedger := eq_FromLedger q\<rparr> else cov)"

definition ledger_query :: "string \<Rightarrow> u32 \<Rightarrow> u32 \<Rightarrow> EventQuery" where
  "ledger_query contractID from to =
     \<lparr>eq_ContractID = contractID, eq_Topics = replicate 4 None, eq_FromLedger = from, eq_ToLedger = to,
      eq_AfterID = '''', eq_Limit = 0\<rparr>"

definition coverageByKind :: "string \<Rightarrow> Contract \<Rightarrow> u32 \<Rightarrow> db \<Rightarrow> coverageInfo list" where
  "coverageByKind network contract cursorSeq d =
     map (\<lambda>kind. coverage network contract kind (ledger_query (ct_ContractID contract) 1 0) cursorSeq d)
       (filter (HasKind contract) [KindEvents, KindState, KindTransfers, KindTrustlines, KindMovements])"

definition scanStatus :: "bool \<Rightarrow> EventQuery \<Rightarrow> coverageInfo \<Rightarrow> u32 \<Rightarrow> string" where
  "scanStatus hasMore q cov cursorSeq =
     (if hasMore then scanHasMore
      else if \<not> co_KindDerived cov then scanOldestReached
      else if eq_ToLedger q = 0 \<or> eq_ToLedger q > cursorSeq then scanWaitingForLedgers
      else if eq_FromLedger q < co_IndexedFromLedger cov then scanOldestReached
      else scanComplete)"

section \<open>Events\<close>

record eventRecord =
  er_ID :: string
  er_Type :: string
  er_Ledger :: u32
  er_LedgerClosedAt :: int
  er_ContractID :: string
  er_Topic :: "string list"
  er_Value :: string
  er_InSuccessfulContractCall :: bool
  er_TxHash :: string
  er_TxIndex :: int
  er_OpIndex :: int
  er_EventName :: string

record eventsResponse =
  es_Events :: "eventRecord list"
  es_Cursor :: string
  es_ScanStatus :: string
  es_Coverage :: coverageInfo
  es_LatestLedger :: u32

definition eventRecord_of :: "Event \<Rightarrow> eventRecord" where
  "eventRecord_of e =
     \<lparr>er_ID = ev_ID e, er_Type = ''contract'', er_Ledger = ev_LedgerSequence e, er_LedgerClosedAt = ev_ClosedAt e,
      er_ContractID = ev_ContractID e, er_Topic = ev_Topics e, er_Value = ev_ValueXDR e,
      er_InSuccessfulContractCall = True, er_TxHash = ev_TxHash e, er_TxIndex = ev_TxIndex e,
      er_OpIndex = ev_OpIndex e, er_EventName = ev_EventName e\<rparr>"

definition topicParam :: "sdk \<Rightarrow> params \<Rightarrow> nat \<Rightarrow> http_error + string option" where
  "topicParam env p i =
     (let name = ''topic'' @ dec i; raw = pGet p name in
      if raw = '''' then Inr None
      else if isScVal env raw then Inr (Some raw) else Inl (BadRequest (BadParameter name raw)))"

fun all_or_first :: "('a \<Rightarrow> 'e + 'b) \<Rightarrow> 'a list \<Rightarrow> 'e + 'b list" where
  "all_or_first f [] = Inr []"
| "all_or_first f (x # xs) = andThen (f x) (\<lambda>y. andThen (all_or_first f xs) (\<lambda>ys. Inr (y # ys)))"

definition buildQuery :: "sdk \<Rightarrow> string \<Rightarrow> params \<Rightarrow> string \<Rightarrow> http_error + EventQuery" where
  "buildQuery env network p contractID =
     (let cursor = pGet p ''cursor'' in
      if cursor \<noteq> '''' then
        andThen (banned_with_cursor [''topic0'', ''topic1'', ''topic2'', ''topic3'', ''startLedger'', ''endLedger'', ''type''] p)
          (\<lambda>_. from_cursor (decodeCursor network contractID cursor))
      else if pGet p ''type'' \<noteq> '''' \<and> pGet p ''type'' \<noteq> ''contract'' then Inl (BadRequest (BadParameter ''type'' (pGet p ''type'')))
      else andThen (ledgerParam ''startLedger'' p 1) (\<lambda>from.
           andThen (ledgerParam ''endLedger'' p 0) (\<lambda>to.
             if to \<noteq> 0 \<and> to < from then Inl (BadRequest (EndBelowStart to from))
             else andThen (limitParam (pGet p ''limit'')) (\<lambda>limit.
                  andThen (all_or_first (topicParam env p) [0, 1, 2, 3]) (\<lambda>topics.
                    Inr \<lparr>eq_ContractID = contractID, eq_Topics = topics, eq_FromLedger = from, eq_ToLedger = to,
                         eq_AfterID = '''', eq_Limit = limit\<rparr>)))))"

text \<open>A read request is four statements, each outside any transaction, so each finds the database in a state
  of its own: the contract, the rows, the live cursor, the walk.\<close>

record reads =
  rd_Contract :: db
  rd_Rows :: db
  rd_Cursor :: db
  rd_Walk :: db

definition quiet :: "db \<Rightarrow> reads" where
  "quiet d = \<lparr>rd_Contract = d, rd_Rows = d, rd_Cursor = d, rd_Walk = d\<rparr>"

definition handleEvents :: "sdk \<Rightarrow> string \<Rightarrow> params \<Rightarrow> string \<Rightarrow> reads \<Rightarrow> http_error + eventsResponse" where
  "handleEvents env network p pathID rd =
     andThen (knownContract env network pathID (rd_Contract rd)) (\<lambda>contract.
     andThen (buildQuery env network p (ct_ContractID contract)) (\<lambda>q.
       let (events, hasMore) = QueryEvents network q (rd_Rows rd);
           cursorSeq = cursorSequence network (rd_Cursor rd);
           cov = coverage network contract KindEvents q cursorSeq (rd_Walk rd);
           afterID = (if events \<noteq> [] then ev_ID (last events) else eq_AfterID q)
       in Inr \<lparr>es_Events = map eventRecord_of events, es_Cursor = encodeCursor network q afterID,
               es_ScanStatus = scanStatus hasMore q cov cursorSeq, es_Coverage = cov, es_LatestLedger = cursorSeq\<rparr>))"

section \<open>Contracts\<close>

record contractDetail =
  cd_ContractID :: string
  cd_Network :: string
  cd_Source :: string
  cd_Kinds :: "string list"
  cd_Classification :: "string option"
  cd_RegisteredAt :: int
  cd_Coverage :: "coverageInfo list"
  cd_Total :: nat
  cd_ByName :: "string \<rightharpoonup> nat"
  cd_Entries :: nat

record contractSummary =
  cs_ContractID :: string
  cs_Network :: string
  cs_Source :: string
  cs_Kinds :: "string list"
  cs_Classification :: "string option"
  cs_RegisteredAt :: int

definition total_events :: "(string \<rightharpoonup> nat) \<Rightarrow> db \<Rightarrow> nat" where
  "total_events counts d =
     sum_list (map (\<lambda>name. case counts name of None \<Rightarrow> 0 | Some k \<Rightarrow> k) (remdups (map (\<lambda>r. ev_EventName (snd r)) (t_events d))))"

definition handleContract :: "sdk \<Rightarrow> string \<Rightarrow> string \<Rightarrow> db \<Rightarrow> http_error + contractDetail" where
  "handleContract env network pathID d =
     andThen (knownContract env network pathID d) (\<lambda>c.
       let counts = EventCountsByName network (ct_ContractID c) d in
       Inr \<lparr>cd_ContractID = ct_ContractID c, cd_Network = ct_Network c, cd_Source = ct_Source c, cd_Kinds = ct_Kinds c,
            cd_Classification = ct_Classification c, cd_RegisteredAt = ct_RegisteredAt c,
            cd_Coverage = coverageByKind network c (cursorSequence network d) d, cd_Total = total_events counts d,
            cd_ByName = counts, cd_Entries = CountStateEntries network (ct_ContractID c) d\<rparr>)"

definition handleContractList :: "string \<Rightarrow> db \<Rightarrow> contractSummary list" where
  "handleContractList network d =
     map (\<lambda>c. \<lparr>cs_ContractID = ct_ContractID c, cs_Network = ct_Network c, cs_Source = ct_Source c,
               cs_Kinds = ct_Kinds c, cs_Classification = ct_Classification c, cs_RegisteredAt = ct_RegisteredAt c\<rparr>)
       (ListContracts network d)"

section \<open>Lemmas\<close>

lemma page_whole: "page ord limit rows = (out, False) \<Longrightarrow> out = sort_on ord rows"
  by (auto simp: page_def Let_def split: if_splits)

lemma knownContract_Inr:
  "knownContract env n i d = Inr c \<Longrightarrow> isAddress env i \<and> GetContract n i d = Inr c \<and> ct_ContractID c = i"
  by (auto simp: knownContract_def GetContract_def is_contract_def find_Some_iff split: if_splits sum.splits option.splits)

lemma handleEvents_Inr:
  assumes "handleEvents env n p i rd = Inr r"
  obtains c q events hasMore where "knownContract env n i (rd_Contract rd) = Inr c" "buildQuery env n p i = Inr q"
    "QueryEvents n q (rd_Rows rd) = (events, hasMore)" "es_Events r = map eventRecord_of events"
    "es_Cursor r = encodeCursor n q (if events \<noteq> [] then ev_ID (last events) else eq_AfterID q)"
    "es_LatestLedger r = cursorSequence n (rd_Cursor rd)"
    "es_Coverage r = coverage n c KindEvents q (cursorSequence n (rd_Cursor rd)) (rd_Walk rd)"
    "es_ScanStatus r = scanStatus hasMore q (es_Coverage r) (cursorSequence n (rd_Cursor rd))"
proof -
  obtain c where c: "knownContract env n i (rd_Contract rd) = Inr c" using assms by (auto simp: handleEvents_def andThen_Inr)
  then have "ct_ContractID c = i" using knownContract_Inr by blast
  then obtain q where q: "buildQuery env n p i = Inr q" using assms c by (auto simp: handleEvents_def andThen_Inr)
  obtain events hasMore where e: "QueryEvents n q (rd_Rows rd) = (events, hasMore)" by fastforce
  show thesis using assms c q e \<open>ct_ContractID c = i\<close> by (intro that [OF c q e]) (auto simp: handleEvents_def Let_def)
qed

lemma scanStatus_complete:
  "scanStatus hasMore q cov cur = scanComplete \<longleftrightarrow> \<not> hasMore \<and> co_KindDerived cov \<and> eq_ToLedger q \<noteq> 0
     \<and> eq_ToLedger q \<le> cur \<and> co_IndexedFromLedger cov \<le> eq_FromLedger q"
  by (auto simp: scanStatus_def scanHasMore_def scanOldestReached_def scanWaitingForLedgers_def scanComplete_def not_le not_less)

lemma scanStatus_more: "scanStatus hasMore q cov cur = scanHasMore \<longleftrightarrow> hasMore"
  by (auto simp: scanStatus_def scanHasMore_def scanOldestReached_def scanWaitingForLedgers_def scanComplete_def)

text \<open>What coverage vouches for, when the kind is derived.\<close>

lemma coverage_indexed:
  assumes "co_KindDerived (coverage n c kind q cur d)" and "co_IndexedFromLedger (coverage n c kind q cur d) \<le> eq_FromLedger q"
  shows "HasKind c kind \<and> (cur \<le> eq_FromLedger q
    \<or> (\<exists>bf. GetBackfill n (ct_ContractID c) d = Inr bf \<and> CoversKind bf kind \<and> b_NextTo bf + 1 \<le> eq_FromLedger q))"
  using assms by (auto simp: coverage_def Let_def split: if_splits sum.splits)

text \<open>A client that follows the cursors: the first request, then the cursor alone while there is more.\<close>

fun follow :: "sdk \<Rightarrow> string \<Rightarrow> string \<Rightarrow> db \<Rightarrow> nat \<Rightarrow> params \<Rightarrow> eventRecord list option" where
  "follow env n i d 0 p = None"
| "follow env n i d (Suc k) p =
     (case handleEvents env n p i (quiet d) of
        Inl _ \<Rightarrow> None
      | Inr r \<Rightarrow>
          if es_ScanStatus r = scanHasMore
          then map_option (\<lambda>es. es_Events r @ es) (follow env n i d k [''cursor'' \<mapsto> [es_Cursor r]])
          else Some (es_Events r))"

lemma EncodeToString_empty: "EncodeToString s = '''' \<Longrightarrow> s = ''''"
  using DecodeString_EncodeToString [of s] by (simp add: DecodeString_def)

lemma buildQuery_cursor:
  assumes "mintable (EventsPage n (q\<lparr>eq_AfterID := a\<rparr>))"
  shows "buildQuery env n [''cursor'' \<mapsto> [encodeCursor n q a]] (eq_ContractID q) = Inr (q\<lparr>eq_AfterID := a\<rparr>)"
proof -
  have "decodeCursor n (eq_ContractID q) (encodeCursor n (q\<lparr>eq_AfterID := a\<rparr>) a) = Inr (q\<lparr>eq_AfterID := a\<rparr>)"
    using opens_minted [OF assms, of kindEvents n "eq_ContractID q"] by (auto simp: opens_def split: sum.splits)
  moreover have "encodeCursor n (q\<lparr>eq_AfterID := a\<rparr>) a = encodeCursor n q a" by (simp add: encodeCursor_def)
  moreover have "encodeCursor n q a \<noteq> ''''"
    unfolding encodeCursor_def cursorPayload_json_def by (rule notI, drule EncodeToString_empty) simp
  ultimately show ?thesis
    by (simp add: buildQuery_def pGet_def pHas_def banned_with_cursor_def from_cursor_def)
qed

lemma all_or_first_Inr: "all_or_first f xs = Inr ys \<Longrightarrow> map f xs = map Inr ys"
  by (induction xs arbitrary: ys) (auto simp: andThen_Inr)

lemma limitParam_ok: "limitParam raw = Inr l \<Longrightarrow> limit_ok l"
  by (auto simp: limitParam_def limit_ok_def defaultLimit_def maxLimit_def split: if_splits option.splits)

lemma buildQuery_fresh:
  assumes "buildQuery env n p i = Inr q" and "pGet p ''cursor'' = ''''" and "\<And>s. isScVal env s \<Longrightarrow> ascii s"
  shows "eq_ContractID q = i" "eq_AfterID q = ''''" "limit_ok (eq_Limit q)" "length (eq_Topics q) = 4"
    "list_all (\<lambda>t. case t of None \<Rightarrow> True | Some s \<Rightarrow> ascii s) (eq_Topics q)"
proof -
  obtain lo hi limit topics where q: "limitParam (pGet p ''limit'') = Inr limit"
    "all_or_first (topicParam env p) [0, 1, 2, 3] = Inr topics"
    "q = \<lparr>eq_ContractID = i, eq_Topics = topics, eq_FromLedger = lo, eq_ToLedger = hi, eq_AfterID = '''', eq_Limit = limit\<rparr>"
    using assms(1,2) unfolding buildQuery_def by (auto simp: andThen_Inr split: if_splits)
  have topics: "map (topicParam env p) [0, 1, 2, 3] = map Inr topics" by (rule all_or_first_Inr [OF q(2)])
  have "case t of None \<Rightarrow> True | Some s \<Rightarrow> ascii s" if "t \<in> set topics" for t
  proof -
    have "Inr t \<in> set (map (topicParam env p) [0, 1, 2, 3])" unfolding topics using that by simp
    then obtain j where "topicParam env p j = Inr t" by auto
    then show ?thesis using assms(3) by (auto simp: topicParam_def Let_def split: if_splits)
  qed
  moreover have "length topics = 4" using arg_cong [OF topics, of length] by simp
  ultimately show "eq_ContractID q = i" "eq_AfterID q = ''''" "limit_ok (eq_Limit q)" "length (eq_Topics q) = 4"
    "list_all (\<lambda>t. case t of None \<Rightarrow> True | Some s \<Rightarrow> ascii s) (eq_Topics q)"
    using q limitParam_ok by (simp_all add: list_all_iff)
qed

text \<open>One page, and what is left behind it.\<close>

lemma page_more:
  assumes "page ord limit (filter (\<lambda>r. P a \<or> a < ord r) rows) = (out, True)" and "0 < limit"
    and "\<forall>r\<in>set rows. \<not> P (ord r)"
  shows "out \<noteq> []" "last out \<in> set rows"
    "length (filter (\<lambda>r. P (ord (last out)) \<or> ord (last out) < ord r) rows) < length (filter (\<lambda>r. P a \<or> a < ord r) rows)"
proof -
  let ?rows = "filter (\<lambda>r. P a \<or> a < ord r) rows"
  have out: "out = take limit (take (limit + 1) (sort_on ord ?rows))" "length (take (limit + 1) (sort_on ord ?rows)) > limit"
    using assms(1) by (auto simp: page_def Let_def split: if_splits)
  then have "length out = limit" by (simp add: min_def split: if_splits)
  then show ne: "out \<noteq> []" using assms(2) by auto
  have "set out \<subseteq> set ?rows" using out(1) by (auto dest!: in_set_takeD)
  then have last: "last out \<in> set ?rows" using last_in_set [OF ne] by blast
  then show "last out \<in> set rows" by simp
  have notP: "\<not> P (ord (last out))" using last assms(3) by simp
  have "filter (\<lambda>r. P (ord (last out)) \<or> ord (last out) < ord r) rows = filter (\<lambda>r. ord (last out) < ord r) ?rows"
    using last notP by (auto simp: filter_filter intro!: filter_cong)
  also have "length \<dots> < length ?rows" using last by (intro length_filter_less [of "last out"]) auto
  finally show "length (filter (\<lambda>r. P (ord (last out)) \<or> ord (last out) < ord r) rows) < length ?rows" .
qed

lemma follow_pages:
  assumes "knownContract env n i d = Inr c" and "eq_ContractID q = i" and "0 < eq_Limit q"
    and "\<And>e. e \<in> set (matching_events n q d) \<Longrightarrow> ev_ID e \<noteq> '''' \<and> mintable (EventsPage n (q\<lparr>eq_AfterID := ev_ID e\<rparr>))"
    and "buildQuery env n p i = Inr (q\<lparr>eq_AfterID := a\<rparr>)"
    and "length (filter (\<lambda>e. a = '''' \<or> a < ev_ID e) (matching_events n q d)) < k"
  shows "follow env n i d k p = Some (map eventRecord_of (walk (\<lambda>a. QueryEvents n (q\<lparr>eq_AfterID := a\<rparr>) d) ev_ID k a))"
  using assms(5,6)
proof (induction k arbitrary: p a)
  case (Suc k)
  let ?rows = "matching_events n q d"
  obtain events hasMore where page: "QueryEvents n (q\<lparr>eq_AfterID := a\<rparr>) d = (events, hasMore)" by fastforce
  let ?cov = "coverage n c KindEvents (q\<lparr>eq_AfterID := a\<rparr>) (cursorSequence n d) d"
  let ?after = "if events \<noteq> [] then ev_ID (last events) else a"
  have "ct_ContractID c = i" using knownContract_Inr [OF assms(1)] by simp
  then have handled: "handleEvents env n p i (quiet d) = Inr \<lparr>es_Events = map eventRecord_of events,
      es_Cursor = encodeCursor n (q\<lparr>eq_AfterID := a\<rparr>) ?after,
      es_ScanStatus = scanStatus hasMore (q\<lparr>eq_AfterID := a\<rparr>) ?cov (cursorSequence n d),
      es_Coverage = ?cov, es_LatestLedger = cursorSequence n d\<rparr>"
    using assms(1) Suc.prems(1) page by (simp add: handleEvents_def quiet_def Let_def)
  show ?case
  proof (cases hasMore)
    case False
    then show ?thesis using handled page by (simp add: scanStatus_more)
  next
    case True
    have pg: "page ev_ID (eq_Limit q) (filter (\<lambda>e. a = '''' \<or> a < ev_ID e) ?rows) = (events, True)"
      using page True by (simp add: QueryEvents_def matching_events_def)
    have "\<forall>r\<in>set ?rows. ev_ID r \<noteq> ''''" using assms(4) by blast
    note more = page_more [where P = "\<lambda>a. a = ''''", OF pg assms(3) this]
    let ?a = "ev_ID (last events)"
    have "buildQuery env n [''cursor'' \<mapsto> [encodeCursor n q ?a]] (eq_ContractID q) = Inr (q\<lparr>eq_AfterID := ?a\<rparr>)"
      using assms(4) [OF more(2)] by (intro buildQuery_cursor) simp
    then have "buildQuery env n [''cursor'' \<mapsto> [encodeCursor n (q\<lparr>eq_AfterID := a\<rparr>) ?a]] i = Inr (q\<lparr>eq_AfterID := ?a\<rparr>)"
      using assms(2) by (simp add: encodeCursor_def)
    moreover have "length (filter (\<lambda>e. ?a = '''' \<or> ?a < ev_ID e) ?rows) < k"
      using more(3) Suc.prems(2) by linarith
    ultimately have "follow env n i d k [''cursor'' \<mapsto> [encodeCursor n (q\<lparr>eq_AfterID := a\<rparr>) ?a]] =
        Some (map eventRecord_of (walk (\<lambda>a. QueryEvents n (q\<lparr>eq_AfterID := a\<rparr>) d) ev_ID k ?a))"
      by (rule Suc.IH)
    then show ?thesis using handled page True more(1) by (simp add: scanStatus_more)
  qed
qed simp

section \<open>Properties\<close>

text \<open>C26: What \<open>COMPLETE\<close> means. When the events endpoint answers with that status, whatever is committed
  between its statements, the contract is registered for events and the page holds every stored event that
  matches the query past the cursor, in order, as the rows stood when they were read; the requested range
  ends at or below the live cursor of the response; and the whole of it lies above the frontier of a walk
  that derives events, unless it starts at the live cursor, so that it is that one ledger at most.\<close>

theorem complete_means_complete:
  assumes "handleEvents env n p i rd = Inr r" and "es_ScanStatus r = scanComplete"
    and "\<And>bf. GetBackfill n i (rd_Walk rd) = Inr bf \<Longrightarrow> b_NextTo bf < maxU32"
  shows "\<exists>c q. GetContract n i (rd_Contract rd) = Inr c \<and> HasKind c KindEvents \<and> buildQuery env n p i = Inr q
    \<and> es_Events r = map eventRecord_of (sort_on ev_ID
         (filter (\<lambda>e. eq_AfterID q = '''' \<or> eq_AfterID q < ev_ID e) (matching_events n q (rd_Rows rd))))
    \<and> es_LatestLedger r = cursorSequence n (rd_Cursor rd)
    \<and> eq_ToLedger q \<noteq> 0 \<and> eq_ToLedger q \<le> es_LatestLedger r
    \<and> (es_LatestLedger r \<le> eq_FromLedger q
       \<or> (\<exists>bf. GetBackfill n i (rd_Walk rd) = Inr bf \<and> CoversKind bf KindEvents
            \<and> (\<forall>s. eq_FromLedger q \<le> s \<longrightarrow> b_NextTo bf < s)))"
proof -
  let ?cur = "cursorSequence n (rd_Cursor rd)"
  obtain c q events hasMore where r: "knownContract env n i (rd_Contract rd) = Inr c" "buildQuery env n p i = Inr q"
    "QueryEvents n q (rd_Rows rd) = (events, hasMore)" "es_Events r = map eventRecord_of events"
    "es_LatestLedger r = ?cur" "es_Coverage r = coverage n c KindEvents q ?cur (rd_Walk rd)"
    "es_ScanStatus r = scanStatus hasMore q (es_Coverage r) ?cur"
    by (rule handleEvents_Inr [OF assms(1)]) simp
  have c: "GetContract n i (rd_Contract rd) = Inr c" "ct_ContractID c = i" using knownContract_Inr [OF r(1)] by simp_all
  have done_: "\<not> hasMore" "co_KindDerived (es_Coverage r)" "eq_ToLedger q \<noteq> 0" "eq_ToLedger q \<le> ?cur"
    "co_IndexedFromLedger (es_Coverage r) \<le> eq_FromLedger q"
    using assms(2) r(7) scanStatus_complete by simp_all
  have rows: "events = sort_on ev_ID (filter (\<lambda>e. eq_AfterID q = '''' \<or> eq_AfterID q < ev_ID e) (matching_events n q (rd_Rows rd)))"
  proof (rule page_whole)
    show "page ev_ID (eq_Limit q) (filter (\<lambda>e. eq_AfterID q = '''' \<or> eq_AfterID q < ev_ID e) (matching_events n q (rd_Rows rd)))
      = (events, False)"
      using r(3) done_(1) by (simp add: QueryEvents_def)
  qed
  note ind = coverage_indexed [OF done_(2,5) [unfolded r(6)], unfolded c(2)]
  have "\<exists>bf. GetBackfill n i (rd_Walk rd) = Inr bf \<and> CoversKind bf KindEvents \<and> (\<forall>s. eq_FromLedger q \<le> s \<longrightarrow> b_NextTo bf < s)"
    if below: "\<not> ?cur \<le> eq_FromLedger q"
  proof -
    obtain bf where bf: "GetBackfill n i (rd_Walk rd) = Inr bf" "CoversKind bf KindEvents" "b_NextTo bf + 1 \<le> eq_FromLedger q"
      using ind below by blast
    have "uint (b_NextTo bf + 1) = uint (b_NextTo bf) + 1" using assms(3) [OF bf(1)] by (rule u32_Suc)
    then have "b_NextTo bf < s" if "eq_FromLedger q \<le> s" for s using bf(3) that by (simp add: u32_le_iff u32_less_iff)
    then show ?thesis using bf by blast
  qed
  then show ?thesis using c(1) ind r(2,4,5) rows done_(3,4) by auto
qed

text \<open>C27: following the cursors over HTTP loses nothing and repeats nothing. A client that sends a query
  to the events endpoint and then presents each returned cursor while the status is \<open>HAS_MORE\<close> gets
  exactly the matching events, in id order, each once, after at most one page per event.\<close>

theorem following_cursors_reads_all:
  assumes "knownContract env n i d = Inr c" and "buildQuery env n p i = Inr q" "pGet p ''cursor'' = ''''"
    and "\<And>s. isScVal env s \<Longrightarrow> ascii s" "ascii n" "ascii i"
    and "distinct (map event_pk (t_events d))" and "\<forall>r\<in>set (t_events d). ev_ID (snd r) \<noteq> '''' \<and> ascii (ev_ID (snd r))"
    and "length (matching_events n q d) < pages"
  shows "follow env n i d pages p = Some (map eventRecord_of (sort_key ev_ID (matching_events n q d)))"
proof -
  note fresh = buildQuery_fresh [OF assms(2,3,4)]
  have ids: "ev_ID e \<noteq> '''' \<and> mintable (EventsPage n (q\<lparr>eq_AfterID := ev_ID e\<rparr>))" if "e \<in> set (matching_events n q d)" for e
    using that assms(5,6,8) fresh by (auto simp: matching_events_def)
  have "q\<lparr>eq_AfterID := ''''\<rparr> = q" using fresh(2) by simp
  then have "buildQuery env n p i = Inr (q\<lparr>eq_AfterID := ''''\<rparr>)" using assms(2) by simp
  from follow_pages [OF assms(1) fresh(1) _ ids this, of pages]
  have "follow env n i d pages p =
      Some (map eventRecord_of (walk (\<lambda>a. QueryEvents n (q\<lparr>eq_AfterID := a\<rparr>) d) ev_ID pages ''''))"
    using fresh(3) assms(9) by (simp add: limit_ok_def)
  also have "walk (\<lambda>a. QueryEvents n (q\<lparr>eq_AfterID := a\<rparr>) d) ev_ID pages '''' = sort_key ev_ID (matching_events n q d)"
    using assms(7,8,9) fresh(3) by (intro events_walk) (auto simp: limit_ok_def)
  finally show ?thesis .
qed

definition demo_sdk :: sdk where
  "demo_sdk = \<lparr>isAddress = ascii, isScVal = ascii\<rparr>"

definition demo_api_db :: db where
  "demo_api_db = demo_events\<lparr>
     t_contracts := [\<lparr>ct_Network = ''testnet'', ct_ContractID = ''C'', ct_Source = ''api'', ct_Kinds = [KindEvents],
       ct_Classification = None, ct_RegisteredAt = 0\<rparr>],
     t_cursor := [\<lparr>cr_network = ''testnet'', cr_last_sequence = 9, cr_last_hash = ''h''\<rparr>],
     t_backfill := [\<lparr>br_network = ''testnet'', br_contract_id = ''C'', br_target_from = 1, br_next_to = 0, br_done = True,
       br_clamped_at = None, br_covered_kinds = [KindEvents], br_updated_at = 0\<rparr>]\<rparr>"

definition demo_params :: params where
  "demo_params = [''endLedger'' \<mapsto> [''8''], ''limit'' \<mapsto> [''2'']]"

lemma demo_known: "knownContract demo_sdk ''testnet'' ''C'' demo_api_db = Inr \<lparr>ct_Network = ''testnet'', ct_ContractID = ''C'',
    ct_Source = ''api'', ct_Kinds = [KindEvents], ct_Classification = None, ct_RegisteredAt = 0\<rparr>"
  by (simp add: knownContract_def demo_sdk_def GetContract_def demo_api_db_def is_contract_def code_def)

definition demo_api_query :: EventQuery where
  "demo_api_query = \<lparr>eq_ContractID = ''C'', eq_Topics = [None, None, None, None], eq_FromLedger = 1, eq_ToLedger = 8,
     eq_AfterID = '''', eq_Limit = 2\<rparr>"

lemma demo_built:
  "buildQuery demo_sdk ''testnet'' demo_params ''C'' = Inr demo_api_query"
  "buildQuery demo_sdk ''testnet'' (demo_params(''limit'' := None)) ''C'' = Inr (demo_api_query\<lparr>eq_Limit := 100\<rparr>)"
proof -
  have "digit_char 0 = CHR ''0''" "digit_char 1 = CHR ''1''" "digit_char 2 = CHR ''2''" "digit_char 3 = CHR ''3''"
    by (rule iffD1 [OF code_inject], simp add: digit_char_def code_char_of code_def)+
  then have "dec 0 = ''0''" "dec (Suc 0) = ''1''" "dec 2 = ''2''" "dec 3 = ''3''" by (subst dec.simps, simp)+
  moreover have "ParseUint 4294967295 ''8'' = Some 8" "ParseInt ''2'' = Some 2"
    by (simp_all add: ParseUint_def ParseInt_def digits_def is_digit_def code_def undec_def digit_val_def)
  ultimately show "buildQuery demo_sdk ''testnet'' demo_params ''C'' = Inr demo_api_query"
    "buildQuery demo_sdk ''testnet'' (demo_params(''limit'' := None)) ''C'' = Inr (demo_api_query\<lparr>eq_Limit := 100\<rparr>)"
    by (simp_all add: buildQuery_def demo_params_def pGet_def ledgerParam_def limitParam_def maxLimit_def defaultLimit_def topicParam_def demo_api_query_def)
qed

lemma demo_api_rows:
  "matching_events ''testnet'' (demo_api_query\<lparr>eq_Limit := l\<rparr>) demo_api_db = [demo_event ''3'' 7, demo_event ''1'' 5, demo_event ''2'' 6]"
proof -
  have "topics_match [None, None, None, None] ts" for ts
    by (auto simp: topics_match_def list_all_iff nth_Cons' split: option.splits)
  then show ?thesis
    by (simp add: matching_events_def demo_api_query_def demo_api_db_def demo_events_def demo_event_def ledger_between_def)
qed

lemma demo_sorted: "map ev_ID (sort_key ev_ID [demo_event ''3'' 7, demo_event ''1'' 5, demo_event ''2'' 6]) = [''1'', ''2'', ''3'']"
  by (simp add: demo_event_def)

lemma demo_ids: "map er_ID (map eventRecord_of es) = map ev_ID es"
  by (simp add: eventRecord_of_def)

theorem following_cursors_reads_all_witness:
  "\<exists>es. follow demo_sdk ''testnet'' ''C'' demo_api_db 4 demo_params = Some es \<and> map er_ID es = [''1'', ''2'', ''3'']"
proof -
  have "demo_api_query\<lparr>eq_Limit := 2\<rparr> = demo_api_query" by (simp add: demo_api_query_def)
  then have rows: "matching_events ''testnet'' demo_api_query demo_api_db = [demo_event ''3'' 7, demo_event ''1'' 5, demo_event ''2'' 6]"
    using demo_api_rows [of 2] by simp
  have "pGet demo_params ''cursor'' = []" by (simp add: demo_params_def pGet_def)
  from following_cursors_reads_all [OF demo_known demo_built(1) this, of 4]
  have "follow demo_sdk ''testnet'' ''C'' demo_api_db 4 demo_params =
      Some (map eventRecord_of (sort_key ev_ID [demo_event ''3'' 7, demo_event ''1'' 5, demo_event ''2'' 6]))"
    unfolding rows by (simp add: demo_sdk_def demo_api_db_def demo_events_def demo_event_def event_pk_def code_def)
  then show ?thesis using demo_sorted demo_ids by metis
qed

theorem complete_means_complete_witness:
  "\<exists>r. handleEvents demo_sdk ''testnet'' (demo_params(''limit'' := None)) ''C'' (quiet demo_api_db) = Inr r
    \<and> es_ScanStatus r = scanComplete \<and> map er_ID (es_Events r) = [''1'', ''2'', ''3'']"
proof -
  let ?p = "demo_params(''limit'' := None)" and ?q = "demo_api_query\<lparr>eq_Limit := 100\<rparr>"
  let ?rows = "[demo_event ''3'' 7, demo_event ''1'' 5, demo_event ''2'' 6]"
  have start: "eq_AfterID ?q = []" "eq_Limit ?q = 100" by (simp_all add: demo_api_query_def)
  have page: "QueryEvents ''testnet'' ?q demo_api_db = (sort_key ev_ID ?rows, False)"
    by (simp add: QueryEvents_def demo_api_rows start page_def)
  have cur: "cursorSequence ''testnet'' demo_api_db = 9"
    by (simp add: cursorSequence_def LoadCursor_def demo_api_db_def)
  have bf: "GetBackfill ''testnet'' ''C'' demo_api_db = Inr \<lparr>b_ContractID = ''C'', b_TargetFrom = 1, b_NextTo = 0,
      b_Done = True, b_ClampedAt = None, b_CoveredKinds = [KindEvents]\<rparr>"
    by (simp add: GetBackfill_def demo_api_db_def is_backfill_def scan_backfill_def)
  have rd: "rd_Contract (quiet demo_api_db) = demo_api_db" "rd_Rows (quiet demo_api_db) = demo_api_db"
    "rd_Cursor (quiet demo_api_db) = demo_api_db" "rd_Walk (quiet demo_api_db) = demo_api_db" by (simp_all add: quiet_def)
  obtain r where r: "handleEvents demo_sdk ''testnet'' ?p ''C'' (quiet demo_api_db) = Inr r" "es_ScanStatus r = scanComplete"
    "buildQuery demo_sdk ''testnet'' ?p ''C'' = Inr ?q"
    using demo_built(2) by (simp add: handleEvents_def rd demo_known page cur Let_def scanStatus_complete coverage_def bf HasKind_def
        CoversKind_def) (simp add: demo_api_query_def)
  have "(0::u32) < maxU32" by (simp add: u32_less_iff)
  with complete_means_complete [OF r(1,2)] bf r(3)
  have "es_Events r = map eventRecord_of (sort_key ev_ID ?rows)" by (auto simp: start demo_api_rows rd)
  then show ?thesis using r(1,2) demo_sorted demo_ids by metis
qed

section \<open>Where \<open>COMPLETE\<close> says too much\<close>

text \<open>The query for one ledger, given both ends.\<close>

definition one_ledger :: "u32 \<Rightarrow> EventQuery" where
  "one_ledger s = \<lparr>eq_ContractID = ''C'', eq_Topics = [None, None, None, None], eq_FromLedger = s, eq_ToLedger = s,
     eq_AfterID = '''', eq_Limit = 100\<rparr>"

definition one_ledger_params :: params where
  "one_ledger_params = [''startLedger'' \<mapsto> [''9''], ''endLedger'' \<mapsto> [''9'']]"

lemma one_ledger_built: "buildQuery demo_sdk ''testnet'' one_ledger_params ''C'' = Inr (one_ledger 9)"
proof -
  have "digit_char 0 = CHR ''0''" "digit_char 1 = CHR ''1''" "digit_char 2 = CHR ''2''" "digit_char 3 = CHR ''3''"
    by (rule iffD1 [OF code_inject], simp add: digit_char_def code_char_of code_def)+
  then have "dec 0 = ''0''" "dec (Suc 0) = ''1''" "dec 2 = ''2''" "dec 3 = ''3''" by (subst dec.simps, simp)+
  moreover have "ParseUint 4294967295 ''9'' = Some 9"
    by (simp add: ParseUint_def digits_def is_digit_def code_def undec_def digit_val_def)
  ultimately show ?thesis
    by (simp add: buildQuery_def one_ledger_params_def pGet_def ledgerParam_def limitParam_def defaultLimit_def topicParam_def
        one_ledger_def)
qed

text \<open>The rows are read before the cursor. A ledger that is committed between the two reads is below the
  cursor of the response and missing from its rows, so a request for it is answered empty and complete
  although its event is stored.\<close>

definition before_commit :: db where
  "before_commit = demo_api_db\<lparr>t_cursor := [\<lparr>cr_network = ''testnet'', cr_last_sequence = 8, cr_last_hash = ''g''\<rparr>]\<rparr>"

definition ninth_ledger :: LedgerRecord where
  "ninth_ledger = \<lparr>lr_Sequence = 9, lr_Hash = ''h'', lr_PreviousHash = ''g'', lr_ClosedAt = 0\<rparr>"

lemma ninth_ledger_rows:
  "persist_rows ''testnet'' (no_rows\<lparr>pa_events := [demo_event ''4'' 9]\<rparr>) before_commit
    = Inr (before_commit\<lparr>t_events := t_events demo_api_db @ [(''testnet'', demo_event ''4'' 9)]\<rparr>)"
proof -
  have "insertEvents ''testnet'' [demo_event ''4'' 9] before_commit
    = Inr (before_commit\<lparr>t_events := t_events demo_api_db @ [(''testnet'', demo_event ''4'' 9)]\<rparr>)"
    by (simp add: insertEvents_def insert_ignore_def event_key_def event_pk_def before_commit_def demo_api_db_def demo_events_def
        demo_event_def)
  then show ?thesis
    by (simp add: persist_rows_def no_rows_def insertStateChanges_def insertTransfers_def insertTrustlineChanges_def
        insertMovements_def applyStateEntries_def applyTrustlineEntries_def collapse_def)
qed

lemma ninth_ledger_commits:
  "\<exists>after. CommitLedger ''testnet'' ninth_ledger (no_rows\<lparr>pa_events := [demo_event ''4'' 9]\<rparr>) before_commit = Inr after
    \<and> t_events after = t_events demo_api_db @ [(''testnet'', demo_event ''4'' 9)]
    \<and> cursorSequence ''testnet'' after = 9 \<and> t_backfill after = t_backfill demo_api_db"
proof -
  have "advance_cursor ''testnet'' ninth_ledger (t_cursor before_commit)
      = [\<lparr>cr_network = ''testnet'', cr_last_sequence = 9, cr_last_hash = ''h''\<rparr>]"
    by (simp add: advance_cursor_def ninth_ledger_def before_commit_def sql_update_def)
  then show ?thesis
    by (simp add: CommitLedger_def ninth_ledger_rows cursorSequence_def LoadCursor_def) (simp add: before_commit_def)
qed

lemma any_topics: "topics_match [None, None, None, None] ts"
  by (auto simp: topics_match_def list_all_iff nth_Cons' split: option.splits)

lemma ninth_ledger_empty:
  assumes "t_events d = t_events demo_api_db"
  shows "QueryEvents ''testnet'' (one_ledger 9) d = ([], False)"
  using assms
  by (simp add: QueryEvents_def matching_events_def one_ledger_def demo_api_db_def demo_events_def demo_event_def ledger_between_def page_def)

lemma demo_known_rows:
  "t_contracts d = t_contracts demo_api_db \<Longrightarrow> knownContract demo_sdk ''testnet'' ''C'' d = knownContract demo_sdk ''testnet'' ''C'' demo_api_db"
  by (simp add: knownContract_def GetContract_def)

theorem complete_misses_a_ledger:
  "\<exists>after r. CommitLedger ''testnet'' ninth_ledger (no_rows\<lparr>pa_events := [demo_event ''4'' 9]\<rparr>) before_commit = Inr after
    \<and> handleEvents demo_sdk ''testnet'' one_ledger_params ''C''
        \<lparr>rd_Contract = before_commit, rd_Rows = before_commit, rd_Cursor = after, rd_Walk = after\<rparr> = Inr r
    \<and> es_ScanStatus r = scanComplete \<and> es_Events r = []
    \<and> matching_events ''testnet'' (one_ledger 9) after = [demo_event ''4'' 9]"
proof -
  obtain after where after: "CommitLedger ''testnet'' ninth_ledger (no_rows\<lparr>pa_events := [demo_event ''4'' 9]\<rparr>) before_commit = Inr after"
    "t_events after = t_events demo_api_db @ [(''testnet'', demo_event ''4'' 9)]"
    "cursorSequence ''testnet'' after = 9" "t_backfill after = t_backfill demo_api_db" using ninth_ledger_commits by blast
  have known: "knownContract demo_sdk ''testnet'' ''C'' before_commit = knownContract demo_sdk ''testnet'' ''C'' demo_api_db"
    by (rule demo_known_rows) (simp add: before_commit_def)
  have page: "QueryEvents ''testnet'' (one_ledger 9) before_commit = ([], False)"
    by (rule ninth_ledger_empty) (simp add: before_commit_def)
  have bf: "GetBackfill ''testnet'' ''C'' after = Inr \<lparr>b_ContractID = ''C'', b_TargetFrom = 1, b_NextTo = 0,
      b_Done = True, b_ClampedAt = None, b_CoveredKinds = [KindEvents]\<rparr>"
    by (simp add: GetBackfill_def after(4) demo_api_db_def is_backfill_def scan_backfill_def)
  have "matching_events ''testnet'' (one_ledger 9) after = [demo_event ''4'' 9]"
    by (simp add: matching_events_def after(2) one_ledger_def any_topics demo_api_db_def demo_events_def demo_event_def ledger_between_def)
  then show ?thesis
    using after(1)
    by (simp add: handleEvents_def known demo_known one_ledger_built page after(3) Let_def scanStatus_complete coverage_def bf
        HasKind_def CoversKind_def) (simp add: one_ledger_def)
qed

text \<open>Without a walk that covers the kind, coverage vouches for the ledger of the live cursor all the same: a
  registration whose walk was never planned is answered complete for it.\<close>

theorem complete_without_a_walk:
  "\<exists>r. handleEvents demo_sdk ''testnet'' one_ledger_params ''C'' (quiet (demo_api_db\<lparr>t_backfill := []\<rparr>)) = Inr r
    \<and> es_ScanStatus r = scanComplete \<and> es_Events r = []"
proof -
  let ?d = "demo_api_db\<lparr>t_backfill := []\<rparr>"
  have known: "knownContract demo_sdk ''testnet'' ''C'' ?d = knownContract demo_sdk ''testnet'' ''C'' demo_api_db"
    by (rule demo_known_rows) simp
  have page: "QueryEvents ''testnet'' (one_ledger 9) ?d = ([], False)" by (rule ninth_ledger_empty) simp
  have bf: "GetBackfill ''testnet'' ''C'' ?d = Inl ErrNoBackfill" by (simp add: GetBackfill_def)
  have cur: "cursorSequence ''testnet'' ?d = 9" by (simp add: cursorSequence_def LoadCursor_def demo_api_db_def)
  show ?thesis
    by (simp add: handleEvents_def quiet_def known demo_known one_ledger_built page cur Let_def scanStatus_complete coverage_def bf
        HasKind_def) (simp add: one_ledger_def)
qed

end
