(* ===== verification/Api_Rows.thy ===== *)
theory Api_Rows
  imports Api
begin

text \<open>
  The other public endpoints: contract state (\<^verbatim>\<open>internal/api/state.go\<close>), transfers
  (\<^verbatim>\<open>transfers.go\<close>), trustlines (\<^verbatim>\<open>trustlines.go\<close>) and movements (\<^verbatim>\<open>movements.go\<close>). Each handler
  takes its query from the cursor or from the parameters, reads one page, and answers with the cursor
  of the next one. The responses that carry a scan status share one record, the snapshots another; a
  row is shown as the record of its endpoint.
\<close>

section \<open>Responses\<close>

record 'r history_response =
  hp_Rows :: "'r list"
  hp_Cursor :: string
  hp_ScanStatus :: string
  hp_Coverage :: coverageInfo
  hp_LatestLedger :: u32

record 'r snapshot_response =
  np_Rows :: "'r list"
  np_Cursor :: string
  np_Coverage :: coverageInfo
  np_LatestLedger :: u32

text \<open>\<open>startLedger\<close> and \<open>endLedger\<close> of the history endpoints; an end below the start is an error of its
  own parameter.\<close>

definition ledgerBounds :: "params \<Rightarrow> http_error + u32 \<times> u32" where
  "ledgerBounds p =
     andThen (ledgerParam ''startLedger'' p 1) (\<lambda>start.
     andThen (ledgerParam ''endLedger'' p 0) (\<lambda>stop.
       if stop \<noteq> 0 \<and> stop < start then Inl (BadRequest (BadParameter ''endLedger'' (pGet p ''endLedger''))) else Inr (start, stop)))"

definition oneOf :: "string \<Rightarrow> string list \<Rightarrow> params \<Rightarrow> http_error + string" where
  "oneOf name allowed p =
     (let v = pGet p name in
      if v = '''' \<or> v \<in> set allowed then Inr v else Inl (BadRequest (BadParameter name v)))"

text \<open>What follows the query in every history handler.\<close>

definition answer_history ::
  "string \<Rightarrow> Contract \<Rightarrow> string \<Rightarrow> u32 \<Rightarrow> u32 \<Rightarrow> 'r list \<Rightarrow> bool \<Rightarrow> string \<Rightarrow> reads \<Rightarrow> 'r history_response"
where
  "answer_history network contract kind start stop rows hasMore cursor rd =
     (let cursorSeq = cursorSequence network (rd_Cursor rd);
          q = ledger_query (ct_ContractID contract) start stop;
          cov = coverage network contract kind q cursorSeq (rd_Walk rd)
      in \<lparr>hp_Rows = rows, hp_Cursor = cursor, hp_ScanStatus = scanStatus hasMore q cov cursorSeq,
          hp_Coverage = cov, hp_LatestLedger = cursorSeq\<rparr>)"

definition answer_snapshot ::
  "string \<Rightarrow> Contract \<Rightarrow> string \<Rightarrow> 'r list \<Rightarrow> string \<Rightarrow> reads \<Rightarrow> 'r snapshot_response"
where
  "answer_snapshot network contract kind rows cursor rd =
     (let cursorSeq = cursorSequence network (rd_Cursor rd) in
      \<lparr>np_Rows = rows, np_Cursor = cursor,
       np_Coverage = coverage network contract kind (ledger_query (ct_ContractID contract) 1 0) cursorSeq (rd_Walk rd),
       np_LatestLedger = cursorSeq\<rparr>)"

section \<open>State\<close>

record stateEntryRecord =
  ser_Key :: string
  ser_Durability :: string
  ser_Value :: string
  ser_LastModifiedLedger :: u32
  ser_ClosedAt :: int

definition stateEntryRecord_of :: "StateEntry \<Rightarrow> stateEntryRecord" where
  "stateEntryRecord_of e =
     \<lparr>ser_Key = se_KeyXDR e, ser_Durability = se_Durability e, ser_Value = se_ValueXDR e,
      ser_LastModifiedLedger = se_LastLedger e, ser_ClosedAt = se_ClosedAt e\<rparr>"

definition stateSnapshotQuery :: "sdk \<Rightarrow> string \<Rightarrow> params \<Rightarrow> string \<Rightarrow> http_error + StateQuery" where
  "stateSnapshotQuery env network p contractID =
     (let cursor = pGet p ''cursor'' in
      if cursor \<noteq> '''' then
        andThen (banned_with_cursor [''key'', ''limit''] p) (\<lambda>_. from_cursor (decodeStateCursor network contractID kindSnapshot cursor))
      else andThen (keyParam env (pGet p ''key'')) (\<lambda>key.
           andThen (limitParam (pGet p ''limit'')) (\<lambda>limit.
             Inr \<lparr>sq_ContractID = contractID, sq_KeyXDR = key, sq_FromLedger = 0, sq_ToLedger = 0, sq_AfterID = '''',
                  sq_AfterKey = '''', sq_AfterDurability = '''', sq_Limit = limit\<rparr>)))"

definition handleStateSnapshot ::
  "sdk \<Rightarrow> string \<Rightarrow> params \<Rightarrow> string \<Rightarrow> reads \<Rightarrow> http_error + stateEntryRecord snapshot_response"
where
  "handleStateSnapshot env network p pathID rd =
     andThen (knownContract env network pathID (rd_Contract rd)) (\<lambda>contract.
     andThen (stateSnapshotQuery env network p (ct_ContractID contract)) (\<lambda>q.
       let (entries, hasMore) = QueryStateEntries network q (rd_Rows rd);
           cursor = (if hasMore \<and> entries \<noteq> []
                     then encodeStateCursor network kindSnapshot
                       (q\<lparr>sq_AfterKey := se_KeyXDR (last entries), sq_AfterDurability := se_Durability (last entries)\<rparr>)
                     else '''')
       in Inr (answer_snapshot network contract KindState (map stateEntryRecord_of entries) cursor rd)))"

record stateChangeRecord =
  scr_ID :: string
  scr_Ledger :: u32
  scr_LedgerClosedAt :: int
  scr_ContractID :: string
  scr_Key :: string
  scr_Durability :: string
  scr_ChangeType :: string
  scr_Pre :: string
  scr_Post :: string
  scr_TxHash :: string
  scr_TxIndex :: int
  scr_OpIndex :: int

definition stateChangeRecord_of :: "StateChange \<Rightarrow> stateChangeRecord" where
  "stateChangeRecord_of c =
     \<lparr>scr_ID = sc_ID c, scr_Ledger = sc_LedgerSequence c, scr_LedgerClosedAt = sc_ClosedAt c, scr_ContractID = sc_ContractID c,
      scr_Key = sc_KeyXDR c, scr_Durability = sc_Durability c, scr_ChangeType = sc_ChangeType c, scr_Pre = sc_PreXDR c,
      scr_Post = sc_PostXDR c, scr_TxHash = sc_TxHash c, scr_TxIndex = sc_TxIndex c, scr_OpIndex = sc_OpIndex c\<rparr>"

definition stateHistoryQuery :: "sdk \<Rightarrow> string \<Rightarrow> params \<Rightarrow> string \<Rightarrow> http_error + StateQuery" where
  "stateHistoryQuery env network p contractID =
     (let cursor = pGet p ''cursor'' in
      if cursor \<noteq> '''' then
        andThen (banned_with_cursor [''key'', ''limit'', ''startLedger'', ''endLedger''] p)
          (\<lambda>_. from_cursor (decodeStateCursor network contractID kindHistory cursor))
      else andThen (keyParam env (pGet p ''key'')) (\<lambda>key.
           andThen (limitParam (pGet p ''limit'')) (\<lambda>limit.
           andThen (ledgerBounds p) (\<lambda>(start, stop).
             Inr \<lparr>sq_ContractID = contractID, sq_KeyXDR = key, sq_FromLedger = start, sq_ToLedger = stop, sq_AfterID = '''',
                  sq_AfterKey = '''', sq_AfterDurability = '''', sq_Limit = limit\<rparr>))))"

definition handleStateHistory ::
  "sdk \<Rightarrow> string \<Rightarrow> params \<Rightarrow> string \<Rightarrow> reads \<Rightarrow> http_error + stateChangeRecord history_response"
where
  "handleStateHistory env network p pathID rd =
     andThen (knownContract env network pathID (rd_Contract rd)) (\<lambda>contract.
     andThen (stateHistoryQuery env network p (ct_ContractID contract)) (\<lambda>q.
       let (changes, hasMore) = QueryStateChanges network q (rd_Rows rd);
           q = (if changes \<noteq> [] then q\<lparr>sq_AfterID := sc_ID (last changes)\<rparr> else q)
       in Inr (answer_history network contract KindState (sq_FromLedger q) (sq_ToLedger q) (map stateChangeRecord_of changes)
                 hasMore (encodeStateCursor network kindHistory q) rd)))"

section \<open>Transfers\<close>

record transferRecord =
  xr_ID :: string
  xr_Ledger :: u32
  xr_LedgerClosedAt :: int
  xr_ContractID :: string
  xr_TransferType :: string
  xr_From :: string
  xr_To :: string
  xr_ToMuxedID :: string
  xr_Amount :: string
  xr_Asset :: string
  xr_TxHash :: string
  xr_TxIndex :: int
  xr_OpIndex :: int

definition transferRecord_of :: "Transfer \<Rightarrow> transferRecord" where
  "transferRecord_of t =
     \<lparr>xr_ID = tr_ID t, xr_Ledger = tr_LedgerSequence t, xr_LedgerClosedAt = tr_ClosedAt t, xr_ContractID = tr_ContractID t,
      xr_TransferType = tr_TransferType t, xr_From = tr_FromAddress t, xr_To = tr_ToAddress t, xr_ToMuxedID = tr_ToMuxedID t,
      xr_Amount = tr_Amount t, xr_Asset = tr_Asset t, xr_TxHash = tr_TxHash t, xr_TxIndex = tr_TxIndex t,
      xr_OpIndex = tr_OpIndex t\<rparr>"

definition TransferTypes :: "string list" where
  "TransferTypes = [''transfer'', ''mint'', ''burn'', ''clawback'']"

definition transfersQuery :: "string \<Rightarrow> params \<Rightarrow> string \<Rightarrow> http_error + TransferQuery" where
  "transfersQuery network p contractID =
     (let cursor = pGet p ''cursor'' in
      if cursor \<noteq> '''' then
        andThen (banned_with_cursor [''account'', ''from'', ''to'', ''type'', ''limit'', ''startLedger'', ''endLedger''] p)
          (\<lambda>_. from_cursor (decodeTransfersCursor network contractID cursor))
      else let account = pGet p ''account''; sender = pGet p ''from''; recipient = pGet p ''to'' in
           if account \<noteq> '''' \<and> (sender \<noteq> '''' \<or> recipient \<noteq> '''') then Inl (BadRequest AccountWithSides)
           else andThen (oneOf ''type'' TransferTypes p) (\<lambda>t.
                andThen (limitParam (pGet p ''limit'')) (\<lambda>limit.
                andThen (ledgerBounds p) (\<lambda>(start, stop).
                  Inr \<lparr>tq_ContractID = contractID, tq_Account = account, tq_From = sender, tq_To = recipient, tq_TransferType = t,
                       tq_FromLedger = start, tq_ToLedger = stop, tq_AfterID = '''', tq_Limit = limit\<rparr>))))"

definition handleTransfers ::
  "sdk \<Rightarrow> string \<Rightarrow> params \<Rightarrow> string \<Rightarrow> reads \<Rightarrow> http_error + transferRecord history_response"
where
  "handleTransfers env network p pathID rd =
     andThen (knownContract env network pathID (rd_Contract rd)) (\<lambda>contract.
     andThen (transfersQuery network p (ct_ContractID contract)) (\<lambda>q.
       let (rows, hasMore) = QueryTransfers network q (rd_Rows rd);
           q = (if rows \<noteq> [] then q\<lparr>tq_AfterID := tr_ID (last rows)\<rparr> else q)
       in Inr (answer_history network contract KindTransfers (tq_FromLedger q) (tq_ToLedger q) (map transferRecord_of rows)
                 hasMore (encodeTransfersCursor network q) rd)))"

section \<open>Trustlines\<close>

definition int64String :: "int option \<Rightarrow> string" where
  "int64String v = (case v of None \<Rightarrow> '''' | Some i \<Rightarrow> dec_int i)"

record trustlineEntryRecord =
  ler_AccountID :: string
  ler_Asset :: string
  ler_Balance :: string
  ler_Limit :: string
  ler_Flags :: u32
  ler_LastModifiedLedger :: u32
  ler_ClosedAt :: int

definition trustlineEntryRecord_of :: "TrustlineEntry \<Rightarrow> trustlineEntryRecord" where
  "trustlineEntryRecord_of e =
     \<lparr>ler_AccountID = te_AccountID e, ler_Asset = te_Asset e, ler_Balance = int64String (te_Balance e),
      ler_Limit = int64String (te_Limit e), ler_Flags = te_Flags e, ler_LastModifiedLedger = te_LastLedger e,
      ler_ClosedAt = te_ClosedAt e\<rparr>"

definition trustlineSnapshotQuery :: "string \<Rightarrow> params \<Rightarrow> string \<Rightarrow> http_error + TrustlineQuery" where
  "trustlineSnapshotQuery network p contractID =
     (let cursor = pGet p ''cursor'' in
      if cursor \<noteq> '''' then
        andThen (banned_with_cursor [''account'', ''limit''] p)
          (\<lambda>_. from_cursor (decodeTrustlinesCursor network contractID kindTrustlines cursor))
      else andThen (limitParam (pGet p ''limit'')) (\<lambda>limit.
             Inr \<lparr>lq_ContractID = contractID, lq_AccountID = pGet p ''account'', lq_FromLedger = 0, lq_ToLedger = 0,
                  lq_AfterID = '''', lq_AfterAccount = '''', lq_Limit = limit\<rparr>))"

definition handleTrustlineSnapshot ::
  "sdk \<Rightarrow> string \<Rightarrow> params \<Rightarrow> string \<Rightarrow> reads \<Rightarrow> http_error + trustlineEntryRecord snapshot_response"
where
  "handleTrustlineSnapshot env network p pathID rd =
     andThen (knownContract env network pathID (rd_Contract rd)) (\<lambda>contract.
     andThen (trustlineSnapshotQuery network p (ct_ContractID contract)) (\<lambda>q.
       let (entries, hasMore) = QueryTrustlineEntries network q (rd_Rows rd);
           cursor = (if hasMore \<and> entries \<noteq> []
                     then encodeTrustlinesCursor network kindTrustlines (q\<lparr>lq_AfterAccount := te_AccountID (last entries)\<rparr>)
                     else '''')
       in Inr (answer_snapshot network contract KindTrustlines (map trustlineEntryRecord_of entries) cursor rd)))"

record trustlineChangeRecord =
  lcr_ID :: string
  lcr_Ledger :: u32
  lcr_LedgerClosedAt :: int
  lcr_ContractID :: string
  lcr_AccountID :: string
  lcr_Asset :: string
  lcr_ChangeType :: string
  lcr_PreBalance :: string
  lcr_PostBalance :: string
  lcr_PreLimit :: string
  lcr_PostLimit :: string
  lcr_Flags :: u32
  lcr_TxHash :: string
  lcr_TxIndex :: int
  lcr_OpIndex :: int

definition trustlineChangeRecord_of :: "TrustlineChange \<Rightarrow> trustlineChangeRecord" where
  "trustlineChangeRecord_of c =
     \<lparr>lcr_ID = tc_ID c, lcr_Ledger = tc_LedgerSequence c, lcr_LedgerClosedAt = tc_ClosedAt c, lcr_ContractID = tc_ContractID c,
      lcr_AccountID = tc_AccountID c, lcr_Asset = tc_Asset c, lcr_ChangeType = tc_ChangeType c,
      lcr_PreBalance = int64String (tc_PreBalance c), lcr_PostBalance = int64String (tc_PostBalance c),
      lcr_PreLimit = int64String (tc_PreLimit c), lcr_PostLimit = int64String (tc_PostLimit c), lcr_Flags = tc_Flags c,
      lcr_TxHash = tc_TxHash c, lcr_TxIndex = tc_TxIndex c, lcr_OpIndex = tc_OpIndex c\<rparr>"

definition trustlineHistoryQuery :: "string \<Rightarrow> params \<Rightarrow> string \<Rightarrow> http_error + TrustlineQuery" where
  "trustlineHistoryQuery network p contractID =
     (let cursor = pGet p ''cursor'' in
      if cursor \<noteq> '''' then
        andThen (banned_with_cursor [''account'', ''limit'', ''startLedger'', ''endLedger''] p)
          (\<lambda>_. from_cursor (decodeTrustlinesCursor network contractID kindTrustlineHistory cursor))
      else andThen (limitParam (pGet p ''limit'')) (\<lambda>limit.
           andThen (ledgerBounds p) (\<lambda>(start, stop).
             Inr \<lparr>lq_ContractID = contractID, lq_AccountID = pGet p ''account'', lq_FromLedger = start, lq_ToLedger = stop,
                  lq_AfterID = '''', lq_AfterAccount = '''', lq_Limit = limit\<rparr>)))"

definition handleTrustlineHistory ::
  "sdk \<Rightarrow> string \<Rightarrow> params \<Rightarrow> string \<Rightarrow> reads \<Rightarrow> http_error + trustlineChangeRecord history_response"
where
  "handleTrustlineHistory env network p pathID rd =
     andThen (knownContract env network pathID (rd_Contract rd)) (\<lambda>contract.
     andThen (trustlineHistoryQuery network p (ct_ContractID contract)) (\<lambda>q.
       let (changes, hasMore) = QueryTrustlineChanges network q (rd_Rows rd);
           q = (if changes \<noteq> [] then q\<lparr>lq_AfterID := tc_ID (last changes)\<rparr> else q)
       in Inr (answer_history network contract KindTrustlines (lq_FromLedger q) (lq_ToLedger q)
                 (map trustlineChangeRecord_of changes) hasMore (encodeTrustlinesCursor network kindTrustlineHistory q) rd)))"

section \<open>Movements\<close>

record movementRecord =
  mvr_ID :: string
  mvr_Role :: string
  mvr_TokenContractID :: string
  mvr_TransferType :: string
  mvr_Counterparty :: string
  mvr_Amount :: string
  mvr_RawXDR :: string
  mvr_Ledger :: u32
  mvr_LedgerClosedAt :: int

definition movementRecord_of :: "Movement \<Rightarrow> movementRecord" where
  "movementRecord_of m =
     \<lparr>mvr_ID = mv_TransferID m, mvr_Role = mv_Role m, mvr_TokenContractID = mv_TokenContractID m,
      mvr_TransferType = mv_TransferType m, mvr_Counterparty = mv_Counterparty m, mvr_Amount = mv_Amount m,
      mvr_RawXDR = mv_RawXDR m, mvr_Ledger = mv_LedgerSequence m, mvr_LedgerClosedAt = mv_ClosedAt m\<rparr>"

definition movementsQuery :: "sdk \<Rightarrow> string \<Rightarrow> params \<Rightarrow> string \<Rightarrow> http_error + MovementQuery" where
  "movementsQuery env network p contractID =
     (let cursor = pGet p ''cursor'' in
      if cursor \<noteq> '''' then
        andThen (banned_with_cursor [''role'', ''token'', ''type'', ''startLedger'', ''endLedger'', ''limit''] p)
          (\<lambda>_. from_cursor (decodeMovementsCursor network contractID cursor))
      else andThen (limitParam (pGet p ''limit'')) (\<lambda>limit.
           andThen (oneOf ''role'' [''sender'', ''recipient''] p) (\<lambda>role.
           andThen (oneOf ''type'' TransferTypes p) (\<lambda>t.
             let token = pGet p ''token'' in
             if token \<noteq> '''' \<and> \<not> isAddress env token then Inl (BadRequest (BadParameter ''token'' token))
             else andThen (ledgerBounds p) (\<lambda>(start, stop).
               Inr \<lparr>mq_ContractID = contractID, mq_Role = role, mq_Token = token, mq_Type = t, mq_FromLedger = start,
                    mq_ToLedger = stop, mq_AfterID = '''', mq_AfterRole = '''', mq_Limit = limit\<rparr>)))))"

definition handleMovements ::
  "sdk \<Rightarrow> string \<Rightarrow> params \<Rightarrow> string \<Rightarrow> reads \<Rightarrow> http_error + movementRecord history_response"
where
  "handleMovements env network p pathID rd =
     andThen (knownContract env network pathID (rd_Contract rd)) (\<lambda>contract.
     andThen (movementsQuery env network p (ct_ContractID contract)) (\<lambda>q.
       let (rows, hasMore) = QueryMovements network q (rd_Rows rd);
           q = (if rows \<noteq> [] then q\<lparr>mq_AfterID := mv_TransferID (last rows), mq_AfterRole := mv_Role (last rows)\<rparr> else q)
       in Inr (answer_history network contract KindMovements (mq_FromLedger q) (mq_ToLedger q) (map movementRecord_of rows)
                 hasMore (encodeMovementsCursor network q) rd)))"

section \<open>Lemmas\<close>

lemma scanStatus_history: "hp_ScanStatus (answer_history n c kind start stop rows hasMore cursor d) = scanHasMore \<longleftrightarrow> hasMore"
  by (simp add: answer_history_def Let_def scanStatus_more)

lemma answer_history_rows [simp]:
  "hp_Rows (answer_history n c kind start stop rows hasMore cursor d) = rows"
  "hp_Cursor (answer_history n c kind start stop rows hasMore cursor d) = cursor"
  by (simp_all add: answer_history_def Let_def)

text \<open>A client of the movements endpoint that follows the cursors.\<close>

fun follow_movements :: "sdk \<Rightarrow> string \<Rightarrow> string \<Rightarrow> db \<Rightarrow> nat \<Rightarrow> params \<Rightarrow> movementRecord list option" where
  "follow_movements env n i d 0 p = None"
| "follow_movements env n i d (Suc k) p =
     (case handleMovements env n p i (quiet d) of
        Inl _ \<Rightarrow> None
      | Inr r \<Rightarrow>
          if hp_ScanStatus r = scanHasMore
          then map_option (\<lambda>ms. hp_Rows r @ ms) (follow_movements env n i d k [''cursor'' \<mapsto> [hp_Cursor r]])
          else Some (hp_Rows r))"

lemma movementsQuery_cursor:
  assumes "mintable (MovementsPage n q)"
  shows "movementsQuery env n [''cursor'' \<mapsto> [encodeMovementsCursor n q]] (mq_ContractID q) = Inr q"
proof -
  have "decodeMovementsCursor n (mq_ContractID q) (encodeMovementsCursor n q) = Inr q"
    using opens_minted [OF assms, of kindMovements n "mq_ContractID q"] by (auto simp: opens_def kind_defs split: sum.splits)
  moreover have "encodeMovementsCursor n q \<noteq> ''''"
    unfolding encodeMovementsCursor_def movementsCursorPayload_json_def by (rule notI, drule EncodeToString_empty) simp
  ultimately show ?thesis by (simp add: movementsQuery_def pGet_def pHas_def banned_with_cursor_def from_cursor_def)
qed

lemma follow_movement_pages:
  fixes q :: MovementQuery
  defines "at \<equiv> \<lambda>a. q\<lparr>mq_AfterID := fst a, mq_AfterRole := snd a\<rparr>"
  assumes "knownContract env n i d = Inr c" and "mq_ContractID q = i" and "0 < mq_Limit q"
    and "\<And>m. m \<in> set (matching_movements n q d) \<Longrightarrow>
      mv_TransferID m \<noteq> '''' \<and> mintable (MovementsPage n (at (mv_TransferID m, mv_Role m)))"
    and "movementsQuery env n p i = Inr (at a)"
    and "length (filter (\<lambda>m. fst a = '''' \<or> a < (mv_TransferID m, mv_Role m)) (matching_movements n q d)) < k"
  shows "follow_movements env n i d k p = Some (map movementRecord_of
    (walk (\<lambda>a. QueryMovements n (at a) d) (\<lambda>m. (mv_TransferID m, mv_Role m)) k a))"
  using assms(6,7)
proof (induction k arbitrary: p a)
  case (Suc k)
  let ?rows = "matching_movements n q d" and ?key = "\<lambda>m. (mv_TransferID m, mv_Role m)"
  obtain ms hasMore where page: "QueryMovements n (at a) d = (ms, hasMore)" by fastforce
  let ?q = "if ms \<noteq> [] then (at a)\<lparr>mq_AfterID := mv_TransferID (last ms), mq_AfterRole := mv_Role (last ms)\<rparr> else at a"
  have "ct_ContractID c = i" using knownContract_Inr [OF assms(2)] by simp
  then have handled: "handleMovements env n p i (quiet d) = Inr (answer_history n c KindMovements (mq_FromLedger ?q) (mq_ToLedger ?q)
      (map movementRecord_of ms) hasMore (encodeMovementsCursor n ?q) (quiet d))"
    using assms(2) Suc.prems(1) page by (simp add: handleMovements_def quiet_def Let_def)
  show ?case
  proof (cases hasMore)
    case False
    then show ?thesis using handled page by (simp add: scanStatus_history)
  next
    case True
    have pg: "page ?key (mq_Limit q) (filter (\<lambda>m. fst a = '''' \<or> a < ?key m) ?rows) = (ms, True)"
      using page True by (simp add: QueryMovements_def matching_movements_def at_def)
    have "\<forall>m\<in>set ?rows. fst (?key m) \<noteq> ''''" using assms(5) by auto
    note more = page_more [where P = "\<lambda>a. fst a = ''''", OF pg assms(4) this]
    let ?a = "?key (last ms)"
    have q: "?q = at ?a" using more(1) by (simp add: at_def)
    have "movementsQuery env n [''cursor'' \<mapsto> [encodeMovementsCursor n (at ?a)]] (mq_ContractID (at ?a)) = Inr (at ?a)"
      using assms(5) [OF more(2)] by (intro movementsQuery_cursor) simp
    then have "movementsQuery env n [''cursor'' \<mapsto> [encodeMovementsCursor n (at ?a)]] i = Inr (at ?a)"
      using assms(3) by (simp add: at_def)
    moreover have "length (filter (\<lambda>m. fst ?a = '''' \<or> ?a < ?key m) ?rows) < k"
      using more(3) Suc.prems(2) by linarith
    ultimately have "follow_movements env n i d k [''cursor'' \<mapsto> [encodeMovementsCursor n (at ?a)]] =
        Some (map movementRecord_of (walk (\<lambda>a. QueryMovements n (at a) d) ?key k ?a))"
      by (rule Suc.IH)
    then show ?thesis using handled page True more(1) unfolding q by (simp add: scanStatus_history)
  qed
qed simp

lemma movementsQuery_fresh:
  assumes "movementsQuery env n p i = Inr q" and "pGet p ''cursor'' = ''''" and "\<And>s. isAddress env s \<Longrightarrow> ascii s"
  shows "mq_ContractID q = i" "mq_AfterID q = ''''" "mq_AfterRole q = ''''" "limit_ok (mq_Limit q)"
    "list_all ascii [mq_Role q, mq_Token q, mq_Type q]"
proof -
  obtain limit role t start stop where q: "limitParam (pGet p ''limit'') = Inr limit" "oneOf ''role'' [''sender'', ''recipient''] p = Inr role"
    "oneOf ''type'' TransferTypes p = Inr t" "pGet p ''token'' = '''' \<or> isAddress env (pGet p ''token'')"
    "q = \<lparr>mq_ContractID = i, mq_Role = role, mq_Token = pGet p ''token'', mq_Type = t, mq_FromLedger = start,
          mq_ToLedger = stop, mq_AfterID = '''', mq_AfterRole = '''', mq_Limit = limit\<rparr>"
    using assms(1,2) unfolding movementsQuery_def by (auto simp: andThen_Inr Let_def split: if_splits)
  have "ascii role" "ascii t" using q(2,3) by (auto simp: oneOf_def TransferTypes_def Let_def code_def split: if_splits)
  moreover have "ascii (pGet p ''token'')" using q(4) assms(3) by auto
  ultimately show "mq_ContractID q = i" "mq_AfterID q = ''''" "mq_AfterRole q = ''''" "limit_ok (mq_Limit q)"
    "list_all ascii [mq_Role q, mq_Token q, mq_Type q]"
    using q(1,5) limitParam_ok by simp_all
qed

section \<open>Properties\<close>

text \<open>Following the movement cursors reads every movement once. A self-transfer is two movements
  with one id, so the cursor carries id and role; a client that presents each returned cursor while
  the status is \<open>HAS_MORE\<close> gets exactly the matching movements, ordered by id and role.\<close>

theorem following_movement_cursors:
  assumes "knownContract env n i d = Inr c" and "movementsQuery env n p i = Inr q" "pGet p ''cursor'' = ''''"
    and "\<And>s. isAddress env s \<Longrightarrow> ascii s" "ascii n"
    and "distinct (map movement_key (t_movements d))"
    and "\<forall>r\<in>set (t_movements d). mv_TransferID (snd r) \<noteq> '''' \<and> ascii (mv_TransferID (snd r)) \<and> ascii (mv_Role (snd r))"
    and "length (matching_movements n q d) < pages"
  shows "follow_movements env n i d pages p =
    Some (map movementRecord_of (sort_key (\<lambda>m. (mv_TransferID m, mv_Role m)) (matching_movements n q d)))"
proof -
  note fresh = movementsQuery_fresh [OF assms(2,3,4)]
  let ?at = "\<lambda>a. q\<lparr>mq_AfterID := fst a, mq_AfterRole := snd a\<rparr>"
  have "ascii i" using assms(4) knownContract_Inr [OF assms(1)] by blast
  then have ids: "mv_TransferID m \<noteq> '''' \<and> mintable (MovementsPage n (?at (mv_TransferID m, mv_Role m)))"
    if "m \<in> set (matching_movements n q d)" for m
    using that assms(5,7) fresh by (auto simp: matching_movements_def)
  have "?at ('''', '''') = q" using fresh(2,3) by simp
  then have "movementsQuery env n p i = Inr (?at ('''', ''''))" using assms(2) by simp
  from follow_movement_pages [OF assms(1) fresh(1) _ ids this, of pages]
  have "follow_movements env n i d pages p = Some (map movementRecord_of
      (walk (\<lambda>a. QueryMovements n (?at a) d) (\<lambda>m. (mv_TransferID m, mv_Role m)) pages ('''', '''')))"
    using fresh(4) assms(8) by (simp add: limit_ok_def)
  also have "walk (\<lambda>a. QueryMovements n (?at a) d) (\<lambda>m. (mv_TransferID m, mv_Role m)) pages ('''', '''') =
      sort_key (\<lambda>m. (mv_TransferID m, mv_Role m)) (matching_movements n q d)"
    using assms(6,7,8) fresh(4) by (intro QueryMovements_walk) (auto simp: limit_ok_def)
  finally show ?thesis .
qed

theorem following_movement_cursors_witness:
  "\<exists>ms. follow_movements demo_sdk ''testnet'' ''C'' (demo_movements\<lparr>t_contracts := t_contracts demo_api_db\<rparr>) 3 Map.empty = Some ms
    \<and> map mvr_Role ms = [''recipient'', ''sender'']"
proof -
  let ?d = "demo_movements\<lparr>t_contracts := t_contracts demo_api_db\<rparr>"
  let ?q = "demo_movement_query\<lparr>mq_FromLedger := 1, mq_Limit := 100\<rparr>"
  let ?rows = "[demo_movement ''9'' ''recipient'', demo_movement ''9'' ''sender'']"
  have known: "knownContract demo_sdk ''testnet'' ''C'' ?d = knownContract demo_sdk ''testnet'' ''C'' demo_api_db"
    by (simp add: knownContract_def GetContract_def)
  have q: "movementsQuery demo_sdk ''testnet'' Map.empty ''C'' = Inr ?q"
    by (simp add: movementsQuery_def pGet_def limitParam_def defaultLimit_def oneOf_def ledgerBounds_def ledgerParam_def
        demo_movement_query_def)
  have rows: "matching_movements ''testnet'' ?q ?d = ?rows"
    by (simp add: matching_movements_def demo_movement_query_def demo_movements_def demo_movement_def ledger_between_def wildcard_def)
  from following_movement_cursors [OF trans [OF known demo_known] q, of 3]
  have "follow_movements demo_sdk ''testnet'' ''C'' ?d 3 Map.empty =
      Some (map movementRecord_of (sort_key (\<lambda>m. (mv_TransferID m, mv_Role m)) ?rows))"
    unfolding rows
    by (simp add: pGet_def demo_sdk_def demo_movements_def demo_movement_def movement_key_def code_def)
  moreover have "map mvr_Role (map movementRecord_of (sort_key (\<lambda>m. (mv_TransferID m, mv_Role m)) ?rows)) = [''recipient'', ''sender'']"
    by (simp add: movementRecord_of_def demo_movement_def)
  ultimately show ?thesis
    by (intro exI [of _ "map movementRecord_of (sort_key (\<lambda>m. (mv_TransferID m, mv_Role m)) ?rows)"] conjI)
qed

end
