(* ===== verification/Extract.thy ===== *)
theory Extract
  imports Ingest_Scan Json
begin

text \<open>
  \<^verbatim>\<open>internal/extract\<close>: from the meta of one ledger to rows. The XDR values of the Stellar SDK
  are datatypes with the arms this package reads; the pointer behind an arm is an \<open>option\<close>, because
  the SDK's accessors panic on a nil one and the package recovers, transaction by transaction. The SDK's
  encoders and the reader that splits a ledger into transactions are the fields of a \<open>codec\<close>.

  A call returns, fails with an error or panics (\<open>outcome\<close>; the text of an error is never looked
  at). A step on the accumulator is \<open>Inl\<close> the accumulator at the panic or \<open>Inr\<close> the one
  to go on with: what was appended before a panic stays appended.
\<close>

section \<open>XDR values\<close>

datatype 'a outcome = Returns 'a | Fails | Panics

definition bind_outcome :: "'a outcome \<Rightarrow> ('a \<Rightarrow> 'b outcome) \<Rightarrow> 'b outcome" where
  "bind_outcome x f = (case x of Returns a \<Rightarrow> f a | Fails \<Rightarrow> Fails | Panics \<Rightarrow> Panics)"

lemma bind_outcome_simps [simp]:
  "bind_outcome (Returns a) f = f a"
  "bind_outcome Fails f = Fails"
  "bind_outcome Panics f = Panics"
  by (simp_all add: bind_outcome_def)

lemma bind_outcome_Returns: "bind_outcome x f = Returns b \<longleftrightarrow> (\<exists>a. x = Returns a \<and> f a = Returns b)"
  by (cases x) auto

text \<open>Reading an arm whose tag says it is there.\<close>

definition arm :: "'a option \<Rightarrow> 'a outcome" where
  "arm p = (case p of None \<Rightarrow> Panics | Some a \<Rightarrow> Returns a)"

lemma arm_simps [simp]: "arm None = Panics" "arm (Some a) = Returns a"
  by (simp_all add: arm_def)

record scAddress =
  ad_IsContract :: bool
  ad_ContractId :: "string option"
  ad_Other :: string

datatype Int128Parts = Int128Parts (Hi: "64 word") (Lo: "64 word")

datatype scVal =
    ScvAddress "scAddress option"
  | ScvString "string option"
  | ScvSymbol "string option"
  | ScvI128 "Int128Parts option"
  | ScvU64 "64 word option"
  | ScvBytes "string option"
  | ScvMap "(scVal \<times> scVal) list option option"
  | ScvOther string

record eventV0 =
  bo_Topics :: "scVal list"
  bo_Data :: scVal

datatype eventBody = BodyV0 "eventV0 option" | BodyOther int

record contractEvent =
  ce_IsContract :: bool
  ce_ContractId :: "string option"
  ce_Body :: eventBody

datatype durability = Temporary | Persistent

record contractData =
  cd_Contract :: scAddress
  cd_Key :: scVal
  cd_Val :: scVal
  cd_Durability :: durability

datatype trustlineAsset = PoolShare | ClassicAsset string

record trustLine =
  tl_AccountId :: string
  tl_Asset :: trustlineAsset
  tl_Balance :: int
  tl_Limit :: int
  tl_Flags :: u32

datatype entryData = DataContractData "contractData option" | DataTrustline "trustLine option" | DataOther

datatype entryType = EntryContractData | EntryTrustline | EntryOther

datatype changeType = Created | Updated | Removed | Restored | OtherChange int

record change =
  cg_Type :: entryType
  cg_ChangeType :: changeType
  cg_Pre :: "entryData option"
  cg_Post :: "entryData option"
  cg_OperationIndex :: u32

text \<open>A transaction as the SDK's reader hands it over; \<open>None\<close> for the first accessor is a panic.\<close>

record ledgerTx =
  tx_Index :: u32
  tx_Hash :: string
  tx_Successful :: "bool option"
  tx_Events :: "contractEvent list list outcome"
  tx_Changes :: "change list outcome"

record 'l codec =
  x_reads :: "string \<Rightarrow> 'l \<Rightarrow> ledgerTx option list option"
  x_LedgerSeq :: "'l \<Rightarrow> u32"
  x_CloseTime :: "'l \<Rightarrow> int"
  x_toid :: "int \<Rightarrow> int \<Rightarrow> int outcome"
  x_Encode :: "string \<Rightarrow> string outcome"
  x_String :: "scAddress \<Rightarrow> string outcome"
  x_MarshalEvent :: "contractEvent \<Rightarrow> string outcome"
  x_MarshalVal :: "scVal \<Rightarrow> string outcome"
  x_String128Raw :: "Int128Parts \<Rightarrow> string"
  x_StringCanonical :: "string \<Rightarrow> string"
  x_ContractID :: "string \<Rightarrow> string \<Rightarrow> string outcome"
  x_GetAddress :: "string \<Rightarrow> string outcome"

definition GetV0 :: "eventBody \<Rightarrow> eventV0 outcome" where
  "GetV0 b = (case b of BodyV0 p \<Rightarrow> arm p | BodyOther _ \<Rightarrow> Fails)"

definition GetSym :: "scVal \<Rightarrow> string outcome" where
  "GetSym v = (case v of ScvSymbol p \<Rightarrow> arm p | _ \<Rightarrow> Fails)"

definition GetContractData :: "entryData \<Rightarrow> contractData outcome" where
  "GetContractData e = (case e of DataContractData p \<Rightarrow> arm p | _ \<Rightarrow> Fails)"

definition GetTrustLine :: "entryData \<Rightarrow> trustLine outcome" where
  "GetTrustLine e = (case e of DataTrustline p \<Rightarrow> arm p | _ \<Rightarrow> Fails)"

section \<open>Rendering\<close>

definition int32 :: "int \<Rightarrow> int" where
  "int32 i = sint (word_of_int i :: 32 word)"

definition zpad :: "nat \<Rightarrow> int \<Rightarrow> string" where
  "zpad w i =
     (if i < 0 then CHR ''-'' # replicate (w - 1 - length (dec (nat (- i)))) CHR ''0'' @ dec (nat (- i))
      else replicate (w - length (dec (nat i))) CHR ''0'' @ dec (nat i))"

definition row_id :: "int \<Rightarrow> int \<Rightarrow> string" where
  "row_id prefix i = zpad 19 prefix @ ''-'' @ zpad 10 i"

definition hex_EncodeToString :: "string \<Rightarrow> string" where
  "hex_EncodeToString s = concat (map (\<lambda>c. [hex_char (code c div 16), hex_char (code c mod 16)]) s)"

text \<open>What every row of one transaction carries.\<close>

record txContext =
  cx_Seq :: u32
  cx_ClosedAt :: int
  cx_Hash :: string
  cx_Index :: int
  cx_Prefix :: int

section \<open>Events\<close>

fun marshal_all :: "('a \<Rightarrow> string outcome) \<Rightarrow> 'a list \<Rightarrow> string list outcome" where
  "marshal_all f [] = Returns []"
| "marshal_all f (v # vs) = bind_outcome (f v) (\<lambda>s. bind_outcome (marshal_all f vs) (\<lambda>ss. Returns (s # ss)))"

text \<open>The name is the first topic when that is a symbol.\<close>

definition event_name :: "scVal list \<Rightarrow> string outcome" where
  "event_name topics =
     (case topics of [] \<Rightarrow> Returns ''''
      | t # _ \<Rightarrow> (case GetSym t of Returns s \<Rightarrow> Returns s | Fails \<Rightarrow> Returns '''' | Panics \<Rightarrow> Panics))"

definition buildEvent :: "'l codec \<Rightarrow> contractEvent \<Rightarrow> string \<Rightarrow> txContext \<Rightarrow> int \<Rightarrow> int \<Rightarrow> Event outcome" where
  "buildEvent x ev contractID cx opIndex eventIndex =
     bind_outcome (x_MarshalEvent x ev) (\<lambda>rawXDR.
     bind_outcome (GetV0 (ce_Body ev)) (\<lambda>body.
     bind_outcome (marshal_all (x_MarshalVal x) (bo_Topics body)) (\<lambda>topics.
     bind_outcome (x_MarshalVal x (bo_Data body)) (\<lambda>val.
     bind_outcome (event_name (bo_Topics body)) (\<lambda>name.
     Returns \<lparr>ev_ID = row_id (cx_Prefix cx) eventIndex, ev_ContractID = contractID, ev_LedgerSequence = cx_Seq cx,
       ev_ClosedAt = cx_ClosedAt cx, ev_TxHash = cx_Hash cx, ev_TxIndex = cx_Index cx, ev_OpIndex = opIndex,
       ev_EventIndex = eventIndex, ev_EventName = name, ev_Topics = topics, ev_ValueXDR = val, ev_RawXDR = rawXDR\<rparr>)))))"

section \<open>Transfers\<close>

definition transferEventNames :: "string \<Rightarrow> string option" where
  "transferEventNames name =
     (if name = ''transfer'' then Some ''transfer'' else if name = ''mint'' then Some ''mint''
      else if name = ''burn'' then Some ''burn'' else if name = ''clawback'' then Some ''clawback'' else None)"

definition i128Amount :: "'l codec \<Rightarrow> Int128Parts \<Rightarrow> string outcome" where
  "i128Amount x parts =
     (let s = x_String128Raw x parts in if take 1 s = ''-'' then Fails else Returns s)"

definition mapKey :: "scVal \<Rightarrow> string outcome" where
  "mapKey v = (case v of ScvSymbol p \<Rightarrow> arm p | ScvString p \<Rightarrow> arm p | _ \<Rightarrow> Fails)"

definition muxedIDString :: "scVal \<Rightarrow> string outcome" where
  "muxedIDString v =
     (case v of
        ScvU64 p \<Rightarrow> bind_outcome (arm p) (\<lambda>w. Returns (dec (unat w)))
      | ScvBytes p \<Rightarrow> bind_outcome (arm p) (\<lambda>b. Returns (hex_EncodeToString b))
      | ScvString p \<Rightarrow> arm p
      | _ \<Rightarrow> Fails)"

text \<open>The loop over the CAP-67 map; a key seen twice keeps its last value.\<close>

fun transfer_entries :: "'l codec \<Rightarrow> (scVal \<times> scVal) list \<Rightarrow> string \<times> string \<Rightarrow> (string \<times> string) outcome" where
  "transfer_entries x [] st = Returns st"
| "transfer_entries x ((k, v) # es) (amt, muxed) =
     bind_outcome (mapKey k) (\<lambda>key.
     if key = ''amount'' then
       (case v of
          ScvI128 p \<Rightarrow> bind_outcome (arm p) (\<lambda>parts. bind_outcome (i128Amount x parts) (\<lambda>s. transfer_entries x es (s, muxed)))
        | _ \<Rightarrow> Fails)
     else if key = ''to_muxed_id'' then bind_outcome (muxedIDString v) (\<lambda>s. transfer_entries x es (amt, s))
     else Fails)"

definition decodeTransferData :: "'l codec \<Rightarrow> scVal \<Rightarrow> (string \<times> string) outcome" where
  "decodeTransferData x v =
     (case v of
        ScvI128 p \<Rightarrow> bind_outcome (arm p) (\<lambda>parts. bind_outcome (i128Amount x parts) (\<lambda>s. Returns (s, '''')))
      | ScvMap (Some (Some entries)) \<Rightarrow>
          bind_outcome (transfer_entries x entries ('''', '''')) (\<lambda>(amt, muxed).
            if amt = '''' then Fails else Returns (amt, muxed))
      | _ \<Rightarrow> Fails)"

text \<open>The addresses in topic order and the last string among the topics.\<close>

fun transfer_topics :: "'l codec \<Rightarrow> scVal list \<Rightarrow> string list \<times> string \<Rightarrow> (string list \<times> string) outcome" where
  "transfer_topics x [] st = Returns st"
| "transfer_topics x (t # ts) (addrs, asset) =
     (case t of
        ScvAddress p \<Rightarrow> bind_outcome (arm p) (\<lambda>a. bind_outcome (x_String x a) (\<lambda>s. transfer_topics x ts (addrs @ [s], asset)))
      | ScvString p \<Rightarrow> bind_outcome (arm p) (\<lambda>s. transfer_topics x ts (addrs, s))
      | _ \<Rightarrow> Fails)"

definition transfer_sides :: "string \<Rightarrow> string list \<Rightarrow> (string \<times> string) outcome" where
  "transfer_sides ty addrs =
     (if ty = ''transfer'' then (if length addrs \<noteq> 2 then Fails else Returns (addrs ! 0, addrs ! 1))
      else if ty = ''mint'' then (if addrs = [] then Fails else Returns ('''', last addrs))
      else if ty = ''burn'' then (if addrs = [] then Fails else Returns (hd addrs, ''''))
      else if ty = ''clawback'' then (if addrs = [] then Fails else Returns (last addrs, ''''))
      else Returns ('''', ''''))"

definition buildTransfer ::
  "'l codec \<Rightarrow> eventV0 \<Rightarrow> string \<Rightarrow> string \<Rightarrow> txContext \<Rightarrow> int \<Rightarrow> int \<Rightarrow> Transfer outcome"
where
  "buildTransfer x body ty contractID cx opIndex eventIndex =
     bind_outcome (transfer_topics x (tl (bo_Topics body)) ([], '''')) (\<lambda>(addrs, asset).
     bind_outcome (transfer_sides ty addrs) (\<lambda>(payer, payee).
     bind_outcome (decodeTransferData x (bo_Data body)) (\<lambda>(amt, muxed).
     Returns \<lparr>tr_ID = row_id (cx_Prefix cx) eventIndex, tr_ContractID = contractID, tr_LedgerSequence = cx_Seq cx,
       tr_ClosedAt = cx_ClosedAt cx, tr_TxHash = cx_Hash cx, tr_TxIndex = cx_Index cx, tr_OpIndex = opIndex,
       tr_EventIndex = eventIndex, tr_TransferType = ty, tr_FromAddress = payer, tr_ToAddress = payee,
       tr_ToMuxedID = muxed, tr_Amount = amt, tr_Asset = asset\<rparr>)))"

section \<open>Movements\<close>

definition watched_for :: "Snapshot \<Rightarrow> string \<Rightarrow> string \<Rightarrow> bool" where
  "watched_for watch i kind = (case Get watch i of None \<Rightarrow> False | Some c \<Rightarrow> HasKind c kind)"

fun participates :: "'l codec \<Rightarrow> Snapshot \<Rightarrow> scVal list \<Rightarrow> bool outcome" where
  "participates x watch [] = Returns False"
| "participates x watch (t # ts) =
     (case t of
        ScvAddress p \<Rightarrow>
          bind_outcome (arm p) (\<lambda>addr.
            if \<not> ad_IsContract addr then participates x watch ts
            else bind_outcome (arm (ad_ContractId addr)) (\<lambda>cid.
              case x_Encode x cid of
                Panics \<Rightarrow> Panics
              | Fails \<Rightarrow> participates x watch ts
              | Returns i \<Rightarrow> if watched_for watch i KindMovements then Returns True else participates x watch ts))
      | _ \<Rightarrow> participates x watch ts)"

definition participatesWatched :: "'l codec \<Rightarrow> eventV0 \<Rightarrow> Snapshot \<Rightarrow> bool outcome" where
  "participatesWatched x body watch = participates x watch (tl (bo_Topics body))"

definition movement_for :: "Transfer \<Rightarrow> string \<Rightarrow> Snapshot \<Rightarrow> string \<Rightarrow> string \<Rightarrow> string \<Rightarrow> Movement list" where
  "movement_for t rawXDR watch owner role counterparty =
     (if owner = '''' \<or> \<not> watched_for watch owner KindMovements then []
      else [\<lparr>mv_ContractID = owner, mv_TransferID = tr_ID t, mv_Role = role, mv_TokenContractID = tr_ContractID t,
        mv_TransferType = tr_TransferType t, mv_Counterparty = counterparty, mv_Amount = tr_Amount t, mv_RawXDR = rawXDR,
        mv_LedgerSequence = tr_LedgerSequence t, mv_ClosedAt = tr_ClosedAt t\<rparr>])"

definition movementsOf :: "Transfer \<Rightarrow> string \<Rightarrow> Snapshot \<Rightarrow> Movement list" where
  "movementsOf t rawXDR watch =
     movement_for t rawXDR watch (tr_FromAddress t) ''sender'' (tr_ToAddress t)
     @ movement_for t rawXDR watch (tr_ToAddress t) ''recipient'' (tr_FromAddress t)"

section \<open>Changes\<close>

definition change_name :: "changeType \<Rightarrow> string outcome" where
  "change_name t =
     (case t of Created \<Rightarrow> Returns ''created'' | Updated \<Rightarrow> Returns ''updated'' | Removed \<Rightarrow> Returns ''removed''
      | Restored \<Rightarrow> Returns ''restored'' | OtherChange _ \<Rightarrow> Fails)"

definition value_of :: "'l codec \<Rightarrow> entryData option \<Rightarrow> string outcome" where
  "value_of x e =
     (case e of None \<Rightarrow> Returns '''' | Some d \<Rightarrow> bind_outcome (GetContractData d) (\<lambda>c. x_MarshalVal x (cd_Val c)))"

definition buildStateChange ::
  "'l codec \<Rightarrow> change \<Rightarrow> contractData \<Rightarrow> string \<Rightarrow> txContext \<Rightarrow> int \<Rightarrow> StateChange outcome"
where
  "buildStateChange x ch data contractID cx changeIndex =
     bind_outcome (x_MarshalVal x (cd_Key data)) (\<lambda>keyXDR.
     bind_outcome (change_name (cg_ChangeType ch)) (\<lambda>name.
     bind_outcome (value_of x (cg_Pre ch)) (\<lambda>pre.
     bind_outcome (value_of x (cg_Post ch)) (\<lambda>post.
     Returns \<lparr>sc_ID = row_id (cx_Prefix cx) changeIndex, sc_ContractID = contractID, sc_LedgerSequence = cx_Seq cx,
       sc_ClosedAt = cx_ClosedAt cx, sc_TxHash = cx_Hash cx, sc_TxIndex = cx_Index cx,
       sc_OpIndex = int32 (uint (cg_OperationIndex ch)), sc_ChangeIndex = changeIndex, sc_ChangeType = name,
       sc_KeyXDR = keyXDR, sc_Durability = (if cd_Durability data = Temporary then ''temporary'' else ''persistent''),
       sc_PreXDR = pre, sc_PostXDR = post\<rparr>))))"

text \<open>One side of a trustline change, when it can be read.\<close>

definition trustline_side :: "entryData option \<Rightarrow> trustLine option outcome" where
  "trustline_side e =
     (case e of None \<Rightarrow> Returns None
      | Some d \<Rightarrow> (case GetTrustLine d of Returns t \<Rightarrow> Returns (Some t) | Fails \<Rightarrow> Returns None | Panics \<Rightarrow> Panics))"

definition buildTrustlineChange ::
  "'l codec \<Rightarrow> change \<Rightarrow> trustLine \<Rightarrow> string \<Rightarrow> string \<Rightarrow> txContext \<Rightarrow> int \<Rightarrow> TrustlineChange outcome"
where
  "buildTrustlineChange x ch line contractID asset cx changeIndex =
     bind_outcome (change_name (cg_ChangeType ch)) (\<lambda>name.
     bind_outcome (x_GetAddress x (tl_AccountId line)) (\<lambda>account.
     bind_outcome (trustline_side (cg_Pre ch)) (\<lambda>pre.
     bind_outcome (trustline_side (cg_Post ch)) (\<lambda>post.
     if pre = None \<and> post = None then Fails
     else Returns \<lparr>tc_ID = row_id (cx_Prefix cx) changeIndex, tc_ContractID = contractID, tc_AccountID = account,
       tc_Asset = asset, tc_LedgerSequence = cx_Seq cx, tc_ClosedAt = cx_ClosedAt cx, tc_TxHash = cx_Hash cx,
       tc_TxIndex = cx_Index cx, tc_OpIndex = int32 (uint (cg_OperationIndex ch)), tc_ChangeIndex = changeIndex,
       tc_ChangeType = name, tc_PreBalance = map_option tl_Balance pre, tc_PostBalance = map_option tl_Balance post,
       tc_PreLimit = map_option tl_Limit pre, tc_PostLimit = map_option tl_Limit post,
       tc_Flags = (case post of Some t \<Rightarrow> tl_Flags t | None \<Rightarrow> (case pre of Some t \<Rightarrow> tl_Flags t | None \<Rightarrow> 0))\<rparr>))))"

section \<open>One transaction\<close>

record scope =
  so_assets :: bool
  so_wantMovements :: bool

text \<open>The result under construction and the asset memo of the ledger.\<close>

record accum =
  ac_res :: Result
  ac_byAsset :: "string \<rightharpoonup> string"

definition to_res :: "(Result \<Rightarrow> Result) \<Rightarrow> accum \<Rightarrow> accum" where
  "to_res f a = a\<lparr>ac_res := f (ac_res a)\<rparr>"

definition suppress_tx :: "accum \<Rightarrow> accum" where
  "suppress_tx = to_res (\<lambda>r. r\<lparr>rs_SuppressedTxs := rs_SuppressedTxs r + 1\<rparr>)"
definition suppress_event :: "accum \<Rightarrow> accum" where
  "suppress_event = to_res (\<lambda>r. r\<lparr>rs_SuppressedEvents := rs_SuppressedEvents r + 1\<rparr>)"
definition suppress_trustline :: "accum \<Rightarrow> accum" where
  "suppress_trustline = to_res (\<lambda>r. r\<lparr>rs_SuppressedTrustlines := rs_SuppressedTrustlines r + 1\<rparr>)"

text \<open>A movement that does not decode: data loss when the emitter's transfers are indexed.\<close>

definition suppress_transfer :: "bool \<Rightarrow> accum \<Rightarrow> accum" where
  "suppress_transfer emitsTransfers =
     to_res (\<lambda>r. if emitsTransfers then r\<lparr>rs_SuppressedTransfers := rs_SuppressedTransfers r + 1\<rparr>
                 else r\<lparr>rs_ForeignUndecodable := rs_ForeignUndecodable r + 1\<rparr>)"

definition event_row ::
  "'l codec \<Rightarrow> Snapshot \<Rightarrow> txContext \<Rightarrow> int \<Rightarrow> int \<Rightarrow> contractEvent \<Rightarrow> string \<Rightarrow> accum \<Rightarrow> accum + accum"
where
  "event_row x watch cx opIndex i ev contractID a =
     (if \<not> watched_for watch contractID KindEvents then Inr a
      else case buildEvent x ev contractID cx opIndex i of
             Panics \<Rightarrow> Inl a
           | Fails \<Rightarrow> Inr (suppress_event a)
           | Returns record \<Rightarrow> Inr (to_res (\<lambda>r. r\<lparr>rs_Events := rs_Events r @ [record]\<rparr>) a))"

definition movement_rows ::
  "'l codec \<Rightarrow> Snapshot \<Rightarrow> contractEvent \<Rightarrow> bool \<Rightarrow> Transfer \<Rightarrow> accum \<Rightarrow> accum + accum"
where
  "movement_rows x watch ev emitsTransfers t a =
     (case x_MarshalEvent x ev of
        Panics \<Rightarrow> Inl a
      | Fails \<Rightarrow> Inr (suppress_transfer emitsTransfers a)
      | Returns rawXDR \<Rightarrow> Inr (to_res (\<lambda>r. r\<lparr>rs_Movements := rs_Movements r @ movementsOf t rawXDR watch\<rparr>) a))"

definition transfer_rows ::
  "'l codec \<Rightarrow> Snapshot \<Rightarrow> scope \<Rightarrow> txContext \<Rightarrow> int \<Rightarrow> int \<Rightarrow> contractEvent \<Rightarrow> string \<Rightarrow> accum \<Rightarrow> accum + accum"
where
  "transfer_rows x watch sc cx opIndex i ev contractID a =
     (let emitsTransfers = watched_for watch contractID KindTransfers in
      if \<not> emitsTransfers \<and> \<not> so_wantMovements sc then Inr a
      else case GetV0 (ce_Body ev) of Panics \<Rightarrow> Inl a | Fails \<Rightarrow> Inr a
      | Returns body \<Rightarrow>
          (case bo_Topics body of [] \<Rightarrow> Inr a
           | t # _ \<Rightarrow>
               (case GetSym t of Panics \<Rightarrow> Inl a | Fails \<Rightarrow> Inr a
                | Returns name \<Rightarrow>
                    (case transferEventNames name of None \<Rightarrow> Inr a
                     | Some ty \<Rightarrow>
                         (case (if so_wantMovements sc then participatesWatched x body watch else Returns False) of
                            Panics \<Rightarrow> Inl a | Fails \<Rightarrow> Inr a
                          | Returns wantMovements \<Rightarrow>
                              if \<not> emitsTransfers \<and> \<not> wantMovements then Inr a
                              else case buildTransfer x body ty contractID cx opIndex i of
                                     Panics \<Rightarrow> Inl a
                                   | Fails \<Rightarrow> Inr (suppress_transfer emitsTransfers a)
                                   | Returns record \<Rightarrow>
                                       (let a = (if emitsTransfers then to_res (\<lambda>r. r\<lparr>rs_Transfers := rs_Transfers r @ [record]\<rparr>) a else a)
                                        in if wantMovements then movement_rows x watch ev emitsTransfers record a else Inr a))))))"

definition event_step ::
  "'l codec \<Rightarrow> Snapshot \<Rightarrow> scope \<Rightarrow> txContext \<Rightarrow> int \<Rightarrow> int \<Rightarrow> contractEvent \<Rightarrow> accum \<Rightarrow> accum + accum"
where
  "event_step x watch sc cx opIndex i ev a =
     (if \<not> ce_IsContract ev then Inr a
      else case ce_ContractId ev of None \<Rightarrow> Inr a
      | Some cid \<Rightarrow>
          (case x_Encode x cid of
             Panics \<Rightarrow> Inl a
           | Fails \<Rightarrow> Inr (suppress_event a)
           | Returns contractID \<Rightarrow>
               andThen (event_row x watch cx opIndex i ev contractID a) (transfer_rows x watch sc cx opIndex i ev contractID)))"

text \<open>The index runs on over every event, whether it is kept or not.\<close>

fun op_events ::
  "'l codec \<Rightarrow> Snapshot \<Rightarrow> scope \<Rightarrow> txContext \<Rightarrow> int \<Rightarrow> contractEvent list \<Rightarrow> int \<times> accum \<Rightarrow> accum + (int \<times> accum)"
where
  "op_events x watch sc cx opIndex [] st = Inr st"
| "op_events x watch sc cx opIndex (ev # evs) (i, a) =
     andThen (event_step x watch sc cx opIndex (int32 (i + 1)) ev a) (\<lambda>a. op_events x watch sc cx opIndex evs (int32 (i + 1), a))"

fun all_events ::
  "'l codec \<Rightarrow> Snapshot \<Rightarrow> scope \<Rightarrow> txContext \<Rightarrow> nat \<Rightarrow> contractEvent list list \<Rightarrow> int \<times> accum \<Rightarrow> accum + (int \<times> accum)"
where
  "all_events x watch sc cx k [] st = Inr st"
| "all_events x watch sc cx k (evs # ops) st =
     andThen (op_events x watch sc cx (int32 (int k)) evs st) (all_events x watch sc cx (Suc k) ops)"

text \<open>The ids of one transaction share its TOID; building it is a call too.\<close>

definition with_context ::
  "'l codec \<Rightarrow> u32 \<Rightarrow> int \<Rightarrow> ledgerTx \<Rightarrow> (txContext \<Rightarrow> accum \<Rightarrow> accum + accum) \<Rightarrow> accum \<Rightarrow> accum + (bool \<times> accum)"
where
  "with_context x seq closedAt tx body a =
     (case x_toid x (int32 (uint seq)) (int32 (uint (tx_Index tx))) of
        Returns prefix \<Rightarrow>
          andThen (body \<lparr>cx_Seq = seq, cx_ClosedAt = closedAt, cx_Hash = tx_Hash tx,
            cx_Index = int32 (uint (tx_Index tx)), cx_Prefix = prefix\<rparr> a) (\<lambda>a. Inr (True, a))
      | _ \<Rightarrow> Inl a)"

definition txEvents ::
  "'l codec \<Rightarrow> u32 \<Rightarrow> int \<Rightarrow> Snapshot \<Rightarrow> scope \<Rightarrow> ledgerTx \<Rightarrow> accum \<Rightarrow> accum + (bool \<times> accum)"
where
  "txEvents x seq closedAt watch sc tx a =
     (case tx_Events tx of Panics \<Rightarrow> Inl a | Fails \<Rightarrow> Inr (False, a)
      | Returns ops \<Rightarrow> with_context x seq closedAt tx
          (\<lambda>cx a. andThen (all_events x watch sc cx 0 ops (- 1, a)) (\<lambda>(_, a). Inr a)) a)"

definition stateChange :: "'l codec \<Rightarrow> Snapshot \<Rightarrow> txContext \<Rightarrow> int \<Rightarrow> change \<Rightarrow> accum \<Rightarrow> accum + accum" where
  "stateChange x watch cx i ch a =
     (case (case cg_Post ch of Some e \<Rightarrow> Some e | None \<Rightarrow> cg_Pre ch) of None \<Rightarrow> Inr a
      | Some entry \<Rightarrow>
          (case GetContractData entry of Panics \<Rightarrow> Inl a | Fails \<Rightarrow> Inr a
           | Returns data \<Rightarrow>
               (case ad_ContractId (cd_Contract data) of None \<Rightarrow> Inr a
                | Some cid \<Rightarrow>
                    (case x_Encode x cid of Panics \<Rightarrow> Inl a | Fails \<Rightarrow> Inr (suppress_event a)
                     | Returns contractID \<Rightarrow>
                         if \<not> watched_for watch contractID KindState then Inr a
                         else case buildStateChange x ch data contractID cx i of
                                Panics \<Rightarrow> Inl a
                              | Fails \<Rightarrow> Inr (suppress_event a)
                              | Returns record \<Rightarrow> Inr (to_res (\<lambda>r. r\<lparr>rs_StateChanges := rs_StateChanges r @ [record]\<rparr>) a)))))"

text \<open>The memo from the canonical name of an asset to its contract id.\<close>

definition contractIDFor :: "'l codec \<Rightarrow> string \<Rightarrow> string \<Rightarrow> (string \<rightharpoonup> string) \<Rightarrow> string outcome \<times> (string \<rightharpoonup> string)" where
  "contractIDFor x passphrase asset byAsset =
     (let key = x_StringCanonical x asset in
      case byAsset key of
        Some i \<Rightarrow> (Returns i, byAsset)
      | None \<Rightarrow>
          (case bind_outcome (x_ContractID x passphrase asset) (x_Encode x) of
             Returns i \<Rightarrow> (Returns i, byAsset(key \<mapsto> i))
           | Fails \<Rightarrow> (Fails, byAsset)
           | Panics \<Rightarrow> (Panics, byAsset)))"

definition trustline :: "'l codec \<Rightarrow> string \<Rightarrow> Snapshot \<Rightarrow> txContext \<Rightarrow> int \<Rightarrow> change \<Rightarrow> accum \<Rightarrow> accum + accum" where
  "trustline x passphrase watch cx i ch a =
     (case (case cg_Post ch of Some e \<Rightarrow> Some e | None \<Rightarrow> cg_Pre ch) of None \<Rightarrow> Inr a
      | Some entry \<Rightarrow>
          (case GetTrustLine entry of Panics \<Rightarrow> Inl a | Fails \<Rightarrow> Inr a
           | Returns line \<Rightarrow>
               (case tl_Asset line of PoolShare \<Rightarrow> Inr a
                | ClassicAsset asset \<Rightarrow>
                    (let (found, byAsset) = contractIDFor x passphrase asset (ac_byAsset a); a = a\<lparr>ac_byAsset := byAsset\<rparr> in
                     case found of Panics \<Rightarrow> Inl a | Fails \<Rightarrow> Inr (suppress_trustline a)
                     | Returns contractID \<Rightarrow>
                         if \<not> watched_for watch contractID KindTrustlines then Inr a
                         else case buildTrustlineChange x ch line contractID (x_StringCanonical x asset) cx i of
                                Panics \<Rightarrow> Inl a
                              | Fails \<Rightarrow> Inr (suppress_trustline a)
                              | Returns record \<Rightarrow> Inr (to_res (\<lambda>r. r\<lparr>rs_TrustlineChanges := rs_TrustlineChanges r @ [record]\<rparr>) a)))))"

definition change_step ::
  "'l codec \<Rightarrow> string \<Rightarrow> Snapshot \<Rightarrow> scope \<Rightarrow> txContext \<Rightarrow> int \<Rightarrow> change \<Rightarrow> accum \<Rightarrow> accum + accum"
where
  "change_step x passphrase watch sc cx i ch a =
     (case cg_Type ch of
        EntryContractData \<Rightarrow> stateChange x watch cx i ch a
      | EntryTrustline \<Rightarrow> if so_assets sc then trustline x passphrase watch cx i ch a else Inr a
      | EntryOther \<Rightarrow> Inr a)"

fun all_changes ::
  "'l codec \<Rightarrow> string \<Rightarrow> Snapshot \<Rightarrow> scope \<Rightarrow> txContext \<Rightarrow> nat \<Rightarrow> change list \<Rightarrow> accum \<Rightarrow> accum + accum"
where
  "all_changes x passphrase watch sc cx i [] a = Inr a"
| "all_changes x passphrase watch sc cx i (ch # chs) a =
     andThen (change_step x passphrase watch sc cx (int32 (int i)) ch a) (all_changes x passphrase watch sc cx (Suc i) chs)"

definition txLedgerChanges ::
  "'l codec \<Rightarrow> string \<Rightarrow> u32 \<Rightarrow> int \<Rightarrow> Snapshot \<Rightarrow> scope \<Rightarrow> ledgerTx \<Rightarrow> accum \<Rightarrow> accum + (bool \<times> accum)"
where
  "txLedgerChanges x passphrase seq closedAt watch sc tx a =
     (case tx_Changes tx of Panics \<Rightarrow> Inl a | Fails \<Rightarrow> Inr (False, a)
      | Returns chs \<Rightarrow> with_context x seq closedAt tx (\<lambda>cx. all_changes x passphrase watch sc cx 0 chs) a)"

text \<open>The recover frontier: a panic anywhere in the transaction ends in one suppression.\<close>

definition processTx ::
  "'l codec \<Rightarrow> string \<Rightarrow> u32 \<Rightarrow> int \<Rightarrow> Snapshot \<Rightarrow> scope \<Rightarrow> ledgerTx \<Rightarrow> accum \<Rightarrow> accum"
where
  "processTx x passphrase seq closedAt watch sc tx a =
     (case tx_Successful tx of
        None \<Rightarrow> suppress_tx a
      | Some False \<Rightarrow> to_res (\<lambda>r. r\<lparr>rs_FailedTxs := rs_FailedTxs r + 1\<rparr>) a
      | Some True \<Rightarrow>
          (case andThen (txEvents x seq closedAt watch sc tx a) (\<lambda>(eventsOK, a).
                andThen (txLedgerChanges x passphrase seq closedAt watch sc tx a) (\<lambda>(stateOK, a).
                Inr (if \<not> eventsOK \<or> \<not> stateOK then suppress_tx a else a))) of
             Inl a \<Rightarrow> suppress_tx a
           | Inr a \<Rightarrow> a))"

section \<open>One ledger\<close>

definition scope_of :: "Snapshot \<Rightarrow> scope" where
  "scope_of watch = \<lparr>so_assets = AnyKind watch KindTrustlines, so_wantMovements = AnyKind watch KindMovements\<rparr>"

definition read_tx :: "'l codec \<Rightarrow> string \<Rightarrow> u32 \<Rightarrow> int \<Rightarrow> Snapshot \<Rightarrow> accum \<Rightarrow> ledgerTx option \<Rightarrow> accum" where
  "read_tx x passphrase seq closedAt watch a r =
     (case r of None \<Rightarrow> suppress_tx a | Some tx \<Rightarrow> processTx x passphrase seq closedAt watch (scope_of watch) tx a)"

definition Events :: "'l codec \<Rightarrow> string \<Rightarrow> Snapshot \<Rightarrow> 'l extractor" where
  "Events x passphrase watch meta =
     (if Len watch = 0 then Inr empty_result
      else case x_reads x passphrase meta of
             None \<Rightarrow> Inl ''extract: open ledger''
           | Some reads \<Rightarrow>
               Inr (ac_res (foldl (read_tx x passphrase (x_LedgerSeq x meta) (x_CloseTime x meta) watch)
                 \<lparr>ac_res = empty_result, ac_byAsset = Map.empty\<rparr> reads)))"

end
