(* ===== verification/Extract_Shares.thy ===== *)
theory Extract_Shares
  imports Extract Ingest_Backfill
begin

text \<open>
  What extraction owes each contract. The share of a contract in an event, a change, a transaction and a
  ledger is stated without loops, counters or guards, from its own kinds alone; \<open>Events\<close> is proved
  to give every contract exactly its share, for decoded ledgers (no arm of a union is missing) and SDK
  calls that may fail but do not panic. It follows that the rows of a contract do not depend on what
  else is watched, which is what lets the backfill worker share one scan between many walks.
\<close>

section \<open>Rows of one contract\<close>

definition rows_for :: "string \<Rightarrow> Result \<Rightarrow> partitioned" where
  "rows_for c res =
     \<lparr>pa_events = filter (\<lambda>e. ev_ContractID e = c) (rs_Events res),
      pa_states = filter (\<lambda>s. sc_ContractID s = c) (rs_StateChanges res),
      pa_transfers = filter (\<lambda>t. tr_ContractID t = c) (rs_Transfers res),
      pa_trustlines = filter (\<lambda>t. tc_ContractID t = c) (rs_TrustlineChanges res),
      pa_movements = filter (\<lambda>m. mv_ContractID m = c) (rs_Movements res)\<rparr>"

definition join_rows :: "partitioned \<Rightarrow> partitioned \<Rightarrow> partitioned" where
  "join_rows p q =
     \<lparr>pa_events = pa_events p @ pa_events q, pa_states = pa_states p @ pa_states q,
      pa_transfers = pa_transfers p @ pa_transfers q, pa_trustlines = pa_trustlines p @ pa_trustlines q,
      pa_movements = pa_movements p @ pa_movements q\<rparr>"

fun all_rows :: "partitioned list \<Rightarrow> partitioned" where
  "all_rows [] = no_rows"
| "all_rows (p # ps) = join_rows p (all_rows ps)"

lemma join_rows_simps [simp]:
  "join_rows p no_rows = p" "join_rows no_rows p = p"
  "join_rows (join_rows p q) r = join_rows p (join_rows q r)"
  by (simp_all add: join_rows_def no_rows_def)

lemma all_rows_append: "all_rows (ps @ qs) = join_rows (all_rows ps) (all_rows qs)"
  by (induction ps) simp_all

lemma all_rows_none: "(\<And>p. p \<in> set ps \<Longrightarrow> p = no_rows) \<Longrightarrow> all_rows ps = no_rows"
  by (induction ps) auto

lemma rows_for_empty [simp]: "rows_for c empty_result = no_rows"
  by (simp add: rows_for_def empty_result_def no_rows_def)

lemma rows_for_add_result: "rows_for c (add_result r r') = join_rows (rows_for c r) (rows_for c r')"
  by (simp add: rows_for_def add_result_def join_rows_def)

lemma rows_for_appends:
  "rows_for c (r\<lparr>rs_Events := rs_Events r @ es\<rparr>)
    = join_rows (rows_for c r) (no_rows\<lparr>pa_events := filter (\<lambda>e. ev_ContractID e = c) es\<rparr>)"
  "rows_for c (r\<lparr>rs_StateChanges := rs_StateChanges r @ ss\<rparr>)
    = join_rows (rows_for c r) (no_rows\<lparr>pa_states := filter (\<lambda>s. sc_ContractID s = c) ss\<rparr>)"
  "rows_for c (r\<lparr>rs_Transfers := rs_Transfers r @ ts\<rparr>)
    = join_rows (rows_for c r) (no_rows\<lparr>pa_transfers := filter (\<lambda>t. tr_ContractID t = c) ts\<rparr>)"
  "rows_for c (r\<lparr>rs_TrustlineChanges := rs_TrustlineChanges r @ us\<rparr>)
    = join_rows (rows_for c r) (no_rows\<lparr>pa_trustlines := filter (\<lambda>u. tc_ContractID u = c) us\<rparr>)"
  "rows_for c (r\<lparr>rs_Movements := rs_Movements r @ ms\<rparr>)
    = join_rows (rows_for c r) (no_rows\<lparr>pa_movements := filter (\<lambda>m. mv_ContractID m = c) ms\<rparr>)"
  by (simp_all add: rows_for_def join_rows_def no_rows_def)

lemma rows_for_counters:
  "rows_for c (ac_res (suppress_tx a)) = rows_for c (ac_res a)"
  "rows_for c (ac_res (suppress_event a)) = rows_for c (ac_res a)"
  "rows_for c (ac_res (suppress_trustline a)) = rows_for c (ac_res a)"
  "rows_for c (ac_res (suppress_transfer e a)) = rows_for c (ac_res a)"
  "rows_for c (ac_res (to_res (\<lambda>r. r\<lparr>rs_FailedTxs := k\<rparr>) a)) = rows_for c (ac_res a)"
  by (simp_all add: rows_for_def suppress_tx_def suppress_event_def suppress_trustline_def suppress_transfer_def to_res_def)

lemma to_res_byAsset [simp]: "ac_byAsset (to_res f a) = ac_byAsset a"
  "ac_byAsset (suppress_tx a) = ac_byAsset a" "ac_byAsset (suppress_event a) = ac_byAsset a"
  "ac_byAsset (suppress_trustline a) = ac_byAsset a" "ac_byAsset (suppress_transfer e a) = ac_byAsset a"
  by (simp_all add: to_res_def suppress_tx_def suppress_event_def suppress_trustline_def suppress_transfer_def)

section \<open>Shares\<close>

definition the_row :: "'a outcome \<Rightarrow> 'a list" where
  "the_row r = (case r of Returns a \<Rightarrow> [a] | _ \<Rightarrow> [])"

text \<open>The token movement an event describes, when it describes one.\<close>

definition token_movement :: "'l codec \<Rightarrow> contractEvent \<Rightarrow> string \<Rightarrow> txContext \<Rightarrow> int \<Rightarrow> int \<Rightarrow> Transfer list" where
  "token_movement x ev emitter cx opIndex i =
     (case ce_Body ev of
        BodyV0 (Some body) \<Rightarrow>
          (case bo_Topics body of
             ScvSymbol (Some name) # _ \<Rightarrow>
               (case transferEventNames name of
                  Some ty \<Rightarrow> the_row (buildTransfer x body ty emitter cx opIndex i)
                | None \<Rightarrow> [])
           | _ \<Rightarrow> [])
      | _ \<Rightarrow> [])"

definition attribution :: "string \<Rightarrow> Transfer \<Rightarrow> string \<Rightarrow> string \<Rightarrow> string \<Rightarrow> Movement" where
  "attribution c t rawXDR role counterparty =
     \<lparr>mv_ContractID = c, mv_TransferID = tr_ID t, mv_Role = role, mv_TokenContractID = tr_ContractID t,
      mv_TransferType = tr_TransferType t, mv_Counterparty = counterparty, mv_Amount = tr_Amount t, mv_RawXDR = rawXDR,
      mv_LedgerSequence = tr_LedgerSequence t, mv_ClosedAt = tr_ClosedAt t\<rparr>"

text \<open>One row per side the contract is on.\<close>

definition attributions :: "string \<Rightarrow> Transfer \<Rightarrow> string \<Rightarrow> Movement list" where
  "attributions c t rawXDR =
     (if tr_FromAddress t = c then [attribution c t rawXDR ''sender'' (tr_ToAddress t)] else [])
     @ (if tr_ToAddress t = c then [attribution c t rawXDR ''recipient'' (tr_FromAddress t)] else [])"

definition event_share ::
  "'l codec \<Rightarrow> string \<Rightarrow> (string \<Rightarrow> bool) \<Rightarrow> txContext \<Rightarrow> int \<Rightarrow> int \<Rightarrow> contractEvent \<Rightarrow> partitioned"
where
  "event_share x c wants cx opIndex i ev =
     (case (if ce_IsContract ev then ce_ContractId ev else None) of
        None \<Rightarrow> no_rows
      | Some cid \<Rightarrow>
          (case x_Encode x cid of
             Returns emitter \<Rightarrow>
               no_rows\<lparr>
                 pa_events := (if emitter = c \<and> wants KindEvents then the_row (buildEvent x ev c cx opIndex i) else []),
                 pa_transfers := (if emitter = c \<and> wants KindTransfers then token_movement x ev c cx opIndex i else []),
                 pa_movements := (if wants KindMovements
                   then concat (map (\<lambda>t. concat (map (attributions c t) (the_row (x_MarshalEvent x ev))))
                          (token_movement x ev emitter cx opIndex i))
                   else [])\<rparr>
           | _ \<Rightarrow> no_rows))"

definition change_share ::
  "'l codec \<Rightarrow> string \<Rightarrow> string \<Rightarrow> (string \<Rightarrow> bool) \<Rightarrow> txContext \<Rightarrow> int \<Rightarrow> change \<Rightarrow> partitioned"
where
  "change_share x passphrase c wants cx i ch =
     (case (cg_Type ch, case cg_Post ch of Some e \<Rightarrow> Some e | None \<Rightarrow> cg_Pre ch) of
        (EntryContractData, Some (DataContractData (Some data))) \<Rightarrow>
          no_rows\<lparr>pa_states :=
            (if wants KindState \<and> map_option (x_Encode x) (ad_ContractId (cd_Contract data)) = Some (Returns c)
             then the_row (buildStateChange x ch data c cx i) else [])\<rparr>
      | (EntryTrustline, Some (DataTrustline (Some line))) \<Rightarrow>
          (case tl_Asset line of PoolShare \<Rightarrow> no_rows
           | ClassicAsset asset \<Rightarrow>
               no_rows\<lparr>pa_trustlines :=
                 (if wants KindTrustlines \<and> bind_outcome (x_ContractID x passphrase asset) (x_Encode x) = Returns c
                  then the_row (buildTrustlineChange x ch line c (x_StringCanonical x asset) cx i) else [])\<rparr>)
      | _ \<Rightarrow> no_rows)"

text \<open>Positions count everything: events across the operations of the transaction, changes from 0.\<close>

fun op_shares :: "'l codec \<Rightarrow> string \<Rightarrow> (string \<Rightarrow> bool) \<Rightarrow> txContext \<Rightarrow> nat \<Rightarrow> nat \<Rightarrow> contractEvent list list \<Rightarrow> partitioned" where
  "op_shares x c wants cx k n [] = no_rows"
| "op_shares x c wants cx k n (evs # ops) =
     join_rows (all_rows (map (\<lambda>(j, ev). event_share x c wants cx (int32 (int k)) (int32 (int j)) ev) (enumerate n evs)))
       (op_shares x c wants cx (Suc k) (n + length evs) ops)"

definition context_of :: "'l codec \<Rightarrow> u32 \<Rightarrow> int \<Rightarrow> ledgerTx \<Rightarrow> int \<Rightarrow> txContext" where
  "context_of x seq closedAt tx prefix =
     \<lparr>cx_Seq = seq, cx_ClosedAt = closedAt, cx_Hash = tx_Hash tx, cx_Index = int32 (uint (tx_Index tx)), cx_Prefix = prefix\<rparr>"

definition tx_share ::
  "'l codec \<Rightarrow> string \<Rightarrow> u32 \<Rightarrow> int \<Rightarrow> string \<Rightarrow> (string \<Rightarrow> bool) \<Rightarrow> ledgerTx \<Rightarrow> partitioned"
where
  "tx_share x passphrase seq closedAt c wants tx =
     (if tx_Successful tx \<noteq> Some True then no_rows
      else case x_toid x (int32 (uint seq)) (int32 (uint (tx_Index tx))) of
        Returns prefix \<Rightarrow>
          (let cx = context_of x seq closedAt tx prefix in
           join_rows (case tx_Events tx of Returns ops \<Rightarrow> op_shares x c wants cx 0 0 ops | _ \<Rightarrow> no_rows)
             (case tx_Changes tx of
                Returns chs \<Rightarrow> all_rows (map (\<lambda>(j, ch). change_share x passphrase c wants cx (int32 (int j)) ch) (enumerate 0 chs))
              | _ \<Rightarrow> no_rows))
      | _ \<Rightarrow> no_rows)"

definition ledger_share :: "'l codec \<Rightarrow> string \<Rightarrow> string \<Rightarrow> (string \<Rightarrow> bool) \<Rightarrow> 'l \<Rightarrow> partitioned" where
  "ledger_share x passphrase c wants meta =
     (case x_reads x passphrase meta of
        None \<Rightarrow> no_rows
      | Some reads \<Rightarrow>
          all_rows (map (tx_share x passphrase (x_LedgerSeq x meta) (x_CloseTime x meta) c wants) (concat (map (case_option [] (\<lambda>t. [t])) reads))))"

section \<open>Decoded data\<close>

definition arm_set :: "scVal \<Rightarrow> bool" where
  "arm_set v =
     (case v of
        ScvAddress p \<Rightarrow> (case p of None \<Rightarrow> False | Some a \<Rightarrow> ad_IsContract a \<longrightarrow> ad_ContractId a \<noteq> None)
      | ScvString p \<Rightarrow> p \<noteq> None
      | ScvSymbol p \<Rightarrow> p \<noteq> None
      | ScvI128 p \<Rightarrow> p \<noteq> None
      | ScvU64 p \<Rightarrow> p \<noteq> None
      | ScvBytes p \<Rightarrow> p \<noteq> None
      | _ \<Rightarrow> True)"

definition intact :: "scVal \<Rightarrow> bool" where
  "intact v \<longleftrightarrow> arm_set v
     \<and> (case v of ScvMap (Some (Some es)) \<Rightarrow> list_all (\<lambda>(k, e). arm_set k \<and> arm_set e) es | _ \<Rightarrow> True)"

definition intact_event :: "contractEvent \<Rightarrow> bool" where
  "intact_event ev =
     (case ce_Body ev of
        BodyV0 None \<Rightarrow> False
      | BodyV0 (Some body) \<Rightarrow> list_all arm_set (bo_Topics body) \<and> intact (bo_Data body)
      | _ \<Rightarrow> True)"

definition intact_entry :: "entryData option \<Rightarrow> bool" where
  "intact_entry e = (e \<noteq> Some (DataContractData None) \<and> e \<noteq> Some (DataTrustline None))"

definition intact_tx :: "ledgerTx \<Rightarrow> bool" where
  "intact_tx tx \<longleftrightarrow> tx_Successful tx \<noteq> None \<and> tx_Events tx \<noteq> Panics \<and> tx_Changes tx \<noteq> Panics
     \<and> (\<forall>ops. tx_Events tx = Returns ops \<longrightarrow> list_all (list_all intact_event) ops)
     \<and> (\<forall>chs. tx_Changes tx = Returns chs \<longrightarrow> list_all (\<lambda>ch. intact_entry (cg_Pre ch) \<and> intact_entry (cg_Post ch)) chs)"

text \<open>SDK calls that may fail but do not panic, and ids that exist for the ledger.\<close>

definition calm :: "'l codec \<Rightarrow> bool" where
  "calm x \<longleftrightarrow> (\<forall>s. x_Encode x s \<noteq> Panics) \<and> (\<forall>a. x_String x a \<noteq> Panics) \<and> (\<forall>e. x_MarshalEvent x e \<noteq> Panics)
     \<and> (\<forall>v. x_MarshalVal x v \<noteq> Panics) \<and> (\<forall>p a. x_ContractID x p a \<noteq> Panics) \<and> (\<forall>a. x_GetAddress x a \<noteq> Panics)"

definition decoded :: "'l codec \<Rightarrow> string \<Rightarrow> 'l \<Rightarrow> bool" where
  "decoded x passphrase meta \<longleftrightarrow>
     (\<forall>reads tx. x_reads x passphrase meta = Some reads \<longrightarrow> Some tx \<in> set reads \<longrightarrow> intact_tx tx
        \<and> (\<exists>prefix. x_toid x (int32 (uint (x_LedgerSeq x meta))) (int32 (uint (tx_Index tx))) = Returns prefix))"

text \<open>Only the contract itself prints as its address, and an asset's name determines its contract.\<close>

definition prints_alone :: "'l codec \<Rightarrow> string \<Rightarrow> bool" where
  "prints_alone x c \<longleftrightarrow> c \<noteq> ''''
     \<and> (\<forall>a. x_String x a = Returns c \<longrightarrow> ad_IsContract a \<and> (\<forall>cid. ad_ContractId a = Some cid \<longrightarrow> x_Encode x cid = Returns c))"

definition canonical_names :: "'l codec \<Rightarrow> string \<Rightarrow> bool" where
  "canonical_names x passphrase \<longleftrightarrow>
     (\<forall>a b. x_StringCanonical x a = x_StringCanonical x b \<longrightarrow>
        bind_outcome (x_ContractID x passphrase a) (x_Encode x) = bind_outcome (x_ContractID x passphrase b) (x_Encode x))"

section \<open>Every step adds the share\<close>

definition memo_ok :: "'l codec \<Rightarrow> string \<Rightarrow> (string \<rightharpoonup> string) \<Rightarrow> bool" where
  "memo_ok x passphrase m \<longleftrightarrow>
     (\<forall>k i. m k = Some i \<longrightarrow> (\<exists>a. k = x_StringCanonical x a \<and> bind_outcome (x_ContractID x passphrase a) (x_Encode x) = Returns i))"

definition gives :: "'l codec \<Rightarrow> string \<Rightarrow> string \<Rightarrow> accum \<Rightarrow> partitioned \<Rightarrow> accum + accum \<Rightarrow> bool" where
  "gives x passphrase c a p r \<longleftrightarrow>
     (\<exists>b. r = Inr b \<and> rows_for c (ac_res b) = join_rows (rows_for c (ac_res a)) p
        \<and> (memo_ok x passphrase (ac_byAsset a) \<longrightarrow> memo_ok x passphrase (ac_byAsset b)))"

lemma gives_stay: "gives x pp c a no_rows (Inr a)"
  by (simp add: gives_def)

lemma gives_counters:
  "gives x pp c a no_rows (Inr (suppress_tx a))" "gives x pp c a no_rows (Inr (suppress_event a))"
  "gives x pp c a no_rows (Inr (suppress_trustline a))" "gives x pp c a no_rows (Inr (suppress_transfer e a))"
  by (simp_all add: gives_def rows_for_counters)

lemma gives_andThen:
  assumes "gives x pp c a p r" and "\<And>b. r = Inr b \<Longrightarrow> gives x pp c b q (f b)"
  shows "gives x pp c a (join_rows p q) (andThen r f)"
  using assms by (fastforce simp: gives_def)

lemma gives_appends:
  "gives x pp c a (no_rows\<lparr>pa_events := filter (\<lambda>e. ev_ContractID e = c) es\<rparr>)
    (Inr (to_res (\<lambda>r. r\<lparr>rs_Events := rs_Events r @ es\<rparr>) a))"
  "gives x pp c a (no_rows\<lparr>pa_states := filter (\<lambda>e. sc_ContractID e = c) ss\<rparr>)
    (Inr (to_res (\<lambda>r. r\<lparr>rs_StateChanges := rs_StateChanges r @ ss\<rparr>) a))"
  "gives x pp c a (no_rows\<lparr>pa_transfers := filter (\<lambda>e. tr_ContractID e = c) ts\<rparr>)
    (Inr (to_res (\<lambda>r. r\<lparr>rs_Transfers := rs_Transfers r @ ts\<rparr>) a))"
  "gives x pp c a (no_rows\<lparr>pa_trustlines := filter (\<lambda>e. tc_ContractID e = c) us\<rparr>)
    (Inr (to_res (\<lambda>r. r\<lparr>rs_TrustlineChanges := rs_TrustlineChanges r @ us\<rparr>) a))"
  "gives x pp c a (no_rows\<lparr>pa_movements := filter (\<lambda>e. mv_ContractID e = c) ms\<rparr>)
    (Inr (to_res (\<lambda>r. r\<lparr>rs_Movements := rs_Movements r @ ms\<rparr>) a))"
  by (simp_all add: gives_def to_res_def rows_for_appends)

lemma gives_one:
  "gives x pp c a (if ev_ContractID e = c then no_rows\<lparr>pa_events := [e]\<rparr> else no_rows)
    (Inr (to_res (\<lambda>r. r\<lparr>rs_Events := rs_Events r @ [e]\<rparr>) a))"
  "gives x pp c a (if sc_ContractID s = c then no_rows\<lparr>pa_states := [s]\<rparr> else no_rows)
    (Inr (to_res (\<lambda>r. r\<lparr>rs_StateChanges := rs_StateChanges r @ [s]\<rparr>) a))"
  "gives x pp c a (if tr_ContractID t = c then no_rows\<lparr>pa_transfers := [t]\<rparr> else no_rows)
    (Inr (to_res (\<lambda>r. r\<lparr>rs_Transfers := rs_Transfers r @ [t]\<rparr>) a))"
  "gives x pp c a (if tc_ContractID u = c then no_rows\<lparr>pa_trustlines := [u]\<rparr> else no_rows)
    (Inr (to_res (\<lambda>r. r\<lparr>rs_TrustlineChanges := rs_TrustlineChanges r @ [u]\<rparr>) a))"
  using gives_appends(1) [of x pp c a "[e]"] gives_appends(2) [of x pp c a "[s]"] gives_appends(3) [of x pp c a "[t]"]
    gives_appends(4) [of x pp c a "[u]"]
  by (auto simp: no_rows_def)

lemma gives_row:
  assumes "m \<noteq> Panics"
    and "\<And>r. m = Returns r \<Longrightarrow> gives x pp c a (if e = c then p r else no_rows) (Inr (add r a))"
    and "gives x pp c a no_rows (Inr (bad a))"
    and "sh = (if e = c \<and> w then (case m of Returns r \<Rightarrow> p r | _ \<Rightarrow> no_rows) else no_rows)"
  shows "gives x pp c a sh (if \<not> w then Inr a else case m of Panics \<Rightarrow> Inl a | Fails \<Rightarrow> Inr (bad a) | Returns r \<Rightarrow> Inr (add r a))"
proof (cases m)
  case (Returns r)
  then show ?thesis using assms(2) [OF Returns] gives_stay [of x pp c a] assms(4) by (cases "e = c") simp_all
qed (use assms gives_stay [of x pp c a] in simp_all)

text \<open>What cannot panic on intact data.\<close>

lemma bind_Panics: "bind_outcome m f = Panics \<longleftrightarrow> m = Panics \<or> (\<exists>a. m = Returns a \<and> f a = Panics)"
  by (cases m) auto

lemma calm_sdk:
  assumes "calm x"
  shows "x_Encode x s \<noteq> Panics" "x_String x a \<noteq> Panics" "x_MarshalEvent x e \<noteq> Panics" "x_MarshalVal x v \<noteq> Panics"
    "x_ContractID x p n \<noteq> Panics" "x_GetAddress x n \<noteq> Panics"
  using assms by (simp_all add: calm_def)

lemma marshal_all_calm: "calm x \<Longrightarrow> marshal_all (x_MarshalVal x) vs \<noteq> Panics"
  by (induction vs) (auto simp: bind_Panics calm_sdk)

lemma GetSym_calm: "arm_set t \<Longrightarrow> GetSym t \<noteq> Panics"
  by (auto simp: GetSym_def arm_set_def split: scVal.splits)

lemma event_name_calm: "list_all arm_set ts \<Longrightarrow> event_name ts \<noteq> Panics"
  using GetSym_calm by (auto simp: event_name_def split: list.splits outcome.splits)

lemma GetV0_intact: "intact_event ev \<Longrightarrow> GetV0 (ce_Body ev) \<noteq> Panics"
  by (auto simp: GetV0_def intact_event_def split: eventBody.splits option.splits)

lemma intact_body: "intact_event ev \<Longrightarrow> GetV0 (ce_Body ev) = Returns body \<Longrightarrow> list_all arm_set (bo_Topics body) \<and> intact (bo_Data body)"
  by (auto simp: GetV0_def intact_event_def split: eventBody.splits option.splits)

lemma buildEvent_calm:
  assumes "calm x" and "intact_event ev"
  shows "buildEvent x ev i cx k n \<noteq> Panics"
  using intact_body [OF assms(2)] GetV0_intact [OF assms(2)] marshal_all_calm [OF assms(1)] event_name_calm
  by (simp add: buildEvent_def bind_Panics calm_sdk [OF assms(1)])

lemma transfer_topics_calm: "calm x \<Longrightarrow> list_all arm_set ts \<Longrightarrow> transfer_topics x ts st \<noteq> Panics"
proof (induction ts arbitrary: st)
  case (Cons t ts)
  then show ?case
    by (cases st; cases t) (auto simp: arm_set_def calm_sdk bind_Panics split: option.splits)
qed (cases st; simp)

lemma transfer_entries_calm:
  "list_all (\<lambda>(k, e). arm_set k \<and> arm_set e) es \<Longrightarrow> transfer_entries x es st \<noteq> Panics"
proof (induction es arbitrary: st)
  case (Cons e es)
  obtain k v amt muxed where e: "e = (k, v)" "st = (amt, muxed)" by (cases e, cases st)
  have "mapKey k \<noteq> Panics" "muxedIDString v \<noteq> Panics"
    using Cons.prems by (auto simp: e mapKey_def muxedIDString_def arm_set_def split: scVal.splits option.splits)
  then show ?case using Cons
    by (cases v) (auto simp: e i128Amount_def arm_set_def Let_def bind_Panics split: option.splits if_splits)
qed (cases st; simp)

lemma decodeTransferData_calm: "intact v \<Longrightarrow> decodeTransferData x v \<noteq> Panics"
  using transfer_entries_calm [of _ x "('''', '''')"]
  by (cases v) (auto simp: decodeTransferData_def intact_def arm_set_def i128Amount_def Let_def bind_Panics
      split: option.splits if_splits)

lemma buildTransfer_calm:
  assumes "calm x" and "list_all arm_set (bo_Topics body)" and "intact (bo_Data body)"
  shows "buildTransfer x body ty i cx k n \<noteq> Panics"
proof -
  have "list_all arm_set (tl (bo_Topics body))" using assms(2) by (cases "bo_Topics body") auto
  then have "transfer_topics x (tl (bo_Topics body)) st \<noteq> Panics" for st by (rule transfer_topics_calm [OF assms(1)])
  moreover have "transfer_sides ty addrs \<noteq> Panics" for addrs by (simp add: transfer_sides_def)
  moreover have "decodeTransferData x (bo_Data body) \<noteq> Panics" by (rule decodeTransferData_calm [OF assms(3)])
  ultimately show ?thesis by (simp add: buildTransfer_def bind_Panics split_beta)
qed

lemma participates_calm: "calm x \<Longrightarrow> list_all arm_set ts \<Longrightarrow> \<exists>b. participates x watch ts = Returns b"
proof (induction ts)
  case (Cons t ts)
  have "x_Encode x s \<noteq> Panics" for s using Cons.prems(1) by (rule calm_sdk)
  then show ?case using Cons
    by (cases t) (auto simp: arm_set_def split: option.splits outcome.splits)
qed auto

text \<open>A watched contract on either side of a movement is among the participants.\<close>

lemma watched_for_AnyKind: "watched_for watch c kind \<Longrightarrow> AnyKind watch kind"
  by (auto simp: watched_for_def Get_def AnyKind_def list_ex_iff dest!: map_of_SomeD split: option.splits) force

lemma participates_contract:
  assumes "calm x" and "list_all arm_set ts" and "ScvAddress (Some a) \<in> set ts" and "ad_IsContract a"
    and "\<forall>cid. ad_ContractId a = Some cid \<longrightarrow> x_Encode x cid = Returns c" and "watched_for watch c KindMovements"
  shows "participates x watch ts = Returns True"
  using assms(2,3)
proof (induction ts)
  case (Cons t ts)
  have enc: "x_Encode x s \<noteq> Panics" for s using assms(1) by (rule calm_sdk)
  show ?case
  proof (cases "t = ScvAddress (Some a)")
    case True
    then show ?thesis using Cons.prems(1) assms(4-6) by (auto simp: arm_set_def)
  next
    case False
    then have "participates x watch ts = Returns True" using Cons by auto
    then show ?thesis using Cons.prems(1) enc by (cases t) (auto simp: arm_set_def split: option.splits outcome.splits)
  qed
qed simp

lemma transfer_topics_addresses:
  "transfer_topics x ts (addrs, asset) = Returns (addrs', asset') \<Longrightarrow> c \<in> set addrs' \<Longrightarrow>
    c \<in> set addrs \<or> (\<exists>a. ScvAddress (Some a) \<in> set ts \<and> x_String x a = Returns c)"
proof (induction ts arbitrary: addrs asset)
  case (Cons t ts)
  then show ?case
  proof (cases t)
    case (ScvAddress p)
    then obtain a s where a: "p = Some a" "x_String x a = Returns s" "transfer_topics x ts (addrs @ [s], asset) = Returns (addrs', asset')"
      using Cons.prems(1) by (cases p) (auto simp: bind_outcome_Returns)
    from Cons.IH [OF a(3) Cons.prems(2)] a ScvAddress show ?thesis by auto
  next
    case (ScvString p)
    then obtain s where "transfer_topics x ts (addrs, s) = Returns (addrs', asset')"
      using Cons.prems(1) by (cases p) auto
    from Cons.IH [OF this Cons.prems(2)] show ?thesis by auto
  qed auto
qed simp

lemma buildTransfer_sides:
  assumes "buildTransfer x body ty e cx k n = Returns t" and "c \<noteq> ''''" and "tr_FromAddress t = c \<or> tr_ToAddress t = c"
  shows "\<exists>a. ScvAddress (Some a) \<in> set (tl (bo_Topics body)) \<and> x_String x a = Returns c"
proof -
  obtain addrs asset payer payee where t: "transfer_topics x (tl (bo_Topics body)) ([], '''') = Returns (addrs, asset)"
    "transfer_sides ty addrs = Returns (payer, payee)" "tr_FromAddress t = payer" "tr_ToAddress t = payee"
    using assms(1) by (auto simp: buildTransfer_def bind_outcome_Returns)
  have "payer \<in> insert '''' (set addrs)" "payee \<in> insert '''' (set addrs)"
    using t(2) nth_mem [of 0 addrs] nth_mem [of 1 addrs] by (auto simp: transfer_sides_def split: if_splits)
  then have "c \<in> set addrs" using t(3,4) assms(2,3) by auto
  from transfer_topics_addresses [OF t(1) this] show ?thesis by simp
qed

lemma buildTransfer_ids: "buildTransfer x body ty e cx k n = Returns t \<Longrightarrow> tr_ContractID t = e"
  by (auto simp: buildTransfer_def bind_outcome_Returns)

lemma movementsOf_attributions:
  assumes "c \<noteq> ''''" and "watched_for watch c KindMovements"
  shows "filter (\<lambda>m. mv_ContractID m = c) (movementsOf t rawXDR watch) = attributions c t rawXDR"
  using assms by (auto simp: movementsOf_def movement_for_def attributions_def attribution_def)

lemma movementsOf_unwatched:
  "\<not> watched_for watch c KindMovements \<Longrightarrow> filter (\<lambda>m. mv_ContractID m = c) (movementsOf t rawXDR watch) = []"
  by (auto simp: movementsOf_def movement_for_def)

lemma attributions_none: "tr_FromAddress t \<noteq> c \<Longrightarrow> tr_ToAddress t \<noteq> c \<Longrightarrow> attributions c t rawXDR = []"
  by (simp add: attributions_def)
text \<open>Events.\<close>

lemma gives_event_row:
  assumes "calm x" and "intact_event ev"
  shows "gives x pp c a
    (no_rows\<lparr>pa_events := (if e = c \<and> watched_for watch c KindEvents then the_row (buildEvent x ev c cx k n) else [])\<rparr>)
    (event_row x watch cx k n ev e a)"
proof -
  have id: "ev_ContractID r = e" if "buildEvent x ev e cx k n = Returns r" for r
    using that by (auto simp: buildEvent_def bind_outcome_Returns)
  have none: "no_rows\<lparr>pa_events := []\<rparr> = no_rows" by (simp add: no_rows_def)
  show ?thesis
    unfolding event_row_def
  proof (rule gives_row [where e = e and p = "\<lambda>r. no_rows\<lparr>pa_events := [r]\<rparr>"])
    show "buildEvent x ev e cx k n \<noteq> Panics" by (rule buildEvent_calm [OF assms])
    show "gives x pp c a (if e = c then no_rows\<lparr>pa_events := [r]\<rparr> else no_rows)
      (Inr (to_res (\<lambda>rs. rs\<lparr>rs_Events := rs_Events rs @ [r]\<rparr>) a))" if "buildEvent x ev e cx k n = Returns r" for r
      using gives_one(1) [of x pp c a r] id [OF that] by simp
  qed (auto simp: gives_counters the_row_def none split: outcome.splits)
qed

lemma gives_movement_rows:
  assumes "calm x" and "c \<noteq> ''''"
  shows "gives x pp c a
    (no_rows\<lparr>pa_movements := (if watched_for watch c KindMovements
       then concat (map (attributions c t) (the_row (x_MarshalEvent x ev))) else [])\<rparr>)
    (movement_rows x watch ev em t a)"
proof -
  have none: "no_rows\<lparr>pa_movements := []\<rparr> = no_rows" by (simp add: no_rows_def)
  have "x_MarshalEvent x ev \<noteq> Panics" by (rule calm_sdk [OF assms(1)])
  then show ?thesis
    using gives_appends(5) [of x pp c a "movementsOf t _ watch"] gives_counters(4) [of x pp c a]
    by (cases "x_MarshalEvent x ev"; cases "watched_for watch c KindMovements")
      (auto simp: movement_rows_def the_row_def none movementsOf_attributions [OF assms(2)] movementsOf_unwatched)
qed
text \<open>An event whose first topic is not the name of a movement leaves the token branch alone; one
whose first topic is, has a body and a movement type.\<close>

definition nameless :: "contractEvent \<Rightarrow> bool" where
  "nameless ev \<longleftrightarrow> (\<forall>body. GetV0 (ce_Body ev) = Returns body \<longrightarrow>
     (case bo_Topics body of [] \<Rightarrow> True
      | t # _ \<Rightarrow> (case GetSym t of Returns name \<Rightarrow> transferEventNames name = None | _ \<Rightarrow> True)))"

lemma token_event_cases:
  assumes intact: "intact_event ev"
  obtains (other) "\<And>i. token_movement x ev i cx k n = []" and "nameless ev"
    | (names) body name rest ty where "ce_Body ev = BodyV0 (Some body)"
        "bo_Topics body = ScvSymbol (Some name) # rest" "transferEventNames name = Some ty"
proof (cases "ce_Body ev")
  case (BodyV0 p)
  then obtain body where body: "p = Some body" using intact by (cases p) (auto simp: intact_event_def)
  show ?thesis
  proof (cases "bo_Topics body")
    case Nil
    then show ?thesis using other BodyV0 body by (auto simp: token_movement_def GetV0_def nameless_def)
  next
    case (Cons t rest)
    then have "arm_set t" using intact BodyV0 body by (simp add: intact_event_def)
    show ?thesis
    proof (cases "\<exists>name ty. t = ScvSymbol (Some name) \<and> transferEventNames name = Some ty")
      case True
      then show ?thesis using names BodyV0 body Cons by blast
    next
      case False
      then have "token_movement x ev i cx k n = []" for i
        using BodyV0 body Cons by (auto simp: token_movement_def split: scVal.splits option.splits)
      moreover have "case GetSym t of Returns name \<Rightarrow> transferEventNames name = None | _ \<Rightarrow> True"
        using False \<open>arm_set t\<close> by (cases t) (auto simp: GetSym_def arm_set_def)
      ultimately show ?thesis using other BodyV0 body Cons by (auto simp: GetV0_def nameless_def)
    qed
  qed
qed (use other in \<open>auto simp: token_movement_def GetV0_def nameless_def\<close>)

lemma transfer_rows_nameless:
  assumes intact: "intact_event ev" and nameless: "nameless ev"
  shows "transfer_rows x watch (scope_of watch) cx k n ev e a = Inr a"
proof (cases "GetV0 (ce_Body ev)")
  case (Returns body)
  then show ?thesis
  proof (cases "bo_Topics body")
    case (Cons t rest)
    then have "GetSym t \<noteq> Panics" using intact_body [OF intact Returns] GetSym_calm by simp
    moreover have "case GetSym t of Returns name \<Rightarrow> transferEventNames name = None | _ \<Rightarrow> True"
      using nameless Returns Cons by (auto simp: nameless_def)
    ultimately show ?thesis using Returns Cons by (cases "GetSym t") (simp_all add: transfer_rows_def Let_def)
  qed (simp add: transfer_rows_def Let_def)
qed (use GetV0_intact [OF intact] in \<open>simp_all add: transfer_rows_def Let_def\<close>)

text \<open>For the others the code runs the branch when the emitter is watched for transfers, or a
participant for movements.\<close>

lemma transfer_rows_named:
  assumes "ce_Body ev = BodyV0 (Some body)" "bo_Topics body = ScvSymbol (Some name) # rest"
    and "transferEventNames name = Some ty" "participates x watch rest = Returns part"
    and "watched_for watch e KindTransfers \<or> AnyKind watch KindMovements"
  shows "transfer_rows x watch (scope_of watch) cx k n ev e a =
    (let emits = watched_for watch e KindTransfers; m = AnyKind watch KindMovements \<and> part
     in if \<not> emits \<and> \<not> m then Inr a
        else case buildTransfer x body ty e cx k n of
               Panics \<Rightarrow> Inl a
             | Fails \<Rightarrow> Inr (suppress_transfer emits a)
             | Returns t \<Rightarrow>
                 andThen (Inr (if emits then to_res (\<lambda>r. r\<lparr>rs_Transfers := rs_Transfers r @ [t]\<rparr>) a else a))
                   (\<lambda>a. if m then movement_rows x watch ev emits t a else Inr a))"
  using assms by (auto simp: transfer_rows_def Let_def scope_of_def GetV0_def GetSym_def participatesWatched_def split: outcome.splits)

text \<open>A contract watched for its movements that is on a side of the movement is one of the
participants the code looks for.\<close>

lemma side_participates:
  assumes calm: "calm x" and arms: "list_all arm_set rest" and alone: "prints_alone x c"
    and builds: "buildTransfer x body ty e cx k n = Returns t" "bo_Topics body = ScvSymbol (Some name) # rest"
    and watched: "watched_for watch c KindMovements" and side: "tr_FromAddress t = c \<or> tr_ToAddress t = c"
  shows "participates x watch rest = Returns True"
proof -
  have "c \<noteq> ''''" using alone by (simp add: prints_alone_def)
  then obtain adr where adr: "ScvAddress (Some adr) \<in> set rest" "x_String x adr = Returns c"
    using buildTransfer_sides [OF builds(1) _ side] builds(2) by auto
  then have "ad_IsContract adr" "\<forall>cid. ad_ContractId adr = Some cid \<longrightarrow> x_Encode x cid = Returns c"
    using alone by (simp_all add: prints_alone_def)
  from participates_contract [OF calm arms adr(1) this watched] show ?thesis .
qed

lemma gives_built_transfer:
  assumes calm: "calm x" and c: "c \<noteq> ''''" and id: "tr_ContractID t = e"
    and idle: "watched_for watch c KindMovements \<Longrightarrow> \<not> m \<Longrightarrow> tr_FromAddress t \<noteq> c \<and> tr_ToAddress t \<noteq> c"
  shows "gives x pp c a
    (no_rows\<lparr>pa_transfers := (if e = c \<and> emits then [t] else []),
       pa_movements := (if watched_for watch c KindMovements
         then concat (map (attributions c t) (the_row (x_MarshalEvent x ev))) else [])\<rparr>)
    (andThen (Inr (if emits then to_res (\<lambda>r. r\<lparr>rs_Transfers := rs_Transfers r @ [t]\<rparr>) a else a))
      (\<lambda>a. if m then movement_rows x watch ev emits t a else Inr a))"
proof -
  let ?tp = "if e = c \<and> emits then no_rows\<lparr>pa_transfers := [t]\<rparr> else no_rows"
  let ?mp = "no_rows\<lparr>pa_movements := (if watched_for watch c KindMovements
    then concat (map (attributions c t) (the_row (x_MarshalEvent x ev))) else [])\<rparr>"
  have none: "?mp = no_rows" if "\<not> m"
    using idle [OF _ that] attributions_none [of t c] by (auto simp: no_rows_def)
  have "gives x pp c a ?tp (Inr (if emits then to_res (\<lambda>r. r\<lparr>rs_Transfers := rs_Transfers r @ [t]\<rparr>) a else a))"
    using gives_one(3) [of x pp c a t] gives_stay [of x pp c a] by (cases "e = c") (auto simp: id)
  moreover have "gives x pp c b ?mp (if m then movement_rows x watch ev emits t b else Inr b)" for b
    using gives_movement_rows [OF calm c, of pp b watch t ev emits] gives_stay [of x pp c b] none by auto
  ultimately have "gives x pp c a (join_rows ?tp ?mp)
    (andThen (Inr (if emits then to_res (\<lambda>r. r\<lparr>rs_Transfers := rs_Transfers r @ [t]\<rparr>) a else a))
      (\<lambda>a. if m then movement_rows x watch ev emits t a else Inr a))"
    by (rule gives_andThen)
  then show ?thesis by (simp add: join_rows_def no_rows_def split: if_splits)
qed

lemma gives_transfer_rows:
  assumes calm: "calm x" and intact: "intact_event ev" and alone: "prints_alone x c"
  shows "gives x pp c a
    (no_rows\<lparr>pa_transfers := (if e = c \<and> watched_for watch c KindTransfers then token_movement x ev c cx k n else []),
       pa_movements := (if watched_for watch c KindMovements
         then concat (map (\<lambda>t. concat (map (attributions c t) (the_row (x_MarshalEvent x ev)))) (token_movement x ev e cx k n))
         else [])\<rparr>)
    (transfer_rows x watch (scope_of watch) cx k n ev e a)" (is "gives x pp c a ?share _")
proof -
  let ?emits = "watched_for watch e KindTransfers"
  let ?want = "AnyKind watch KindMovements"
  have none: "no_rows\<lparr>pa_transfers := [], pa_movements := []\<rparr> = no_rows" by (simp add: no_rows_def)
  have quiet: ?thesis if "?share = no_rows" "transfer_rows x watch (scope_of watch) cx k n ev e a = Inr a"
    using that gives_stay [of x pp c a] by simp
  from intact show ?thesis
  proof (cases rule: token_event_cases [where x = x and cx = cx and k = k and n = n])
    case other
    then show ?thesis using transfer_rows_nameless [OF intact other(2)] by (intro quiet) (auto simp: none)
  next
    case (names body name rest ty)
    have body: "list_all arm_set (bo_Topics body)" "intact (bo_Data body)" "list_all arm_set rest"
      using intact names by (auto simp: intact_event_def)
    have tm: "token_movement x ev i cx k n = the_row (buildTransfer x body ty i cx k n)" for i
      using names by (simp add: token_movement_def)
    obtain part where part: "participates x watch rest = Returns part" using participates_calm [OF calm body(3)] by blast
    note run = transfer_rows_named [OF names part, of e cx k n a, unfolded Let_def]
    have want: "?want" if "watched_for watch c KindMovements" using that by (rule watched_for_AnyKind)
    consider (out) "\<not> ?emits" "\<not> ?want" | (fails) "?emits \<or> ?want" "buildTransfer x body ty e cx k n = Fails"
      | (builds) t where "?emits \<or> ?want" "buildTransfer x body ty e cx k n = Returns t"
      using buildTransfer_calm [OF calm body(1,2)] by (cases "buildTransfer x body ty e cx k n") auto
    then show ?thesis
    proof cases
      case out
      then show ?thesis using want none by (intro quiet) (auto simp: transfer_rows_def scope_of_def)
    next
      case fails
      then have "?share = no_rows" by (auto simp: tm the_row_def none)
      then show ?thesis using fails gives_stay [of x pp c a] gives_counters(4) [of x pp c a] by (simp add: run)
    next
      case builds
      have side: "tr_FromAddress t \<noteq> c \<and> tr_ToAddress t \<noteq> c" if "watched_for watch c KindMovements" "\<not> (?want \<and> part)"
        using side_participates [OF calm body(3) alone builds(2) names(2) that(1)] that part want by auto
      have "c \<noteq> ''''" using alone by (simp add: prints_alone_def)
      note built = gives_built_transfer [OF calm this buildTransfer_ids [OF builds(2)]]
      have share: "?share = no_rows\<lparr>pa_transfers := (if e = c \<and> ?emits then [t] else []),
         pa_movements := (if watched_for watch c KindMovements
           then concat (map (attributions c t) (the_row (x_MarshalEvent x ev))) else [])\<rparr>"
        using builds(2) by (auto simp: tm the_row_def)
      have "transfer_rows x watch (scope_of watch) cx k n ev e a =
        andThen (Inr (if ?emits then to_res (\<lambda>r. r\<lparr>rs_Transfers := rs_Transfers r @ [t]\<rparr>) a else a))
          (\<lambda>a. if ?want \<and> part then movement_rows x watch ev ?emits t a else Inr a)"
        using builds by (auto simp: run)
      then show ?thesis unfolding share by (simp only:) (rule built, rule side)
    qed
  qed
qed

lemma gives_event_step:
  assumes calm: "calm x" and intact: "intact_event ev" and alone: "prints_alone x c"
  shows "gives x pp c a (event_share x c (watched_for watch c) cx k n ev) (event_step x watch (scope_of watch) cx k n ev a)"
proof (cases "if ce_IsContract ev then ce_ContractId ev else None")
  case None
  then show ?thesis using gives_stay [of x pp c a] by (auto simp: event_share_def event_step_def split: if_splits)
next
  case (Some cid)
  then have ev: "ce_IsContract ev" "ce_ContractId ev = Some cid" by (auto split: if_splits)
  have "x_Encode x cid \<noteq> Panics" by (rule calm_sdk [OF calm])
  then consider "x_Encode x cid = Fails" | e where "x_Encode x cid = Returns e" by (cases "x_Encode x cid") auto
  then show ?thesis
  proof cases
    case 1
    then show ?thesis using ev gives_counters(2) [of x pp c a] by (simp add: event_share_def event_step_def)
  next
    case (2 e)
    have "event_share x c (watched_for watch c) cx k n ev = join_rows
      (no_rows\<lparr>pa_events := (if e = c \<and> watched_for watch c KindEvents then the_row (buildEvent x ev c cx k n) else [])\<rparr>)
      (no_rows\<lparr>pa_transfers := (if e = c \<and> watched_for watch c KindTransfers then token_movement x ev c cx k n else []),
         pa_movements := (if watched_for watch c KindMovements
           then concat (map (\<lambda>t. concat (map (attributions c t) (the_row (x_MarshalEvent x ev)))) (token_movement x ev e cx k n))
           else [])\<rparr>)"
      using ev 2 by (simp add: event_share_def join_rows_def no_rows_def)
    moreover have "event_step x watch (scope_of watch) cx k n ev a =
      andThen (event_row x watch cx k n ev e a) (transfer_rows x watch (scope_of watch) cx k n ev e)"
      using ev 2 by (simp add: event_step_def)
    ultimately show ?thesis
      using gives_andThen [OF gives_event_row [OF calm intact] gives_transfer_rows [OF assms]] by simp
  qed
qed

text \<open>The same for loops that carry the event index.\<close>

definition gives_at :: "'l codec \<Rightarrow> string \<Rightarrow> string \<Rightarrow> accum \<Rightarrow> partitioned \<Rightarrow> int \<Rightarrow> accum + (int \<times> accum) \<Rightarrow> bool" where
  "gives_at x passphrase c a p i r \<longleftrightarrow> (\<exists>b. r = Inr (i, b) \<and> gives x passphrase c a p (Inr b))"

lemma int32_Suc: "int32 (int32 i + 1) = int32 (i + 1)"
  by (simp add: int32_def)

lemma int32_small: "- 2147483648 \<le> i \<Longrightarrow> i < 2147483648 \<Longrightarrow> int32 i = i"
  by (simp add: int32_def sint_sbintrunc' signed_take_bit_int_eq_self)

lemma gives_op_events:
  assumes "calm x" and "list_all intact_event evs" and "prints_alone x c"
  shows "gives_at x pp c a
    (all_rows (map (\<lambda>(j, ev). event_share x c (watched_for watch c) cx k (int32 (int j)) ev) (enumerate n evs)))
    (int32 (int n - 1 + int (length evs)))
    (op_events x watch (scope_of watch) cx k evs (int32 (int n - 1), a))"
  using assms(2)
proof (induction evs arbitrary: n a)
  case Nil
  then show ?case using gives_stay [of x pp c a] by (simp add: gives_at_def)
next
  case (Cons ev evs)
  have i: "int32 (int32 (int n - 1) + 1) = int32 (int n)" using int32_Suc [of "int n - 1"] by simp
  obtain b where b: "event_step x watch (scope_of watch) cx k (int32 (int n)) ev a = Inr b"
    "gives x pp c a (event_share x c (watched_for watch c) cx k (int32 (int n)) ev) (Inr b)"
    using gives_event_step [OF assms(1) _ assms(3), of ev pp a watch cx k "int32 (int n)"] Cons.prems
    by (auto simp: gives_def)
  have "int32 (int (Suc n) - 1) = int32 (int n)" by simp
  with Cons.IH [where n = "Suc n" and a = b] Cons.prems obtain d where
    "op_events x watch (scope_of watch) cx k evs (int32 (int n), b) = Inr (int32 (int (Suc n) - 1 + int (length evs)), d)"
    "gives x pp c b (all_rows (map (\<lambda>(j, ev). event_share x c (watched_for watch c) cx k (int32 (int j)) ev) (enumerate (Suc n) evs))) (Inr d)"
    by (auto simp: gives_at_def)
  moreover from this(2) have "gives x pp c a (all_rows (map (\<lambda>(j, ev). event_share x c (watched_for watch c) cx k (int32 (int j)) ev)
      (enumerate n (ev # evs)))) (Inr d)"
    using gives_andThen [OF b(2), of _ "\<lambda>_. Inr d"] by simp
  moreover have "int n - 1 + int (length (ev # evs)) = int (Suc n) - 1 + int (length evs)" by simp
  ultimately show ?case using b(1) by (simp only: gives_at_def op_events.simps i andThen_simps sum.inject prod.inject) blast
qed

lemma gives_all_events:
  assumes "calm x" and "list_all (list_all intact_event) ops" and "prints_alone x c"
  shows "\<exists>i. gives_at x pp c a (op_shares x c (watched_for watch c) cx k n ops) i
    (all_events x watch (scope_of watch) cx k ops (int32 (int n - 1), a))"
  using assms(2)
proof (induction ops arbitrary: k n a)
  case Nil
  then show ?case using gives_stay [of x pp c a] by (simp add: gives_at_def)
next
  case (Cons evs ops)
  let ?p = "all_rows (map (\<lambda>(j, ev). event_share x c (watched_for watch c) cx (int32 (int k)) (int32 (int j)) ev) (enumerate n evs))"
  obtain b where b: "op_events x watch (scope_of watch) cx (int32 (int k)) evs (int32 (int n - 1), a) = Inr (int32 (int (n + length evs) - 1), b)"
    "gives x pp c a ?p (Inr b)"
    using gives_op_events [OF assms(1) _ assms(3), of evs pp a watch cx "int32 (int k)" n] Cons.prems
    by (auto simp: gives_at_def algebra_simps)
  obtain i d where d: "all_events x watch (scope_of watch) cx (Suc k) ops (int32 (int (n + length evs) - 1), b) = Inr (i, d)"
    "gives x pp c b (op_shares x c (watched_for watch c) cx (Suc k) (n + length evs) ops) (Inr d)"
    using Cons.IH [where n = "n + length evs" and a = b and k = "Suc k"] Cons.prems by (auto simp: gives_at_def)
  have "gives x pp c a (op_shares x c (watched_for watch c) cx k n (evs # ops)) (Inr d)"
    using gives_andThen [OF b(2), of _ "\<lambda>_. Inr d"] d(2) by simp
  then show ?case using b(1) d(1) by (simp add: gives_at_def)
qed
text \<open>Changes.\<close>

lemma value_of_calm: "calm x \<Longrightarrow> intact_entry e \<Longrightarrow> value_of x e \<noteq> Panics"
  by (auto simp: value_of_def intact_entry_def GetContractData_def bind_Panics calm_sdk split: option.splits entryData.splits)

lemma change_name_calm: "change_name t \<noteq> Panics"
  by (cases t) (simp_all add: change_name_def)

lemma trustline_side_calm: "intact_entry e \<Longrightarrow> trustline_side e \<noteq> Panics"
  by (auto simp: trustline_side_def intact_entry_def GetTrustLine_def split: option.splits entryData.splits)

lemma buildStateChange_calm:
  "calm x \<Longrightarrow> intact_entry (cg_Pre ch) \<Longrightarrow> intact_entry (cg_Post ch) \<Longrightarrow> buildStateChange x ch data i cx n \<noteq> Panics"
  by (simp add: buildStateChange_def bind_Panics calm_sdk value_of_calm change_name_calm)

lemma buildTrustlineChange_calm:
  "calm x \<Longrightarrow> intact_entry (cg_Pre ch) \<Longrightarrow> intact_entry (cg_Post ch) \<Longrightarrow> buildTrustlineChange x ch line i m cx n \<noteq> Panics"
  by (simp add: buildTrustlineChange_def bind_Panics calm_sdk trustline_side_calm change_name_calm)

lemma none_states: "no_rows\<lparr>pa_states := []\<rparr> = no_rows" "no_rows\<lparr>pa_trustlines := []\<rparr> = no_rows"
  by (simp_all add: no_rows_def)

lemma gives_stateChange:
  assumes "calm x" and "intact_entry (cg_Pre ch)" "intact_entry (cg_Post ch)"
    and ty: "cg_Type ch = EntryContractData"
  shows "gives x pp c a (change_share x pp c (watched_for watch c) cx n ch) (stateChange x watch cx n ch a)"
proof -
  let ?entry = "case cg_Post ch of Some e \<Rightarrow> Some e | None \<Rightarrow> cg_Pre ch"
  have entry: "intact_entry ?entry" using assms(2,3) by (auto split: option.splits)
  consider "\<forall>data. ?entry \<noteq> Some (DataContractData (Some data))" | data where "?entry = Some (DataContractData (Some data))" by blast
  then show ?thesis
  proof cases
    case 1
    then have "stateChange x watch cx n ch a = Inr a"
      using entry by (auto simp: stateChange_def GetContractData_def intact_entry_def split: option.splits entryData.splits)
    moreover have "change_share x pp c (watched_for watch c) cx n ch = no_rows"
      using 1 ty by (auto simp: change_share_def split: option.splits entryData.splits)
    ultimately show ?thesis using gives_stay [of x pp c a] by simp
  next
    case (2 data)
    have enc: "x_Encode x s \<noteq> Panics" for s by (rule calm_sdk [OF assms(1)])
    consider "ad_ContractId (cd_Contract data) = None" | cid where "ad_ContractId (cd_Contract data) = Some cid" "x_Encode x cid = Fails"
      | cid e where "ad_ContractId (cd_Contract data) = Some cid" "x_Encode x cid = Returns e"
      using enc by (cases "ad_ContractId (cd_Contract data)") (auto, metis outcome.exhaust)
    then show ?thesis
    proof cases
      case (3 cid e)
      have id: "sc_ContractID r = e" if "buildStateChange x ch data e cx n = Returns r" for r
        using that by (auto simp: buildStateChange_def bind_outcome_Returns)
      have run: "stateChange x watch cx n ch a = (if \<not> watched_for watch e KindState then Inr a
        else case buildStateChange x ch data e cx n of Panics \<Rightarrow> Inl a | Fails \<Rightarrow> Inr (suppress_event a)
          | Returns record \<Rightarrow> Inr (to_res (\<lambda>r. r\<lparr>rs_StateChanges := rs_StateChanges r @ [record]\<rparr>) a))"
        using 2 3 by (simp add: stateChange_def GetContractData_def)
      have share: "change_share x pp c (watched_for watch c) cx n ch = no_rows\<lparr>pa_states :=
          (if watched_for watch c KindState \<and> e = c then the_row (buildStateChange x ch data c cx n) else [])\<rparr>"
        using 2 3 ty by (simp add: change_share_def)
      show ?thesis
        unfolding run
      proof (rule gives_row [where e = e and p = "\<lambda>r. no_rows\<lparr>pa_states := [r]\<rparr>"])
        show "buildStateChange x ch data e cx n \<noteq> Panics" by (rule buildStateChange_calm [OF assms(1-3)])
        show "gives x pp c a (if e = c then no_rows\<lparr>pa_states := [r]\<rparr> else no_rows)
          (Inr (to_res (\<lambda>rs. rs\<lparr>rs_StateChanges := rs_StateChanges rs @ [r]\<rparr>) a))"
          if "buildStateChange x ch data e cx n = Returns r" for r
          using gives_one(2) [of x pp c a r] id [OF that] by simp
      qed (auto simp: gives_counters share the_row_def none_states split: outcome.splits)
    qed (use 2 ty gives_stay [of x pp c a] gives_counters(2) [of x pp c a]
        in \<open>simp_all add: stateChange_def GetContractData_def change_share_def none_states\<close>)
  qed
qed
text \<open>The memo answers what the derivation would.\<close>

lemma contractIDFor_memo:
  assumes "canonical_names x pp" and "memo_ok x pp m"
  shows "fst (contractIDFor x pp asset m) = bind_outcome (x_ContractID x pp asset) (x_Encode x)"
    "memo_ok x pp (snd (contractIDFor x pp asset m))"
proof -
  have hit: "bind_outcome (x_ContractID x pp asset) (x_Encode x) = Returns i" if "m (x_StringCanonical x asset) = Some i" for i
    using that assms unfolding memo_ok_def canonical_names_def by metis
  show "fst (contractIDFor x pp asset m) = bind_outcome (x_ContractID x pp asset) (x_Encode x)"
    using hit by (auto simp: contractIDFor_def Let_def split: option.split outcome.split)
  show "memo_ok x pp (snd (contractIDFor x pp asset m))"
    using assms(2) by (auto simp: contractIDFor_def Let_def memo_ok_def split: option.split outcome.split)
qed

lemma gives_memo: "memo_ok x pp m \<Longrightarrow> gives x pp c (a\<lparr>ac_byAsset := m\<rparr>) p r \<Longrightarrow> gives x pp c a p r"
  by (auto simp: gives_def)

text \<open>A change whose entry is no trustline over a classic asset is nobody's.\<close>

lemma trustline_none:
  assumes entry: "intact_entry ent" and ent: "ent = (case cg_Post ch of Some e \<Rightarrow> Some e | None \<Rightarrow> cg_Pre ch)"
    and none: "\<And>line asset. ent = Some (DataTrustline (Some line)) \<Longrightarrow> tl_Asset line \<noteq> ClassicAsset asset"
    and ty: "cg_Type ch = EntryTrustline"
  shows "trustline x pp watch cx n ch a = Inr a \<and> change_share x pp c ks cx n ch = no_rows"
proof (cases ent)
  case (Some d)
  show ?thesis
  proof (cases d)
    case (DataTrustline p)
    then obtain line where line: "p = Some line" using entry Some by (cases p) (auto simp: intact_entry_def)
    then have "tl_Asset line = PoolShare" using none Some DataTrustline by (cases "tl_Asset line") auto
    then show ?thesis using Some DataTrustline line ty by (simp add: ent trustline_def GetTrustLine_def change_share_def)
  qed (use Some ty in \<open>simp_all add: ent trustline_def GetTrustLine_def change_share_def\<close>)
qed (use ty in \<open>simp add: ent trustline_def change_share_def\<close>)

text \<open>The row of a classic trustline goes to the contract of its asset.\<close>

lemma gives_trustline_row:
  assumes "calm x" and "intact_entry (cg_Pre ch)" "intact_entry (cg_Post ch)"
  shows "gives x pp c a
    (no_rows\<lparr>pa_trustlines := (if watched_for watch c KindTrustlines \<and> e = c
       then the_row (buildTrustlineChange x ch line c s cx n) else [])\<rparr>)
    (if \<not> watched_for watch e KindTrustlines then Inr a
     else case buildTrustlineChange x ch line e s cx n of
         Panics \<Rightarrow> Inl a | Fails \<Rightarrow> Inr (suppress_trustline a)
       | Returns record \<Rightarrow> Inr (to_res (\<lambda>r. r\<lparr>rs_TrustlineChanges := rs_TrustlineChanges r @ [record]\<rparr>) a))"
proof (rule gives_row [where e = e and p = "\<lambda>r. no_rows\<lparr>pa_trustlines := [r]\<rparr>"])
  show "buildTrustlineChange x ch line e s cx n \<noteq> Panics" by (rule buildTrustlineChange_calm [OF assms])
  show "gives x pp c a (if e = c then no_rows\<lparr>pa_trustlines := [r]\<rparr> else no_rows)
    (Inr (to_res (\<lambda>rs. rs\<lparr>rs_TrustlineChanges := rs_TrustlineChanges rs @ [r]\<rparr>) a))"
    if "buildTrustlineChange x ch line e s cx n = Returns r" for r
  proof -
    have "tc_ContractID r = e"
      using that by (auto simp: buildTrustlineChange_def bind_outcome_Returns split: if_splits)
    then show ?thesis using gives_one(4) [of x pp c a r] by simp
  qed
qed (auto simp: gives_counters the_row_def none_states split: outcome.splits)

lemma gives_trustline:
  assumes "calm x" and "intact_entry (cg_Pre ch)" "intact_entry (cg_Post ch)" and names: "canonical_names x pp"
    and ty: "cg_Type ch = EntryTrustline" and memo: "memo_ok x pp (ac_byAsset a)"
  shows "gives x pp c a (change_share x pp c (watched_for watch c) cx n ch) (trustline x pp watch cx n ch a)"
proof -
  let ?entry = "case cg_Post ch of Some e \<Rightarrow> Some e | None \<Rightarrow> cg_Pre ch"
  have entry: "intact_entry ?entry" using assms(2,3) by (auto split: option.splits)
  consider (none) "\<And>line asset. ?entry = Some (DataTrustline (Some line)) \<Longrightarrow> tl_Asset line \<noteq> ClassicAsset asset"
    | (line) line asset where "?entry = Some (DataTrustline (Some line))" "tl_Asset line = ClassicAsset asset" by blast
  then show ?thesis
  proof cases
    case none
    have "trustline x pp watch cx n ch a = Inr a \<and> change_share x pp c (watched_for watch c) cx n ch = no_rows"
      by (rule trustline_none [OF entry refl _ ty]) (rule none)
    then show ?thesis using gives_stay [of x pp c a] by simp
  next
    case (line line asset)
    let ?id = "bind_outcome (x_ContractID x pp asset) (x_Encode x)"
    obtain found m where fm: "contractIDFor x pp asset (ac_byAsset a) = (found, m)" by fastforce
    have found: "found = ?id" "memo_ok x pp m" using contractIDFor_memo [OF names memo, of asset] fm by simp_all
    let ?a = "a\<lparr>ac_byAsset := m\<rparr>"
    have "?id \<noteq> Panics" by (simp add: bind_Panics calm_sdk [OF assms(1)])
    then consider (fails) "?id = Fails" | (id) e where "?id = Returns e" by (cases ?id) auto
    then have "gives x pp c ?a (change_share x pp c (watched_for watch c) cx n ch) (trustline x pp watch cx n ch a)"
    proof cases
      case fails
      then show ?thesis using line found fm ty gives_counters(3) [of x pp c ?a]
        by (simp add: trustline_def GetTrustLine_def Let_def change_share_def none_states)
    next
      case (id e)
      have "change_share x pp c (watched_for watch c) cx n ch = no_rows\<lparr>pa_trustlines :=
          (if watched_for watch c KindTrustlines \<and> e = c
           then the_row (buildTrustlineChange x ch line c (x_StringCanonical x asset) cx n) else [])\<rparr>"
        using line id ty by (simp add: change_share_def)
      then show ?thesis using gives_trustline_row [OF assms(1-3), of pp c ?a watch e line _ cx n] line found fm id
        by (simp add: trustline_def GetTrustLine_def Let_def)
    qed
    then show ?thesis by (rule gives_memo [OF found(2)])
  qed
qed

lemma gives_memo_ok: "gives x pp c a p (Inr b) \<Longrightarrow> memo_ok x pp (ac_byAsset a) \<Longrightarrow> memo_ok x pp (ac_byAsset b)"
  by (simp add: gives_def)

lemma gives_change_step:
  assumes "calm x" and "intact_entry (cg_Pre ch)" "intact_entry (cg_Post ch)" and "canonical_names x pp"
    and "memo_ok x pp (ac_byAsset a)"
  shows "gives x pp c a (change_share x pp c (watched_for watch c) cx n ch) (change_step x pp watch (scope_of watch) cx n ch a)"
proof (cases "cg_Type ch")
  case EntryContractData
  then show ?thesis using gives_stateChange [OF assms(1-3) EntryContractData, of pp c a watch cx n] by (simp add: change_step_def)
next
  case EntryTrustline
  show ?thesis
  proof (cases "AnyKind watch KindTrustlines")
    case True
    then show ?thesis using gives_trustline [OF assms(1-4) EntryTrustline assms(5), of c watch cx n] EntryTrustline
      by (simp add: change_step_def scope_of_def)
  next
    case False
    then have "\<not> watched_for watch c KindTrustlines" using watched_for_AnyKind by blast
    then have "change_share x pp c (watched_for watch c) cx n ch = no_rows"
      using EntryTrustline by (auto simp: change_share_def none_states split: option.splits entryData.splits trustlineAsset.splits)
    then show ?thesis using gives_stay [of x pp c a] False EntryTrustline by (simp add: change_step_def scope_of_def)
  qed
next
  case EntryOther
  then show ?thesis using gives_stay [of x pp c a] by (simp add: change_step_def change_share_def)
qed

lemma gives_all_changes:
  assumes "calm x" and "list_all (\<lambda>ch. intact_entry (cg_Pre ch) \<and> intact_entry (cg_Post ch)) chs" and "canonical_names x pp"
    and "memo_ok x pp (ac_byAsset a)"
  shows "gives x pp c a (all_rows (map (\<lambda>(j, ch). change_share x pp c (watched_for watch c) cx (int32 (int j)) ch) (enumerate n chs)))
    (all_changes x pp watch (scope_of watch) cx n chs a)"
  using assms(2,4)
proof (induction chs arbitrary: n a)
  case Nil
  then show ?case using gives_stay [of x pp c a] by simp
next
  case (Cons ch chs)
  have step: "gives x pp c a (change_share x pp c (watched_for watch c) cx (int32 (int n)) ch)
    (change_step x pp watch (scope_of watch) cx (int32 (int n)) ch a)"
    using gives_change_step [OF assms(1) _ _ assms(3)] Cons.prems by simp
  have "gives x pp c b (all_rows (map (\<lambda>(j, ch). change_share x pp c (watched_for watch c) cx (int32 (int j)) ch) (enumerate (Suc n) chs)))
    (all_changes x pp watch (scope_of watch) cx (Suc n) chs b)"
    if "change_step x pp watch (scope_of watch) cx (int32 (int n)) ch a = Inr b" for b
    using Cons.IH [where n = "Suc n" and a = b] Cons.prems step that gives_memo_ok [of x pp c a _ b] by auto
  from gives_andThen [OF step this] show ?case by simp
qed

text \<open>One transaction, then all of them.\<close>

definition gives_acc :: "'l codec \<Rightarrow> string \<Rightarrow> string \<Rightarrow> accum \<Rightarrow> partitioned \<Rightarrow> accum \<Rightarrow> bool" where
  "gives_acc x passphrase c a p b \<longleftrightarrow> gives x passphrase c a p (Inr b)"

lemma gives_acc_trans: "gives_acc x pp c a p b \<Longrightarrow> gives_acc x pp c b q d \<Longrightarrow> gives_acc x pp c a (join_rows p q) d"
  by (auto simp: gives_acc_def gives_def)

lemma gives_processTx:
  assumes calm: "calm x" and tx: "intact_tx tx" and alone: "prints_alone x c" and names: "canonical_names x pp"
    and toid: "x_toid x (int32 (uint seq)) (int32 (uint (tx_Index tx))) = Returns prefix" and memo: "memo_ok x pp (ac_byAsset a)"
  shows "gives_acc x pp c a (tx_share x pp seq closedAt c (watched_for watch c) tx)
    (processTx x pp seq closedAt watch (scope_of watch) tx a)"
proof (cases "tx_Successful tx = Some True")
  case False
  then have "tx_Successful tx = Some False" using tx by (auto simp: intact_tx_def)
  moreover have "gives x pp c a no_rows (Inr (to_res (\<lambda>r. r\<lparr>rs_FailedTxs := rs_FailedTxs r + 1\<rparr>) a))"
    by (simp add: gives_def rows_for_counters) (simp add: rows_for_def to_res_def)
  ultimately show ?thesis by (simp add: gives_acc_def tx_share_def processTx_def)
next
  case True
  let ?cx = "context_of x seq closedAt tx prefix"
  let ?ep = "case tx_Events tx of Returns ops \<Rightarrow> op_shares x c (watched_for watch c) ?cx 0 0 ops | _ \<Rightarrow> no_rows"
  let ?cp = "case tx_Changes tx of
      Returns chs \<Rightarrow> all_rows (map (\<lambda>(j, ch). change_share x pp c (watched_for watch c) ?cx (int32 (int j)) ch) (enumerate 0 chs))
    | _ \<Rightarrow> no_rows"
  have ctx: "with_context x seq closedAt tx f b = andThen (f ?cx b) (\<lambda>a. Inr (True, a))" for f b
    by (simp add: with_context_def toid context_of_def)
  obtain eok b where e: "txEvents x seq closedAt watch (scope_of watch) tx a = Inr (eok, b)" "gives_acc x pp c a ?ep b"
  proof (cases "tx_Events tx")
    case (Returns ops)
    then have ops: "list_all (list_all intact_event) ops" using tx by (simp add: intact_tx_def)
    have m1: "int32 (int 0 - 1) = - 1" by (subst int32_small) simp_all
    obtain i b where "all_events x watch (scope_of watch) ?cx 0 ops (- 1, a) = Inr (i, b)"
      "gives x pp c a (op_shares x c (watched_for watch c) ?cx 0 0 ops) (Inr b)"
      using gives_all_events [OF calm ops alone, of pp a watch ?cx 0 0] unfolding m1 gives_at_def by blast
    then show ?thesis using that [of True b] Returns by (simp add: txEvents_def ctx gives_acc_def)
  next
    case Fails
    then show ?thesis using that [of False a] gives_stay [of x pp c a] by (simp add: txEvents_def gives_acc_def)
  qed (use tx in \<open>simp add: intact_tx_def\<close>)
  have "memo_ok x pp (ac_byAsset b)" using e(2) memo by (simp add: gives_acc_def gives_def)
  obtain sok d where s: "txLedgerChanges x pp seq closedAt watch (scope_of watch) tx b = Inr (sok, d)" "gives_acc x pp c b ?cp d"
  proof (cases "tx_Changes tx")
    case (Returns chs)
    then have "list_all (\<lambda>ch. intact_entry (cg_Pre ch) \<and> intact_entry (cg_Post ch)) chs" using tx by (simp add: intact_tx_def)
    from gives_all_changes [OF calm this names \<open>memo_ok x pp (ac_byAsset b)\<close>, of c watch ?cx 0]
    obtain d where "all_changes x pp watch (scope_of watch) ?cx 0 chs b = Inr d" "gives x pp c b ?cp (Inr d)"
      using Returns by (auto simp: gives_def)
    then show ?thesis using that [of True d] Returns by (simp add: txLedgerChanges_def ctx gives_acc_def)
  next
    case Fails
    then show ?thesis using that [of False b] gives_stay [of x pp c b] by (simp add: txLedgerChanges_def gives_acc_def)
  qed (use tx in \<open>simp add: intact_tx_def\<close>)
  have sh: "tx_share x pp seq closedAt c (watched_for watch c) tx = join_rows ?ep ?cp"
    using True toid by (simp add: tx_share_def Let_def)
  have run: "processTx x pp seq closedAt watch (scope_of watch) tx a = (if \<not> eok \<or> \<not> sok then suppress_tx d else d)"
    using True e(1) s(1) by (simp add: processTx_def)
  have "gives_acc x pp c a (join_rows ?ep ?cp) d" by (rule gives_acc_trans [OF e(2) s(2)])
  then show ?thesis
    unfolding sh run by (auto simp: gives_acc_def gives_def rows_for_counters)
qed
section \<open>A ledger\<close>

lemma gives_read_txs:
  assumes calm: "calm x" and alone: "prints_alone x c" and names: "canonical_names x pp"
    and reads: "\<forall>tx. Some tx \<in> set reads \<longrightarrow> intact_tx tx \<and> (\<exists>prefix. x_toid x (int32 (uint seq)) (int32 (uint (tx_Index tx))) = Returns prefix)"
    and memo: "memo_ok x pp (ac_byAsset a)"
  shows "gives_acc x pp c a
    (all_rows (map (tx_share x pp seq closedAt c (watched_for watch c)) (concat (map (case_option [] (\<lambda>t. [t])) reads))))
    (foldl (read_tx x pp seq closedAt watch) a reads)"
  using reads memo
proof (induction reads arbitrary: a)
  case Nil
  then show ?case using gives_stay [of x pp c a] by (simp add: gives_acc_def)
next
  case (Cons r reads)
  let ?p = "all_rows (map (tx_share x pp seq closedAt c (watched_for watch c)) (case_option [] (\<lambda>t. [t]) r))"
  have step: "gives_acc x pp c a ?p (read_tx x pp seq closedAt watch a r)"
  proof (cases r)
    case None
    then show ?thesis using gives_counters(1) [of x pp c a] by (simp add: read_tx_def gives_acc_def)
  next
    case (Some tx)
    then obtain prefix where "intact_tx tx" "x_toid x (int32 (uint seq)) (int32 (uint (tx_Index tx))) = Returns prefix"
      using Cons.prems(1) by auto
    from gives_processTx [OF calm this(1) alone names this(2) Cons.prems(2)] show ?thesis
      using Some by (simp add: read_tx_def)
  qed
  then have "memo_ok x pp (ac_byAsset (read_tx x pp seq closedAt watch a r))"
    using Cons.prems(2) by (simp add: gives_acc_def gives_def)
  with Cons.IH [of "read_tx x pp seq closedAt watch a r"] Cons.prems(1) gives_acc_trans [OF step]
  show ?case by (simp add: all_rows_append)
qed

text \<open>A contract that wants nothing is owed nothing.\<close>

lemma event_share_nothing: "event_share x c (\<lambda>_. False) cx k n ev = no_rows"
  by (simp add: event_share_def no_rows_def split: option.split outcome.split)

lemma change_share_nothing: "change_share x pp c (\<lambda>_. False) cx n ch = no_rows"
  by (simp add: change_share_def none_states split: entryType.split option.split entryData.split trustlineAsset.split)

lemma op_shares_nothing: "op_shares x c (\<lambda>_. False) cx k n ops = no_rows"
  by (induction ops arbitrary: k n) (auto simp: event_share_nothing intro!: all_rows_none)

lemma tx_share_nothing: "tx_share x pp seq closedAt c (\<lambda>_. False) tx = no_rows"
proof -
  have "all_rows (map (\<lambda>(j, ch). change_share x pp c (\<lambda>_. False) cx (int32 (int j)) ch) (enumerate 0 chs)) = no_rows" for cx chs
    by (auto simp: change_share_nothing intro!: all_rows_none)
  then show ?thesis by (simp add: tx_share_def op_shares_nothing Let_def split: outcome.split)
qed

lemma ledger_share_nothing: "ledger_share x pp c (\<lambda>_. False) meta = no_rows"
  by (auto simp: ledger_share_def tx_share_nothing intro!: all_rows_none split: option.split)

lemma Events_rows:
  assumes "calm x" and "decoded x pp meta" and "prints_alone x c" and "canonical_names x pp"
    and "Events x pp watch meta = Inr res"
  shows "rows_for c res = ledger_share x pp c (watched_for watch c) meta"
proof (cases "Len watch = 0")
  case True
  then have "watched_for watch c = (\<lambda>_. False)" by (auto simp: Len_def watched_for_def Get_def)
  then show ?thesis using True assms(5) by (simp add: Events_def ledger_share_nothing)
next
  case False
  let ?a = "\<lparr>ac_res = empty_result, ac_byAsset = Map.empty\<rparr>"
  obtain reads where reads: "x_reads x pp meta = Some reads"
    "res = ac_res (foldl (read_tx x pp (x_LedgerSeq x meta) (x_CloseTime x meta) watch) ?a reads)"
    using assms(5) False by (auto simp: Events_def split: option.splits)
  have "\<forall>tx. Some tx \<in> set reads \<longrightarrow> intact_tx tx
      \<and> (\<exists>prefix. x_toid x (int32 (uint (x_LedgerSeq x meta))) (int32 (uint (tx_Index tx))) = Returns prefix)"
    using assms(2) reads(1) by (simp add: decoded_def)
  from gives_read_txs [OF assms(1,3,4) this, of ?a "x_CloseTime x meta" watch] show ?thesis
    unfolding reads(2) by (simp add: gives_acc_def gives_def memo_ok_def ledger_share_def reads(1))
qed

section \<open>Scans that extract alike\<close>

definition alike :: "string \<Rightarrow> 'l extractor \<Rightarrow> 'l extractor \<Rightarrow> bool" where
  "alike c ex ex' \<longleftrightarrow> (\<forall>l. rel_sum (=) (\<lambda>r s. rows_for c r = rows_for c s) (ex l) (ex' l))"

lemma scan_batch_alike:
  assumes "alike c ex ex'" and "scan_batch infoOf ex b (seq, prev, r) = Inr (seq', prev', q)" and "rows_for c r = rows_for c s"
  shows "\<exists>q'. scan_batch infoOf ex' b (seq, prev, s) = Inr (seq', prev', q') \<and> rows_for c q = rows_for c q'"
  using assms(2,3)
proof (induction b arbitrary: seq prev r s)
  case (Cons l b)
  then obtain v where v: "ex l = Inr v" "in_Sequence (infoOf l) = seq" "\<not> (prev \<noteq> '''' \<and> in_PreviousHash (infoOf l) \<noteq> prev)"
    "scan_batch infoOf ex b (seq + 1, in_Hash (infoOf l), add_result r v) = Inr (seq', prev', q)"
    by (auto simp: Let_def split: if_splits sum.splits)
  obtain w where w: "ex' l = Inr w" "rows_for c v = rows_for c w"
    using assms(1) v(1) unfolding alike_def by (auto dest!: spec [of _ l] simp: rel_sum_simps elim: rel_sum.cases)
  have "rows_for c (add_result r v) = rows_for c (add_result s w)" using w(2) Cons.prems(2) by (simp add: rows_for_add_result)
  from Cons.IH [OF v(4) this] show ?case using v w(1) by (auto simp: Let_def)
qed simp

lemma scan_loop_alike:
  assumes "alike c ex ex'" and "scan_loop src infoOf ex to fuel (seq, prev, r) = Some (Inr q)" and "rows_for c r = rows_for c s"
  shows "\<exists>q'. scan_loop src infoOf ex' to fuel (seq, prev, s) = Some (Inr q') \<and> rows_for c q = rows_for c q'"
  using assms(2,3)
proof (induction fuel arbitrary: seq prev r s)
  case (Suc fuel)
  show ?case
  proof (cases "seq \<le> to")
    case True
    then obtain batch seq1 prev1 r1 where b: "src seq (min (unat (to - seq) + 1) backfillBatchLimit) = Inr batch"
      "scan_batch infoOf ex batch (seq, prev, r) = Inr (seq1, prev1, r1)"
      "scan_loop src infoOf ex to fuel (seq1, prev1, r1) = Some (Inr q)"
      using Suc.prems(1) by (auto split: sum.splits)
    from scan_batch_alike [OF assms(1) b(2) Suc.prems(2)] obtain s1 where
      s1: "scan_batch infoOf ex' batch (seq, prev, s) = Inr (seq1, prev1, s1)" "rows_for c r1 = rows_for c s1" by blast
    from Suc.IH [OF b(3) s1(2)] show ?thesis using True b(1) s1(1) by simp
  qed (use Suc.prems in simp)
qed simp

lemma Events_alike:
  assumes "calm x" and "\<forall>meta. decoded x pp meta" and "prints_alone x c" and "canonical_names x pp"
    and "watched_for watch c = watched_for watch' c" and "Len watch \<noteq> 0" and "Len watch' \<noteq> 0"
  shows "alike c (Events x pp watch) (Events x pp watch')"
  unfolding alike_def
proof
  fix meta
  show "rel_sum (=) (\<lambda>r s. rows_for c r = rows_for c s) (Events x pp watch meta) (Events x pp watch' meta)"
  proof (cases "x_reads x pp meta")
    case None
    then show ?thesis using assms(6,7) by (simp add: Events_def)
  next
    case (Some reads)
    then obtain r s where rs: "Events x pp watch meta = Inr r" "Events x pp watch' meta = Inr s"
      using assms(6,7) by (simp add: Events_def)
    have "rows_for c r = rows_for c s"
      using Events_rows [OF assms(1) _ assms(3,4) rs(1)] Events_rows [OF assms(1) _ assms(3,4) rs(2)] assms(2,5) by simp
    then show ?thesis by (simp add: rs)
  qed
qed
section \<open>Properties\<close>

lemma watched_StaticSnapshot:
  assumes "distinct (map ct_ContractID cs)" and "c \<in> set cs"
  shows "watched_for (StaticSnapshot cs) (ct_ContractID c) kind \<longleftrightarrow> HasKind c kind"
proof -
  have "find (\<lambda>d. ct_ContractID d = ct_ContractID c) cs = Some c"
    using assms by (induction cs) (auto simp: image_iff)
  then show ?thesis using assms(1) by (simp add: watched_for_def Get_StaticSnapshot)
qed

lemma Len_StaticSnapshot: "c \<in> set cs \<Longrightarrow> Len (StaticSnapshot cs) \<noteq> 0"
proof -
  assume c: "c \<in> set cs"
  have keys: "fst ` set (foldl (\<lambda>m c. byID_put (ct_ContractID c) c m) m cs) = fst ` set m \<union> ct_ContractID ` set cs" for m
    by (induction cs arbitrary: m) (auto simp: keys_byID_put)
  show ?thesis using keys [of "[]"] c by (auto simp: Len_def StaticSnapshot_def)
qed

text \<open>C29: extraction gives every contract exactly its share of a ledger: the events it emitted, the
  transfers it emitted, the changes of its entries, the trustlines of its asset and the movements it is
  a side of, whoever emitted them, each in chain order and numbered by its position before any
  filtering, and nothing else, whatever the other contracts watch.\<close>

theorem contract_rows_exact:
  assumes "calm x" and "decoded x pp meta" and "prints_alone x c" and "canonical_names x pp"
    and "Events x pp watch meta = Inr res"
  shows "orEmpty (map_of (partitionResult res) c) = ledger_share x pp c (watched_for watch c) meta"
  unfolding part_of_scan using Events_rows [OF assms] by (simp add: rows_for_def)

definition demo_transfer :: contractEvent where
  "demo_transfer = \<lparr>ce_IsContract = True, ce_ContractId = Some ''t'', ce_Body = BodyV0 (Some
     \<lparr>bo_Topics = [ScvSymbol (Some ''transfer''), ScvAddress (Some \<lparr>ad_IsContract = False, ad_ContractId = None, ad_Other = ''x''\<rparr>),
        ScvAddress (Some \<lparr>ad_IsContract = True, ad_ContractId = Some ''a'', ad_Other = ''''\<rparr>)],
      bo_Data = ScvI128 (Some (Int128Parts 0 5))\<rparr>)\<rparr>"

definition demo_tx :: ledgerTx where
  "demo_tx = \<lparr>tx_Index = 1, tx_Hash = ''h'', tx_Successful = Some True, tx_Events = Returns [[demo_transfer]], tx_Changes = Returns []\<rparr>"

text \<open>Every ledger holds one payment of 5 units of the token \<open>Ct\<close> to the contract \<open>Ca\<close>.\<close>

definition demo_codec :: "u32 codec" where
  "demo_codec = \<lparr>x_reads = (\<lambda>_ _. Some [Some demo_tx]), x_LedgerSeq = (\<lambda>s. s), x_CloseTime = (\<lambda>_. 0),
     x_toid = (\<lambda>s t. Returns (s * 4294967296 + t * 4096)), x_Encode = (\<lambda>s. Returns (CHR ''C'' # s)),
     x_String = (\<lambda>a. if ad_IsContract a then case ad_ContractId a of None \<Rightarrow> Fails | Some s \<Rightarrow> Returns (CHR ''C'' # s)
                     else Returns (CHR ''G'' # ad_Other a)),
     x_MarshalEvent = (\<lambda>_. Returns ''e''), x_MarshalVal = (\<lambda>_. Returns ''v''),
     x_String128Raw = (\<lambda>p. dec_int (sint (Hi p) * 18446744073709551616 + uint (Lo p))),
     x_StringCanonical = (\<lambda>a. a), x_ContractID = (\<lambda>_ a. Returns a), x_GetAddress = Returns\<rparr>"

lemma demo_codec_ok:
  "calm demo_codec" "decoded demo_codec pp meta" "canonical_names demo_codec pp" "prints_alone demo_codec ''Ca''"
  by (auto simp: calm_def demo_codec_def decoded_def demo_tx_def demo_transfer_def intact_tx_def intact_event_def arm_set_def
      intact_def canonical_names_def prints_alone_def split: option.split)

lemma demo_extracts: "\<exists>res. Events demo_codec pp watch meta = Inr res"
proof -
  have "x_reads demo_codec pp meta = Some [Some demo_tx]" by (simp add: demo_codec_def)
  then show ?thesis by (simp add: Events_def)
qed

definition demo_watched :: Contract where
  "demo_watched = \<lparr>ct_Network = ''n'', ct_ContractID = ''Ca'', ct_Source = SourceAPI, ct_Kinds = [KindMovements],
     ct_Classification = None, ct_RegisteredAt = 0\<rparr>"

theorem contract_rows_exact_witness:
  "\<exists>res. Events demo_codec ''p'' (StaticSnapshot [demo_watched]) 9 = Inr res
    \<and> orEmpty (map_of (partitionResult res) ''Ca'') = ledger_share demo_codec ''p'' ''Ca'' (\<lambda>k. k = KindMovements) 9"
proof -
  obtain res where res: "Events demo_codec ''p'' (StaticSnapshot [demo_watched]) 9 = Inr res"
    using demo_extracts by blast
  have "watched_for (StaticSnapshot [demo_watched]) ''Ca'' = (\<lambda>k. k = KindMovements)"
    using watched_StaticSnapshot [of "[demo_watched]" demo_watched]
    by (auto simp: demo_watched_def HasKind_def fun_eq_iff)
  with contract_rows_exact [OF demo_codec_ok(1,2,4,3) res] res show ?thesis by auto
qed

text \<open>C30: sharing a scan is invisible. Rows served to a walk from the scan of a whole group, or from the
  cache of an earlier group, are the rows a scan of that range for the one contract would have produced,
  and that scan would have succeeded.\<close>

theorem shared_scan_is_own_scan:
  assumes sdk: "calm x" "\<forall>meta. decoded x pp meta" "canonical_names x pp" "prints_alone x (ct_ContractID c)"
    and scan: "scan src infoOf (Events x pp (StaticSnapshot scanFor)) fuel (rg_from rg) (rg_to rg) = Some (Inr res)"
    and hit: "cachedScan (Some (rememberScan rg scanFor res)) rg' contracts = Some res'"
    and c: "c \<in> set contracts" and ids: "distinct (map ct_ContractID scanFor)"
    and kinds: "\<forall>c\<in>set contracts \<union> set scanFor. plain_kinds c"
  shows "\<exists>own. scan src infoOf (Events x pp (StaticSnapshot [c])) fuel (rg_from rg') (rg_to rg') = Some (Inr own)
    \<and> orEmpty (map_of (partitionResult res') (ct_ContractID c)) = orEmpty (map_of (partitionResult own) (ct_ContractID c))"
proof -
  have same: "rg_from rg' = rg_from rg" "rg_to rg' = rg_to rg" "res' = res"
    using hit by (auto simp: cachedScan_def rememberScan_def split: if_splits)
  obtain c' where c': "c' \<in> set scanFor" "ct_ContractID c' = ct_ContractID c" "sort (ct_Kinds c') = sort (ct_Kinds c)"
    using cachedScan_same_scan [OF hit kinds] c by blast
  have "HasKind c' kind \<longleftrightarrow> HasKind c kind" for kind
    unfolding HasKind_def using c'(3) by (metis set_sort)
  then have w: "watched_for (StaticSnapshot scanFor) (ct_ContractID c) = watched_for (StaticSnapshot [c]) (ct_ContractID c)"
    using watched_StaticSnapshot [OF ids c'(1)] watched_StaticSnapshot [of "[c]" c] c'(2) by auto
  have "alike (ct_ContractID c) (Events x pp (StaticSnapshot scanFor)) (Events x pp (StaticSnapshot [c]))"
    by (rule Events_alike [OF sdk(1,2,4,3) w Len_StaticSnapshot [OF c'(1)] Len_StaticSnapshot [of c]]) simp
  from scan_loop_alike [OF this scan [unfolded scan_def] refl] show ?thesis
    unfolding part_of_scan same scan_def by (simp add: rows_for_def)
qed

theorem shared_scan_is_own_scan_witness:
  "\<exists>own. scan (\<lambda>s _. Inr [s]) (\<lambda>s. \<lparr>in_Sequence = s, in_Hash = ''h'', in_PreviousHash = ''h'', in_ClosedAt = 0\<rparr>)
     (Events demo_codec ''p'' (StaticSnapshot [demo_watched])) 2 5 5 = Some (Inr own)"
proof -
  let ?info = "\<lambda>s. \<lparr>in_Sequence = s, in_Hash = ''h'', in_PreviousHash = ''h'', in_ClosedAt = 0\<rparr>"
  let ?ex = "Events demo_codec ''p'' (StaticSnapshot [demo_watched])"
  let ?rg = "\<lparr>rg_from = 5, rg_to = 5\<rparr>"
  obtain r where r: "?ex 5 = Inr r" using demo_extracts by blast
  have two: "(2::nat) = Suc (Suc 0)" by simp
  have scan: "scan (\<lambda>s _. Inr [s]) ?info ?ex 2 (rg_from ?rg) (rg_to ?rg) = Some (Inr (add_result empty_result r))"
    unfolding scan_def two by (simp add: r)
  have kinds: "\<forall>c\<in>set [demo_watched] \<union> set [demo_watched]. plain_kinds c"
    by (simp add: plain_kinds_def demo_watched_def KindMovements_def)
  have hit: "cachedScan (Some (rememberScan ?rg [demo_watched] (add_result empty_result r))) ?rg [demo_watched] = Some (add_result empty_result r)"
    by (simp add: cachedScan_def rememberScan_def member_kinds_def)
  have "prints_alone demo_codec (ct_ContractID demo_watched)" using demo_codec_ok(4) by (simp add: demo_watched_def)
  from shared_scan_is_own_scan [OF demo_codec_ok(1) _ demo_codec_ok(3) this scan hit _ _ kinds] demo_codec_ok(2)
  show ?thesis by auto
qed

end
