(* ===== verification/Extract_Rows.thy ===== *)
theory Extract_Rows
  imports Extract_Shares "HOL-Library.List_Lexorder" "HOL-Library.Char_ord"
begin

text \<open>
  What holds of every row extraction writes: rows are well formed (\<open>row_invariant\<close> is the interface
  by which a property of the accumulator is carried through every step), one bad transaction costs one
  suppression and nothing else, and the ids sort in the order of the chain.
\<close>

section \<open>Ids\<close>

text \<open>The low digits of a number, most significant first.\<close>

fun low_digits :: "nat \<Rightarrow> nat \<Rightarrow> string" where
  "low_digits 0 n = []"
| "low_digits (Suc w) n = low_digits w (n div 10) @ [digit_char (n mod 10)]"

lemma length_low_digits [simp]: "length (low_digits w n) = w"
  by (induction w arbitrary: n) simp_all

lemma low_digits_zero: "low_digits w 0 = replicate w CHR ''0''"
proof (induction w)
  case (Suc w)
  have "digit_char 0 = CHR ''0''" by (rule iffD1 [OF code_inject], simp add: digit_char_def code_char_of code_def)
  then show ?case using Suc by (simp add: replicate_append_same)
qed simp

lemma zpad_low_digits: "n < 10 ^ Suc w \<Longrightarrow> zpad (Suc w) (int n) = low_digits (Suc w) n"
proof (induction w arbitrary: n)
  case 0
  then show ?case by (subst zpad_def, subst (1 2) dec.simps) simp
next
  case (Suc w)
  show ?case
  proof (cases "n < 10")
    case True
    then show ?thesis by (subst zpad_def, subst (1 2) dec.simps) (simp add: low_digits_zero [symmetric] replicate_append_same)
  next
    case False
    have "n div 10 < 10 ^ Suc w" using Suc.prems by (simp add: less_mult_imp_div_less)
    from Suc.IH [OF this] have "replicate (Suc w - length (dec (n div 10))) CHR ''0'' @ dec (n div 10) = low_digits (Suc w) (n div 10)"
      by (simp add: zpad_def)
    moreover have "dec n = dec (n div 10) @ [digit_char (n mod 10)]" using False by (subst dec.simps) simp
    ultimately show ?thesis by (simp add: zpad_def del: dec.simps)
  qed
qed

lemma append_less: "length a = length b \<Longrightarrow> a @ c < b @ d \<longleftrightarrow> a < b \<or> a = b \<and> c < (d :: string)"
  by (induction a b rule: list_induct2) (auto simp: less_list_code)

lemma digit_char_less: "d < 10 \<Longrightarrow> e < 10 \<Longrightarrow> digit_char d < digit_char e \<longleftrightarrow> d < e"
  by (simp add: digit_char_def less_char_def)

lemma low_digits_less: "m < 10 ^ w \<Longrightarrow> n < 10 ^ w \<Longrightarrow> low_digits w m < low_digits w n \<longleftrightarrow> m < n"
proof (induction w arbitrary: m n)
  case (Suc w)
  have div: "m div 10 < 10 ^ w" "n div 10 < 10 ^ w" using Suc.prems by (simp_all add: less_mult_imp_div_less)
  have inj: "low_digits w (m div 10) = low_digits w (n div 10) \<longleftrightarrow> m div 10 = n div 10"
    using Suc.IH [OF div] Suc.IH [OF div(2,1)] by (metis linorder_neqE_nat order.strict_implies_not_eq)
  have lex: "(a < c \<or> a = c \<and> b < d) \<longleftrightarrow> 10 * a + b < 10 * c + d" if "b < 10" "d < 10" for a b c d :: nat
    using that by presburger
  have "m div 10 < n div 10 \<or> m div 10 = n div 10 \<and> m mod 10 < n mod 10 \<longleftrightarrow> m < n"
    using lex [of "m mod 10" "n mod 10" "m div 10" "n div 10"] by simp
  then show ?case using Suc.IH [OF div] inj by (simp add: append_less digit_char_less)
qed simp
text \<open>The documented layout of a TOID (SEP-35), for sequence and index in range.\<close>

definition toid_layout :: "'l codec \<Rightarrow> bool" where
  "toid_layout x \<longleftrightarrow> (\<forall>s t. 0 \<le> s \<longrightarrow> s < 2147483648 \<longrightarrow> 0 \<le> t \<longrightarrow> t < 1048576 \<longrightarrow>
     x_toid x s t = Returns (s * 4294967296 + t * 4096))"

definition position_before :: "int \<times> int \<times> int \<Rightarrow> int \<times> int \<times> int \<Rightarrow> bool" where
  "position_before p q = (case (p, q) of ((s, t, i), (s', t', i')) \<Rightarrow> s < s' \<or> s = s' \<and> (t < t' \<or> t = t' \<and> i < i'))"

lemma row_id_less:
  assumes "0 \<le> p" "p < 9223372036854775808" "0 \<le> q" "q < 9223372036854775808"
    and "0 \<le> i" "i < 2147483648" "0 \<le> j" "j < 2147483648"
  shows "row_id p i < row_id q j \<longleftrightarrow> p < q \<or> p = q \<and> i < j"
proof -
  have nums: "19 = Suc 18" "10 = Suc 9" by simp_all
  have pad: "zpad 19 (int m) = low_digits 19 m" if "m < 9223372036854775808" for m
    unfolding nums by (rule zpad_low_digits) (use that in simp)
  have pad10: "zpad 10 (int m) = low_digits 10 m" if "m < 2147483648" for m
    unfolding nums by (rule zpad_low_digits) (use that in simp)
  obtain m n k l where nat: "p = int m" "q = int n" "i = int k" "j = int l" using assms by (metis nonneg_int_cases)
  then have small: "m < 9223372036854775808" "n < 9223372036854775808" "k < 2147483648" "l < 2147483648" using assms by auto
  have lt: "low_digits 19 m < low_digits 19 n \<longleftrightarrow> m < n" "low_digits 19 n < low_digits 19 m \<longleftrightarrow> n < m"
    "low_digits 10 k < low_digits 10 l \<longleftrightarrow> k < l"
    by (rule low_digits_less; use small in simp)+
  then have eq: "low_digits 19 m = low_digits 19 n \<longleftrightarrow> m = n" by (metis linorder_neqE_nat order_less_irrefl)
  show ?thesis
    unfolding row_id_def nat pad [OF small(1)] pad [OF small(2)] pad10 [OF small(3)] pad10 [OF small(4)]
    by (simp add: append_less lt eq)
qed
section \<open>Carrying a property of the rows through a ledger\<close>

text \<open>A context whose prefix was issued for its ledger and transaction.\<close>

definition issued :: "'l codec \<Rightarrow> txContext \<Rightarrow> bool" where
  "issued x cx \<longleftrightarrow> x_toid x (int32 (uint (cx_Seq cx))) (cx_Index cx) = Returns (cx_Prefix cx)"

lemma pred_sum_andThen:
  "pred_sum I J r \<Longrightarrow> (\<And>b. r = Inr b \<Longrightarrow> J b \<Longrightarrow> pred_sum I K (f b)) \<Longrightarrow> pred_sum I K (andThen r f)"
  by (cases r) simp_all

locale row_invariant =
  fixes x :: "'l codec" and watch :: Snapshot and I :: "accum \<Rightarrow> bool"
  assumes on_event: "issued x cx \<Longrightarrow> I a \<Longrightarrow> buildEvent x ev e cx k n = Returns r \<Longrightarrow>
      I (to_res (\<lambda>s. s\<lparr>rs_Events := rs_Events s @ [r]\<rparr>) a)"
    and on_state: "issued x cx \<Longrightarrow> I a \<Longrightarrow> buildStateChange x ch data e cx n = Returns sc \<Longrightarrow>
      I (to_res (\<lambda>s. s\<lparr>rs_StateChanges := rs_StateChanges s @ [sc]\<rparr>) a)"
    and on_trustline: "issued x cx \<Longrightarrow> I a \<Longrightarrow> buildTrustlineChange x ch line e m cx n = Returns tc \<Longrightarrow>
      I (to_res (\<lambda>s. s\<lparr>rs_TrustlineChanges := rs_TrustlineChanges s @ [tc]\<rparr>) a)"
    and on_transfer: "issued x cx \<Longrightarrow> I a \<Longrightarrow> transferEventNames name = Some ty \<Longrightarrow> buildTransfer x body ty e cx k n = Returns t \<Longrightarrow>
      I (to_res (\<lambda>s. s\<lparr>rs_Transfers := rs_Transfers s @ [t]\<rparr>) a)"
    and on_movement: "issued x cx \<Longrightarrow> I a \<Longrightarrow> transferEventNames name = Some ty \<Longrightarrow> buildTransfer x body ty e cx k n = Returns t \<Longrightarrow>
      I (to_res (\<lambda>s. s\<lparr>rs_Movements := rs_Movements s @ movementsOf t raw watch\<rparr>) a)"
    and on_counter: "I a \<Longrightarrow> I (suppress_event a)" "I a \<Longrightarrow> I (suppress_trustline a)" "I a \<Longrightarrow> I (suppress_transfer em a)"
    and on_memo: "I a \<Longrightarrow> I (a\<lparr>ac_byAsset := memo\<rparr>)"
begin

lemma event_row_keeps: "issued x cx \<Longrightarrow> I a \<Longrightarrow> pred_sum I I (event_row x watch cx k n ev e a)"
  by (auto simp: event_row_def on_counter intro: on_event split: outcome.split)

lemma movement_rows_keeps:
  "issued x cx \<Longrightarrow> I a \<Longrightarrow> transferEventNames name = Some ty \<Longrightarrow> buildTransfer x body ty e cx k n = Returns t \<Longrightarrow>
    pred_sum I I (movement_rows x watch ev em t a)"
  by (auto simp: movement_rows_def on_counter intro: on_movement split: outcome.split)

lemma transfer_rows_keeps:
  assumes "issued x cx" and "I a"
  shows "pred_sum I I (transfer_rows x watch sc cx k n ev e a)"
  using assms
  by (auto simp: transfer_rows_def Let_def on_counter intro!: movement_rows_keeps intro: on_transfer
      split: outcome.split list.split option.split)

lemma event_step_keeps: "issued x cx \<Longrightarrow> I a \<Longrightarrow> pred_sum I I (event_step x watch sc cx k n ev a)"
  by (auto simp: event_step_def on_counter intro!: pred_sum_andThen event_row_keeps transfer_rows_keeps split: outcome.split option.split)

lemma op_events_keeps:
  assumes "issued x cx"
  shows "I a \<Longrightarrow> pred_sum I (\<lambda>(_, b). I b) (op_events x watch sc cx k evs (i, a))"
proof (induction evs arbitrary: i a)
  case (Cons ev evs)
  then show ?case by (auto intro: pred_sum_andThen [OF event_step_keeps [OF assms]])
qed simp

lemma all_events_keeps:
  assumes "issued x cx"
  shows "I a \<Longrightarrow> pred_sum I (\<lambda>(_, b). I b) (all_events x watch sc cx k ops (i, a))"
proof (induction ops arbitrary: k i a)
  case (Cons evs ops)
  then show ?case by (auto intro: pred_sum_andThen [OF op_events_keeps [OF assms]])
qed simp

lemma stateChange_keeps: "issued x cx \<Longrightarrow> I a \<Longrightarrow> pred_sum I I (stateChange x watch cx n ch a)"
  by (auto simp: stateChange_def on_counter intro: on_state split: outcome.split option.split)

lemma trustline_keeps: "issued x cx \<Longrightarrow> I a \<Longrightarrow> pred_sum I I (trustline x pp watch cx n ch a)"
  by (auto simp: trustline_def Let_def on_counter on_memo intro: on_trustline split: outcome.split option.split trustlineAsset.split prod.split)

lemma all_changes_keeps:
  assumes "issued x cx"
  shows "I a \<Longrightarrow> pred_sum I I (all_changes x pp watch sc cx n chs a)"
proof (induction chs arbitrary: n a)
  case (Cons ch chs)
  have "pred_sum I I (change_step x pp watch sc cx (int32 (int n)) ch a)"
    using Cons.prems stateChange_keeps [OF assms] trustline_keeps [OF assms] by (cases "cg_Type ch") (simp_all add: change_step_def)
  then show ?case using Cons.IH by (auto intro: pred_sum_andThen)
qed simp

lemma with_context_keeps:
  assumes "I a" and "\<And>cx. issued x cx \<Longrightarrow> pred_sum I I (body cx a)"
  shows "pred_sum I (\<lambda>(_, b). I b) (with_context x seq closedAt tx body a)"
  using assms by (auto simp: with_context_def issued_def intro!: pred_sum_andThen split: outcome.split)

lemma txEvents_keeps: "I a \<Longrightarrow> pred_sum I (\<lambda>(_, b). I b) (txEvents x seq closedAt watch sc tx a)"
  by (auto simp: txEvents_def intro!: with_context_keeps pred_sum_andThen [OF all_events_keeps] split: outcome.split)

lemma txLedgerChanges_keeps: "I a \<Longrightarrow> pred_sum I (\<lambda>(_, b). I b) (txLedgerChanges x pp seq closedAt watch sc tx a)"
  by (auto simp: txLedgerChanges_def intro!: with_context_keeps all_changes_keeps split: outcome.split)

end

text \<open>The frontier of a transaction, for properties that do not look at its two counters either.\<close>

locale ledger_invariant = row_invariant +
  assumes on_suppress: "I a \<Longrightarrow> I (suppress_tx a)"
    and on_failed: "I a \<Longrightarrow> I (to_res (\<lambda>s. s\<lparr>rs_FailedTxs := rs_FailedTxs s + 1\<rparr>) a)"
begin

lemma processTx_keeps:
  assumes "I a"
  shows "I (processTx x pp seq closedAt watch sc tx a)"
proof -
  have "pred_sum I I (andThen (txEvents x seq closedAt watch sc tx a) (\<lambda>(eok, a).
      andThen (txLedgerChanges x pp seq closedAt watch sc tx a) (\<lambda>(sok, a). Inr (if \<not> eok \<or> \<not> sok then suppress_tx a else a))))"
    by (rule pred_sum_andThen [OF txEvents_keeps [OF assms]])
      (auto intro!: pred_sum_andThen [OF txLedgerChanges_keeps] simp: on_suppress)
  then show ?thesis
    using assms by (auto simp: processTx_def on_suppress on_failed split: option.split bool.split sum.split)
qed

lemma Events_keeps:
  assumes "Events x pp watch meta = Inr res" and "\<And>m. I \<lparr>ac_res = empty_result, ac_byAsset = m\<rparr>"
  shows "\<exists>m. I \<lparr>ac_res = res, ac_byAsset = m\<rparr>"
proof -
  have fold: "I a \<Longrightarrow> I (foldl (read_tx x pp seq closedAt watch) a reads)" for a seq closedAt reads
    by (induction reads arbitrary: a) (auto simp: read_tx_def on_suppress processTx_keeps split: option.split)
  show ?thesis
  proof (cases "Len watch = 0")
    case True
    then show ?thesis using assms by (simp add: Events_def)
  next
    case False
    then obtain b where "res = ac_res b" "I b" using assms fold by (auto simp: Events_def split: option.splits)
    then show ?thesis by (cases b) auto
  qed
qed

end
section \<open>What every row satisfies\<close>

text \<open>The SDK renders an i128 as its decimal value.\<close>

definition renders_i128 :: "'l codec \<Rightarrow> bool" where
  "renders_i128 x \<longleftrightarrow> (\<forall>p. x_String128Raw x p = dec_int (sint (Hi p) * 18446744073709551616 + uint (Lo p)))"

definition token_amount :: "string \<Rightarrow> bool" where
  "token_amount s \<longleftrightarrow> (\<exists>n < 170141183460469231731687303715884105728. s = dec n)"

text \<open>An id made of the position the row carries.\<close>

definition placed :: "'l codec \<Rightarrow> u32 \<Rightarrow> int \<Rightarrow> int \<Rightarrow> string \<Rightarrow> bool" where
  "placed x seq txIndex i rid \<longleftrightarrow> (\<exists>p. x_toid x (int32 (uint seq)) txIndex = Returns p \<and> rid = row_id p i)"

definition transfer_ok :: "'l codec \<Rightarrow> Transfer \<Rightarrow> bool" where
  "transfer_ok x t \<longleftrightarrow> placed x (tr_LedgerSequence t) (tr_TxIndex t) (tr_EventIndex t) (tr_ID t)
     \<and> (renders_i128 x \<longrightarrow> token_amount (tr_Amount t))
     \<and> (tr_TransferType t = ''transfer'' \<or> tr_TransferType t = ''mint'' \<and> tr_FromAddress t = ''''
        \<or> tr_TransferType t \<in> {''burn'', ''clawback''} \<and> tr_ToAddress t = '''')"

definition movement_ok :: "'l codec \<Rightarrow> Snapshot \<Rightarrow> Movement \<Rightarrow> bool" where
  "movement_ok x watch m \<longleftrightarrow> mv_ContractID m \<noteq> '''' \<and> watched_for watch (mv_ContractID m) KindMovements
     \<and> (\<exists>t. transfer_ok x t \<and> mv_TransferID m = tr_ID t \<and> mv_TokenContractID m = tr_ContractID t
          \<and> mv_TransferType m = tr_TransferType t \<and> mv_Amount m = tr_Amount t \<and> mv_LedgerSequence m = tr_LedgerSequence t
          \<and> (mv_Role m = ''sender'' \<and> mv_ContractID m = tr_FromAddress t \<and> mv_Counterparty m = tr_ToAddress t
             \<or> mv_Role m = ''recipient'' \<and> mv_ContractID m = tr_ToAddress t \<and> mv_Counterparty m = tr_FromAddress t))"

definition state_ok :: "'l codec \<Rightarrow> StateChange \<Rightarrow> bool" where
  "state_ok x s \<longleftrightarrow> placed x (sc_LedgerSequence s) (sc_TxIndex s) (sc_ChangeIndex s) (sc_ID s)
     \<and> sc_ChangeType s \<in> {''created'', ''updated'', ''removed'', ''restored''} \<and> sc_Durability s \<in> {''temporary'', ''persistent''}"

definition trustline_ok :: "'l codec \<Rightarrow> TrustlineChange \<Rightarrow> bool" where
  "trustline_ok x u \<longleftrightarrow> placed x (tc_LedgerSequence u) (tc_TxIndex u) (tc_ChangeIndex u) (tc_ID u)
     \<and> tc_ChangeType u \<in> {''created'', ''updated'', ''removed'', ''restored''} \<and> (tc_PreBalance u \<noteq> None \<or> tc_PostBalance u \<noteq> None)"

definition rows_ok :: "'l codec \<Rightarrow> Snapshot \<Rightarrow> Result \<Rightarrow> bool" where
  "rows_ok x watch res \<longleftrightarrow>
     (\<forall>e\<in>set (rs_Events res). placed x (ev_LedgerSequence e) (ev_TxIndex e) (ev_EventIndex e) (ev_ID e))
     \<and> (\<forall>s\<in>set (rs_StateChanges res). state_ok x s) \<and> (\<forall>t\<in>set (rs_Transfers res). transfer_ok x t)
     \<and> (\<forall>u\<in>set (rs_TrustlineChanges res). trustline_ok x u) \<and> (\<forall>m\<in>set (rs_Movements res). movement_ok x watch m)"

lemma i128_range: "sint (h :: 64 word) * 18446744073709551616 + uint (l :: 64 word) < 170141183460469231731687303715884105728"
proof -
  have "sint h < 9223372036854775808" using sint_less [of h] by simp
  moreover have "uint l < 18446744073709551616" using uint_lt2p [of l] by simp
  ultimately show ?thesis by linarith
qed

lemma i128Amount_amount:
  assumes "renders_i128 x" and "i128Amount x p = Returns s"
  shows "token_amount s"
proof -
  let ?v = "sint (Hi p) * 18446744073709551616 + uint (Lo p)"
  have s: "s = dec_int ?v" "take 1 s \<noteq> ''-''"
    using assms by (auto simp: i128Amount_def renders_i128_def Let_def split: if_splits)
  then have "0 \<le> ?v" by (auto simp: dec_int_def split: if_splits)
  moreover have "nat ?v < 170141183460469231731687303715884105728" using i128_range [of "Hi p" "Lo p"] by simp
  ultimately show ?thesis unfolding token_amount_def s(1) dec_int_def by auto
qed

lemma transfer_entries_amount:
  assumes "renders_i128 x"
  shows "transfer_entries x es (amt, muxed) = Returns (amt', muxed') \<Longrightarrow> amt = '''' \<or> token_amount amt \<Longrightarrow> amt' = '''' \<or> token_amount amt'"
proof (induction es arbitrary: amt muxed)
  case (Cons e es)
  obtain k v where e: "e = (k, v)" by fastforce
  obtain key where key: "mapKey k = Returns key" using Cons.prems(1) by (auto simp: e bind_outcome_Returns)
  show ?case
  proof (cases "key = ''amount''")
    case True
    then obtain parts s where "i128Amount x parts = Returns s" "transfer_entries x es (s, muxed) = Returns (amt', muxed')"
      using Cons.prems(1) key by (cases v) (auto simp: e bind_outcome_Returns)
    then show ?thesis using Cons.IH i128Amount_amount [OF assms] by blast
  next
    case False
    then obtain s where "transfer_entries x es (amt, s) = Returns (amt', muxed')"
      using Cons.prems(1) key by (auto simp: e bind_outcome_Returns split: if_splits)
    then show ?thesis using Cons.IH Cons.prems(2) by blast
  qed
qed simp

lemma decodeTransferData_amount:
  assumes "renders_i128 x" and "decodeTransferData x v = Returns (amt, muxed)"
  shows "token_amount amt"
proof (cases v)
  case (ScvMap p)
  then obtain es where "transfer_entries x es ('''', '''') = Returns (amt, muxed)" "amt \<noteq> ''''"
    using assms(2) by (auto simp: decodeTransferData_def bind_outcome_Returns split: option.splits if_splits)
  then show ?thesis using transfer_entries_amount [OF assms(1)] by blast
qed (use assms i128Amount_amount in \<open>auto simp: decodeTransferData_def bind_outcome_Returns\<close>)

lemma transferEventNames_type: "transferEventNames name = Some ty \<Longrightarrow> ty \<in> {''transfer'', ''mint'', ''burn'', ''clawback''}"
  by (auto simp: transferEventNames_def split: if_splits)

lemma buildTransfer_ok:
  assumes "issued x cx" and "transferEventNames name = Some ty" and "buildTransfer x body ty e cx k n = Returns t"
  shows "transfer_ok x t"
proof -
  obtain addrs asset payer payee amt muxed where b: "transfer_sides ty addrs = Returns (payer, payee)"
    "decodeTransferData x (bo_Data body) = Returns (amt, muxed)" "t = \<lparr>tr_ID = row_id (cx_Prefix cx) n, tr_ContractID = e,
       tr_LedgerSequence = cx_Seq cx, tr_ClosedAt = cx_ClosedAt cx, tr_TxHash = cx_Hash cx, tr_TxIndex = cx_Index cx, tr_OpIndex = k,
       tr_EventIndex = n, tr_TransferType = ty, tr_FromAddress = payer, tr_ToAddress = payee,
       tr_ToMuxedID = muxed, tr_Amount = amt, tr_Asset = asset\<rparr>"
    using assms(3) by (auto simp: buildTransfer_def bind_outcome_Returns)
  show ?thesis
    using transferEventNames_type [OF assms(2)] assms(1) b(1) decodeTransferData_amount [OF _ b(2)]
    unfolding transfer_ok_def b(3) by (auto simp: placed_def issued_def transfer_sides_def split: if_splits)
qed

lemma change_name_type: "change_name ty = Returns s \<Longrightarrow> s \<in> {''created'', ''updated'', ''removed'', ''restored''}"
  by (cases ty) (auto simp: change_name_def)

lemma movementsOf_ok:
  assumes "transfer_ok x t" and "m \<in> set (movementsOf t raw watch)"
  shows "movement_ok x watch m"
  using assms unfolding movement_ok_def
  by (auto simp: movementsOf_def movement_for_def split: if_splits intro!: exI [of _ t])

lemma buildStateChange_ok: "issued x cx \<Longrightarrow> buildStateChange x ch data e cx n = Returns sc \<Longrightarrow> state_ok x sc"
  by (cases "cd_Durability data")
    (auto simp: state_ok_def buildStateChange_def bind_outcome_Returns placed_def issued_def dest: change_name_type)

lemma buildTrustlineChange_ok: "issued x cx \<Longrightarrow> buildTrustlineChange x ch line e m cx n = Returns tc \<Longrightarrow> trustline_ok x tc"
  by (auto simp: trustline_ok_def buildTrustlineChange_def bind_outcome_Returns placed_def issued_def split: if_splits
      dest: change_name_type)

interpretation typed: ledger_invariant x watch "\<lambda>a. rows_ok x watch (ac_res a)" for x :: "'l codec" and watch
proof unfold_locales
  fix cx and a :: accum and ev e k n r assume "issued x cx" "rows_ok x watch (ac_res a)" "buildEvent x ev e cx k n = Returns r"
  then show "rows_ok x watch (ac_res (to_res (\<lambda>s. s\<lparr>rs_Events := rs_Events s @ [r]\<rparr>) a))"
    by (auto simp: rows_ok_def to_res_def buildEvent_def bind_outcome_Returns placed_def issued_def)
qed (auto simp: rows_ok_def to_res_def suppress_event_def suppress_trustline_def suppress_transfer_def suppress_tx_def
    intro: buildTransfer_ok movementsOf_ok buildStateChange_ok buildTrustlineChange_ok)
section \<open>The transaction frontier\<close>

interpretation counted: row_invariant x watch "\<lambda>a. rs_SuppressedTxs (ac_res a) = k" for x :: "'l codec" and watch and k
  by unfold_locales (simp_all add: to_res_def suppress_event_def suppress_trustline_def suppress_transfer_def)

text \<open>Two runs of the same step, one of them with rows already collected.\<close>

definition ahead :: "'l codec \<Rightarrow> string \<Rightarrow> Result \<Rightarrow> accum \<Rightarrow> accum \<Rightarrow> bool" where
  "ahead x pp r a b \<longleftrightarrow> ac_res a = add_result r (ac_res b) \<and> memo_ok x pp (ac_byAsset a) \<and> memo_ok x pp (ac_byAsset b)"

lemma rel_sum_andThen:
  "rel_sum R S p q \<Longrightarrow> (\<And>a b. S a b \<Longrightarrow> rel_sum R T (f a) (g b)) \<Longrightarrow> rel_sum R T (andThen p f) (andThen q g)"
  by (cases p; cases q) auto

lemma ahead_to_res: "(\<And>s. f (add_result r s) = add_result r (f s)) \<Longrightarrow> ahead x pp r a b \<Longrightarrow> ahead x pp r (to_res f a) (to_res f b)"
  by (simp add: ahead_def to_res_def)

lemma ahead_counters:
  assumes "ahead x pp r a b"
  shows "ahead x pp r (suppress_event a) (suppress_event b)" "ahead x pp r (suppress_trustline a) (suppress_trustline b)"
    "ahead x pp r (suppress_transfer e a) (suppress_transfer e b)" "ahead x pp r (suppress_tx a) (suppress_tx b)"
    "ahead x pp r (to_res (\<lambda>s. s\<lparr>rs_FailedTxs := rs_FailedTxs s + 1\<rparr>) a) (to_res (\<lambda>s. s\<lparr>rs_FailedTxs := rs_FailedTxs s + 1\<rparr>) b)"
  using assms unfolding suppress_event_def suppress_trustline_def suppress_transfer_def suppress_tx_def
  by (auto intro!: ahead_to_res simp: add_result_def)

lemma ahead_rows:
  assumes "ahead x pp r a b"
  shows "ahead x pp r (to_res (\<lambda>s. s\<lparr>rs_Events := rs_Events s @ es\<rparr>) a) (to_res (\<lambda>s. s\<lparr>rs_Events := rs_Events s @ es\<rparr>) b)"
    "ahead x pp r (to_res (\<lambda>s. s\<lparr>rs_StateChanges := rs_StateChanges s @ ss\<rparr>) a) (to_res (\<lambda>s. s\<lparr>rs_StateChanges := rs_StateChanges s @ ss\<rparr>) b)"
    "ahead x pp r (to_res (\<lambda>s. s\<lparr>rs_Transfers := rs_Transfers s @ ts\<rparr>) a) (to_res (\<lambda>s. s\<lparr>rs_Transfers := rs_Transfers s @ ts\<rparr>) b)"
    "ahead x pp r (to_res (\<lambda>s. s\<lparr>rs_TrustlineChanges := rs_TrustlineChanges s @ us\<rparr>) a)
       (to_res (\<lambda>s. s\<lparr>rs_TrustlineChanges := rs_TrustlineChanges s @ us\<rparr>) b)"
    "ahead x pp r (to_res (\<lambda>s. s\<lparr>rs_Movements := rs_Movements s @ ms\<rparr>) a) (to_res (\<lambda>s. s\<lparr>rs_Movements := rs_Movements s @ ms\<rparr>) b)"
  by (rule ahead_to_res [OF _ assms]; simp add: add_result_def)+

lemma movement_rows_ahead:
  "ahead x pp r a b \<Longrightarrow> rel_sum (ahead x pp r) (ahead x pp r) (movement_rows x watch ev em t a) (movement_rows x watch ev em t b)"
  by (auto simp: movement_rows_def ahead_counters ahead_rows split: outcome.split)

lemma event_step_ahead:
  assumes "ahead x pp r a b"
  shows "rel_sum (ahead x pp r) (ahead x pp r) (event_step x watch sc cx k n ev a) (event_step x watch sc cx k n ev b)"
proof -
  have rows: "rel_sum (ahead x pp r) (ahead x pp r) (event_row x watch cx k n ev e a) (event_row x watch cx k n ev e b)" for e
    using assms by (auto simp: event_row_def ahead_counters ahead_rows split: outcome.split)
  have transfers: "rel_sum (ahead x pp r) (ahead x pp r) (transfer_rows x watch sc cx k n ev e a) (transfer_rows x watch sc cx k n ev e b)"
    if "ahead x pp r a b" for a b e
    using that by (auto simp: transfer_rows_def Let_def ahead_counters ahead_rows movement_rows_ahead
        split: outcome.split list.split option.split)
  show ?thesis
    using assms by (auto simp: event_step_def ahead_counters intro!: rel_sum_andThen [OF rows transfers] split: outcome.split option.split)
qed

lemma op_events_ahead:
  "ahead x pp r a b \<Longrightarrow>
    rel_sum (ahead x pp r) (rel_prod (=) (ahead x pp r)) (op_events x watch sc cx k evs (i, a)) (op_events x watch sc cx k evs (i, b))"
proof (induction evs arbitrary: i a b)
  case (Cons ev evs)
  then show ?case by (auto intro: rel_sum_andThen [OF event_step_ahead])
qed simp

lemma all_events_ahead:
  "ahead x pp r a b \<Longrightarrow>
    rel_sum (ahead x pp r) (rel_prod (=) (ahead x pp r)) (all_events x watch sc cx k ops (i, a)) (all_events x watch sc cx k ops (i, b))"
proof (induction ops arbitrary: k i a b)
  case (Cons evs ops)
  then show ?case by (auto intro!: rel_sum_andThen [OF op_events_ahead])
qed simp

lemma change_step_ahead:
  assumes "canonical_names x pp" and "ahead x pp r a b"
  shows "rel_sum (ahead x pp r) (ahead x pp r) (change_step x pp watch sc cx n ch a) (change_step x pp watch sc cx n ch b)"
proof -
  have state: "rel_sum (ahead x pp r) (ahead x pp r) (stateChange x watch cx n ch a) (stateChange x watch cx n ch b)"
    using assms(2) by (auto simp: stateChange_def ahead_counters ahead_rows split: outcome.split option.split)
  have memo: "memo_ok x pp (ac_byAsset a)" "memo_ok x pp (ac_byAsset b)" using assms(2) by (simp_all add: ahead_def)
  have tl: "rel_sum (ahead x pp r) (ahead x pp r) (trustline x pp watch cx n ch a) (trustline x pp watch cx n ch b)"
  proof -
    have look: "\<exists>ma mb. contractIDFor x pp asset (ac_byAsset a) = (bind_outcome (x_ContractID x pp asset) (x_Encode x), ma)
        \<and> contractIDFor x pp asset (ac_byAsset b) = (bind_outcome (x_ContractID x pp asset) (x_Encode x), mb)
        \<and> ahead x pp r (a\<lparr>ac_byAsset := ma\<rparr>) (b\<lparr>ac_byAsset := mb\<rparr>)" for asset
      using contractIDFor_memo [OF assms(1) memo(1), of asset] contractIDFor_memo [OF assms(1) memo(2), of asset] assms(2)
      by (cases "contractIDFor x pp asset (ac_byAsset a)"; cases "contractIDFor x pp asset (ac_byAsset b)") (auto simp: ahead_def)
    show ?thesis
    proof (cases "\<exists>entry line asset. (case cg_Post ch of Some e \<Rightarrow> Some e | None \<Rightarrow> cg_Pre ch) = Some entry
        \<and> GetTrustLine entry = Returns line \<and> tl_Asset line = ClassicAsset asset")
      case True
      then obtain entry line asset where e: "(case cg_Post ch of Some e \<Rightarrow> Some e | None \<Rightarrow> cg_Pre ch) = Some entry"
        "GetTrustLine entry = Returns line" "tl_Asset line = ClassicAsset asset" by blast
      from look [of asset] show ?thesis by (auto simp: trustline_def e Let_def ahead_counters ahead_rows split: outcome.split)
    next
      case False
      then show ?thesis using assms(2) unfolding trustline_def by (auto split: option.split outcome.split trustlineAsset.split)
    qed
  qed
  show ?thesis using state tl assms(2) by (cases "cg_Type ch") (simp_all add: change_step_def)
qed

lemma all_changes_ahead:
  assumes "canonical_names x pp"
  shows "ahead x pp r a b \<Longrightarrow>
    rel_sum (ahead x pp r) (ahead x pp r) (all_changes x pp watch sc cx n chs a) (all_changes x pp watch sc cx n chs b)"
proof (induction chs arbitrary: n a b)
  case (Cons ch chs)
  then show ?case by (auto intro: rel_sum_andThen [OF change_step_ahead [OF assms]])
qed simp

lemma with_context_ahead:
  assumes "ahead x pp r a b" and "\<And>cx. rel_sum (ahead x pp r) (ahead x pp r) (f cx a) (f cx b)"
  shows "rel_sum (ahead x pp r) (rel_prod (=) (ahead x pp r)) (with_context x seq closedAt tx f a) (with_context x seq closedAt tx f b)"
  using assms by (auto simp: with_context_def intro!: rel_sum_andThen split: outcome.split)
lemma txs_ahead:
  assumes "canonical_names x pp" and "ahead x pp r a b"
  shows "ahead x pp r (read_tx x pp seq closedAt watch a t) (read_tx x pp seq closedAt watch b t)"
proof -
  have events: "rel_sum (ahead x pp r) (rel_prod (=) (ahead x pp r)) (txEvents x seq closedAt watch sc tx a) (txEvents x seq closedAt watch sc tx b)"
    for sc tx
    using assms(2) by (auto simp: txEvents_def intro!: with_context_ahead rel_sum_andThen [OF all_events_ahead] split: outcome.split)
  have changes: "rel_sum (ahead x pp r) (rel_prod (=) (ahead x pp r))
      (txLedgerChanges x pp seq closedAt watch sc tx c) (txLedgerChanges x pp seq closedAt watch sc tx d)"
    if "ahead x pp r c d" for sc tx c d
    using that by (auto simp: txLedgerChanges_def intro!: with_context_ahead all_changes_ahead [OF assms(1)] split: outcome.split)
  have run: "rel_sum (ahead x pp r) (ahead x pp r)
     (andThen (txEvents x seq closedAt watch sc tx a) (\<lambda>(eok, a).
      andThen (txLedgerChanges x pp seq closedAt watch sc tx a) (\<lambda>(sok, a). Inr (if \<not> eok \<or> \<not> sok then suppress_tx a else a))))
     (andThen (txEvents x seq closedAt watch sc tx b) (\<lambda>(eok, a).
      andThen (txLedgerChanges x pp seq closedAt watch sc tx a) (\<lambda>(sok, a). Inr (if \<not> eok \<or> \<not> sok then suppress_tx a else a))))"
    for sc tx
    by (rule rel_sum_andThen [OF events]) (auto intro!: rel_sum_andThen [OF changes] simp: ahead_counters)
  have "ahead x pp r (processTx x pp seq closedAt watch sc tx a) (processTx x pp seq closedAt watch sc tx b)" for sc tx
    unfolding processTx_def
    by (rule rel_sum.cases [OF run [of sc tx]]) (use assms(2) in \<open>auto simp: ahead_counters split: option.split bool.split\<close>)
  then show ?thesis using assms(2) by (simp add: read_tx_def ahead_counters split: option.split)
qed

text \<open>What one transaction contributes, on its own.\<close>

definition tx_part :: "'l codec \<Rightarrow> string \<Rightarrow> u32 \<Rightarrow> int \<Rightarrow> Snapshot \<Rightarrow> ledgerTx option \<Rightarrow> Result" where
  "tx_part x pp seq closedAt watch t =
     ac_res (read_tx x pp seq closedAt watch \<lparr>ac_res = empty_result, ac_byAsset = Map.empty\<rparr> t)"

lemma add_empty_result [simp]: "add_result r empty_result = r" "add_result empty_result r = r"
  by (simp_all add: add_result_def empty_result_def)

lemma Events_parts:
  assumes "canonical_names x pp"
  shows "memo_ok x pp (ac_byAsset a) \<Longrightarrow>
    ac_res (foldl (read_tx x pp seq closedAt watch) a reads) = foldl add_result (ac_res a) (map (tx_part x pp seq closedAt watch) reads)"
proof (induction reads arbitrary: a)
  case (Cons t reads)
  have "ahead x pp (ac_res a) a \<lparr>ac_res = empty_result, ac_byAsset = Map.empty\<rparr>"
    using Cons.prems by (simp add: ahead_def memo_ok_def)
  from txs_ahead [OF assms this, of seq closedAt watch t] Cons.IH show ?case by (simp add: ahead_def tx_part_def)
qed simp

lemma processTx_suppressed:
  "rs_SuppressedTxs (ac_res (processTx x pp seq closedAt watch sc tx a)) - rs_SuppressedTxs (ac_res a) \<in> {0, 1}"
  "tx_Successful tx = Some True \<Longrightarrow> (\<forall>ops. tx_Events tx \<noteq> Returns ops) \<or> (\<forall>chs. tx_Changes tx \<noteq> Returns chs) \<Longrightarrow>
    rs_SuppressedTxs (ac_res (processTx x pp seq closedAt watch sc tx a)) = rs_SuppressedTxs (ac_res a) + 1"
proof -
  let ?k = "rs_SuppressedTxs (ac_res a)"
  let ?I = "\<lambda>a. rs_SuppressedTxs (ac_res a) = ?k"
  have up: "rs_SuppressedTxs (ac_res (suppress_tx b)) = rs_SuppressedTxs (ac_res b) + 1" for b
    by (simp add: suppress_tx_def to_res_def)
  let ?run = "andThen (txEvents x seq closedAt watch sc tx a) (\<lambda>(eok, a).
      andThen (txLedgerChanges x pp seq closedAt watch sc tx a) (\<lambda>(sok, a). Inr (if \<not> eok \<or> \<not> sok then suppress_tx a else a)))"
  have run: "pred_sum ?I (\<lambda>b. rs_SuppressedTxs (ac_res b) - ?k \<in> {0, 1}) ?run"
    by (rule pred_sum_andThen [OF counted.txEvents_keeps [where k = ?k and x = x and watch = watch]])
      (auto intro!: pred_sum_andThen [OF counted.txLedgerChanges_keeps [where k = ?k and x = x and watch = watch]] simp: up)
  then show "rs_SuppressedTxs (ac_res (processTx x pp seq closedAt watch sc tx a)) - ?k \<in> {0, 1}"
    unfolding processTx_def by (cases ?run) (auto simp: up to_res_def split: option.split bool.split)
  show "rs_SuppressedTxs (ac_res (processTx x pp seq closedAt watch sc tx a)) = ?k + 1"
    if tx: "tx_Successful tx = Some True" and "(\<forall>ops. tx_Events tx \<noteq> Returns ops) \<or> (\<forall>chs. tx_Changes tx \<noteq> Returns chs)"
  proof -
    have unread: "(\<exists>b. txEvents x seq closedAt watch sc tx a = Inl b \<and> ?I b)
        \<or> (\<exists>eok b. txEvents x seq closedAt watch sc tx a = Inr (eok, b) \<and> ?I b \<and> (eok \<longrightarrow> (\<forall>chs. tx_Changes tx \<noteq> Returns chs)))"
    proof -
      have keep: "pred_sum ?I (\<lambda>(_, b). ?I b) (txEvents x seq closedAt watch sc tx a)"
        by (rule counted.txEvents_keeps [where k = ?k and x = x and watch = watch]) simp
      show ?thesis
      proof (cases "txEvents x seq closedAt watch sc tx a")
        case (Inl b)
        then show ?thesis using keep by simp
      next
        case (Inr p)
        obtain eok b where p: "p = (eok, b)" by (cases p)
        have "eok \<Longrightarrow> \<exists>ops. tx_Events tx = Returns ops" using Inr p by (auto simp: txEvents_def split: outcome.splits)
        then have "eok \<longrightarrow> (\<forall>chs. tx_Changes tx \<noteq> Returns chs)" using that(2) by blast
        moreover have "?I b" using keep Inr p by simp
        ultimately show ?thesis using Inr p by blast
      qed
    qed
    then show ?thesis
    proof (elim disjE exE conjE)
      fix b assume "txEvents x seq closedAt watch sc tx a = Inl b" "?I b"
      then show ?thesis using tx by (simp add: processTx_def up)
    next
      fix eok b assume e: "txEvents x seq closedAt watch sc tx a = Inr (eok, b)" "?I b" "eok \<longrightarrow> (\<forall>chs. tx_Changes tx \<noteq> Returns chs)"
      have keep: "pred_sum ?I (\<lambda>(_, d). ?I d) (txLedgerChanges x pp seq closedAt watch sc tx b)"
        by (rule counted.txLedgerChanges_keeps [where k = ?k and x = x and watch = watch]) (rule e(2))
      have "\<not> sok" if "txLedgerChanges x pp seq closedAt watch sc tx b = Inr (sok, d)" and eok for sok d
        using that e(3) by (auto simp: txLedgerChanges_def split: outcome.splits)
      then show ?thesis
        using keep tx e(1) by (cases "txLedgerChanges x pp seq closedAt watch sc tx b") (auto simp: processTx_def up)
    qed
  qed
qed

text \<open>C31: the recover frontier. A ledger that can be opened is always extracted, and its result is the sum
  of what each of its transactions contributes on its own; a transaction that fails contributes its one
  count, one the reader cannot hand over or whose meta cannot be read costs one suppression, and no
  transaction costs more than one, panics included.\<close>

theorem one_bad_transaction:
  assumes "canonical_names x pp" and "x_reads x pp meta = Some reads" and "Len watch \<noteq> 0"
  defines "part \<equiv> tx_part x pp (x_LedgerSeq x meta) (x_CloseTime x meta) watch"
  shows "Events x pp watch meta = Inr (foldl add_result empty_result (map part reads))
    \<and> (\<forall>t. rs_SuppressedTxs (part t) \<in> {0, 1})
    \<and> part None = empty_result\<lparr>rs_SuppressedTxs := 1\<rparr>
    \<and> (\<forall>tx. tx_Successful tx = None \<longrightarrow> part (Some tx) = empty_result\<lparr>rs_SuppressedTxs := 1\<rparr>)
    \<and> (\<forall>tx. tx_Successful tx = Some False \<longrightarrow> part (Some tx) = empty_result\<lparr>rs_FailedTxs := 1\<rparr>)
    \<and> (\<forall>tx. tx_Successful tx = Some True \<and> ((\<forall>ops. tx_Events tx \<noteq> Returns ops) \<or> (\<forall>chs. tx_Changes tx \<noteq> Returns chs))
         \<longrightarrow> rs_SuppressedTxs (part (Some tx)) = 1)"
proof -
  have zero: "rs_SuppressedTxs empty_result = 0" by (simp add: empty_result_def)
  have "Events x pp watch meta = Inr (foldl add_result empty_result (map part reads))"
    using assms(2,3) Events_parts [OF assms(1), of "\<lparr>ac_res = empty_result, ac_byAsset = Map.empty\<rparr>"]
    by (simp add: Events_def memo_ok_def part_def)
  moreover have "rs_SuppressedTxs (part t) \<in> {0, 1}" for t
    using processTx_suppressed(1) [of x pp "x_LedgerSeq x meta" "x_CloseTime x meta" watch "scope_of watch" "the t"
        "\<lparr>ac_res = empty_result, ac_byAsset = Map.empty\<rparr>"]
    by (cases t) (simp_all add: part_def tx_part_def read_tx_def suppress_tx_def to_res_def zero)
  moreover have "part None = empty_result\<lparr>rs_SuppressedTxs := 1\<rparr>"
    by (simp add: part_def tx_part_def read_tx_def suppress_tx_def to_res_def empty_result_def)
  moreover have "part (Some tx) = empty_result\<lparr>rs_SuppressedTxs := 1\<rparr>" if "tx_Successful tx = None" for tx
    using that by (simp add: part_def tx_part_def read_tx_def processTx_def suppress_tx_def to_res_def empty_result_def)
  moreover have "part (Some tx) = empty_result\<lparr>rs_FailedTxs := 1\<rparr>" if "tx_Successful tx = Some False" for tx
    using that by (simp add: part_def tx_part_def read_tx_def processTx_def to_res_def empty_result_def)
  moreover have "rs_SuppressedTxs (part (Some tx)) = 1"
    if "tx_Successful tx = Some True" "(\<forall>ops. tx_Events tx \<noteq> Returns ops) \<or> (\<forall>chs. tx_Changes tx \<noteq> Returns chs)" for tx
    using processTx_suppressed(2) [OF that, of x pp "x_LedgerSeq x meta" "x_CloseTime x meta" watch "scope_of watch"
        "\<lparr>ac_res = empty_result, ac_byAsset = Map.empty\<rparr>"]
    by (simp add: part_def tx_part_def read_tx_def zero)
  ultimately show ?thesis by blast
qed

theorem one_bad_transaction_witness:
  "Events demo_codec ''p'' (StaticSnapshot [demo_watched]) 9
    = Inr (foldl add_result empty_result (map (tx_part demo_codec ''p'' 9 0 (StaticSnapshot [demo_watched])) [Some demo_tx]))"
proof -
  have "x_reads demo_codec ''p'' 9 = Some [Some demo_tx]" "x_LedgerSeq demo_codec 9 = 9" "x_CloseTime demo_codec 9 = 0"
    by (simp_all add: demo_codec_def)
  with one_bad_transaction [OF demo_codec_ok(3) this(1) Len_StaticSnapshot [of demo_watched]] show ?thesis by simp
qed
section \<open>Rows\<close>

text \<open>C32: every extracted row is well formed. Transfers are of one of the four types, name no sender for a
  mint and no recipient for a burn or a clawback, and carry the decimal text of a non-negative i128; a
  movement belongs to a contract watched for movements, repeats such a transfer of this event and names
  the role and the other side consistently; change types and durabilities are of the documented sets, and a
  trustline change always has a readable side.\<close>

theorem extracted_rows_typed:
  assumes "Events x pp watch meta = Inr res" and "renders_i128 x"
  shows "(\<forall>t\<in>set (rs_Transfers res). token_amount (tr_Amount t)
        \<and> (tr_TransferType t = ''transfer'' \<or> tr_TransferType t = ''mint'' \<and> tr_FromAddress t = ''''
           \<or> tr_TransferType t \<in> {''burn'', ''clawback''} \<and> tr_ToAddress t = ''''))
    \<and> (\<forall>m\<in>set (rs_Movements res). watched_for watch (mv_ContractID m) KindMovements \<and> mv_Role m \<in> {''sender'', ''recipient''}
        \<and> token_amount (mv_Amount m) \<and> movement_ok x watch m)
    \<and> (\<forall>s\<in>set (rs_StateChanges res). sc_ChangeType s \<in> {''created'', ''updated'', ''removed'', ''restored''}
        \<and> sc_Durability s \<in> {''temporary'', ''persistent''})
    \<and> (\<forall>u\<in>set (rs_TrustlineChanges res). tc_ChangeType u \<in> {''created'', ''updated'', ''removed'', ''restored''}
        \<and> (tc_PreBalance u \<noteq> None \<or> tc_PostBalance u \<noteq> None))"
proof -
  have "rows_ok x watch \<lparr>rs_Events = [], rs_StateChanges = [], rs_Transfers = [], rs_TrustlineChanges = [], rs_Movements = [],
      rs_FailedTxs = 0, rs_SuppressedTxs = 0, rs_SuppressedEvents = 0, rs_SuppressedTransfers = 0,
      rs_SuppressedTrustlines = 0, rs_ForeignUndecodable = 0\<rparr>"
    by (simp add: rows_ok_def)
  then have ok: "rows_ok x watch res"
    using typed.Events_keeps [OF assms(1)] by (simp add: empty_result_def)
  have "watched_for watch (mv_ContractID m) KindMovements \<and> mv_Role m \<in> {''sender'', ''recipient''} \<and> token_amount (mv_Amount m)"
    if "movement_ok x watch m" for m
    using that assms(2) by (auto simp: movement_ok_def transfer_ok_def)
  note movements = this
  have transfers: "token_amount (tr_Amount t) \<and> (tr_TransferType t = ''transfer'' \<or> tr_TransferType t = ''mint'' \<and> tr_FromAddress t = ''''
      \<or> tr_TransferType t \<in> {''burn'', ''clawback''} \<and> tr_ToAddress t = '''')" if "transfer_ok x t" for t
    using that assms(2) unfolding transfer_ok_def by blast
  have rows: "\<forall>t\<in>set (rs_Transfers res). transfer_ok x t" "\<forall>m\<in>set (rs_Movements res). movement_ok x watch m"
    "\<forall>s\<in>set (rs_StateChanges res). state_ok x s" "\<forall>u\<in>set (rs_TrustlineChanges res). trustline_ok x u"
    using ok unfolding rows_ok_def by blast+
  show ?thesis
  proof (intro conjI ballI)
    fix m assume "m \<in> set (rs_Movements res)"
    then have m: "movement_ok x watch m" using rows(2) by blast
    show "watched_for watch (mv_ContractID m) KindMovements" "mv_Role m \<in> {''sender'', ''recipient''}"
      "token_amount (mv_Amount m)" "movement_ok x watch m" using movements [OF m] m by blast+
  qed (use transfers rows in \<open>simp_all only: state_ok_def trustline_ok_def\<close>)
qed

theorem extracted_rows_typed_witness:
  "\<exists>res. Events demo_codec ''p'' (StaticSnapshot [demo_watched]) 9 = Inr res
    \<and> (\<forall>t\<in>set (rs_Transfers res). token_amount (tr_Amount t))"
proof -
  obtain res where res: "Events demo_codec ''p'' (StaticSnapshot [demo_watched]) 9 = Inr res" using demo_extracts by blast
  have "renders_i128 demo_codec" by (simp add: renders_i128_def demo_codec_def)
  from conjunct1 [OF extracted_rows_typed [OF res this]] have "\<forall>t\<in>set (rs_Transfers res). token_amount (tr_Amount t)" by auto
  with res show ?thesis by blast
qed

lemma toid_less:
  assumes "0 \<le> t" "t < 1048576" "0 \<le> t'" "(t'::int) < 1048576"
  shows "s * 4294967296 + t * 4096 < s' * 4294967296 + t' * 4096 \<longleftrightarrow> s < s' \<or> s = s' \<and> t < t'"
proof -
  have "s * 4294967296 + t * 4096 < s' * 4294967296 + t' * 4096" if "s < s'" using that assms by linarith
  moreover have "s' * 4294967296 + t' * 4096 < s * 4294967296 + t * 4096" if "s' < s" using that assms by linarith
  ultimately show ?thesis by (cases s s' rule: linorder_cases) auto
qed

lemma toid_equal:
  assumes "0 \<le> t" "t < 1048576" "0 \<le> t'" "(t'::int) < 1048576"
  shows "s * 4294967296 + t * 4096 = s' * 4294967296 + t' * 4096 \<longleftrightarrow> s = s' \<and> t = t'"
  using toid_less [OF assms, of s s'] toid_less [OF assms(3,4,1,2), of s' s] by (cases s s' rule: linorder_cases) auto

text \<open>Ids sort in the order of the chain. Of two event rows extracted from any two ledgers, the id of
  one is smaller, as text, exactly when it lies earlier: in an earlier ledger, or an earlier transaction
  of the same ledger, or earlier among the events of the same transaction. Pages ordered by id are ordered
  by time.\<close>

theorem event_ids_follow_the_chain:
  assumes "toid_layout x" and "Events x pp watch meta = Inr res" and "Events x pp watch' meta' = Inr res'"
    and r: "r \<in> set (rs_Events res)" and r': "r' \<in> set (rs_Events res')"
    and "\<forall>e\<in>{r, r'}. uint (ev_LedgerSequence e) < 2147483648 \<and> 0 \<le> ev_TxIndex e \<and> ev_TxIndex e < 1048576
           \<and> 0 \<le> ev_EventIndex e \<and> ev_EventIndex e < 2147483648"
  shows "ev_ID r < ev_ID r' \<longleftrightarrow>
    position_before (uint (ev_LedgerSequence r), ev_TxIndex r, ev_EventIndex r)
      (uint (ev_LedgerSequence r'), ev_TxIndex r', ev_EventIndex r')"
proof -
  have start: "rows_ok x watch empty_result" for watch by (simp add: rows_ok_def empty_result_def)
  have "rows_ok x watch res" "rows_ok x watch' res'"
    using typed.Events_keeps [OF assms(2)] typed.Events_keeps [OF assms(3)] start by auto
  then have placed: "placed x (ev_LedgerSequence e) (ev_TxIndex e) (ev_EventIndex e) (ev_ID e)" if "e \<in> {r, r'}" for e
    using that r r' by (auto simp: rows_ok_def)
  have rid: "ev_ID e = row_id (uint (ev_LedgerSequence e) * 4294967296 + ev_TxIndex e * 4096) (ev_EventIndex e)" if "e \<in> {r, r'}" for e
  proof -
    have b: "uint (ev_LedgerSequence e) < 2147483648" "0 \<le> ev_TxIndex e" "ev_TxIndex e < 1048576" using assms(6) that by auto
    then have "int32 (uint (ev_LedgerSequence e)) = uint (ev_LedgerSequence e)"
      using u32_uint_bounds [of "ev_LedgerSequence e"] by (intro int32_small; linarith)
    then show ?thesis
      using placed [OF that] assms(1) b u32_uint_bounds [of "ev_LedgerSequence e"] by (auto simp: placed_def toid_layout_def)
  qed
  note key = toid_less toid_equal
  have b: "0 \<le> uint (ev_LedgerSequence e)" "uint (ev_LedgerSequence e) < 2147483648" "0 \<le> ev_TxIndex e" "ev_TxIndex e < 1048576"
    "0 \<le> ev_EventIndex e" "ev_EventIndex e < 2147483648" if "e \<in> {r, r'}" for e
    using assms(6) that u32_uint_bounds [of "ev_LedgerSequence e"] by auto
  have range: "0 \<le> uint (ev_LedgerSequence e) * 4294967296 + ev_TxIndex e * 4096"
    "uint (ev_LedgerSequence e) * 4294967296 + ev_TxIndex e * 4096 < 9223372036854775808" if "e \<in> {r, r'}" for e
    using b [OF that] by linarith+
  have m: "r \<in> {r, r'}" "r' \<in> {r, r'}" by simp_all
  show ?thesis
    unfolding rid [OF m(1)] rid [OF m(2)]
      row_id_less [OF range [OF m(1)] range [OF m(2)] b(5,6) [OF m(1)] b(5,6) [OF m(2)]]
      key [OF b(3,4) [OF m(1)] b(3,4) [OF m(2)]]
    by (auto simp: position_before_def)
qed
definition demo_token :: Contract where
  "demo_token = demo_watched\<lparr>ct_ContractID := ''Ct'', ct_Kinds := [KindEvents]\<rparr>"

definition demo_row :: "u32 \<Rightarrow> Event" where
  "demo_row s = \<lparr>ev_ID = row_id (int32 (uint s) * 4294967296 + 4096) 0, ev_ContractID = ''Ct'', ev_LedgerSequence = s,
     ev_ClosedAt = 0, ev_TxHash = ''h'', ev_TxIndex = 1, ev_OpIndex = 0, ev_EventIndex = 0, ev_EventName = ''transfer'',
     ev_Topics = [''v'', ''v'', ''v''], ev_ValueXDR = ''v'', ev_RawXDR = ''e''\<rparr>"

lemma demo_event_row: "Events demo_codec ''p'' (StaticSnapshot [demo_token]) s = Inr (empty_result\<lparr>rs_Events := [demo_row s]\<rparr>)"
proof -
  have snap: "StaticSnapshot [demo_token] = [(''Ct'', demo_token)]"
    by (simp add: StaticSnapshot_def demo_token_def)
  have kinds: "HasKind demo_token k \<longleftrightarrow> k = KindEvents" for k by (simp add: HasKind_def demo_token_def)
  have ks: "KindTransfers \<noteq> KindEvents" "KindMovements \<noteq> KindEvents" "KindTrustlines \<noteq> KindEvents" "KindState \<noteq> KindEvents"
    by (simp_all add: KindEvents_def KindTransfers_def KindMovements_def KindTrustlines_def KindState_def)
  have w: "watched_for (StaticSnapshot [demo_token]) ''Ct'' k \<longleftrightarrow> k = KindEvents" for k
    by (simp add: watched_for_def Get_def snap kinds)
  have sc: "scope_of (StaticSnapshot [demo_token]) = \<lparr>so_assets = False, so_wantMovements = False\<rparr>"
    by (simp add: scope_of_def AnyKind_def snap kinds ks)
  have len: "Len (StaticSnapshot [demo_token]) \<noteq> 0" by (simp add: Len_def snap)
  have small: "int32 0 = 0" "int32 1 = 1" "int32 (- 1 + 1) = 0" by (subst int32_small; simp)+
  let ?cx = "\<lparr>cx_Seq = s, cx_ClosedAt = 0, cx_Hash = ''h'', cx_Index = 1, cx_Prefix = int32 (uint s) * 4294967296 + 4096\<rparr>"
  have built: "buildEvent demo_codec demo_transfer ''Ct'' ?cx 0 0 = Returns (demo_row s)"
    by (simp add: buildEvent_def demo_codec_def demo_transfer_def GetV0_def event_name_def GetSym_def demo_row_def)
  have enc: "x_Encode demo_codec ''t'' = Returns ''Ct''" "x_toid demo_codec i j = Returns (i * 4294967296 + j * 4096)" for i j
    by (simp_all add: demo_codec_def)
  have ev: "ce_IsContract demo_transfer" "ce_ContractId demo_transfer = Some ''t''" by (simp_all add: demo_transfer_def)
  have step: "event_step demo_codec (StaticSnapshot [demo_token]) \<lparr>so_assets = False, so_wantMovements = False\<rparr> ?cx 0 0 demo_transfer a
      = Inr (to_res (\<lambda>r. r\<lparr>rs_Events := rs_Events r @ [demo_row s]\<rparr>) a)" for a
    by (simp add: event_step_def ev enc event_row_def transfer_rows_def w ks built)
  have "read_tx demo_codec ''p'' s 0 (StaticSnapshot [demo_token]) a (Some demo_tx)
      = to_res (\<lambda>r. r\<lparr>rs_Events := rs_Events r @ [demo_row s]\<rparr>) a" for a
    by (simp add: read_tx_def sc processTx_def demo_tx_def txEvents_def txLedgerChanges_def with_context_def enc step small)
  moreover have "x_reads demo_codec ''p'' s = Some [Some demo_tx]" "x_LedgerSeq demo_codec s = s" "x_CloseTime demo_codec s = 0"
    by (simp_all add: demo_codec_def)
  ultimately show ?thesis using len by (simp add: Events_def to_res_def) (simp add: empty_result_def)
qed

theorem event_ids_follow_the_chain_witness:
  "ev_ID (demo_row 9) < ev_ID (demo_row 10)"
proof -
  have layout: "toid_layout demo_codec" by (simp add: toid_layout_def demo_codec_def)
  have rows: "demo_row s \<in> set (rs_Events (empty_result\<lparr>rs_Events := [demo_row s]\<rparr>))" for s by simp
  have "\<forall>e\<in>{demo_row 9, demo_row 10}. uint (ev_LedgerSequence e) < 2147483648 \<and> 0 \<le> ev_TxIndex e \<and> ev_TxIndex e < 1048576
      \<and> 0 \<le> ev_EventIndex e \<and> ev_EventIndex e < 2147483648"
    by (simp add: demo_row_def)
  from event_ids_follow_the_chain [OF layout demo_event_row demo_event_row rows rows this] show ?thesis
    by (simp add: position_before_def) (simp add: demo_row_def)
qed

end
