(* ===== verification/Admin.thy ===== *)
theory Admin
  imports Api Registry
begin

text \<open>
  The authenticated admin surface of \<^verbatim>\<open>internal/admin/admin.go\<close> and the optional gate in front of
  everything, \<^verbatim>\<open>internal/httpauth\<close>. A handler takes the request body as text and the state (the
  database and the published registry snapshot) and returns its response and the new state. Arguments:
  the SDK's address check, the chain's classification of a contract, and the digest the tokens are
  compared through. The periodic reload may fail, which only delays the snapshot.
\<close>

section \<open>Data\<close>

definition registrationAnchorMargin :: u32 where "registrationAnchorMargin = 20"
definition maxBodyBytes_admin :: nat where "maxBodyBytes_admin = 65536"
definition maxPlanBodyBytes :: nat where "maxPlanBodyBytes = 4194304"
definition maxPlanIntervals :: nat where "maxPlanIntervals = 20000"
definition defaultPlanPadding :: u32 where "defaultPlanPadding = 300"
definition maxPlanPadding :: u32 where "maxPlanPadding = 1048576"

definition TypeSAC :: string where "TypeSAC = ''sac''"
definition TypeUnknown :: string where "TypeUnknown = ''unknown''"
definition MethodOpaque :: string where "MethodOpaque = ''opaque''"

record Classification =
  kc_Type :: string
  kc_WasmHash :: string
  kc_Events :: "string list"
  kc_Method :: string

datatype classify_error = ErrContractNotFound | ClassifyFailed string

record chain =
  is_address :: "string \<Rightarrow> bool"
  classify :: "string \<Rightarrow> classify_error + Classification"

datatype admin_error =
    Unauthorized
  | InvalidBody
  | InvalidContract string
  | InvalidFrom
  | InvalidKind string
  | NoLiveContract string
  | ChainUnreachable
  | EmptyPlan
  | PlanTooLong nat
  | NotARange nat
  | PaddingTooLarge u32
  | PlanningFailed store_error
  | RegistrationFailed

text \<open>What the database answers to the statements of one request: all of them, none, or none any more
  after the contract of a registration is written.\<close>

datatype database = Answering | Gone | GoneAfterUpsert

record admin =
  ad_db :: db
  ad_snapshot :: Snapshot

section \<open>Authentication\<close>

definition CutPrefix :: "string \<Rightarrow> string \<Rightarrow> string option" where
  "CutPrefix s p = (if take (length p) s = p then Some (drop (length p) s) else None)"

definition tokenEqual :: "(string \<Rightarrow> string) \<Rightarrow> string \<Rightarrow> string \<Rightarrow> bool" where
  "tokenEqual sha256 got want \<longleftrightarrow> sha256 got = sha256 want"

definition auth ::
  "(string \<Rightarrow> string) \<Rightarrow> string \<Rightarrow> string \<Rightarrow> ('s \<Rightarrow> (admin_error + 'r) \<times> 's) \<Rightarrow> 's \<Rightarrow> (admin_error + 'r) \<times> 's"
where
  "auth sha256 token header handler s =
     (case CutPrefix header ''Bearer '' of
        None \<Rightarrow> (Inl Unauthorized, s)
      | Some got \<Rightarrow> if tokenEqual sha256 got token then handler s else (Inl Unauthorized, s))"

text \<open>\<open>httpauth.Wrap\<close>: probes pass; otherwise Basic credentials or the admin bearer token.\<close>

definition probePaths :: "string list" where
  "probePaths = [''/health'', ''/ready'']"

definition Wrap ::
  "(string \<Rightarrow> string) \<Rightarrow> string \<Rightarrow> string \<Rightarrow> string \<Rightarrow> string \<Rightarrow> (string \<times> string) option \<Rightarrow> string \<Rightarrow> bool"
where
  "Wrap sha256 user password adminToken path basic header \<longleftrightarrow>
     path \<in> set probePaths
     \<or> (case basic of None \<Rightarrow> False | Some (u, p) \<Rightarrow> sha256 u = sha256 user \<and> sha256 p = sha256 password)
     \<or> (case CutPrefix header ''Bearer '' of None \<Rightarrow> False | Some b \<Rightarrow> adminToken \<noteq> '''' \<and> sha256 b = sha256 adminToken)"

section \<open>Registration\<close>

text \<open>\<open>Decode\<close> with \<open>DisallowUnknownFields\<close>: the first value of the body, within its size limit.\<close>

definition strict_object :: "(string \<Rightarrow> json \<Rightarrow> 'p \<Rightarrow> 'p option) \<Rightarrow> 'p \<Rightarrow> json \<Rightarrow> 'p option" where
  "strict_object set_field zero j =
     (case j of
        JNull \<Rightarrow> Some zero
      | JObject kvs \<Rightarrow> fill set_field (Some zero) kvs
      | _ \<Rightarrow> None)"

definition decode_body :: "nat \<Rightarrow> (string \<Rightarrow> json \<Rightarrow> 'p \<Rightarrow> 'p option) \<Rightarrow> 'p \<Rightarrow> string \<Rightarrow> admin_error + 'p" where
  "decode_body limit set_field zero body =
     (let raw = take limit body in
      case parse_value (2 * length raw + 2) raw of
        None \<Rightarrow> Inl InvalidBody
      | Some (j, _) \<Rightarrow> (case strict_object set_field zero j of None \<Rightarrow> Inl InvalidBody | Some p \<Rightarrow> Inr p))"

record registerRequest =
  rq_ContractID :: string
  rq_Kinds :: "string list"
  rq_From :: "json option"

definition as_strings :: "json \<Rightarrow> string list option" where
  "as_strings j = (case j of JNull \<Rightarrow> Some [] | JArray js \<Rightarrow> those (map (\<lambda>e. as_string e '''') js) | _ \<Rightarrow> None)"

definition set_registerRequest :: "string \<Rightarrow> json \<Rightarrow> registerRequest \<Rightarrow> registerRequest option" where
  "set_registerRequest k j p =
     (if k = ''contract_id'' then map_option (\<lambda>x. p\<lparr>rq_ContractID := x\<rparr>) (as_string j (rq_ContractID p))
      else if k = ''kinds'' then map_option (\<lambda>x. p\<lparr>rq_Kinds := x\<rparr>) (as_strings j)
      else if k = ''from'' then Some (p\<lparr>rq_From := Some j\<rparr>)
      else None)"

definition parseFrom :: "json option \<Rightarrow> admin_error + u32" where
  "parseFrom raw =
     (case raw of
        None \<Rightarrow> Inr 1
      | Some JNull \<Rightarrow> Inl InvalidFrom
      | Some (JString s) \<Rightarrow> if s = ''genesis'' then Inr 1 else Inl InvalidFrom
      | Some (JNumber l) \<Rightarrow>
          (case ParseUint 18446744073709551615 l of
             None \<Rightarrow> Inl InvalidFrom
           | Some n \<Rightarrow> if n = 0 \<or> n > 4294967295 then Inl InvalidFrom else Inr (of_nat n))
      | Some _ \<Rightarrow> Inl InvalidFrom)"

definition Classification_json :: "Classification \<Rightarrow> json" where
  "Classification_json c =
     JObject (string_field ''type'' (kc_Type c) @ opt_string_field ''wasm_hash'' (kc_WasmHash c)
       @ [(''events'', JArray (map JString (kc_Events c)))] @ string_field ''method'' (kc_Method c))"

datatype warning = NoLiveInstance string

record contractResponse =
  ap_ContractID :: string
  ap_Network :: string
  ap_Source :: string
  ap_Kinds :: "string list"
  ap_Classification :: "string option"
  ap_RegisteredAt :: int
  ap_Warnings :: "warning list"

definition toResponse :: "Contract \<Rightarrow> contractResponse" where
  "toResponse c =
     \<lparr>ap_ContractID = ct_ContractID c, ap_Network = ct_Network c, ap_Source = ct_Source c, ap_Kinds = ct_Kinds c,
      ap_Classification = ct_Classification c, ap_RegisteredAt = ct_RegisteredAt c, ap_Warnings = []\<rparr>"

definition supportedKinds :: "string list" where
  "supportedKinds = [KindEvents, KindState, KindTransfers, KindTrustlines, KindMovements]"

text \<open>The request as the handler understands it, before anything is written: the contract, the target
  of the walk, the kinds and the classification to store.\<close>

definition plan_registration ::
  "chain \<Rightarrow> string \<Rightarrow> admin_error + (string \<times> u32 \<times> string list \<times> Classification \<times> warning list)"
where
  "plan_registration env body =
     andThen (decode_body maxBodyBytes_admin set_registerRequest \<lparr>rq_ContractID = '''', rq_Kinds = [], rq_From = None\<rparr> body) (\<lambda>req.
     if \<not> is_address env (rq_ContractID req) then Inl (InvalidContract (rq_ContractID req))
     else andThen (parseFrom (rq_From req)) (\<lambda>targetFrom.
     case find (\<lambda>k. k \<notin> set supportedKinds) (rq_Kinds req) of
       Some k \<Rightarrow> Inl (InvalidKind k)
     | None \<Rightarrow>
         (let cid = rq_ContractID req;
              found = (case classify env cid of
                  Inl ErrContractNotFound \<Rightarrow>
                    if rq_Kinds req \<noteq> []
                    then Inr (\<lparr>kc_Type = TypeUnknown, kc_WasmHash = '''', kc_Events = [], kc_Method = MethodOpaque\<rparr>, [NoLiveInstance cid])
                    else Inl (NoLiveContract cid)
                | Inl (ClassifyFailed _) \<Rightarrow> Inl ChainUnreachable
                | Inr cls \<Rightarrow> Inr (cls, []))
          in andThen found (\<lambda>(cls, warnings).
             let kinds = (if rq_Kinds req \<noteq> [] then rq_Kinds req
                          else [KindEvents, KindState] @ (if kc_Type cls = TypeSAC then [KindTransfers] else []))
             in Inr (cid, targetFrom, kinds, cls, warnings)))))"

definition reloadRegistry :: "string \<Rightarrow> bool \<Rightarrow> admin \<Rightarrow> admin" where
  "reloadRegistry network ok s = (if ok then s\<lparr>ad_snapshot := Reload network (ad_db s)\<rparr> else s)"

text \<open>The classification is a struct of strings, which \<open>json.Marshal\<close> cannot refuse. After the contract is
  written, the cursor that cannot be read and the walk that cannot be planned end in the same answer, with
  the contract stored and neither a walk nor a reload.\<close>

definition handleRegister ::
  "chain \<Rightarrow> string \<Rightarrow> string \<Rightarrow> int \<Rightarrow> database \<Rightarrow> bool \<Rightarrow> admin \<Rightarrow> (admin_error + contractResponse) \<times> admin"
where
  "handleRegister env network body now db reload_ok s =
     (case plan_registration env body of
        Inl e \<Rightarrow> (Inl e, s)
      | Inr (cid, targetFrom, kinds, cls, warnings) \<Rightarrow>
          if db = Gone then (Inl RegistrationFailed, s)
          else
          (let (saved, d) = UpsertContract \<lparr>ct_Network = network, ct_ContractID = cid, ct_Source = SourceAPI, ct_Kinds = kinds,
                 ct_Classification = Some (json_text (Classification_json cls)), ct_RegisteredAt = 0\<rparr> now (ad_db s)
           in if db = GoneAfterUpsert then (Inl RegistrationFailed, s\<lparr>ad_db := d\<rparr>)
              else let nextTo = (case LoadCursor network d of Inr cursor \<Rightarrow> cu_Sequence cursor + registrationAnchorMargin | Inl _ \<Rightarrow> 0);
                       d = EnsureBackfill network (ct_ContractID saved) targetFrom nextTo (ct_Kinds saved) now d
                   in (Inr ((toResponse saved)\<lparr>ap_Warnings := warnings\<rparr>), reloadRegistry network reload_ok (s\<lparr>ad_db := d\<rparr>))))"

definition handleDelete :: "chain \<Rightarrow> string \<Rightarrow> string \<Rightarrow> bool \<Rightarrow> admin \<Rightarrow> (admin_error + bool) \<times> admin" where
  "handleDelete env network cid reload_ok s =
     (if \<not> is_address env cid then (Inl (InvalidContract cid), s)
      else let (existed, d) = DeleteContract network cid (ad_db s)
           in (Inr existed, reloadRegistry network reload_ok (s\<lparr>ad_db := d\<rparr>)))"

section \<open>Heal plans\<close>

definition set_Interval :: "string \<Rightarrow> json \<Rightarrow> Interval \<Rightarrow> Interval option" where
  "set_Interval k j p =
     (if k = ''from'' then map_option (\<lambda>x. p\<lparr>iv_From := x\<rparr>) (as_uint32 j (iv_From p))
      else if k = ''to'' then map_option (\<lambda>x. p\<lparr>iv_To := x\<rparr>) (as_uint32 j (iv_To p))
      else None)"

record planRequest =
  pq_Replay :: "Interval list"
  pq_Padding :: "u32 option"

definition set_planRequest :: "string \<Rightarrow> json \<Rightarrow> planRequest \<Rightarrow> planRequest option" where
  "set_planRequest k j p =
     (if k = ''replay'' then
        map_option (\<lambda>x. p\<lparr>pq_Replay := x\<rparr>)
          (case j of JNull \<Rightarrow> Some []
           | JArray js \<Rightarrow> those (map (strict_object set_Interval \<lparr>iv_From = 0, iv_To = 0\<rparr>) js)
           | _ \<Rightarrow> None)
      else if k = ''padding'' then
        (case j of JNull \<Rightarrow> Some (p\<lparr>pq_Padding := None\<rparr>)
         | _ \<Rightarrow> map_option (\<lambda>x. p\<lparr>pq_Padding := Some x\<rparr>) (as_uint32 j 0))
      else None)"

definition bad_interval :: "Interval \<Rightarrow> bool" where
  "bad_interval iv \<longleftrightarrow> iv_From iv = 0 \<or> iv_To iv < iv_From iv"

definition check_plan :: "planRequest \<Rightarrow> admin_error + (Interval list \<times> u32)" where
  "check_plan req =
     (if pq_Replay req = [] then Inl EmptyPlan
      else if length (pq_Replay req) > maxPlanIntervals then Inl (PlanTooLong (length (pq_Replay req)))
      else case find (\<lambda>i. bad_interval (pq_Replay req ! i)) [0..<length (pq_Replay req)] of
             Some i \<Rightarrow> Inl (NotARange i)
           | None \<Rightarrow>
               (case pq_Padding req of
                  None \<Rightarrow> Inr (pq_Replay req, defaultPlanPadding)
                | Some p \<Rightarrow> if p > maxPlanPadding then Inl (PaddingTooLarge p) else Inr (pq_Replay req, p)))"

definition handlePlan :: "string \<Rightarrow> string \<Rightarrow> int \<Rightarrow> admin \<Rightarrow> (admin_error + PlanResult) \<times> admin" where
  "handlePlan network body now s =
     (case andThen (decode_body maxPlanBodyBytes set_planRequest \<lparr>pq_Replay = [], pq_Padding = None\<rparr> body) check_plan of
        Inl e \<Rightarrow> (Inl e, s)
      | Inr (replay, padding) \<Rightarrow>
          (case PlanHeal network replay padding now (ad_db s) of
             Inl e \<Rightarrow> (Inl (PlanningFailed e), s)
           | Inr (res, d) \<Rightarrow> (Inr res, s\<lparr>ad_db := d\<rparr>)))"

section \<open>Lemmas\<close>

lemma UpsertContract_saved:
  assumes "UpsertContract c now d = (saved, d')"
  shows "GetContract (ct_Network c) (ct_ContractID c) d' = Inr saved"
    "saved = merge_contract now (stored_contract (ct_Network c, ct_ContractID c) d) c"
    "d' = d\<lparr>t_contracts := t_contracts d'\<rparr>"
proof -
  have d': "d' = snd (UpsertContract c now d)" "saved = fst (UpsertContract c now d)" using assms by simp_all
  show saved: "saved = merge_contract now (stored_contract (ct_Network c, ct_ContractID c) d) c"
    unfolding d'(2) by (auto simp: UpsertContract_def merge_contract_def stored_contract_def Let_def split: option.split)
  have "stored_contract (ct_Network c, ct_ContractID c) d' = Some saved"
    unfolding d'(1) stored_UpsertContract saved by simp
  then show "GetContract (ct_Network c) (ct_ContractID c) d' = Inr saved"
    by (simp add: GetContract_def stored_contract_def)
  show "d' = d\<lparr>t_contracts := t_contracts d'\<rparr>"
    unfolding d'(1) by (auto simp: UpsertContract_def Let_def split: option.split)
qed

lemma sql_update_twice:
  assumes "\<And>r. P r \<Longrightarrow> P (f r)" and "\<And>r. f (f r) = f r"
  shows "sql_update P f (sql_update P f t) = sql_update P f t"
  using assms by (induction t) (auto simp: sql_update_def)

lemma sql_update_same: "(\<And>r. r \<in> set t \<Longrightarrow> P r \<Longrightarrow> f r = r) \<Longrightarrow> sql_update P f t = t"
  by (induction t) (auto simp: sql_update_def)

lemma UpsertContract_again:
  assumes "UpsertContract c now d = (saved, d')" and "ct_Classification c = Some j" "j \<noteq> ''''"
  shows "UpsertContract c later d' = (saved, d')"
proof -
  let ?p = "is_contract (ct_Network c) (ct_ContractID c)"
  let ?f = "\<lambda>o'. o'\<lparr>ct_Source := ct_Source c, ct_Kinds := ct_Kinds c, ct_Classification := Some j\<rparr>"
  have j: "jsonbParam (ct_Classification c) = Some j" using assms(2,3) by (simp add: jsonbParam_def)
  show ?thesis
  proof (cases "find ?p (t_contracts d)")
    case None
    then have none: "r \<in> set (t_contracts d) \<Longrightarrow> \<not> ?p r" for r by (simp add: find_None_iff)
    have saved: "saved = c\<lparr>ct_Classification := Some j, ct_RegisteredAt := now\<rparr>" "d' = d\<lparr>t_contracts := t_contracts d @ [saved]\<rparr>"
      using assms(1) None j by (auto simp: UpsertContract_def Let_def)
    have "find ?p (t_contracts d') = Some saved"
      using None by (simp add: saved find_append_one is_contract_def)
    moreover have "sql_update ?p ?f (t_contracts d') = t_contracts d'"
      using none assms(2) by (intro sql_update_same) (auto simp: saved)
    moreover have "?f saved = saved" by (simp add: saved)
    ultimately show ?thesis using j by (simp add: UpsertContract_def)
  next
    case (Some old)
    then have saved: "saved = ?f old" "d' = d\<lparr>t_contracts := sql_update ?p ?f (t_contracts d)\<rparr>"
      using assms(1) j by (auto simp: UpsertContract_def Let_def)
    have "find ?p (t_contracts d') = Some saved"
      using UpsertContract_saved(1) [OF assms(1)] by (simp add: GetContract_def split: option.splits)
    moreover have "sql_update ?p ?f (sql_update ?p ?f (t_contracts d)) = sql_update ?p ?f (t_contracts d)"
      by (rule sql_update_twice) (simp_all add: is_contract_def)
    then have "sql_update ?p ?f (t_contracts d') = t_contracts d'" by (simp add: saved(2))
    moreover have "?f saved = saved" by (simp add: saved)
    ultimately show ?thesis using j by (simp add: UpsertContract_def)
  qed
qed

lemma decode_body_text:
  assumes "plain j" and "length (json_text j) \<le> limit"
  shows "decode_body limit set_field zero (json_text j) =
    (case strict_object set_field zero j of None \<Rightarrow> Inl InvalidBody | Some p \<Rightarrow> Inr p)"
  using parse_value_text [OF assms(1), of "2 * length (json_text j) + 1" "[]"] assms(2) by (simp add: decode_body_def)

lemma EnsureBackfill_other:
  "t_contracts (EnsureBackfill n c tf nt kinds now d) = t_contracts d"
  "t_cursor (EnsureBackfill n c tf nt kinds now d) = t_cursor d"
  by (auto simp: EnsureBackfill_def reopenDeferrals_def ReopenGaps_def Let_def split: option.splits)

text \<open>A registration that succeeds, taken apart.\<close>

definition to_register :: "string \<Rightarrow> string \<Rightarrow> string list \<Rightarrow> Classification \<Rightarrow> Contract" where
  "to_register n cid kinds cls =
     \<lparr>ct_Network = n, ct_ContractID = cid, ct_Source = SourceAPI, ct_Kinds = kinds,
      ct_Classification = Some (json_text (Classification_json cls)), ct_RegisteredAt = 0\<rparr>"

definition anchor :: "string \<Rightarrow> db \<Rightarrow> u32" where
  "anchor n d = (case LoadCursor n d of Inr cursor \<Rightarrow> cu_Sequence cursor + registrationAnchorMargin | Inl _ \<Rightarrow> 0)"

lemma handleRegister_planned:
  assumes "plan_registration env body = Inr (cid, tf, kinds, cls, warnings)"
    and "UpsertContract (to_register n cid kinds cls) now (ad_db s) = (saved, d)"
  shows "handleRegister env n body now Answering ok s = (Inr ((toResponse saved)\<lparr>ap_Warnings := warnings\<rparr>),
    reloadRegistry n ok (s\<lparr>ad_db := EnsureBackfill n cid tf (anchor n d) kinds now d\<rparr>))"
proof -
  have "ct_ContractID saved = cid \<and> ct_Kinds saved = kinds"
    unfolding UpsertContract_saved(2) [OF assms(2)]
    by (auto simp: merge_contract_def stored_contract_def to_register_def is_contract_def find_Some_iff split: option.split)
  then show ?thesis
    using assms unfolding handleRegister_def to_register_def anchor_def by (simp add: Let_def)
qed

lemma ad_db_reload [simp]: "ad_db (reloadRegistry n ok s) = ad_db s"
  by (simp add: reloadRegistry_def)

section \<open>Properties\<close>

text \<open>The ledger a request asks for, read off its JSON: everything without \<open>from\<close> or with the word genesis,
  else the number.\<close>

definition asked_from :: "json option \<Rightarrow> u32 \<Rightarrow> bool" where
  "asked_from raw tf \<longleftrightarrow>
     (case raw of
        None \<Rightarrow> tf = 1
      | Some (JString s) \<Rightarrow> s = ''genesis'' \<and> tf = 1
      | Some (JNumber l) \<Rightarrow> digits l \<and> tf \<noteq> 0 \<and> undec l = unat tf
      | _ \<Rightarrow> False)"

lemma parseFrom_asked: "parseFrom raw = Inr tf \<longleftrightarrow> asked_from raw tf"
proof (cases raw)
  case (Some j)
  show ?thesis
  proof (cases j)
    case (JNumber l)
    show ?thesis
    proof
      assume "parseFrom raw = Inr tf"
      then have l: "ParseUint 18446744073709551615 l = Some (undec l)" "digits l" "undec l \<noteq> 0" "undec l \<le> 4294967295" "tf = of_nat (undec l)"
        using Some JNumber by (auto simp: parseFrom_def ParseUint_def Let_def split: option.splits if_splits)
      then have "unat tf = undec l" by (simp add: unat_of_nat take_bit_nat_eq_self)
      then show "asked_from raw tf" using Some JNumber l(2,3) by (auto simp: asked_from_def)
    next
      assume "asked_from raw tf"
      then have l: "digits l" "tf \<noteq> 0" "undec l = unat tf" using Some JNumber by (auto simp: asked_from_def)
      moreover have "unat tf \<noteq> 0" using l(2) by (simp add: unat_eq_zero)
      moreover have "unat tf \<le> 4294967295" using unsigned_less [of tf, where ?'a = nat] by simp
      ultimately show "parseFrom raw = Inr tf" using Some JNumber by (simp add: parseFrom_def ParseUint_def)
    qed
  qed (auto simp: Some parseFrom_def asked_from_def)
qed (auto simp: parseFrom_def asked_from_def)

text \<open>An accepted request, read off its body.\<close>

lemma plan_registration_asked:
  assumes "plan_registration env body = Inr (cid, tf, kinds, cls, warnings)"
  shows "\<exists>req. decode_body maxBodyBytes_admin set_registerRequest \<lparr>rq_ContractID = '''', rq_Kinds = [], rq_From = None\<rparr> body = Inr req
    \<and> cid = rq_ContractID req \<and> is_address env cid \<and> asked_from (rq_From req) tf
    \<and> kinds \<noteq> [] \<and> set kinds \<subseteq> set supportedKinds \<and> (rq_Kinds req \<noteq> [] \<longrightarrow> kinds = rq_Kinds req)"
proof -
  obtain req where req: "decode_body maxBodyBytes_admin set_registerRequest \<lparr>rq_ContractID = '''', rq_Kinds = [], rq_From = None\<rparr> body = Inr req"
    using assms by (auto simp: plan_registration_def andThen_Inr)
  have known: "set (rq_Kinds req) \<subseteq> set supportedKinds"
    using assms req by (auto simp: plan_registration_def andThen_Inr find_None_iff split: if_splits option.splits)
  have "cid = rq_ContractID req" "is_address env cid" "parseFrom (rq_From req) = Inr tf"
    "kinds = (if rq_Kinds req \<noteq> [] then rq_Kinds req
      else [KindEvents, KindState] @ (if kc_Type cls = TypeSAC then [KindTransfers] else []))"
    using assms req
    by (auto simp: plan_registration_def andThen_Inr Let_def split: if_splits option.splits sum.splits classify_error.splits)
  then show ?thesis using req known by (auto simp: parseFrom_asked supportedKinds_def split: if_splits)
qed

lemma plan_registration_error: "plan_registration env body = Inl e \<Longrightarrow> e \<noteq> RegistrationFailed"
  by (auto simp: plan_registration_def andThen_def decode_body_def parseFrom_def Let_def
      split: sum.splits option.splits if_splits classify_error.splits json.splits)

text \<open>A walk that is new starts where it is anchored.\<close>

lemma EnsureBackfill_fresh:
  assumes "find (is_backfill n cid) (t_backfill d) = None"
    and "find (is_backfill n cid) (t_backfill (EnsureBackfill n cid tf nt kinds now d)) = Some row"
  shows "br_target_from row = uint tf \<and> br_next_to row = uint nt"
  using assms
  by (auto simp: EnsureBackfill_def reopenDeferrals_def ReopenGaps_def Let_def find_append_one is_backfill_def split: if_splits)

text \<open>C28: a registration is honoured or refused. An accepted request leaves the contract it names stored with
  the kinds of the response, which are those it asked for if it asked for any, and a walk that covers
  exactly those kinds down to the ledger its body asks for; a walk that is new starts 20 ledgers above the
  live cursor. A request that is refused changes nothing, whatever the reason. The one failure that
  changes something is a database that goes away after the contract is written: the request is then
  answered as failed, the contract is stored, and nothing else has changed, neither the walks nor the
  registry snapshot.\<close>

theorem registration_honoured:
  "case handleRegister env n body now db ok s of
     (Inl e, s') \<Rightarrow>
       (if e \<noteq> RegistrationFailed then plan_registration env body = Inl e \<and> s' = s
        else if db = Gone then s' = s
        else db = GoneAfterUpsert \<and> ad_snapshot s' = ad_snapshot s
          \<and> ad_db s' = (ad_db s)\<lparr>t_contracts := t_contracts (ad_db s')\<rparr>
          \<and> (\<exists>cid tf kinds cls warnings c. plan_registration env body = Inr (cid, tf, kinds, cls, warnings)
               \<and> GetContract n cid (ad_db s') = Inr c \<and> ct_Kinds c = kinds))
   | (Inr resp, s') \<Rightarrow>
       db = Answering
       \<and> (\<exists>req tf c row. decode_body maxBodyBytes_admin set_registerRequest \<lparr>rq_ContractID = '''', rq_Kinds = [], rq_From = None\<rparr> body = Inr req
          \<and> is_address env (rq_ContractID req) \<and> asked_from (rq_From req) tf
          \<and> GetContract n (rq_ContractID req) (ad_db s') = Inr c \<and> toResponse c = resp\<lparr>ap_Warnings := []\<rparr>
          \<and> ct_Kinds c \<noteq> [] \<and> set (ct_Kinds c) \<subseteq> set supportedKinds \<and> (rq_Kinds req \<noteq> [] \<longrightarrow> ct_Kinds c = rq_Kinds req)
          \<and> find (is_backfill n (rq_ContractID req)) (t_backfill (ad_db s')) = Some row
          \<and> set (br_covered_kinds row) = set (ct_Kinds c) \<and> (word_of_int (br_target_from row) :: u32) \<le> tf
          \<and> (find (is_backfill n (rq_ContractID req)) (t_backfill (ad_db s)) = None \<longrightarrow>
               br_target_from row = uint tf
               \<and> br_next_to row = (case LoadCursor n (ad_db s) of Inr cur \<Rightarrow> uint (cu_Sequence cur + 20) | Inl _ \<Rightarrow> 0)))"
proof (cases "plan_registration env body")
  case (Inl e)
  then have "e \<noteq> RegistrationFailed" by (rule plan_registration_error)
  then show ?thesis using Inl by (simp add: handleRegister_def)
next
  case (Inr r)
  obtain cid tf kinds cls warnings where r: "r = (cid, tf, kinds, cls, warnings)" by (cases r)
  note plan = Inr [unfolded r]
  obtain saved d where up: "UpsertContract (to_register n cid kinds cls) now (ad_db s) = (saved, d)" by fastforce
  note up' = up [unfolded to_register_def]
  have stored: "GetContract n cid d = Inr saved" using UpsertContract_saved(1) [OF up] by (simp add: to_register_def)
  have kinds: "ct_Kinds saved = kinds"
    unfolding UpsertContract_saved(2) [OF up] by (auto simp: merge_contract_def to_register_def split: option.split)
  note only = UpsertContract_saved(3) [OF up]
  show ?thesis
  proof (cases db)
    case Answering
    let ?d = "EnsureBackfill n cid tf (anchor n d) kinds now d"
    have same: "t_backfill d = t_backfill (ad_db s)" "anchor n d = anchor n (ad_db s)"
      using arg_cong [OF only, of t_backfill] arg_cong [OF only, of t_cursor] by (simp_all add: anchor_def LoadCursor_def)
    obtain row where row: "find (is_backfill n cid) (t_backfill ?d) = Some row" "grants tf kinds row"
      using EnsureBackfill_grants by blast
    have fresh: "br_target_from row = uint tf \<and> br_next_to row = uint (anchor n (ad_db s))"
      if "find (is_backfill n cid) (t_backfill (ad_db s)) = None"
      using EnsureBackfill_fresh [of n cid d] that same row(1) by simp
    have "GetContract n cid ?d = Inr saved" using stored by (simp add: GetContract_def EnsureBackfill_other)
    moreover have "toResponse saved = (toResponse saved)\<lparr>ap_Warnings := warnings\<rparr>\<lparr>ap_Warnings := []\<rparr>" by (simp add: toResponse_def)
    moreover obtain req where "decode_body maxBodyBytes_admin set_registerRequest
        \<lparr>rq_ContractID = '''', rq_Kinds = [], rq_From = None\<rparr> body = Inr req"
      "cid = rq_ContractID req" "is_address env cid" "asked_from (rq_From req) tf"
      "kinds \<noteq> []" "set kinds \<subseteq> set supportedKinds" "rq_Kinds req \<noteq> [] \<longrightarrow> kinds = rq_Kinds req"
      using plan_registration_asked [OF plan] by blast
    moreover have "uint (anchor n (ad_db s)) = (case LoadCursor n (ad_db s) of Inr cur \<Rightarrow> uint (cu_Sequence cur + 20) | Inl _ \<Rightarrow> 0)"
      by (simp add: anchor_def registrationAnchorMargin_def split: sum.split)
    ultimately show ?thesis
      using handleRegister_planned [OF plan up, of ok] Answering row kinds fresh by (auto simp: grants_def)
  next
    case Gone
    then show ?thesis using plan by (simp add: handleRegister_def)
  next
    case GoneAfterUpsert
    then show ?thesis using plan up' stored kinds only by (simp add: handleRegister_def)
  qed
qed

text \<open>Registering is idempotent. Sending an accepted request again, before ingestion has moved on or
  after, gives the same response and leaves the database exactly as the first one left it.\<close>

theorem registration_idempotent:
  assumes "handleRegister env n body now Answering ok s = (Inr resp, s')" and "ad_db s'' = (ad_db s')\<lparr>t_cursor := cursor\<rparr>"
  shows "\<exists>s3. handleRegister env n body later Answering ok2 s'' = (Inr resp, s3) \<and> ad_db s3 = ad_db s''"
proof -
  obtain cid tf kinds cls warnings where r: "plan_registration env body = Inr (cid, tf, kinds, cls, warnings)"
    using assms(1) by (cases "plan_registration env body") (auto simp: handleRegister_def)
  let ?c = "to_register n cid kinds cls"
  obtain saved d where up: "UpsertContract ?c now (ad_db s) = (saved, d)" by fastforce
  have s': "resp = (toResponse saved)\<lparr>ap_Warnings := warnings\<rparr>" "ad_db s' = EnsureBackfill n cid tf (anchor n d) kinds now d"
    using assms(1) handleRegister_planned [OF r up, of ok] by auto
  have cls: "ct_Classification ?c = Some (json_text (Classification_json cls))" "json_text (Classification_json cls) \<noteq> ''''"
    by (simp_all add: to_register_def Classification_json_def)
  note again = UpsertContract_again [OF up cls, of later]
  have same: "t_contracts (ad_db s'') = t_contracts d" using assms(2) s'(2) by (simp add: EnsureBackfill_other)
  have up2: "UpsertContract ?c later (ad_db s'') = (saved, ad_db s'')"
  proof -
    have "UpsertContract ?c later x = (fst (UpsertContract ?c later y), x\<lparr>t_contracts := t_contracts (snd (UpsertContract ?c later y))\<rparr>)"
      if "t_contracts x = t_contracts y" for x y
      using that by (auto simp: UpsertContract_def Let_def split: option.split)
    from this [OF same] show ?thesis using again same by simp
  qed
  obtain row where "find (is_backfill n cid) (t_backfill (ad_db s')) = Some row" "grants tf kinds row"
    unfolding s'(2) using EnsureBackfill_grants by blast
  then have "EnsureBackfill n cid tf (anchor n (ad_db s'')) kinds later (ad_db s'') = ad_db s''"
    using assms(2) by (intro EnsureBackfill_granted) auto
  then show ?thesis using handleRegister_planned [OF r up2, of ok2] s'(1) by simp
qed

text \<open>A running example: \<open>C\<close> is a SAC, registered from ledger 5 while the cursor stands at 9.\<close>

definition demo_lookup :: chain where
  "demo_lookup = \<lparr>is_address = (\<lambda>a. hd a = CHR ''C''), classify = (\<lambda>_. Inr \<lparr>kc_Type = ''sac'', kc_WasmHash = '''', kc_Events = [],
     kc_Method = ''builtin''\<rparr>)\<rparr>"

definition demo_registration :: string where
  "demo_registration = json_text (JObject [(''contract_id'', JString ''C''), (''from'', JNumber ''5'')])"

definition demo_admin :: admin where
  "demo_admin = \<lparr>ad_db = demo_api_db, ad_snapshot = Reload ''testnet'' demo_api_db\<rparr>"

lemma demo_decoded:
  "decode_body maxBodyBytes_admin set_registerRequest \<lparr>rq_ContractID = '''', rq_Kinds = [], rq_From = None\<rparr> demo_registration
    = Inr \<lparr>rq_ContractID = ''C'', rq_Kinds = [], rq_From = Some (JNumber ''5'')\<rparr>"
proof -
  let ?j = "JObject [(''contract_id'', JString ''C''), (''from'', JNumber ''5'')]"
  have "plain ?j" "length (json_text ?j) \<le> maxBodyBytes_admin"
    by (simp_all add: ascii_def code_def number_ok_def digits_def is_digit_def number_char_def quote_def escape_def maxBodyBytes_admin_def)
  from decode_body_text [OF this, of set_registerRequest "\<lparr>rq_ContractID = '''', rq_Kinds = [], rq_From = None\<rparr>"]
  show ?thesis
    unfolding demo_registration_def
    by (simp add: strict_object_def set_registerRequest_def ToLower_def as_string_def del: json_text.simps)
qed

lemma demo_from: "parseFrom (Some (JNumber ''5'')) = Inr 5"
  by (simp add: parseFrom_def ParseUint_def digits_def is_digit_def code_def undec_def digit_val_def)

lemma demo_planned:
  "\<exists>cls. plan_registration demo_lookup demo_registration = Inr (''C'', 5, [KindEvents, KindState, KindTransfers], cls, [])"
  using demo_decoded demo_from by (simp add: plan_registration_def andThen_def demo_lookup_def TypeSAC_def)

theorem registration_honoured_witness:
  "\<exists>resp s1 c row. handleRegister demo_lookup ''testnet'' demo_registration 7 Answering True demo_admin = (Inr resp, s1)
    \<and> GetContract ''testnet'' ''C'' (ad_db s1) = Inr c \<and> ct_Kinds c \<noteq> []
    \<and> find (is_backfill ''testnet'' ''C'') (t_backfill (ad_db s1)) = Some row \<and> (word_of_int (br_target_from row) :: u32) \<le> 5"
proof -
  obtain cls where p: "plan_registration demo_lookup demo_registration = Inr (''C'', 5, [KindEvents, KindState, KindTransfers], cls, [])"
    using demo_planned by blast
  obtain saved d where up: "UpsertContract (to_register ''testnet'' ''C'' [KindEvents, KindState, KindTransfers] cls) 7 (ad_db demo_admin)
    = (saved, d)" by fastforce
  obtain resp s1 where one: "handleRegister demo_lookup ''testnet'' demo_registration 7 Answering True demo_admin = (Inr resp, s1)"
    using handleRegister_planned [OF p up] by blast
  have "tf = 5" if "asked_from (Some (JNumber ''5'')) tf" for tf
    using demo_from that unfolding parseFrom_asked [symmetric] by simp
  then show ?thesis
    using registration_honoured [where env = demo_lookup and n = "''testnet''" and body = demo_registration and now = 7
        and db = Answering and ok = True and s = demo_admin] one
    by (auto simp: demo_decoded)
qed

theorem registration_idempotent_witness:
  "\<exists>resp s1. handleRegister demo_lookup ''testnet'' demo_registration 7 Answering True demo_admin = (Inr resp, s1)
    \<and> (\<exists>s2. handleRegister demo_lookup ''testnet'' demo_registration 8 Answering True s1 = (Inr resp, s2) \<and> ad_db s2 = ad_db s1)"
proof -
  obtain cls where p: "plan_registration demo_lookup demo_registration = Inr (''C'', 5, [KindEvents, KindState, KindTransfers], cls, [])"
    using demo_planned by blast
  obtain saved d where up: "UpsertContract (to_register ''testnet'' ''C'' [KindEvents, KindState, KindTransfers] cls) 7 (ad_db demo_admin)
    = (saved, d)" by fastforce
  obtain resp s1 where one: "handleRegister demo_lookup ''testnet'' demo_registration 7 Answering True demo_admin = (Inr resp, s1)"
    using handleRegister_planned [OF p up] by blast
  have "ad_db s1 = (ad_db s1)\<lparr>t_cursor := t_cursor (ad_db s1)\<rparr>" by simp
  from registration_idempotent [OF one this, of 8 True] one show ?thesis by blast
qed

text \<open>Registering before ingestion has a cursor leaves a finished walk from ledger 1: coverage then
  vouches for all history as if it had been walked, although no ledger below the first one ingested
  was ever read for the contract.\<close>

theorem registration_before_ingestion_claims_history:
  assumes "plan_registration env body = Inr (cid, 1, kinds, cls, warnings)" and "LoadCursor n (ad_db s) = Inl e"
    and "find (is_backfill n cid) (t_backfill (ad_db s)) = None"
    and "handleRegister env n body now Answering ok s = (Inr resp, s')" "GetContract n cid (ad_db s') = Inr c"
    and "kind \<in> set kinds" "ct_Kinds c = kinds" "ct_ContractID c = cid"
  shows "co_IndexedFromLedger (coverage n c kind (ledger_query cid 1 0) live (ad_db s')) = 1
    \<and> \<not> co_BackfillPending (coverage n c kind (ledger_query cid 1 0) live (ad_db s'))"
proof -
  obtain saved d where up: "UpsertContract (to_register n cid kinds cls) now (ad_db s) = (saved, d)" by fastforce
  have d: "t_cursor d = t_cursor (ad_db s)" "t_backfill d = t_backfill (ad_db s)"
    by (subst UpsertContract_saved(3) [OF up], simp)+
  have "anchor n d = 0" using assms(2) d(1) by (simp add: anchor_def LoadCursor_def)
  then have s': "ad_db s' = EnsureBackfill n cid 1 0 kinds now d"
    using assms(4) handleRegister_planned [OF assms(1) up, of ok] by auto
  have "find (is_backfill n cid) (t_backfill (ad_db s')) = Some \<lparr>br_network = n, br_contract_id = cid, br_target_from = 1,
      br_next_to = 0, br_done = True, br_clamped_at = None, br_covered_kinds = kinds, br_updated_at = now\<rparr>"
    unfolding s' using assms(3) d(2)
    by (simp add: EnsureBackfill_def reopenDeferrals_def Let_def find_append_one is_backfill_def u32_less_iff)
  then have "GetBackfill n cid (ad_db s') = Inr \<lparr>b_ContractID = cid, b_TargetFrom = 1, b_NextTo = 0, b_Done = True,
      b_ClampedAt = None, b_CoveredKinds = kinds\<rparr>" by (simp add: GetBackfill_def scan_backfill_def)
  then show ?thesis
    using assms(6-8) by (simp add: coverage_def ledger_query_def HasKind_def CoversKind_def list_ex_iff Let_def)
qed

text \<open>A posted heal plan loses no work while every resolved gap reaches outside what is owed. Whatever the body, the ledgers owed to the healer and the
  operator together stay the same; a refused plan changes nothing, and an accepted one leaves to the
  healer exactly the owed ledgers of the padded, checkpoint-aligned ranges it asked for.\<close>

theorem posted_plan_keeps_owed:
  assumes "wf_gaps (t_gaps (ad_db s))" and "open_disjoint n (t_gaps (ad_db s))" and "resolved_apart n (t_gaps (ad_db s))"
  shows "case handlePlan n body now s of
     (Inl e, s') \<Rightarrow> s' = s \<and> (\<forall>x. e \<noteq> PlanningFailed x)
   | (Inr res, s') \<Rightarrow>
       (\<exists>replay padding. replay \<noteq> [] \<and> length replay \<le> 20000 \<and> padding \<le> 1048576
          \<and> (\<forall>iv\<in>set replay. iv_From iv \<noteq> 0 \<and> iv_From iv \<le> iv_To iv)
          \<and> owed n (t_gaps (ad_db s')) = owed n (t_gaps (ad_db s))
          \<and> owed_in n HealModeReplay (t_gaps (ad_db s')) =
              owed n (t_gaps (ad_db s)) \<inter> (\<Union>iv\<in>set replay. iv_set (pad_snap padding iv)))"
proof (cases "andThen (decode_body maxPlanBodyBytes set_planRequest \<lparr>pq_Replay = [], pq_Padding = None\<rparr> body) check_plan")
  case (Inl e)
  have "e \<noteq> PlanningFailed x" for x
    using Inl by (auto simp: check_plan_def decode_body_def Let_def andThen_def split: sum.splits option.splits if_splits)
  then show ?thesis using Inl by (simp add: handlePlan_def)
next
  case (Inr r)
  obtain replay padding where r: "r = (replay, padding)" by fastforce
  obtain req where req: "check_plan req = Inr (replay, padding)" using Inr r by (auto simp: andThen_Inr)
  then have ok: "replay \<noteq> []" "length replay \<le> 20000" "padding \<le> 1048576" and
    none: "find (\<lambda>i. bad_interval (replay ! i)) [0..<length replay] = None"
    by (auto simp: check_plan_def maxPlanIntervals_def maxPlanPadding_def defaultPlanPadding_def not_less
        split: if_splits option.splits)
  have "\<not> bad_interval iv" if "iv \<in> set replay" for iv
    using that none by (auto simp: find_None_iff in_set_conv_nth)
  then have ivs: "\<forall>iv\<in>set replay. iv_From iv \<noteq> 0 \<and> iv_From iv \<le> iv_To iv" by (auto simp: bad_interval_def not_less)
  then have "\<forall>iv\<in>set replay. iv_From iv \<le> iv_To iv" by blast
  let ?P = "\<Union>iv\<in>set replay. iv_set (pad_snap padding iv)"
  obtain d' where d': "PlanHeal n replay padding now (ad_db s) = Inr (plan_counts n d', d')"
    "owed_in n HealModeReplay (t_gaps d') = owed n (t_gaps (ad_db s)) \<inter> ?P"
    "owed_in n HealModeDeferred (t_gaps d') = owed n (t_gaps (ad_db s)) - ?P"
    using PlanHeal_correct [OF assms \<open>\<forall>iv\<in>set replay. iv_From iv \<le> iv_To iv\<close>, of padding now] by blast
  have "owed n (t_gaps d') = owed n (t_gaps (ad_db s))"
    unfolding owed_by_mode [of n "t_gaps d'"] d'(2,3) by blast
  then show ?thesis using Inr r ok ivs d'(1,2) by (auto simp: handlePlan_def)
qed

text \<open>Ledgers 5 to 6 of one open gap, asked for without padding.\<close>

definition demo_plan :: string where
  "demo_plan = json_text (JObject [(''replay'', JArray [JObject [(''from'', JNumber ''5''), (''to'', JNumber ''6'')]]),
     (''padding'', JNumber ''0'')])"

definition demo_gap_admin :: admin where
  "demo_gap_admin = demo_admin\<lparr>ad_db := demo_api_db\<lparr>t_gaps := [demo_gap ''testnet'' 1 200]\<rparr>\<rparr>"

lemma demo_plan_checked:
  "andThen (decode_body maxPlanBodyBytes set_planRequest \<lparr>pq_Replay = [], pq_Padding = None\<rparr> demo_plan) check_plan
    = Inr ([\<lparr>iv_From = 5, iv_To = 6\<rparr>], 0)"
proof -
  let ?j = "JObject [(''replay'', JArray [JObject [(''from'', JNumber ''5''), (''to'', JNumber ''6'')]]), (''padding'', JNumber ''0'')]"
  have "plain ?j" "length (json_text ?j) \<le> maxPlanBodyBytes"
    by (simp_all add: ascii_def code_def number_ok_def digits_def is_digit_def number_char_def quote_def escape_def maxPlanBodyBytes_def)
  from decode_body_text [OF this, of set_planRequest "\<lparr>pq_Replay = [], pq_Padding = None\<rparr>"]
  have "decode_body maxPlanBodyBytes set_planRequest \<lparr>pq_Replay = [], pq_Padding = None\<rparr> demo_plan
    = Inr \<lparr>pq_Replay = [\<lparr>iv_From = 5, iv_To = 6\<rparr>], pq_Padding = Some 0\<rparr>"
    unfolding demo_plan_def
    by (simp add: strict_object_def set_planRequest_def set_Interval_def ToLower_def as_uint32_def
        ParseUint_def digits_def is_digit_def code_def undec_def digit_val_def del: json_text.simps)
  then show ?thesis
    by (simp add: andThen_def check_plan_def maxPlanIntervals_def bad_interval_def maxPlanPadding_def)
qed


theorem posted_plan_keeps_owed_witness:
  "\<exists>res s'. handlePlan ''testnet'' demo_plan 7 demo_gap_admin = (Inr res, s')
    \<and> owed ''testnet'' (t_gaps (ad_db s')) = owed ''testnet'' (t_gaps (ad_db demo_gap_admin))"
proof -
  let ?gaps = "t_gaps (ad_db demo_gap_admin)"
  have gaps: "?gaps = [demo_gap ''testnet'' 1 200]" by (simp add: demo_gap_admin_def)
  have pre: "wf_gaps ?gaps" "open_disjoint ''testnet'' ?gaps" "resolved_apart ''testnet'' ?gaps"
    using demo_gap_wf [of 1 200 "''testnet''"]
    unfolding gaps by (simp_all add: wf_gaps_def open_disjoint_def resolved_apart_def demo_gap_def)
  obtain r s' where "handlePlan ''testnet'' demo_plan 7 demo_gap_admin = (r, s')" by fastforce
  moreover have "\<exists>res. r = Inr res"
  proof -
    have "\<forall>iv\<in>set [\<lparr>iv_From = 5, iv_To = 6\<rparr>]. iv_From iv \<le> iv_To iv" by simp
    from PlanHeal_exact [OF pre(1,2) this, of 0 7] calculation show ?thesis
      by (auto simp: handlePlan_def demo_plan_checked)
  qed
  ultimately show ?thesis using posted_plan_keeps_owed [OF pre, of demo_plan 7] by auto
qed

end
