(* ===== verification/Go_Strings.thy ===== *)
theory Go_Strings
  imports Json
begin

text \<open>
  What the program uses of Go's strings: the runes of a byte string (\<open>for range\<close>, \<open>[]rune(s)\<close>) with
  the language's treatment of invalid UTF-8, \<open>strings.TrimSpace\<close>, \<open>strings.Split\<close> at a comma,
  \<open>strings.Cut\<close>, and \<open>Builder.WriteRune\<close>. The letter tables of package \<open>unicode\<close> beyond ASCII are an
  argument.
\<close>

section \<open>Runes\<close>

definition RuneError :: nat where "RuneError = 65533"

definition rune_size :: "nat \<Rightarrow> nat" where
  "rune_size b =
     (if b < 128 then 1 else if 194 \<le> b \<and> b \<le> 223 then 2 else if 224 \<le> b \<and> b \<le> 239 then 3
      else if 240 \<le> b \<and> b \<le> 244 then 4 else 0)"

definition byte_between :: "nat \<Rightarrow> nat \<Rightarrow> char \<Rightarrow> bool" where
  "byte_between lo hi c \<longleftrightarrow> lo \<le> code c \<and> code c \<le> hi"

definition second_ok :: "nat \<Rightarrow> char \<Rightarrow> bool" where
  "second_ok b c \<longleftrightarrow>
     byte_between (if b = 224 then 160 else if b = 240 then 144 else 128)
       (if b = 237 then 159 else if b = 244 then 143 else 191) c"

definition DecodeRune :: "char \<Rightarrow> string \<Rightarrow> nat \<times> nat" where
  "DecodeRune c s =
     (let b = code c; n = rune_size b
      in if n = 1 then (b, 1)
         else if n = 0 \<or> length s + 1 < n \<or> \<not> second_ok b (hd s) \<or> \<not> list_all (byte_between 128 191) (take (n - 2) (tl s))
         then (RuneError, 1)
         else (foldl (\<lambda>r x. r * 64 + code x mod 64) (b mod 2 ^ (7 - n)) (take (n - 1) s), n))"

text \<open>The runes of a string, each with the bytes it was read from.\<close>

fun runes :: "string \<Rightarrow> (nat \<times> string) list" where
  "runes [] = []"
| "runes (c # s) = (fst (DecodeRune c s), take (snd (DecodeRune c s)) (c # s)) # runes (drop (snd (DecodeRune c s) - 1) s)"

definition EncodeRune :: "nat \<Rightarrow> string" where
  "EncodeRune r =
     (let r = (if r > 1114111 \<or> (55296 \<le> r \<and> r \<le> 57343) then RuneError else r)
      in map char_of
        (if r < 128 then [r]
         else if r < 2048 then [192 + r div 64, 128 + r mod 64]
         else if r < 65536 then [224 + r div 4096, 128 + r div 64 mod 64, 128 + r mod 64]
         else [240 + r div 262144, 128 + r div 4096 mod 64, 128 + r div 64 mod 64, 128 + r mod 64]))"

lemma DecodeRune_size: "0 < snd (DecodeRune c s)"
  by (auto simp: DecodeRune_def Let_def)

theorem runes_cover: "concat (map snd (runes s)) = s"
proof (induction s rule: runes.induct)
  case (2 c s)
  then show ?case
    using DecodeRune_size [of c s] by (simp add: take_Cons' append_take_drop_id)
qed simp

definition ascii_text :: "string \<Rightarrow> bool" where
  "ascii_text s \<longleftrightarrow> list_all (\<lambda>c. code c < 128) s"

lemma ascii_text_simps [simp]: "ascii_text []" "ascii_text (c # s) \<longleftrightarrow> code c < 128 \<and> ascii_text s"
  "ascii_text (s @ t) \<longleftrightarrow> ascii_text s \<and> ascii_text t"
  by (simp_all add: ascii_text_def)

lemma runes_ascii: "ascii_text s \<Longrightarrow> runes s = map (\<lambda>c. (code c, [c])) s"
  by (induction s rule: runes.induct) (simp_all add: DecodeRune_def rune_size_def)

declare runes.simps(2) [simp del]

lemma EncodeRune_ascii: "r < 128 \<Longrightarrow> EncodeRune r = [char_of r]"
  by (simp add: EncodeRune_def)

section \<open>Trimming, splitting, cutting\<close>

definition IsSpace :: "nat \<Rightarrow> bool" where
  "IsSpace r \<longleftrightarrow>
     (9 \<le> r \<and> r \<le> 13) \<or> r = 32 \<or> r = 133 \<or> r = 160 \<or> r = 5760 \<or> (8192 \<le> r \<and> r \<le> 8202)
     \<or> r = 8232 \<or> r = 8233 \<or> r = 8239 \<or> r = 8287 \<or> r = 12288"

text \<open>Scanning backwards for the last rune finds the same boundaries as the forward scan: a lead byte
  is never taken as a continuation.\<close>

definition TrimSpace :: "string \<Rightarrow> string" where
  "TrimSpace s = concat (map snd (rev (dropWhile (IsSpace \<circ> fst) (rev (dropWhile (IsSpace \<circ> fst) (runes s))))))"

fun SplitByte :: "char \<Rightarrow> string \<Rightarrow> string list" where
  "SplitByte sep [] = [[]]"
| "SplitByte sep (c # s) =
     (if c = sep then [] # SplitByte sep s
      else (case SplitByte sep s of [] \<Rightarrow> [[c]] | p # ps \<Rightarrow> (c # p) # ps))"

fun CutByte :: "char \<Rightarrow> string \<Rightarrow> (string \<times> string) option" where
  "CutByte sep [] = None"
| "CutByte sep (c # s) =
     (if c = sep then Some ([], s) else map_option (\<lambda>(before, after). (c # before, after)) (CutByte sep s))"

lemma SplitByte_nonempty [simp]: "SplitByte sep s \<noteq> []"
  by (induction s) (auto split: list.splits)

lemma CutByte_parts: "CutByte sep s = Some (a, b) \<longleftrightarrow> s = a @ sep # b \<and> sep \<notin> set a"
proof (induction s arbitrary: a)
  case (Cons c s)
  then show ?case by (cases a) auto
qed simp

lemma SplitByte_parts: "p \<in> set (SplitByte sep s) \<Longrightarrow> sep \<notin> set p"
  by (induction s arbitrary: p) (auto split: if_splits list.splits)

section \<open>Letters\<close>

record unicode =
  un_upper :: "nat \<Rightarrow> bool"
  un_lower :: "nat \<Rightarrow> bool"
  un_digit :: "nat \<Rightarrow> bool"
  un_toLower :: "nat \<Rightarrow> nat"

definition IsUpper :: "unicode \<Rightarrow> nat \<Rightarrow> bool" where
  "IsUpper u r \<longleftrightarrow> (if r < 128 then 65 \<le> r \<and> r \<le> 90 else un_upper u r)"

definition IsLower :: "unicode \<Rightarrow> nat \<Rightarrow> bool" where
  "IsLower u r \<longleftrightarrow> (if r < 128 then 97 \<le> r \<and> r \<le> 122 else un_lower u r)"

definition IsDigit :: "unicode \<Rightarrow> nat \<Rightarrow> bool" where
  "IsDigit u r \<longleftrightarrow> (if r < 128 then 48 \<le> r \<and> r \<le> 57 else un_digit u r)"

definition ToLowerRune :: "unicode \<Rightarrow> nat \<Rightarrow> nat" where
  "ToLowerRune u r = (if r < 128 then (if 65 \<le> r \<and> r \<le> 90 then r + 32 else r) else un_toLower u r)"

end
