(* ===== verification/Registry_Classify.thy ===== *)
theory Registry_Classify
  imports Admin Extract Go_Strings
begin

text \<open>
  \<^verbatim>\<open>internal/registry/classify.go\<close>: what registration learns about a contract from the chain. The
  walk over the sections of a wasm module is modelled to the byte, with \<open>binary.Uvarint\<close> at its 64
  bits; so are the names it derives. Arguments: the strkey and XDR codecs of the SDK and the RPC read of
  a ledger entry. An accessor of an absent union arm panics, and \<open>Classify\<close> recovers.
\<close>

unbundle bit_operations_syntax

section \<open>Names\<close>

definition snake_underscore :: "unicode \<Rightarrow> nat list \<Rightarrow> nat \<Rightarrow> bool" where
  "snake_underscore u rs i \<longleftrightarrow>
     i > 0
     \<and> ((IsLower u (rs ! (i - 1)) \<or> IsDigit u (rs ! (i - 1)))
        \<or> (i + 1 < length rs \<and> IsLower u (rs ! (i + 1))))"

definition snake_rune :: "unicode \<Rightarrow> nat list \<Rightarrow> nat \<Rightarrow> string" where
  "snake_rune u rs i =
     (if IsUpper u (rs ! i)
      then (if snake_underscore u rs i then EncodeRune 95 else []) @ EncodeRune (ToLowerRune u (rs ! i))
      else EncodeRune (rs ! i))"

definition toSnakeCase :: "unicode \<Rightarrow> string \<Rightarrow> string" where
  "toSnakeCase u s = (let rs = map fst (runes s) in concat (map (snake_rune u rs) [0..<length rs]))"

section \<open>The wasm section table\<close>

fun uvarint_loop :: "nat \<Rightarrow> 64 word \<Rightarrow> string \<Rightarrow> 64 word \<times> int" where
  "uvarint_loop i x [] = (0, 0)"
| "uvarint_loop i x (c # buf) =
     (let b = code c in
      if i = 10 then (0, - (int i + 1))
      else if b < 128 then (if i = 9 \<and> b > 1 then (0, - (int i + 1)) else (x OR push_bit (7 * i) (of_nat b), int i + 1))
      else uvarint_loop (Suc i) (x OR push_bit (7 * i) (of_nat b AND 127)) buf)"

definition Uvarint :: "string \<Rightarrow> 64 word \<times> int" where
  "Uvarint buf = uvarint_loop 0 0 buf"

definition wasmMagic :: string where
  "wasmMagic = [CHR 0x00, CHR 0x61, CHR 0x73, CHR 0x6D]"

text \<open>A length prefix and what follows it, or \<open>None\<close> when the bytes are not all there.\<close>

definition sized :: "string \<Rightarrow> (string \<times> string) option" where
  "sized buf =
     (let size = fst (Uvarint buf); n = snd (Uvarint buf)
      in if n \<le> 0 \<or> unat size > length buf - nat n then None
         else Some (take (unat size) (drop (nat n) buf), drop (nat n + unat size) buf))"

lemma sized_shorter: "sized buf = Some (a, b) \<Longrightarrow> length b \<le> length buf"
  by (auto simp: sized_def Let_def split: if_splits)

function section_walk :: "string \<Rightarrow> string option" where
  "section_walk rest =
     (case rest of
        [] \<Rightarrow> None
      | sectionID # rest \<Rightarrow>
          (case sized rest of
             None \<Rightarrow> None
           | Some (section, rest) \<Rightarrow>
               if code sectionID \<noteq> 0 then section_walk rest
               else (case sized section of
                       None \<Rightarrow> None
                     | Some (name, payload) \<Rightarrow>
                         if name = ''contractspecv0'' then Some payload else section_walk rest)))"
  by pat_completeness auto
termination
  by (relation "measure length") (auto dest: sized_shorter)

declare section_walk.simps [simp del]

definition contractSpecSection :: "string \<Rightarrow> string option" where
  "contractSpecSection wasm =
     (if length wasm < 8 \<or> take 4 wasm \<noteq> wasmMagic then None else section_walk (drop 8 wasm))"

section \<open>The declared names\<close>

datatype spec_entry = SpecEventV0 "string option" | SpecFunctionV0 "string option" | SpecOther int

text \<open>\<open>xdr.Unmarshal\<close> of one entry from a reader: the entry and the bytes left. \<open>None\<close> of the loop: out
  of fuel.\<close>

type_synonym spec_reader = "string \<Rightarrow> (spec_entry \<times> string) outcome"

fun spec_loop ::
  "unicode \<Rightarrow> spec_reader \<Rightarrow> nat \<Rightarrow> string \<Rightarrow> string list \<Rightarrow> string list \<Rightarrow> (string list \<times> string list) outcome option"
where
  "spec_loop u rd 0 r events functions = None"
| "spec_loop u rd (Suc fuel) r events functions =
     (if r = [] then Some (Returns (events, functions))
      else case rd r of
        Fails \<Rightarrow> Some Fails
      | Panics \<Rightarrow> Some Panics
      | Returns (entry, r) \<Rightarrow>
          (case entry of
             SpecEventV0 None \<Rightarrow> Some Panics
           | SpecEventV0 (Some name) \<Rightarrow> spec_loop u rd fuel r (events @ [toSnakeCase u name]) functions
           | SpecFunctionV0 None \<Rightarrow> Some Panics
           | SpecFunctionV0 (Some name) \<Rightarrow> spec_loop u rd fuel r events (functions @ [toSnakeCase u name])
           | SpecOther _ \<Rightarrow> spec_loop u rd fuel r events functions))"

definition specNames :: "unicode \<Rightarrow> spec_reader \<Rightarrow> string \<Rightarrow> (string list \<times> string list) outcome option" where
  "specNames u rd spec = spec_loop u rd (length spec + 1) spec [] []"

section \<open>Classification\<close>

definition TypeWasm :: string where "TypeWasm = ''wasm''"
definition TypeExternal :: string where "TypeExternal = ''external''"
definition MethodSpecEvents :: string where "MethodSpecEvents = ''spec_events''"
definition MethodFunctionNames :: string where "MethodFunctionNames = ''function_names''"
definition MethodSACBuiltin :: string where "MethodSACBuiltin = ''sac_builtin''"

definition sacEvents :: "string list" where
  "sacEvents = [''approve'', ''burn'', ''clawback'', ''mint'', ''set_admin'', ''set_authorized'', ''transfer'']"

datatype executable = ExecStellarAsset | ExecWasm "string option" | ExecOther int
datatype entry_value = ValInstance "executable option" | ValOther int
datatype ledger_entry = LedgerContractData "entry_value option" | LedgerContractCode "string option" | LedgerOther int
datatype ledger_key = InstanceKey string | CodeKey string

text \<open>The SDK and the RPC read; \<open>en_Get\<close> answers an error, no entry, or the entry in base64.\<close>

record chain_access =
  ky_Decode :: "string \<Rightarrow> string option"
  ky_Marshal :: "ledger_key \<Rightarrow> string option"
  en_Get :: "string \<Rightarrow> string option option"
  en_Unmarshal :: "string \<Rightarrow> ledger_entry outcome"
  sp_Unmarshal :: spec_reader
  ch_unicode :: unicode

datatype 'a attempt = Learned 'a | Refused classify_error | Panicked | Diverges

definition instanceLedgerKeyB64 :: "chain_access \<Rightarrow> string \<Rightarrow> string option" where
  "instanceLedgerKeyB64 ca contractID =
     (case ky_Decode ca contractID of
        None \<Rightarrow> None
      | Some raw \<Rightarrow> ky_Marshal ca (InstanceKey (take 32 (raw @ replicate 32 (CHR 0x00)))))"

definition codeLedgerKeyB64 :: "chain_access \<Rightarrow> string \<Rightarrow> string option" where
  "codeLedgerKeyB64 ca hash = ky_Marshal ca (CodeKey hash)"

definition HexString :: "string \<Rightarrow> string" where
  "HexString h = concat (map (\<lambda>c. [hex_char (code c div 16), hex_char (code c mod 16)]) h)"

definition opaque_wasm :: "string \<Rightarrow> Classification" where
  "opaque_wasm hash = \<lparr>kc_Type = TypeWasm, kc_WasmHash = HexString hash, kc_Events = [], kc_Method = MethodOpaque\<rparr>"

text \<open>From the decoded code entry on.\<close>

definition mine_spec :: "chain_access \<Rightarrow> string \<Rightarrow> string \<Rightarrow> Classification attempt" where
  "mine_spec ca hash wasm =
     (let cls = opaque_wasm hash in
      case contractSpecSection wasm of
        None \<Rightarrow> Learned cls
      | Some spec \<Rightarrow>
          (case specNames (ch_unicode ca) (sp_Unmarshal ca) spec of
             None \<Rightarrow> Diverges
           | Some Panics \<Rightarrow> Panicked
           | Some Fails \<Rightarrow> Learned cls
           | Some (Returns (events, functions)) \<Rightarrow>
               Learned (if events \<noteq> [] then cls\<lparr>kc_Events := events, kc_Method := MethodSpecEvents\<rparr>
                        else if functions \<noteq> [] then cls\<lparr>kc_Events := functions, kc_Method := MethodFunctionNames\<rparr>
                        else cls)))"

definition classifyWasm :: "chain_access \<Rightarrow> string \<Rightarrow> string \<Rightarrow> Classification attempt" where
  "classifyWasm ca contractID hash =
     (case codeLedgerKeyB64 ca hash of
        None \<Rightarrow> Refused (ClassifyFailed contractID)
      | Some key \<Rightarrow>
     (case en_Get ca key of
        None \<Rightarrow> Refused (ClassifyFailed contractID)
      | Some None \<Rightarrow> Learned (opaque_wasm hash)
      | Some (Some entryB64) \<Rightarrow>
     (case en_Unmarshal ca entryB64 of
        Panics \<Rightarrow> Panicked
      | Fails \<Rightarrow> Learned (opaque_wasm hash)
      | Returns (LedgerContractCode None) \<Rightarrow> Panicked
      | Returns (LedgerContractCode (Some wasm)) \<Rightarrow> mine_spec ca hash wasm
      | Returns _ \<Rightarrow> Learned (opaque_wasm hash))))"

definition classify_instance :: "chain_access \<Rightarrow> string \<Rightarrow> executable \<Rightarrow> Classification attempt" where
  "classify_instance ca contractID exec =
     (case exec of
        ExecStellarAsset \<Rightarrow>
          Learned \<lparr>kc_Type = TypeSAC, kc_WasmHash = '''', kc_Events = sacEvents, kc_Method = MethodSACBuiltin\<rparr>
      | ExecWasm None \<Rightarrow> Panicked
      | ExecWasm (Some hash) \<Rightarrow> classifyWasm ca contractID hash
      | ExecOther _ \<Rightarrow> Learned \<lparr>kc_Type = TypeExternal, kc_WasmHash = '''', kc_Events = [], kc_Method = MethodOpaque\<rparr>)"

definition classify_entry :: "chain_access \<Rightarrow> string \<Rightarrow> ledger_entry \<Rightarrow> Classification attempt" where
  "classify_entry ca contractID data =
     (case data of
        LedgerContractData None \<Rightarrow> Panicked
      | LedgerContractData (Some (ValInstance None)) \<Rightarrow> Panicked
      | LedgerContractData (Some (ValInstance (Some exec))) \<Rightarrow> classify_instance ca contractID exec
      | _ \<Rightarrow> Refused (ClassifyFailed contractID))"

definition try_classify :: "chain_access \<Rightarrow> string \<Rightarrow> Classification attempt" where
  "try_classify ca contractID =
     (case instanceLedgerKeyB64 ca contractID of
        None \<Rightarrow> Refused (ClassifyFailed contractID)
      | Some key \<Rightarrow>
     (case en_Get ca key of
        None \<Rightarrow> Refused (ClassifyFailed contractID)
      | Some None \<Rightarrow> Refused ErrContractNotFound
      | Some (Some entryB64) \<Rightarrow>
     (case en_Unmarshal ca entryB64 of
        Panics \<Rightarrow> Panicked
      | Fails \<Rightarrow> Refused (ClassifyFailed contractID)
      | Returns data \<Rightarrow> classify_entry ca contractID data)))"

text \<open>\<open>Classify\<close> behind its recover; \<open>None\<close>: it does not return.\<close>

definition Classify :: "chain_access \<Rightarrow> string \<Rightarrow> (classify_error + Classification) option" where
  "Classify ca contractID =
     (case try_classify ca contractID of
        Learned cls \<Rightarrow> Some (Inr cls)
      | Refused e \<Rightarrow> Some (Inl e)
      | Panicked \<Rightarrow> Some (Inl (ClassifyFailed contractID))
      | Diverges \<Rightarrow> None)"

section \<open>Varints\<close>

text \<open>\<open>binary.PutUvarint\<close>: seven bits to a byte, the lowest first.\<close>

fun PutUvarint :: "nat \<Rightarrow> string" where
  "PutUvarint n = (if n < 128 then [char_of n] else char_of (n mod 128 + 128) # PutUvarint (n div 128))"

declare PutUvarint.simps [simp del]

lemma low_seven: "(of_nat (n mod 128 + 128) AND 127 :: 64 word) = of_nat (n mod 128)"
proof -
  have "(n mod 128 + 128) mod 128 = n mod 128" by simp
  have "(127 :: 64 word) = mask 7" by (simp add: mask_eq_exp_minus_1)
  then have "(of_nat (n mod 128 + 128) AND 127 :: 64 word) = take_bit 7 (of_nat (n mod 128 + 128))"
    by (simp only: take_bit_eq_mask)
  also have "\<dots> = of_nat (take_bit 7 (n mod 128 + 128))" by (simp only: take_bit_of_nat)
  also have "take_bit 7 (n mod 128 + 128) = n mod 128" by (simp add: take_bit_eq_mod)
  finally show ?thesis .
qed

lemma seven_bits_and_rest: "(of_nat (n mod 128) OR push_bit 7 (of_nat (n div 128)) :: 64 word) = of_nat n"
proof -
  have "(of_nat (n mod 128) OR push_bit 7 (of_nat (n div 128)) :: 64 word) = of_nat (take_bit 7 n OR push_bit 7 (drop_bit 7 n))"
    by (simp add: of_nat_or_eq push_bit_of_nat take_bit_eq_mod drop_bit_eq_div)
  also have "take_bit 7 n OR push_bit 7 (drop_bit 7 n) = n"
  proof (rule bit_eqI)
    fix k
    show "bit (take_bit 7 n OR push_bit 7 (drop_bit 7 n)) k = bit n k"
      by (cases "k < 7") (simp_all add: bit_simps)
  qed
  finally show ?thesis .
qed

lemma uvarint_loop_PutUvarint:
  assumes "n < 2 ^ (64 - 7 * i)" and "i < 10"
  shows "uvarint_loop i x (PutUvarint n @ buf) = (x OR push_bit (7 * i) (of_nat n), int (i + length (PutUvarint n)))"
  using assms
proof (induction n arbitrary: i x rule: PutUvarint.induct)
  case (1 n)
  show ?case
  proof (cases "n < 128")
    case True
    then have "i = 9 \<Longrightarrow> n < 2" using 1(2) by simp
    then show ?thesis using True 1(3) by (auto simp: PutUvarint.simps [of n] code_char_of)
  next
    case False
    have "i < 9"
    proof (rule ccontr)
      assume "\<not> i < 9"
      then have "i = 9" using 1(3) by simp
      then have "n < 2 ^ 1" using 1(2) by simp
      then show False using False by simp
    qed
    then have "64 - 7 * i = (64 - 7 * Suc i) + 7 \<or> i = 8" by auto
    then have small: "n div 128 < 2 ^ (64 - 7 * Suc i)"
    proof
      assume "64 - 7 * i = (64 - 7 * Suc i) + 7"
      then have "n < 2 ^ (64 - 7 * Suc i) * 128" using 1(2) by (simp only: power_add) simp
      then show ?thesis by (simp add: less_mult_imp_div_less)
    next
      assume "i = 8"
      then show ?thesis using 1(2) by (simp add: less_mult_imp_div_less)
    qed
    have b: "code (char_of (n mod 128 + 128)) = n mod 128 + 128" by (simp add: code_char_of)
    have step: "x OR push_bit (7 * i) (of_nat (n mod 128)) OR push_bit (7 * Suc i) (of_nat (n div 128))
        = x OR push_bit (7 * i) (of_nat n :: 64 word)"
    proof -
      have "push_bit (7 * Suc i) (of_nat (n div 128)) = push_bit (7 * i) (push_bit 7 (of_nat (n div 128) :: 64 word))"
        by (simp add: push_bit_push_bit ac_simps)
      then show ?thesis by (simp only: or.assoc push_bit_or [symmetric] seven_bits_and_rest)
    qed
    show ?thesis
      using 1(1) [OF False small, of "x OR push_bit (7 * i) (of_nat (n mod 128))"] \<open>i < 9\<close> False
      unfolding PutUvarint.simps [of n]
      by (simp only: if_False append_Cons uvarint_loop.simps Let_def b low_seven) (use step in \<open>simp add: or.assoc\<close>)
  qed
qed

lemma Uvarint_PutUvarint: "n < 2 ^ 64 \<Longrightarrow> Uvarint (PutUvarint n @ buf) = (of_nat n, int (length (PutUvarint n)))"
  using uvarint_loop_PutUvarint [of n 0 0 buf] by (simp add: Uvarint_def)

lemma PutUvarint_nonempty: "PutUvarint n \<noteq> []"
  by (subst PutUvarint.simps) simp

lemma sized_PutUvarint:
  assumes "length payload < 2 ^ 64"
  shows "sized (PutUvarint (length payload) @ payload @ buf) = Some (payload, buf)"
proof -
  have "unat (of_nat (length payload) :: 64 word) = length payload" using assms by (simp add: unat_of_nat)
  then show ?thesis using PutUvarint_nonempty [of "length payload"]
    by (simp add: sized_def Uvarint_PutUvarint [OF assms])
qed

section \<open>Modules\<close>

datatype wasm_section = Custom string string | Section char string

definition section_body :: "wasm_section \<Rightarrow> string" where
  "section_body s = (case s of Custom name body \<Rightarrow> PutUvarint (length name) @ name @ body | Section _ body \<Rightarrow> body)"

definition section_id :: "wasm_section \<Rightarrow> char" where
  "section_id s = (case s of Custom _ _ \<Rightarrow> CHR 0x00 | Section i _ \<Rightarrow> i)"

definition section_bytes :: "wasm_section \<Rightarrow> string" where
  "section_bytes s = section_id s # PutUvarint (length (section_body s)) @ section_body s"

definition well_formed :: "wasm_section \<Rightarrow> bool" where
  "well_formed s \<longleftrightarrow> length (section_body s) < 2 ^ 64 \<and> (case s of Custom _ _ \<Rightarrow> True | Section i _ \<Rightarrow> code i \<noteq> 0)"

definition wasm_module :: "string \<Rightarrow> wasm_section list \<Rightarrow> string" where
  "wasm_module version sections = wasmMagic @ version @ concat (map section_bytes sections)"

text \<open>What the walk is meant to return: the body of the first custom section of that name.\<close>

fun first_custom :: "string \<Rightarrow> wasm_section list \<Rightarrow> string option" where
  "first_custom key [] = None"
| "first_custom key (Custom name body # ss) = (if name = key then Some body else first_custom key ss)"
| "first_custom key (Section _ _ # ss) = first_custom key ss"

lemma section_walk_sections:
  "list_all well_formed ss \<Longrightarrow> section_walk (concat (map section_bytes ss)) = first_custom ''contractspecv0'' ss"
proof (induction ss)
  case Nil
  then show ?case by (simp add: section_walk.simps)
next
  case (Cons s ss)
  then have outer: "sized (PutUvarint (length (section_body s)) @ section_body s @ concat (map section_bytes ss))
      = Some (section_body s, concat (map section_bytes ss))"
    by (intro sized_PutUvarint) (simp add: well_formed_def)
  have bytes: "concat (map section_bytes (s # ss))
      = section_id s # PutUvarint (length (section_body s)) @ section_body s @ concat (map section_bytes ss)"
    by (simp add: section_bytes_def)
  have "section_walk (section_id s # PutUvarint (length (section_body s)) @ section_body s @ concat (map section_bytes ss))
      = first_custom ''contractspecv0'' (s # ss)"
  proof (cases s)
    case (Custom name body)
    then have "length name < 2 ^ 64" using Cons.prems by (simp add: well_formed_def section_body_def)
    from sized_PutUvarint [OF this, of body] Custom
    have "sized (section_body s) = Some (name, body)" by (simp add: section_body_def)
    then show ?thesis
      using outer Cons Custom
      by (subst section_walk.simps) (simp add: section_id_def code_def)
  next
    case (Section i body)
    then show ?thesis
      using outer Cons by (subst section_walk.simps) (simp add: section_id_def well_formed_def)
  qed
  then show ?case unfolding bytes .
qed

lemma contractSpecSection_module:
  assumes "length version = 4" and "list_all well_formed ss"
  shows "contractSpecSection (wasm_module version ss) = first_custom ''contractspecv0'' ss"
  using assms section_walk_sections [OF assms(2)]
  by (simp add: contractSpecSection_def wasm_module_def wasmMagic_def numeral_eq_Suc)

text \<open>Whatever the bytes are, a result is a piece of them.\<close>

lemma sized_piece: "sized buf = Some (a, b) \<Longrightarrow> \<exists>before. buf = before @ a @ b"
proof -
  assume s: "sized buf = Some (a, b)"
  define k where "k = nat (snd (Uvarint buf))"
  from s have a: "a = take (unat (fst (Uvarint buf))) (drop k buf)" "b = drop (k + unat (fst (Uvarint buf))) buf"
    by (auto simp: sized_def k_def Let_def split: if_splits)
  have "b = drop (unat (fst (Uvarint buf))) (drop k buf)" by (simp add: a(2) add.commute)
  then have "a @ b = drop k buf" by (simp only: a(1) append_take_drop_id)
  then have "buf = take k buf @ a @ b" by simp
  then show ?thesis by blast
qed

lemma section_walk_piece: "section_walk rest = Some payload \<Longrightarrow> \<exists>before after. rest = before @ payload @ after"
proof (induction rest rule: section_walk.induct)
  case (1 rest)
  obtain i buf where r: "rest = i # buf" using 1(3) by (cases rest) (simp_all add: section_walk.simps [of "[]"])
  obtain sec more_bytes where s: "sized buf = Some (sec, more_bytes)"
    using 1(3) r by (cases "sized buf") (auto simp: section_walk.simps [of "i # buf"])
  obtain b1 where b1: "buf = b1 @ sec @ more_bytes" using sized_piece [OF s] by blast
  note walk = 1(3) [unfolded r section_walk.simps [of "i # buf"], simplified s list.case option.case prod.case]
  have deeper: "\<exists>before after. rest = before @ payload @ after" if "\<exists>before after. more_bytes = before @ payload @ after"
  proof -
    from that obtain b2 c2 where "more_bytes = b2 @ payload @ c2" by blast
    then have "rest = (i # b1 @ sec @ b2) @ payload @ c2" by (simp add: r b1)
    then show ?thesis by blast
  qed
  show ?case
  proof (cases "code i = 0")
    case False
    then show ?thesis using walk 1(1) [OF r s refl False] deeper by simp
  next
    case True
    then obtain name body where n: "sized sec = Some (name, body)" using walk by (cases "sized sec") auto
    obtain b2 where b2: "sec = b2 @ name @ body" using sized_piece [OF n] by blast
    show ?thesis
    proof (cases "name = ''contractspecv0''")
      case True
      then have "rest = (i # b1 @ b2 @ name) @ payload @ more_bytes" using walk \<open>code i = 0\<close> n by (simp add: r b1 b2)
      then show ?thesis by blast
    next
      case False
      then show ?thesis using walk True n 1(2) [OF r s refl _ n refl False] deeper by simp
    qed
  qed
qed

section \<open>Snake case\<close>

definition lower_char :: "char \<Rightarrow> char" where
  "lower_char c = (if 65 \<le> code c \<and> code c \<le> 90 then char_of (code c + 32) else c)"

definition upper_char :: "char \<Rightarrow> bool" where
  "upper_char c \<longleftrightarrow> 65 \<le> code c \<and> code c \<le> 90"

lemma code_lower_char: "code c < 128 \<Longrightarrow> code (lower_char c) < 128 \<and> \<not> upper_char (lower_char c)"
  by (auto simp: lower_char_def upper_char_def code_char_of)

lemma snake_rune_ascii:
  assumes "ascii_text s" and "i < length s"
  shows "snake_rune u (map code s) i
     = (if upper_char (s ! i) \<and> snake_underscore u (map code s) i then ''_'' else []) @ [lower_char (s ! i)]"
proof -
  have "code (s ! i) < 128" using assms by (simp add: ascii_text_def list_all_length)
  moreover have "EncodeRune 95 = ''_''"
  proof -
    have "char_of (95 :: nat) = CHR ''_''" by code_simp
    then show ?thesis by (simp add: EncodeRune_ascii)
  qed
  ultimately show ?thesis using assms(2)
    by (auto simp: snake_rune_def IsUpper_def ToLowerRune_def EncodeRune_ascii lower_char_def upper_char_def)
qed

lemma toSnakeCase_ascii:
  assumes "ascii_text s"
  shows "toSnakeCase u s = concat (map (\<lambda>i. (if upper_char (s ! i) \<and> snake_underscore u (map code s) i then ''_'' else [])
           @ [lower_char (s ! i)]) [0..<length s])"
proof -
  have "map fst (runes s) = map code s" using assms by (simp add: runes_ascii comp_def)
  then show ?thesis
    using snake_rune_ascii [OF assms]
    by (auto simp: toSnakeCase_def Let_def intro!: arg_cong [where f = concat] map_cong simp del: concat_map_singleton)
qed

lemma over_indices: "concat (map (\<lambda>i. g (s ! i)) [0..<length s]) = concat (map g s)"
proof -
  have "map (\<lambda>i. g (s ! i)) [0..<length s] = map g (map ((!) s) [0..<length s])" by simp
  then show ?thesis by (simp only: map_nth)
qed

lemma ascii_text_concat: "ascii_text (concat xs) \<longleftrightarrow> list_all ascii_text xs"
  by (induction xs) simp_all

lemma snake_case_plain:
  assumes "ascii_text s"
  shows "ascii_text (toSnakeCase u s)" "list_all (\<lambda>c. \<not> upper_char c) (toSnakeCase u s)"
proof -
  have c: "code c < 128" if "c \<in> set s" for c using assms that by (auto simp: ascii_text_def list_all_iff)
  have us: "code CHR ''_'' < 128 \<and> \<not> upper_char CHR ''_''" by (simp add: code_def upper_char_def)
  show "ascii_text (toSnakeCase u s)"
    using c us code_lower_char by (auto simp: toSnakeCase_ascii [OF assms] ascii_text_concat list_all_iff)
  show "list_all (\<lambda>c. \<not> upper_char c) (toSnakeCase u s)"
    using c us code_lower_char by (auto simp: toSnakeCase_ascii [OF assms] list_all_iff split: if_splits)
qed

lemma snake_case_fixed:
  assumes "ascii_text s" and "list_all (\<lambda>c. \<not> upper_char c) s"
  shows "toSnakeCase u s = s"
proof -
  have "toSnakeCase u s = concat (map (\<lambda>i. [s ! i]) [0..<length s])"
    unfolding toSnakeCase_ascii [OF assms(1)] using assms(2)
    by (intro arg_cong [where f = concat] map_cong) (auto simp: list_all_length lower_char_def upper_char_def)
  also have "\<dots> = s" by (simp add: over_indices [of "\<lambda>x. [x]"] concat_map_singleton map_nth)
  finally show ?thesis .
qed

lemma snake_case_letters:
  assumes "ascii_text s"
  shows "filter (\<lambda>c. c \<noteq> CHR ''_'') (toSnakeCase u s) = map lower_char (filter (\<lambda>c. c \<noteq> CHR ''_'') s)"
proof -
  let ?P = "\<lambda>c. c \<noteq> CHR ''_''"
  have keep: "?P (lower_char c) \<longleftrightarrow> ?P c" for c
  proof -
    have "code c \<le> 90 \<Longrightarrow> 65 \<le> code c \<Longrightarrow> lower_char c \<noteq> CHR ''_''"
    proof
      assume b: "code c \<le> 90" "65 \<le> code c" and "lower_char c = CHR ''_''"
      then have "code (lower_char c) = 95" by (simp add: code_def)
      with b show False by (simp add: lower_char_def code_char_of)
    qed
    moreover have "code CHR ''_'' = 95" by (simp add: code_def)
    ultimately show ?thesis by (auto simp: lower_char_def)
  qed
  have "filter ?P (toSnakeCase u s) = concat (map (\<lambda>i. filter ?P [lower_char (s ! i)]) [0..<length s])"
    by (auto simp: toSnakeCase_ascii [OF assms] filter_concat intro!: arg_cong [where f = concat])
  also have "\<dots> = concat (map (\<lambda>c. filter ?P [lower_char c]) s)"
    using over_indices [of "\<lambda>c. filter ?P [lower_char c]" s] by simp
  also have "\<dots> = map lower_char (filter ?P s)" by (induction s) (simp_all add: keep)
  finally show ?thesis .
qed

section \<open>Specs\<close>

fun event_names :: "unicode \<Rightarrow> spec_entry list \<Rightarrow> string list" where
  "event_names u [] = []"
| "event_names u (SpecEventV0 (Some n) # es) = toSnakeCase u n # event_names u es"
| "event_names u (_ # es) = event_names u es"

fun function_names :: "unicode \<Rightarrow> spec_entry list \<Rightarrow> string list" where
  "function_names u [] = []"
| "function_names u (SpecFunctionV0 (Some n) # es) = toSnakeCase u n # function_names u es"
| "function_names u (_ # es) = function_names u es"

definition named_entry :: "spec_entry \<Rightarrow> bool" where
  "named_entry e \<longleftrightarrow> e \<noteq> SpecEventV0 None \<and> e \<noteq> SpecFunctionV0 None"

text \<open>The reader decodes what the encoder wrote, whatever follows; an entry is never empty.\<close>

definition reads :: "spec_reader \<Rightarrow> (spec_entry \<Rightarrow> string) \<Rightarrow> spec_entry list \<Rightarrow> bool" where
  "reads rd enc es \<longleftrightarrow> (\<forall>e\<in>set es. enc e \<noteq> [] \<and> (\<forall>buf. rd (enc e @ buf) = Returns (e, buf)))"

text \<open>A successful read takes at least one byte (an XDR union opens with its discriminant).\<close>

definition advances :: "spec_reader \<Rightarrow> bool" where
  "advances rd \<longleftrightarrow> (\<forall>r e r'. rd r = Returns (e, r') \<longrightarrow> length r' < length r)"

lemma spec_loop_entries:
  assumes "reads rd enc es" and "list_all named_entry es" and "length (concat (map enc es)) < fuel"
  shows "spec_loop u rd fuel (concat (map enc es)) ev fn = Some (Returns (ev @ event_names u es, fn @ function_names u es))"
  using assms
proof (induction es arbitrary: fuel ev fn)
  case Nil
  then show ?case by (cases fuel) simp_all
next
  case (Cons e es)
  obtain n where n: "fuel = Suc n" using Cons.prems by (cases fuel) simp_all
  have "0 < length (enc e)" using Cons.prems(1) by (simp add: reads_def)
  moreover have "length (enc e) + length (concat (map enc es)) < Suc n" using Cons.prems n by simp
  ultimately have m: "length (concat (map enc es)) < n" by linarith
  have rd: "rd (enc e @ concat (map enc es)) = Returns (e, concat (map enc es))" "enc e \<noteq> []"
    using Cons.prems(1) by (simp_all add: reads_def)
  have "reads rd enc es" using Cons.prems(1) by (simp add: reads_def)
  note ih = Cons.IH [OF this _ m]
  have es: "list_all named_entry es" and "named_entry e" using Cons.prems by simp_all
  then show ?case using ih [OF es] rd n
    by (cases e) (auto simp: named_entry_def split: option.splits)
qed

lemma specNames_entries:
  assumes "reads rd enc es" and "list_all named_entry es"
  shows "specNames u rd (concat (map enc es)) = Some (Returns (event_names u es, function_names u es))"
  using spec_loop_entries [OF assms, of "length (concat (map enc es)) + 1" u "[]" "[]"] by (simp add: specNames_def)

lemma spec_loop_returns:
  assumes "advances rd" and "length r < fuel"
  shows "spec_loop u rd fuel r ev fn \<noteq> None"
  using assms(2)
proof (induction fuel arbitrary: r ev fn)
  case (Suc fuel)
  show ?case
  proof (cases "rd r")
    case (Returns er)
    obtain e r' where er: "er = (e, r')" by (cases er)
    have "length r' < fuel" using assms(1) Returns er Suc.prems by (fastforce simp: advances_def)
    with Suc.IH Returns er show ?thesis by (auto split: spec_entry.splits option.splits)
  qed auto
qed simp

lemma specNames_returns: "advances rd \<Longrightarrow> specNames u rd spec \<noteq> None"
  using spec_loop_returns [of rd spec "length spec + 1"] by (simp add: specNames_def)

section \<open>Classifications\<close>

definition sane :: "Classification \<Rightarrow> bool" where
  "sane c \<longleftrightarrow>
     kc_Type c \<in> {TypeWasm, TypeSAC, TypeExternal}
     \<and> (kc_Type c = TypeSAC \<longleftrightarrow> kc_Method c = MethodSACBuiltin)
     \<and> (kc_Type c \<noteq> TypeWasm \<longrightarrow> kc_WasmHash c = '''')
     \<and> kc_Method c \<in> {MethodSpecEvents, MethodFunctionNames, MethodSACBuiltin, MethodOpaque}
     \<and> (kc_Method c = MethodOpaque \<longleftrightarrow> kc_Events c = [])"

lemmas method_defs = MethodSpecEvents_def MethodFunctionNames_def MethodSACBuiltin_def MethodOpaque_def
  TypeWasm_def TypeSAC_def TypeExternal_def

lemma sane_opaque [simp]: "sane (opaque_wasm hash)"
  by (simp add: sane_def opaque_wasm_def method_defs)

lemma sane_named:
  "events \<noteq> [] \<Longrightarrow> sane ((opaque_wasm hash)\<lparr>kc_Events := events, kc_Method := MethodSpecEvents\<rparr>)"
  "functions \<noteq> [] \<Longrightarrow> sane ((opaque_wasm hash)\<lparr>kc_Events := functions, kc_Method := MethodFunctionNames\<rparr>)"
  by (simp_all add: sane_def opaque_wasm_def method_defs)

lemma sane_builtin:
  "sane \<lparr>kc_Type = TypeSAC, kc_WasmHash = '''', kc_Events = sacEvents, kc_Method = MethodSACBuiltin\<rparr>"
  "sane \<lparr>kc_Type = TypeExternal, kc_WasmHash = '''', kc_Events = [], kc_Method = MethodOpaque\<rparr>"
  by (simp_all add: sane_def sacEvents_def method_defs)

fun attempt_ok :: "Classification attempt \<Rightarrow> bool" where
  "attempt_ok (Learned cls) = sane cls"
| "attempt_ok (Refused e) = (e \<noteq> ErrContractNotFound)"
| "attempt_ok Panicked = True"
| "attempt_ok Diverges = False"

lemma mine_spec_ok: "advances (sp_Unmarshal ca) \<Longrightarrow> attempt_ok (mine_spec ca hash wasm)"
  using specNames_returns [of "sp_Unmarshal ca" "ch_unicode ca" "the (contractSpecSection wasm)"]
  by (auto simp: mine_spec_def Let_def sane_named split: option.splits outcome.splits)

lemma classify_instance_ok: "advances (sp_Unmarshal ca) \<Longrightarrow> attempt_ok (classify_instance ca cid exec)"
  by (auto simp: classify_instance_def classifyWasm_def mine_spec_ok sane_builtin
      split: executable.splits option.splits outcome.splits ledger_entry.splits)

lemma classify_entry_ok: "advances (sp_Unmarshal ca) \<Longrightarrow> attempt_ok (classify_entry ca cid data)"
  by (auto simp: classify_entry_def classify_instance_ok split: ledger_entry.splits option.splits entry_value.splits)

text \<open>The chain has no instance entry under the contract's key.\<close>

definition absent :: "chain_access \<Rightarrow> string \<Rightarrow> bool" where
  "absent ca contractID \<longleftrightarrow>
     (case instanceLedgerKeyB64 ca contractID of None \<Rightarrow> False | Some key \<Rightarrow> en_Get ca key = Some None)"

text \<open>The chain serves the contract as a wasm contract with that code.\<close>

definition serves_wasm :: "chain_access \<Rightarrow> string \<Rightarrow> string \<Rightarrow> string \<Rightarrow> bool" where
  "serves_wasm ca contractID hash wasm \<longleftrightarrow>
     (\<exists>k x. instanceLedgerKeyB64 ca contractID = Some k \<and> en_Get ca k = Some (Some x)
        \<and> en_Unmarshal ca x = Returns (LedgerContractData (Some (ValInstance (Some (ExecWasm (Some hash)))))))
     \<and> (\<exists>k x. codeLedgerKeyB64 ca hash = Some k \<and> en_Get ca k = Some (Some x)
        \<and> en_Unmarshal ca x = Returns (LedgerContractCode (Some wasm)))"

lemma Classify_serves_wasm:
  assumes "serves_wasm ca cid hash wasm"
  shows "try_classify ca cid = mine_spec ca hash wasm"
proof -
  from assms obtain k x k' x' where
    "instanceLedgerKeyB64 ca cid = Some k" "en_Get ca k = Some (Some x)"
    "en_Unmarshal ca x = Returns (LedgerContractData (Some (ValInstance (Some (ExecWasm (Some hash))))))"
    "codeLedgerKeyB64 ca hash = Some k'" "en_Get ca k' = Some (Some x')"
    "en_Unmarshal ca x' = Returns (LedgerContractCode (Some wasm))"
    unfolding serves_wasm_def by blast
  then show ?thesis by (simp add: try_classify_def classify_entry_def classify_instance_def classifyWasm_def)
qed

lemma try_classify_cases:
  assumes "advances (sp_Unmarshal ca)"
  shows "try_classify ca cid = Refused ErrContractNotFound \<or> attempt_ok (try_classify ca cid)"
    and "try_classify ca cid = Refused ErrContractNotFound \<longleftrightarrow> absent ca cid"
proof -
  have e: "attempt_ok (classify_entry ca cid data)" for data by (rule classify_entry_ok [OF assms])
  then have "classify_entry ca cid data \<noteq> Refused ErrContractNotFound" for data
    by (metis attempt_ok.simps(2))
  with e show "try_classify ca cid = Refused ErrContractNotFound \<or> attempt_ok (try_classify ca cid)"
    and "try_classify ca cid = Refused ErrContractNotFound \<longleftrightarrow> absent ca cid"
    by (auto simp: try_classify_def absent_def split: option.splits outcome.splits)
qed

section \<open>An access to a chain\<close>

text \<open>Entries written as a tag, a name and a full stop.\<close>

definition demo_enc :: "spec_entry \<Rightarrow> string" where
  "demo_enc e = (case e of SpecEventV0 (Some n) \<Rightarrow> CHR ''1'' # n @ ''.'' | SpecFunctionV0 (Some n) \<Rightarrow> CHR ''0'' # n @ ''.'' | _ \<Rightarrow> ''.'')"

definition demo_entries :: "spec_entry list" where
  "demo_entries = [SpecEventV0 (Some ''NFTMinted''), SpecFunctionV0 (Some ''init''), SpecEventV0 (Some ''BurnV2'')]"

definition demo_read :: spec_reader where
  "demo_read r =
     (case CutByte CHR ''.'' r of
        None \<Rightarrow> Fails
      | Some (c # n, rest) \<Rightarrow> Returns (if c = CHR ''1'' then SpecEventV0 (Some n) else SpecFunctionV0 (Some n), rest)
      | Some ([], rest) \<Rightarrow> Returns (SpecOther 0, rest))"

definition demo_sections :: "wasm_section list" where
  "demo_sections = [Section CHR 0x01 ''types'', Custom ''name'' ''x'', Custom ''contractspecv0'' (concat (map demo_enc demo_entries))]"

definition demo_wasm :: string where
  "demo_wasm = wasm_module [CHR 0x01, CHR 0x00, CHR 0x00, CHR 0x00] demo_sections"

definition demo_access :: chain_access where
  "demo_access =
     \<lparr>ky_Decode = (\<lambda>s. if s = ''C1'' then Some ''one'' else if s = ''C2'' then Some ''two'' else None),
      ky_Marshal = (\<lambda>k. Some (case k of InstanceKey c \<Rightarrow> take 3 c | CodeKey h \<Rightarrow> h)),
      en_Get = (\<lambda>k. Some (if k = ''one'' \<or> k = [CHR 0xAB] then Some k else None)),
      en_Unmarshal = (\<lambda>x. Returns (if x = ''one'' then LedgerContractData (Some (ValInstance (Some (ExecWasm (Some [CHR 0xAB])))))
        else LedgerContractCode (Some demo_wasm))),
      sp_Unmarshal = demo_read,
      ch_unicode = \<lparr>un_upper = (\<lambda>_. False), un_lower = (\<lambda>_. False), un_digit = (\<lambda>_. False), un_toLower = (\<lambda>r. r)\<rparr>\<rparr>"

lemma demo_advances: "advances (sp_Unmarshal demo_access)"
  by (auto simp: advances_def demo_access_def demo_read_def CutByte_parts split: option.splits list.splits)

section \<open>Properties\<close>

text \<open>C37: Classification always answers. It answers \<open>ErrContractNotFound\<close> exactly when the chain has no
  instance entry under the contract's key, and otherwise, panics of the codec included, another error or
  a classification whose fields agree: a type of the three, a method of the four, the built-in events
  exactly for the asset contract, a code hash only for wasm, and the method is opaque exactly when no
  event name is known.\<close>

theorem classification_answers:
  assumes "advances (sp_Unmarshal ca)"
  shows "case Classify ca cid of
      None \<Rightarrow> False
    | Some (Inl ErrContractNotFound) \<Rightarrow> absent ca cid
    | Some (Inl (ClassifyFailed _)) \<Rightarrow> \<not> absent ca cid
    | Some (Inr cls) \<Rightarrow> sane cls \<and> \<not> absent ca cid"
proof (cases "try_classify ca cid")
  case (Refused e)
  then show ?thesis using try_classify_cases [OF assms, of cid] by (cases e) (auto simp: Classify_def)
qed (use try_classify_cases [OF assms, of cid] in \<open>auto simp: Classify_def\<close>)

text \<open>C36: A wasm contract is classified by what its code declares. If the code is a module in which
  every section carries its length, and the first custom section named \<open>contractspecv0\<close> holds the
  encoding of a list of spec entries, the classification names exactly the declared events, in order
  and in snake case, or, when none is declared, the exported functions, or else it is opaque; sections
  before and after do not matter.\<close>

theorem classification_reads_declared_spec:
  assumes "serves_wasm ca cid hash (wasm_module version ss)" and "length version = 4" and "list_all well_formed ss"
    and "first_custom ''contractspecv0'' ss = Some (concat (map enc es))"
    and "reads (sp_Unmarshal ca) enc es" and "list_all named_entry es"
  shows "Classify ca cid = Some (Inr
    (let events = event_names (ch_unicode ca) es; functions = function_names (ch_unicode ca) es in
     \<lparr>kc_Type = TypeWasm, kc_WasmHash = HexString hash,
      kc_Events = (if events \<noteq> [] then events else functions),
      kc_Method = (if events \<noteq> [] then MethodSpecEvents else if functions \<noteq> [] then MethodFunctionNames else MethodOpaque)\<rparr>))"
  using assms(4)
  by (simp add: Classify_def Classify_serves_wasm [OF assms(1)] mine_spec_def contractSpecSection_module [OF assms(2,3)]
      specNames_entries [OF assms(5,6)] opaque_wasm_def Let_def)

lemma demo_serves: "serves_wasm demo_access ''C1'' [CHR 0xAB] (wasm_module [CHR 0x01, CHR 0x00, CHR 0x00, CHR 0x00] demo_sections)"
  by (simp add: serves_wasm_def instanceLedgerKeyB64_def codeLedgerKeyB64_def demo_access_def demo_wasm_def)

lemma demo_sections_ok:
  "list_all well_formed demo_sections" "first_custom ''contractspecv0'' demo_sections = Some (concat (map demo_enc demo_entries))"
  "list_all named_entry demo_entries"
  by (simp_all add: demo_sections_def well_formed_def section_body_def PutUvarint.simps demo_entries_def demo_enc_def named_entry_def code_def)

lemma demo_reads: "reads (sp_Unmarshal demo_access) demo_enc demo_entries"
  by (simp add: reads_def demo_access_def demo_read_def demo_enc_def demo_entries_def)

lemma char_of_eq: "n < 256 \<Longrightarrow> char_of n = c \<longleftrightarrow> code c = n"
  using code_char_of [of n] by (metis char_of_code)

lemma demo_name_runs:
  "toSnakeCase u ''NFTMinted'' = ''nft_minted''" "toSnakeCase u ''BurnV2'' = ''burn_v2''" "toSnakeCase u ''init'' = ''init''"
  by (simp_all add: toSnakeCase_ascii code_def upt_rec [of _ "Suc _"] upt_conv_Cons upper_char_def lower_char_def snake_underscore_def IsLower_def IsDigit_def char_of_eq)

lemma demo_names:
  "event_names u demo_entries = [''nft_minted'', ''burn_v2'']" "function_names u demo_entries = [''init'']"
  by (simp_all add: demo_entries_def demo_name_runs)

theorem classification_reads_declared_spec_witness:
  "Classify demo_access ''C1'' = Some (Inr
     \<lparr>kc_Type = TypeWasm, kc_WasmHash = ''ab'', kc_Events = [''nft_minted'', ''burn_v2''], kc_Method = MethodSpecEvents\<rparr>)"
proof -
  have "HexString [CHR 0xAB] = ''ab''" by (simp add: HexString_def hex_char_def char_of_eq code_def)
  then show ?thesis
    using classification_reads_declared_spec [OF demo_serves _ demo_sections_ok(1,2) demo_reads demo_sections_ok(3)]
    by (simp add: demo_names)
qed

theorem classification_answers_witness:
  "case Classify demo_access ''C1'' of None \<Rightarrow> False | Some (Inl _) \<Rightarrow> True | Some (Inr cls) \<Rightarrow> sane cls"
  using classification_answers [OF demo_advances, of "''C1''"]
  by (auto split: option.splits sum.splits)

text \<open>The names are normalised: for an ASCII name the result is ASCII without capitals, keeps the
  letters and digits in order and only adds underscores, and normalising it again changes nothing.\<close>

theorem snake_case_normalises:
  assumes "ascii_text s"
  shows "list_all (\<lambda>c. \<not> upper_char c) (toSnakeCase u s)
    \<and> filter (\<lambda>c. c \<noteq> CHR ''_'') (toSnakeCase u s) = map lower_char (filter (\<lambda>c. c \<noteq> CHR ''_'') s)
    \<and> toSnakeCase u (toSnakeCase u s) = toSnakeCase u s"
  using snake_case_plain [OF assms] snake_case_letters [OF assms] by (simp add: snake_case_fixed)

theorem snake_case_normalises_witness:
  "toSnakeCase (ch_unicode demo_access) (toSnakeCase (ch_unicode demo_access) ''NFTMinted'') = ''nft_minted''"
proof -
  have "ascii_text ''NFTMinted''" by (simp add: code_def)
  from snake_case_normalises [OF this, of "ch_unicode demo_access"]
  have "toSnakeCase (ch_unicode demo_access) (toSnakeCase (ch_unicode demo_access) ''NFTMinted'')
      = toSnakeCase (ch_unicode demo_access) ''NFTMinted''" by blast
  then show ?thesis by (simp only: demo_name_runs)
qed

end
