(* ===== verification/Registration.thy ===== *)
theory Registration
  imports Registry_Classify
begin

text \<open>
  Registration over the real classifier: \<^verbatim>\<open>cmd/sierpe/main.go\<close> hands the admin server
  \<open>registry.NewClassifier\<close>, so the classification argument of the admin model is the model of
  \<open>Classify\<close>.
\<close>

definition chain_of :: "chain_access \<Rightarrow> (string \<Rightarrow> bool) \<Rightarrow> chain" where
  "chain_of ca addr =
     \<lparr>is_address = addr,
      classify = (\<lambda>cid. case Classify ca cid of Some r \<Rightarrow> r | None \<Rightarrow> Inl (ClassifyFailed cid))\<rparr>"

definition empty_request :: registerRequest where
  "empty_request = \<lparr>rq_ContractID = '''', rq_Kinds = [], rq_From = None\<rparr>"

text \<open>A request that reaches the chain: it decodes, names an address and a target, and asks for
  supported kinds only.\<close>

definition well_posed :: "(string \<Rightarrow> bool) \<Rightarrow> string \<Rightarrow> registerRequest \<Rightarrow> u32 \<Rightarrow> bool" where
  "well_posed addr body req target \<longleftrightarrow>
     decode_body maxBodyBytes_admin set_registerRequest empty_request body = Inr req
     \<and> addr (rq_ContractID req) \<and> asked_from (rq_From req) target \<and> set (rq_Kinds req) \<subseteq> set supportedKinds"

lemma plan_registration_posed:
  assumes "well_posed (is_address env) body req target"
  shows "plan_registration env body =
    (let cid = rq_ContractID req in
     case classify env cid of
       Inl ErrContractNotFound \<Rightarrow>
         (if rq_Kinds req = [] then Inl (NoLiveContract cid)
          else Inr (cid, target, rq_Kinds req,
            \<lparr>kc_Type = TypeUnknown, kc_WasmHash = '''', kc_Events = [], kc_Method = MethodOpaque\<rparr>, [NoLiveInstance cid]))
     | Inl (ClassifyFailed _) \<Rightarrow> Inl ChainUnreachable
     | Inr cls \<Rightarrow> Inr (cid, target,
         if rq_Kinds req \<noteq> [] then rq_Kinds req
         else [KindEvents, KindState] @ (if kc_Type cls = TypeSAC then [KindTransfers] else []), cls, []))"
proof -
  have none: "find (\<lambda>k. k \<notin> set supportedKinds) (rq_Kinds req) = None"
    using assms by (auto simp: well_posed_def find_None_iff)
  have body: "decode_body maxBodyBytes_admin set_registerRequest \<lparr>rq_ContractID = '''', rq_Kinds = [], rq_From = None\<rparr> body = Inr req"
    using assms by (simp add: well_posed_def empty_request_def)
  show ?thesis
    using assms unfolding plan_registration_def body well_posed_def parseFrom_asked [symmetric]
    by (auto simp: andThen_def none Let_def split: sum.splits classify_error.splits)
qed

text \<open>C35: Registration takes what the chain says and refuses only what it must. For a well-posed request,
  when the chain has an instance of the contract that can be read, an unreadable spec included, the
  registration goes ahead with exactly its classification (consistent in its fields), without a warning,
  down to the ledger the request asks for, and with the kinds asked for or else events, state and, for an
  asset contract only, transfers. When the chain has no instance, the request is refused as having no live
  contract if it names no kinds, and otherwise goes ahead with them, unclassified and with the warning.
  Only when the instance cannot be read is the chain reported as unreachable.\<close>

theorem registration_follows_the_chain:
  assumes "advances (sp_Unmarshal ca)" and "well_posed addr body req target"
  shows "let cid = rq_ContractID req; plan = plan_registration (chain_of ca addr) body in
    case Classify ca cid of
      Some (Inr cls) \<Rightarrow> \<not> absent ca cid \<and> sane cls
        \<and> plan = Inr (cid, target,
            if rq_Kinds req \<noteq> [] then rq_Kinds req
            else if kc_Type cls = TypeSAC then [KindEvents, KindState, KindTransfers] else [KindEvents, KindState], cls, [])
    | Some (Inl ErrContractNotFound) \<Rightarrow> absent ca cid
        \<and> plan = (if rq_Kinds req = [] then Inl (NoLiveContract cid)
            else Inr (cid, target, rq_Kinds req,
              \<lparr>kc_Type = TypeUnknown, kc_WasmHash = '''', kc_Events = [], kc_Method = MethodOpaque\<rparr>, [NoLiveInstance cid]))
    | Some (Inl (ClassifyFailed _)) \<Rightarrow> \<not> absent ca cid \<and> plan = Inl ChainUnreachable
    | None \<Rightarrow> False"
proof -
  let ?cid = "rq_ContractID req"
  have posed: "well_posed (is_address (chain_of ca addr)) body req target" using assms(2) by (simp add: chain_of_def)
  note plan = plan_registration_posed [OF posed, unfolded Let_def]
  show ?thesis
  proof (cases "try_classify ca ?cid")
    case (Learned cls)
    then show ?thesis unfolding plan Let_def
      using try_classify_cases [OF assms(1), of ?cid] by (auto simp: chain_of_def Classify_def)
  next
    case (Refused e)
    then show ?thesis unfolding plan Let_def
      using try_classify_cases [OF assms(1), of ?cid] by (cases e) (auto simp: chain_of_def Classify_def)
  next
    case Panicked
    then show ?thesis unfolding plan Let_def
      using try_classify_cases [OF assms(1), of ?cid] by (auto simp: chain_of_def Classify_def)
  next
    case Diverges
    then show ?thesis using try_classify_cases [OF assms(1), of ?cid] by simp
  qed
qed

definition demo_request :: string where
  "demo_request = json_text (JObject [(''contract_id'', JString ''C1''), (''from'', JNumber ''5'')])"

lemma demo_request_posed:
  "well_posed (\<lambda>_. True) demo_request \<lparr>rq_ContractID = ''C1'', rq_Kinds = [], rq_From = Some (JNumber ''5'')\<rparr> 5"
proof -
  let ?j = "JObject [(''contract_id'', JString ''C1''), (''from'', JNumber ''5'')]"
  have "plain ?j" "length (json_text ?j) \<le> maxBodyBytes_admin"
    by (simp_all add: ascii_def code_def number_ok_def digits_def is_digit_def number_char_def quote_def escape_def maxBodyBytes_admin_def)
  from decode_body_text [OF this, of set_registerRequest empty_request]
  have "decode_body maxBodyBytes_admin set_registerRequest empty_request demo_request
    = Inr \<lparr>rq_ContractID = ''C1'', rq_Kinds = [], rq_From = Some (JNumber ''5'')\<rparr>"
    unfolding demo_request_def
    by (simp add: strict_object_def set_registerRequest_def ToLower_def as_string_def empty_request_def del: json_text.simps)
  moreover have "parseFrom (Some (JNumber ''5'')) = Inr 5"
    by (simp add: parseFrom_def ParseUint_def digits_def is_digit_def code_def undec_def digit_val_def)
  ultimately show ?thesis by (simp add: well_posed_def parseFrom_asked)
qed

lemma demo_learned: "\<exists>cls. Classify demo_access ''C1'' = Some (Inr cls) \<and> kc_Type cls = TypeWasm"
proof -
  have "contractSpecSection (wasm_module [CHR 0x01, CHR 0x00, CHR 0x00, CHR 0x00] demo_sections)
    = first_custom ''contractspecv0'' demo_sections"
    by (rule contractSpecSection_module [OF _ demo_sections_ok(1)]) simp
  then show ?thesis
    by (simp add: Classify_def Classify_serves_wasm [OF demo_serves] mine_spec_def demo_sections_ok(2)
        specNames_entries [OF demo_reads demo_sections_ok(3)] opaque_wasm_def Let_def)
qed

theorem registration_follows_the_chain_witness:
  "\<exists>cls. Classify demo_access ''C1'' = Some (Inr cls)
    \<and> plan_registration (chain_of demo_access (\<lambda>_. True)) demo_request = Inr (''C1'', 5, [KindEvents, KindState], cls, [])"
proof -
  obtain cls where cls: "Classify demo_access ''C1'' = Some (Inr cls)" "kc_Type cls = TypeWasm" using demo_learned by blast
  then show ?thesis
    using registration_follows_the_chain [OF demo_advances demo_request_posed] by (simp add: Let_def TypeWasm_def TypeSAC_def)
qed

end
