(* ===== verification/Store_Runs.thy ===== *)
theory Store_Runs
  imports Store_Heal Store_Backfill Store_Ledger
begin

text \<open>
  Runs of the store. Every transaction the process issues against its network is a step from a
  database to a database; the live loop, the backfill worker, the healer and the admin API interleave
  them freely, and no transaction has a condition on the state it meets. A step carries two sets of
  ledgers: those a heal commit replayed, and those that stop being owed without having been replayed.
  The second is empty but for two transactions, which the code does not guard: a plan drops the pieces
  that have the range of a resolved gap (\<open>split_onto_resolved_gap_loses_ledgers\<close>), and a heal that read its
  gap before a rewind discharges the rewound ledgers above what it replayed (\<open>stale_heal_undoes_rewind\<close>).
\<close>

section \<open>Steps\<close>

text \<open>What a healer worker commits: it read the row \<open>g\<close> at some time, replayed the ledgers from its
  watermark down to \<open>newNextTo + 1\<close>, and resolves the gap when that reaches its floor.\<close>

definition heals_reading :: "string \<Rightarrow> gap_row \<Rightarrow> u32 \<Rightarrow> bool \<Rightarrow> bool" where
  "heals_reading n g newNextTo resolved \<longleftrightarrow> wf_gap g \<and> gr_network g = n
     \<and> gr_from g - 1 \<le> uint newNextTo \<and> uint newNextTo < heal_top g \<and> (resolved \<longleftrightarrow> uint newNextTo < gr_from g)"

text \<open>What is owed of the gap above the watermark that was read.\<close>

definition rewound_since :: "string \<Rightarrow> gap_row \<Rightarrow> db \<Rightarrow> int set" where
  "rewound_since n g d = owed n (t_gaps d) \<inter> {heal_top g + 1..gr_to g}"

inductive store_step :: "string \<Rightarrow> db \<Rightarrow> int set \<Rightarrow> int set \<Rightarrow> db \<Rightarrow> bool" for n where
  record_gap: "RecordGap n from to reason now d = Inr d' \<Longrightarrow> store_step n d {} {} d'"
| plan: "\<forall>iv\<in>set replay. iv_From iv \<le> iv_To iv \<Longrightarrow> PlanHeal n replay padding now d = Inr (res, d') \<Longrightarrow>
     store_step n d {} (dropped n (normalizePlan replay padding) (t_gaps d)) d'"
| reopen: "ReopenGaps n lo hi d = (k, d') \<Longrightarrow> store_step n d {} {} d'"
| heal: "heals_reading n g w resolved \<Longrightarrow> CommitHealChunk n (scanGap g) w resolved rows now d = Inr d' \<Longrightarrow>
     store_step n d {uint w + 1..heal_top g} (rewound_since n g d) d'"
| ensure: "EnsureBackfill n c target next kinds now d = d' \<Longrightarrow> store_step n d {} {} d'"
| walk: "CommitBackfillChunk n b rows now d = Inr d' \<Longrightarrow> store_step n d {} {} d'"
| live: "CommitLedger n lr rows d = Inr d' \<Longrightarrow> store_step n d {} {} d'"
| upsert: "UpsertContract c now d = (saved, d') \<Longrightarrow> store_step n d {} {} d'"
| delete: "DeleteContract n cid d = (existed, d') \<Longrightarrow> store_step n d {} {} d'"

text \<open>A run collects what its steps replay and what they lose.\<close>

inductive store_run :: "string \<Rightarrow> db \<Rightarrow> int set \<Rightarrow> int set \<Rightarrow> db \<Rightarrow> bool" for n where
  start: "store_run n d {} {} d"
| further: "store_run n d H L d' \<Longrightarrow> store_step n d' H' L' d'' \<Longrightarrow> store_run n d (H \<union> H') (L \<union> L') d''"

inductive_cases store_runE: "store_run n d H L d'"

section \<open>When nothing is lost\<close>

text \<open>A plan posted while every resolved gap reaches outside what is owed loses nothing, and neither does
  a heal whose gap was not rewound since it was read.\<close>

lemma plan_loses_nothing:
  assumes "wf_gaps (t_gaps d)" and "resolved_apart n (t_gaps d)" and "\<forall>iv\<in>set replay. iv_From iv \<le> iv_To iv"
  shows "dropped n (normalizePlan replay padding) (t_gaps d) = {}"
  using dropped_apart [OF assms(1,2)] normalizePlan_correct [OF assms(3), of padding] by blast

lemma heal_loses_nothing:
  assumes "wf_gaps (t_gaps d)" and "open_disjoint n (t_gaps d)" and r: "r \<in> set (t_gaps d)" "open_gap n r"
    and "gr_from g = gr_from r" "gr_to g = gr_to r" and "heal_top r \<le> heal_top g" and g: "wf_gap g"
  shows "rewound_since n g d = {}"
proof -
  have "x \<notin> owes n q" if q: "q \<in> set (t_gaps d)" and x: "heal_top g + 1 \<le> x" "x \<le> gr_to g" for q x
  proof
    assume "x \<in> owes n q"
    show False
    proof (cases "q = r")
      case True
      then show False using \<open>x \<in> owes n q\<close> x(1) assms(7) by (auto simp: owes_def split: if_splits)
    next
      case False
      then have "gr_id q \<noteq> gr_id r" using assms(1) q r distinct_map_filter_unique unfolding wf_gaps_def by metis
      then have "declares n q \<inter> declares n r = {}" using assms(2) q r unfolding open_disjoint_def by blast
      moreover have "x \<in> declares n q" using \<open>x \<in> owes n q\<close> owes_subset_declares [of q n] assms(1) q by (auto simp: wf_gaps_def)
      moreover have "x \<in> declares n r" using x r(2) assms(5,6) g by (auto simp: declares_def wf_gap_def)
      ultimately show False by blast
    qed
  qed
  then show ?thesis by (auto simp: rewound_since_def owed_def)
qed

section \<open>The books of one step\<close>

definition books_kept :: "string \<Rightarrow> db \<Rightarrow> int set \<Rightarrow> db \<Rightarrow> bool" where
  "books_kept n d X d' \<longleftrightarrow>
     wf_gaps (t_gaps d') \<and> open_disjoint n (t_gaps d') \<and> owed n (t_gaps d) - X \<subseteq> owed n (t_gaps d')"

lemma books_kept_same_gaps:
  "t_gaps d' = t_gaps d \<Longrightarrow> wf_gaps (t_gaps d) \<Longrightarrow> open_disjoint n (t_gaps d) \<Longrightarrow> books_kept n d {} d'"
  by (simp add: books_kept_def)

lemma books_kept_trans:
  "books_kept n d X d' \<Longrightarrow> books_kept n d' Y d'' \<Longrightarrow> books_kept n d (X \<union> Y) d''"
  by (auto simp: books_kept_def)

text \<open>Of the gap it is handed, a heal commit uses the identity and the range only, so whatever the watermark
  it read, it writes on the row that is there.\<close>

lemma CommitHealChunk_cong:
  assumes "g_ID g = g_ID h" and "g_From g = g_From h" and "g_To g = g_To h"
  shows "CommitHealChunk n g w resolved rows now d = CommitHealChunk n h w resolved rows now d"
proof -
  have here: "clamped_here n g = clamped_here n h" by (simp add: clamped_here_def fun_eq_iff assms)
  have "heal_hit n g = heal_hit n h" "lower_frontier n g = lower_frontier n h" "clear_reached n g = clear_reached n h"
    "hand_over n g = hand_over n h" "close_healed n g = close_healed n h"
    by (simp_all add: heal_hit_def lower_frontier_def clear_reached_def hand_over_def close_healed_def fun_eq_iff here assms
        split: option.split)
  then show ?thesis unfolding CommitHealChunk_def assms(1) by (simp only:)
qed

lemma heal_keeps_books:
  assumes wf: "wf_gaps (t_gaps d)" and disj: "open_disjoint n (t_gaps d)" and reading: "heals_reading n g w resolved"
    and commit: "CommitHealChunk n (scanGap g) w resolved rows now d = Inr d'"
  shows "books_kept n d ({uint w + 1..heal_top g} \<union> rewound_since n g d) d'"
proof -
  have g: "wf_gap g" "gr_network g = n" using reading by (simp_all add: heals_reading_def)
  obtain d1 where d1: "persist_rows n rows d = Inr d1" using commit by (auto simp: CommitHealChunk_def andThen_Inr)
  have "sql_count (heal_hit n (scanGap g)) (t_gaps d) \<noteq> 0"
    using commit d1 persist_rows_other [OF d1] by (auto simp: CommitHealChunk_def Let_def split: if_splits)
  then obtain r where r: "r \<in> set (t_gaps d)" "open_gap n r" "gr_id r = gr_id g"
    by (auto simp: sql_count_zero heal_hit_def scanGap_def open_gap_def)
  have wfr: "wf_gap r" using wf r by (simp add: wf_gaps_def)
  have range: "gr_from r = gr_from g" "gr_to r = gr_to g" using wf_gap_id_eq [OF wfr g(1)] r(3) by auto
  have same: "CommitHealChunk n (scanGap r) w resolved rows now d = Inr d'"
    using commit CommitHealChunk_cong [of "scanGap r" "scanGap g"] range r(3) by (simp add: scanGap_def)
  have "heal_write_of n r w resolved d"
    using reading g(1) r range by (auto simp: heals_reading_def heal_write_of_def wf_gap_def)
  note G = heal_writes_gaps [OF wf disj this, where now = now]
  have gaps: "t_gaps d' = sql_update (heal_hit n (scanGap r)) (healed_row w resolved now) (t_gaps d)"
    using CommitHealChunk_hit [OF wf \<open>heal_write_of n r w resolved d\<close> d1, of now] same by auto
  have "owes n r \<subseteq> {gr_from r..gr_to r}" "owes n r \<subseteq> owed n (t_gaps d)"
    using r wfr by (auto simp: owes_def owed_def wf_gap_def)
  then have "owed n (t_gaps d) - ({uint w + 1..heal_top g} \<union> rewound_since n g d) \<subseteq> owed n (t_gaps d')"
    unfolding gaps G(3) rewound_since_def range [symmetric] by fastforce
  then show ?thesis using G(1,2) gaps by (simp add: books_kept_def)
qed

lemma EnsureBackfill_gaps:
  "t_gaps (EnsureBackfill n c target next kinds now d)
     \<in> {t_gaps d, t_gaps (snd (ReopenGaps n target next d))}"
  by (auto simp: EnsureBackfill_def reopenDeferrals_def Let_def split: option.splits)

lemma books_kept_reopen:
  assumes "wf_gaps (t_gaps d)" and "open_disjoint n (t_gaps d)"
    and "t_gaps d' = t_gaps (snd (ReopenGaps n lo hi d))"
  shows "books_kept n d {} d'"
  using ReopenGaps_wf [OF assms(1,2), where lo = lo and hi = hi] assms(3) by (simp add: books_kept_def)

lemma step_keeps_books:
  assumes "store_step n d H L d'" and wf: "wf_gaps (t_gaps d)" and disj: "open_disjoint n (t_gaps d)"
  shows "books_kept n d (H \<union> L) d'"
  using assms(1)
proof cases
  case (record_gap lo hi reason now)
  moreover from this have "lo \<le> hi" by (simp add: RecordGap_def not_less split: if_splits)
  ultimately show ?thesis using RecordGap_correct [OF wf disj, of lo hi reason now] by (auto simp: books_kept_def)
next
  case (plan replay padding now res)
  with PlanHeal_exact [OF wf disj plan(3), of padding now]
  show ?thesis by (auto simp: books_kept_def owed_by_mode [of n "t_gaps d'"])
next
  case (reopen lo hi k)
  with books_kept_reopen [OF wf disj, of d' lo hi] show ?thesis by simp
next
  case (heal g w resolved rows now)
  with heal_keeps_books [OF wf disj heal(3,4)] show ?thesis by simp
next
  case (ensure c target nx kinds now)
  with EnsureBackfill_gaps [of n c target nx kinds now d] books_kept_reopen [OF wf disj, of d' target nx]
    books_kept_same_gaps [OF _ wf disj] show ?thesis by auto
next
  case (walk b rows now)
  then obtain d1 where p: "persist_rows n rows d = Inr d1" by (auto simp: CommitBackfillChunk_def andThen_Inr)
  then show ?thesis
    using walk persist_rows_other [OF p] books_kept_same_gaps [OF _ wf disj]
    by (auto simp: CommitBackfillChunk_def split: if_splits)
next
  case (live lr rows)
  then obtain d1 where p: "persist_rows n rows d = Inr d1" by (auto simp: CommitLedger_def andThen_Inr)
  then show ?thesis
    using live persist_rows_other [OF p] books_kept_same_gaps [OF _ wf disj] by (auto simp: CommitLedger_def)
next
  case (upsert c now saved)
  then have "t_gaps d' = t_gaps d" by (auto simp: UpsertContract_def Let_def split: option.splits)
  with upsert books_kept_same_gaps [OF _ wf disj] show ?thesis by simp
next
  case (delete cid existed)
  then have "t_gaps d' = t_gaps d" by (auto simp: DeleteContract_def)
  with delete books_kept_same_gaps [OF _ wf disj] show ?thesis by simp
qed

lemma run_keeps_books:
  "store_run n d H L d' \<Longrightarrow> wf_gaps (t_gaps d) \<Longrightarrow> open_disjoint n (t_gaps d) \<Longrightarrow> books_kept n d (H \<union> L) d'"
proof (induction rule: store_run.induct)
  case (further d H L d' H' L' d'')
  then have "books_kept n d (H \<union> L) d'" by simp
  moreover from this step_keeps_books [OF further(2)] have "books_kept n d' (H' \<union> L') d''" by (simp add: books_kept_def)
  ultimately have "books_kept n d ((H \<union> L) \<union> (H' \<union> L')) d''" by (rule books_kept_trans)
  moreover have "(H \<union> L) \<union> (H' \<union> L') = (H \<union> H') \<union> (L \<union> L')" by blast
  ultimately show ?case by simp
qed (simp add: books_kept_same_gaps)

section \<open>Properties\<close>

text \<open>C2: It is known exactly how an owed ledger stops being owed. Along every interleaving of the store's
  transactions, whatever they meet, the gap table stays well formed and open gaps stay disjoint, and a
  ledger that was owed is still owed at the end unless a heal commit of the run replayed it or one of the
  two unguarded transactions lost it: a plan that cut a piece with the range of a resolved gap, or a heal
  that had read its gap before a rewind, for the rewound ledgers above what it replayed.\<close>

theorem ledgers_never_lost:
  assumes "store_run n d H L d'" and "wf_gaps (t_gaps d)" and "open_disjoint n (t_gaps d)"
  shows "wf_gaps (t_gaps d') \<and> open_disjoint n (t_gaps d') \<and> owed n (t_gaps d) \<subseteq> owed n (t_gaps d') \<union> H \<union> L"
  using run_keeps_books [OF assms] by (auto simp: books_kept_def)

text \<open>A heal, a registration and a plan that cuts out a resolved gap: what the run discharged is what the
  heal replayed, and what it lost is that piece.\<close>

lemma no_rows_heal:
  assumes "wf_gaps (t_gaps d)" and "heal_chunk_of n r w resolved d"
  shows "\<exists>d'. CommitHealChunk n (scanGap r) w resolved no_rows now d = Inr d'"
  using CommitHealChunk_hit [OF assms(1) heal_chunk_write [OF assms] no_rows_persist] by blast

theorem ledgers_never_lost_witness:
  "\<exists>d'. store_run ''testnet'' demo_twin {1150..1199} {1024..1087} d'
    \<and> {1000..1199} \<subseteq> owed ''testnet'' (t_gaps d') \<union> {1150..1199} \<union> {1024..1087}"
proof -
  let ?n = "''testnet''" and ?r = "demo_gap ''testnet'' 1000 1199" and ?plan = "[\<lparr>iv_From = 1030, iv_To = 1040\<rparr>]"
  have top: "heal_top ?r = 1199" by (simp add: heal_top_def demo_gap_def)
  have ivs: "\<forall>iv\<in>set ?plan. iv_From iv \<le> iv_To iv" by simp
  from PlanHeal_exact [OF demo_twin_ok(1,2) ivs, of 0 7] obtain d1 where
    d1: "PlanHeal ?n ?plan 0 7 demo_twin = Inr (plan_counts ?n d1, d1)" "wf_gaps (t_gaps d1)" by blast
  define g where "g = demo_gap ?n 1088 1199"
  have "\<exists>d2. CommitHealChunk ?n (scanGap g) 1149 False no_rows 8 d1 = Inr d2"
  proof -
    have "\<exists>r\<in>set (t_gaps d1). open_gap ?n r \<and> gr_id r = gr_id g"
      using d1(1) by (auto simp: PlanHeal_def lockOpenGaps_def demo_twin_def open_gap_def demo_gap_def g_def plan_gap_def
          scanGap_def normalizePlan_def pad_snap_def checkpointFrequency_def maxU32_def partition_def max32_def min32_def
          splitGap_def record_piece_def upsert_gap_def sql_delete_def sql_update_def gapID_inject Let_def andThen_def)
    then show ?thesis using CommitHealChunk_vanished [of ?n "scanGap g" 1149 False no_rows 8 d1] no_rows_persist
      by (simp add: scanGap_def)
  qed
  then obtain d2 where d2: "CommitHealChunk ?n (scanGap g) 1149 False no_rows 8 d1 = Inr d2" by blast
  have reading: "heals_reading ?n g 1149 False"
    using demo_gap_wf [of 1088 1199 ?n] by (simp add: heals_reading_def g_def demo_gap_def heal_top_def)
  have "heal_top g = 1199" "rewound_since ?n g d1 = {}" by (simp_all add: g_def demo_gap_def heal_top_def rewound_since_def)
  with store_run.further [OF store_run.further [OF store_run.start store_step.plan [OF ivs d1(1)]] store_step.heal [OF reading d2]]
  have "store_run ?n demo_twin {1150..1199} {1024..1087} d2" by (simp add: demo_twin_dropped)
  from ledgers_never_lost [OF this demo_twin_ok(1,2)] this show ?thesis unfolding demo_twin_ok(3) by blast
qed

end
