(* ===== verification/Http_Mux.thy ===== *)
theory Http_Mux
  imports Json Go_Path
begin

text \<open>
  What the program uses of the request multiplexer of \<open>net/http\<close>: patterns with a method, literal
  segments and \<open>{name}\<close> wildcards, \<open>{$}\<close> for the exact root, registration that panics when two patterns
  conflict, the search that prefers a literal over a wildcard segment by segment, the redirect to the
  clean path, and the choice between 404 and 405. Patterns with a host, with no method or with a
  trailing \<open>...\<close> do not occur. A request path is the escaped path of the URL; the handler sees its
  segments unescaped.
\<close>

section \<open>Paths\<close>

text \<open>Percent decoding; the server has refused a path with a malformed escape before.\<close>

fun unescape :: "string \<Rightarrow> string" where
  "unescape (c # x # y # s) =
     (case (hex_val x, hex_val y) of
        (Some h, Some l) \<Rightarrow> if c = CHR ''%'' then char_of (16 * h + l) # unescape s else c # unescape (x # y # s)
      | _ \<Rightarrow> c # unescape (x # y # s))"
| "unescape s = s"

text \<open>\<open>firstSegment\<close>, repeated: a lone trailing slash is a segment of its own.\<close>

function segments :: "string \<Rightarrow> string list" where
  "segments path =
     (if path = '''' then []
      else if path = [slash] then [[slash]]
      else unescape (takeWhile (\<lambda>c. c \<noteq> slash) (tl path)) # segments (dropWhile (\<lambda>c. c \<noteq> slash) (tl path)))"
  by pat_completeness auto
termination
proof (relation "measure length")
  fix path :: string assume "path \<noteq> ''''"
  then show "(dropWhile (\<lambda>c. c \<noteq> slash) (tl path), path) \<in> measure length"
    using length_dropWhile_le [of "\<lambda>c. c \<noteq> slash" "tl path"] by (cases path) auto
qed simp

declare segments.simps [simp del]

text \<open>\<open>cleanPath\<close> keeps a trailing slash, which \<open>path.Clean\<close> drops.\<close>

definition cleanPath :: "string \<Rightarrow> string" where
  "cleanPath p =
     (let p = (if p = '''' \<or> hd p \<noteq> slash then slash # p else p);
          np = Clean p
      in if last p = slash \<and> np \<noteq> [slash] then np @ [slash] else np)"

section \<open>Patterns\<close>

datatype seg = Lit string | Wild string

record pattern =
  pt_Method :: string
  pt_Segs :: "seg list"

definition seg_of :: "string \<Rightarrow> seg" where
  "seg_of s =
     (if s = ''{$}'' then Lit [slash]
      else if s \<noteq> '''' \<and> hd s = CHR ''{'' \<and> last s = CHR ''}'' then Wild (butlast (tl s))
      else Lit s)"

text \<open>\<open>parsePattern\<close> for \<^verbatim>\<open>METHOD /segment/...\<close>.\<close>

definition parsePattern :: "string \<Rightarrow> pattern" where
  "parsePattern s =
     \<lparr>pt_Method = takeWhile (\<lambda>c. c \<noteq> CHR '' '') s,
      pt_Segs = map seg_of (tl (split_slash (tl (dropWhile (\<lambda>c. c \<noteq> CHR '' '') s))))\<rparr>"

fun seg_accepts :: "seg \<Rightarrow> string \<Rightarrow> bool" where
  "seg_accepts (Lit l) s \<longleftrightarrow> s = l"
| "seg_accepts (Wild _) s \<longleftrightarrow> s \<noteq> [slash]"

text \<open>The order of segments: the more special one is below. A literal is below every wildcard, except the
  trailing slash, which no wildcard matches; wildcards are equivalent whatever their names.\<close>

instantiation seg :: preorder
begin

fun less_eq_seg :: "seg \<Rightarrow> seg \<Rightarrow> bool" where
  "less_eq_seg (Lit a) (Lit b) \<longleftrightarrow> a = b"
| "less_eq_seg (Lit a) (Wild _) \<longleftrightarrow> a \<noteq> [slash]"
| "less_eq_seg (Wild _) (Lit _) \<longleftrightarrow> False"
| "less_eq_seg (Wild _) (Wild _) \<longleftrightarrow> True"

definition less_seg :: "seg \<Rightarrow> seg \<Rightarrow> bool" where
  "less_seg p q \<longleftrightarrow> p \<le> q \<and> \<not> q \<le> (p :: seg)"

instance
proof
  fix p q r :: seg
  show "p < q \<longleftrightarrow> p \<le> q \<and> \<not> q \<le> p" by (rule less_seg_def)
  show "p \<le> p" by (cases p) simp_all
  show "p \<le> q \<Longrightarrow> q \<le> r \<Longrightarrow> p \<le> r" by (cases p; cases q; cases r) auto
qed

end

text \<open>Two patterns of a method conflict when some path matches both and neither is the more special one
  (\<open>comparePaths\<close>): their segments are comparable one by one, and they are below each other either in
  both directions or in none.\<close>

definition conflictsWith :: "pattern \<Rightarrow> pattern \<Rightarrow> bool" where
  "conflictsWith p q \<longleftrightarrow>
     pt_Method p = pt_Method q \<and> list_all2 (\<lambda>a b. a \<le> b \<or> b \<le> a) (pt_Segs p) (pt_Segs q)
     \<and> (list_ex (\<lambda>(a, b). a < b) (zip (pt_Segs p) (pt_Segs q)) \<longleftrightarrow> list_ex (\<lambda>(a, b). b < a) (zip (pt_Segs p) (pt_Segs q)))"

text \<open>A pattern accepts what its segments are above of.\<close>

lemma seg_accepts_below: "seg_accepts p s \<longleftrightarrow> Lit s \<le> p"
  by (cases p) simp_all

section \<open>The multiplexer\<close>

type_synonym 'h mux = "(pattern \<times> 'h) list"

text \<open>\<open>Handle\<close> and \<open>HandleFunc\<close>: \<open>None\<close> is the panic of a conflicting registration.\<close>

definition Handle :: "string \<Rightarrow> 'h \<Rightarrow> 'h mux option \<Rightarrow> 'h mux option" where
  "Handle s h mux =
     Option.bind mux (\<lambda>m.
       if list_ex (\<lambda>r. conflictsWith (parsePattern s) (fst r)) m then None else Some (m @ [(parsePattern s, h)]))"

text \<open>\<open>matchPath\<close> over the patterns of one method, each cut down to the segments that are still to be
  matched: literals first, then wildcards, which never match a trailing slash.\<close>

definition by_literal :: "string \<Rightarrow> (seg list \<times> 'h) list \<Rightarrow> (seg list \<times> 'h) list" where
  "by_literal s cands = [(ps, h). (Lit l # ps, h) \<leftarrow> cands, l = s]"

definition by_wildcard :: "(seg list \<times> 'h) list \<Rightarrow> (seg list \<times> 'h) list" where
  "by_wildcard cands = [(ps, h). (Wild _ # ps, h) \<leftarrow> cands]"

fun matchPath :: "(seg list \<times> 'h) list \<Rightarrow> string list \<Rightarrow> string list \<Rightarrow> ('h \<times> string list) option" where
  "matchPath cands [] vals = map_option (\<lambda>c. (snd c, vals)) (find (\<lambda>c. fst c = []) cands)"
| "matchPath cands (s # ss) vals =
     (case matchPath (by_literal s cands) ss vals of
        Some r \<Rightarrow> Some r
      | None \<Rightarrow> if s = [slash] then None else matchPath (by_wildcard cands) ss (vals @ [s]))"

definition of_method :: "string \<Rightarrow> 'h mux \<Rightarrow> (seg list \<times> 'h) list" where
  "of_method method m = [(pt_Segs p, h). (p, h) \<leftarrow> m, pt_Method p = method]"

definition matchMethodAndPath :: "string \<Rightarrow> string \<Rightarrow> 'h mux \<Rightarrow> ('h \<times> string list) option" where
  "matchMethodAndPath method path m =
     (case matchPath (of_method method m) (segments path) [] of
        Some r \<Rightarrow> Some r
      | None \<Rightarrow> if method = ''HEAD'' then matchPath (of_method ''GET'' m) (segments path) [] else None)"

text \<open>The methods that would have matched, GET standing for HEAD too.\<close>

definition matchingMethods :: "string \<Rightarrow> 'h mux \<Rightarrow> string list" where
  "matchingMethods path m =
     (let ms = filter (\<lambda>k. matchPath (of_method k m) (segments path) [] \<noteq> None) (remdups (map (\<lambda>r. pt_Method (fst r)) m))
      in if ''GET'' \<in> set ms then ms @ [''HEAD''] else ms)"

datatype 'h found =
    Found 'h "string list"
  | Redirect string
  | MethodNotAllowed "string list"
  | NotFound

definition findHandler :: "string \<Rightarrow> string \<Rightarrow> 'h mux \<Rightarrow> 'h found" where
  "findHandler method path m =
     (let clean = (if method = ''CONNECT'' then path else cleanPath path)
      in if clean \<noteq> path then Redirect clean
         else case matchMethodAndPath method clean m of
                Some (h, vals) \<Rightarrow> Found h vals
              | None \<Rightarrow> (case matchingMethods clean m of [] \<Rightarrow> NotFound | ms \<Rightarrow> MethodNotAllowed ms))"

section \<open>Lemmas\<close>

text \<open>What is found is a registered pattern that accepts the segments of the path, and nothing is found
  only when no pattern does.\<close>

lemma by_literal_set: "(ps, h) \<in> set (by_literal s cands) \<longleftrightarrow> (Lit s # ps, h) \<in> set cands"
proof (induction cands)
  case (Cons c cands)
  then show ?case by (cases c; cases "fst c"; cases "hd (fst c)") (auto simp: by_literal_def)
qed (simp add: by_literal_def)

lemma by_wildcard_set: "(ps, h) \<in> set (by_wildcard cands) \<longleftrightarrow> (\<exists>w. (Wild w # ps, h) \<in> set cands)"
proof (induction cands)
  case (Cons c cands)
  then show ?case by (cases c; cases "fst c"; cases "hd (fst c)") (auto simp: by_wildcard_def)
qed (simp add: by_wildcard_def)

lemma of_method_set: "(ps, h) \<in> set (of_method k m) \<longleftrightarrow> (\<lparr>pt_Method = k, pt_Segs = ps\<rparr>, h) \<in> set m"
proof (induction m)
  case (Cons r m)
  obtain k' ps' h' where "r = (\<lparr>pt_Method = k', pt_Segs = ps'\<rparr>, h')" by (cases r; cases "fst r") auto
  with Cons show ?case by (auto simp: of_method_def)
qed (simp add: of_method_def)

lemma matchPath_sound:
  "matchPath cands ss vals = Some (h, vals') \<Longrightarrow> \<exists>ps. (ps, h) \<in> set cands \<and> list_all2 seg_accepts ps ss"
proof (induction cands ss vals rule: matchPath.induct)
  case (1 cands vals)
  then obtain c where c: "find (\<lambda>c. fst c = []) cands = Some c" "h = snd c" by auto
  then have "c \<in> set cands" "fst c = []" by (auto simp: find_Some_iff)
  with c(2) show ?case by (intro exI [of _ "[]"]) (simp, metis prod.collapse)
next
  case (2 cands s ss vals)
  show ?case
  proof (cases "matchPath (by_literal s cands) ss vals")
    case None
    then have "s \<noteq> [slash]" and m: "matchPath (by_wildcard cands) ss (vals @ [s]) = Some (h, vals')"
      using "2.prems" by (auto split: if_splits)
    from "2.IH"(2) [OF None this] obtain ps where "(ps, h) \<in> set (by_wildcard cands)" "list_all2 seg_accepts ps ss" by blast
    moreover from this obtain w where "(Wild w # ps, h) \<in> set cands" by (auto simp: by_wildcard_set)
    ultimately show ?thesis using \<open>s \<noteq> [slash]\<close> by (intro exI [of _ "Wild w # ps"]) simp
  next
    case (Some r)
    then have "matchPath (by_literal s cands) ss vals = Some (h, vals')" using "2.prems" by simp
    from "2.IH"(1) [OF this] obtain ps where "(ps, h) \<in> set (by_literal s cands)" "list_all2 seg_accepts ps ss" by blast
    then show ?thesis by (intro exI [of _ "Lit s # ps"]) (simp add: by_literal_set)
  qed
qed

lemma matchPath_complete:
  "(ps, h) \<in> set cands \<Longrightarrow> list_all2 seg_accepts ps ss \<Longrightarrow> matchPath cands ss vals \<noteq> None"
proof (induction cands ss vals arbitrary: ps rule: matchPath.induct)
  case (1 cands vals)
  then show ?case by (auto simp: find_None_iff)
next
  case (2 cands s ss vals)
  from "2.prems"(2) obtain p qs where ps: "ps = p # qs" "seg_accepts p s" "list_all2 seg_accepts qs ss"
    by (cases ps) auto
  show ?case
  proof (cases "matchPath (by_literal s cands) ss vals")
    case None
    then have "p \<noteq> Lit s" using "2.IH"(1) [OF _ ps(3)] "2.prems"(1) ps(1) by (auto simp: by_literal_set)
    then obtain w where w: "p = Wild w" "s \<noteq> [slash]" using ps(2) by (cases p) auto
    then have "(qs, h) \<in> set (by_wildcard cands)" using "2.prems"(1) ps(1) by (auto simp: by_wildcard_set)
    from "2.IH"(2) [OF None w(2) this ps(3)] show ?thesis using None w(2) by simp
  qed simp
qed

lemma findHandler_sound:
  assumes "findHandler method path m = Found h vals"
  obtains k ps where "(\<lparr>pt_Method = k, pt_Segs = ps\<rparr>, h) \<in> set m" and "list_all2 seg_accepts ps (segments path)"
    and "k = method \<or> method = ''HEAD'' \<and> k = ''GET''" and "method = ''CONNECT'' \<or> path = cleanPath path"
proof -
  have "matchMethodAndPath method path m = Some (h, vals)"
    using assms by (auto simp: findHandler_def Let_def split: if_splits option.splits list.splits)
  then obtain k where "matchPath (of_method k m) (segments path) [] = Some (h, vals)" "k = method \<or> method = ''HEAD'' \<and> k = ''GET''"
    by (auto simp: matchMethodAndPath_def split: option.splits if_splits)
  moreover have "method = ''CONNECT'' \<or> path = cleanPath path"
    using assms by (auto simp: findHandler_def Let_def split: if_splits)
  ultimately show thesis
    using matchPath_sound [of "of_method k m" "segments path" "[]"] by (auto simp: of_method_set intro: that)
qed

lemma Clean_rooted: "p \<noteq> [] \<Longrightarrow> hd p = slash \<Longrightarrow> \<exists>q. Clean p = slash # q"
  by (cases "foldl clean_step [] (split_slash p)") (auto simp: Clean_def Let_def)

lemma cleanPath_rooted: "\<exists>q. cleanPath p = slash # q"
  using Clean_rooted [of p] Clean_rooted [of "slash # p"] by (auto simp: cleanPath_def Let_def)

text \<open>Unescaping does not reach across a slash, so the first segment is a prefix of the unescaped path.\<close>

lemma hex_slash [simp]: "hex_val slash = None"
  by (simp add: hex_val_def code_def slash_def)

lemma slash_percent [simp]: "slash \<noteq> CHR ''%''"
  by (simp add: slash_def)

lemma unescape_slash: "unescape (a @ slash # b) = unescape a @ slash # unescape b"
proof (induction a rule: unescape.induct)
  case (1 c x y s)
  then show ?case by (auto split: option.splits)
qed (cases b; cases "tl b"; auto split: option.splits)+

lemma unescape_first:
  assumes "p = slash # q" and "q \<noteq> ''''"
  obtains ss r where "segments p = unescape (takeWhile (\<lambda>c. c \<noteq> slash) q) # ss"
    and "unescape p = slash # unescape (takeWhile (\<lambda>c. c \<noteq> slash) q) @ r" and "r = '''' \<or> hd r = slash"
proof -
  let ?w = "takeWhile (\<lambda>c. c \<noteq> slash) q" and ?d = "dropWhile (\<lambda>c. c \<noteq> slash) q"
  have u: "unescape p = slash # unescape q" using unescape_slash [of "''''" q] assms(1) by simp
  have s: "segments p = unescape ?w # segments ?d"
    using assms by (subst segments.simps) simp
  show thesis
  proof (cases ?d)
    case Nil
    then have "?w = q" by (metis append_Nil2 takeWhile_dropWhile_id)
    then have "unescape p = slash # unescape ?w @ ''''" using u by (simp only: append_Nil2)
    with s show thesis by (rule that) simp
  next
    case (Cons c d)
    then have "c = slash" using hd_dropWhile [of "\<lambda>c. c \<noteq> slash" q] by simp
    then have "q = ?w @ slash # d" using takeWhile_dropWhile_id [of "\<lambda>c. c \<noteq> slash" q] Cons by simp
    then have "unescape q = unescape ?w @ slash # unescape d" using unescape_slash [of ?w d] by simp
    then show thesis using s u by (intro that [of "segments ?d" "slash # unescape d"]) simp_all
  qed
qed

section \<open>Plain paths\<close>

text \<open>The paths clients write: segments that need no escape. They are clean, and their segments are read
  back.\<close>

definition plain_segment :: "string \<Rightarrow> bool" where
  "plain_segment w \<longleftrightarrow> w \<noteq> '''' \<and> slash \<notin> set w \<and> CHR ''%'' \<notin> set w \<and> w \<noteq> ''.'' \<and> w \<noteq> ''..''"

fun wilds :: "seg list \<Rightarrow> string list \<Rightarrow> string list" where
  "wilds (Wild _ # ps) (s # ss) = s # wilds ps ss"
| "wilds (Lit _ # ps) (s # ss) = wilds ps ss"
| "wilds _ _ = []"

lemma unescape_plain: "CHR ''%'' \<notin> set w \<Longrightarrow> unescape w = w"
  by (induction w rule: unescape.induct) (auto split: option.splits)

lemma split_slash_path:
  "slash \<notin> set w \<Longrightarrow> list_all plain_segment ws \<Longrightarrow> split_slash (w @ path_of ws) = w # ws"
proof (induction ws arbitrary: w)
  case Nil
  then show ?case by (induction w) auto
next
  case (Cons v ws)
  then have tail: "split_slash (v @ path_of ws) = v # ws" by (simp add: plain_segment_def)
  from Cons.prems(1) show ?case by (induction w) (use tail in auto)
qed

lemma clean_steps: "list_all plain_segment ws \<Longrightarrow> foldl clean_step ds ws = ds @ ws"
  by (induction ws arbitrary: ds) (auto simp: clean_step_def plain_segment_def)

lemma last_path: "ws \<noteq> [] \<Longrightarrow> list_all plain_segment ws \<Longrightarrow> last (path_of ws) \<noteq> slash"
proof (induction ws)
  case (Cons w ws)
  then show ?case by (cases ws) (auto simp: plain_segment_def dest: last_in_set)
qed simp

lemma cleanPath_path:
  assumes "ws \<noteq> []" and "list_all plain_segment ws"
  shows "cleanPath (path_of ws) = path_of ws"
proof -
  have "split_slash (path_of ws) = '''' # ws" using split_slash_path [of "''''" ws] assms(2) by simp
  then have "foldl clean_step [] (split_slash (path_of ws)) = ws"
    using clean_steps [OF assms(2)] by (simp add: clean_step_def)
  moreover have "path_of ws \<noteq> ''''" "hd (path_of ws) = slash" using assms(1) by (cases ws; simp)+
  ultimately show ?thesis
    using assms last_path [OF assms] by (simp add: cleanPath_def Clean_def Let_def)
qed

lemma takeWhile_slash: "slash \<notin> set w \<Longrightarrow> takeWhile (\<lambda>c. c \<noteq> slash) (w @ path_of ws) = w"
  by (induction w) (cases ws; auto)+

lemma dropWhile_slash: "slash \<notin> set w \<Longrightarrow> dropWhile (\<lambda>c. c \<noteq> slash) (w @ path_of ws) = path_of ws"
  by (induction w) (cases ws; auto)+

lemma segments_path: "list_all plain_segment ws \<Longrightarrow> segments (path_of ws) = ws"
proof (induction ws)
  case Nil
  then show ?case by (simp add: segments.simps [of "''''"])
next
  case (Cons w ws)
  then have w: "slash \<notin> set w" "w \<noteq> ''''" "unescape w = w" by (auto simp: plain_segment_def unescape_plain)
  then show ?case
    using Cons by (subst segments.simps) (simp add: takeWhile_slash dropWhile_slash)
qed

end
