(* ===== verification/Config.thy ===== *)
theory Config
  imports Go_Strings
begin

text \<open>
  \<^verbatim>\<open>internal/config/config.go\<close>: boot configuration from environment variables. \<open>Load\<close> collects every
  problem of every variable and returns either all of them or a configuration. Each variable has its
  definition below, giving its problems and its value; \<open>Load\<close> runs them in the order of the code.
  Arguments: \<open>url.Parse\<close>, \<open>os.Stat\<close> and \<open>os.TempDir\<close>.
\<close>

unbundle bit_operations_syntax

section \<open>Networks and defaults\<close>

definition maxHealWorkers :: int where "maxHealWorkers = 16"

definition NetworkTestnet :: string where "NetworkTestnet = ''testnet''"
definition NetworkMainnet :: string where "NetworkMainnet = ''mainnet''"

definition Passphrase :: "string \<Rightarrow> string" where
  "Passphrase n =
     (if n = NetworkMainnet then ''Public Global Stellar Network ; September 2015''
      else if n = NetworkTestnet then ''Test SDF Network ; September 2015''
      else '''')"

definition defaultRPCURLs :: "string \<Rightarrow> string list" where
  "defaultRPCURLs n = (if n = NetworkTestnet then [''https://soroban-testnet.stellar.org''] else [])"

definition defaultArchiveURLs :: "string \<Rightarrow> string list" where
  "defaultArchiveURLs n =
     (if n = NetworkTestnet then
        [''https://history.stellar.org/prd/core-testnet/core_testnet_001'',
         ''https://history.stellar.org/prd/core-testnet/core_testnet_002'',
         ''https://history.stellar.org/prd/core-testnet/core_testnet_003'']
      else if n = NetworkMainnet then
        [''https://history.stellar.org/prd/core-live/core_live_001'',
         ''https://history.stellar.org/prd/core-live/core_live_002'',
         ''https://history.stellar.org/prd/core-live/core_live_003'']
      else [])"

section \<open>Data\<close>

record Config_boot =
  cf_DatabaseURL :: string
  cf_Network :: string
  cf_AdminToken :: string
  cf_RPCURLs :: "string list"
  cf_HTTPPort :: int
  cf_StartLedger :: u32
  cf_CoreBinary :: string
  cf_ArchiveURLs :: "string list"
  cf_CaptiveStoragePath :: string
  cf_HealWorkers :: int
  cf_HealChunkLedgers :: u32
  cf_BasicAuthUser :: string
  cf_BasicAuthPassword :: string

definition BasicAuthEnabled :: "Config_boot \<Rightarrow> bool" where
  "BasicAuthEnabled c \<longleftrightarrow> cf_BasicAuthUser c \<noteq> ''''"

definition ArchiveEnabled :: "Config_boot \<Rightarrow> bool" where
  "ArchiveEnabled c \<longleftrightarrow> cf_CoreBinary c \<noteq> ''''"

record url =
  ur_Scheme :: string
  ur_Host :: string
  ur_Redacted :: string

record file_info =
  fi_IsDir :: bool
  fi_Perm :: u32

record host =
  parse_url :: "string \<Rightarrow> url option"
  stat_file :: "string \<Rightarrow> file_info option"
  temp_dir :: string

datatype config_error =
    DatabaseMissing | DatabaseNotPostgres
  | NetworkMissing | NetworkUnsupported string
  | TokenMissing | TokenShort | TokenRepetitive
  | RPCMissing | RPCInvalid string
  | PortInvalid string | StartLedgerInvalid string
  | CoreAbsent string | CoreNotExecutable string
  | ArchiveInvalid string | NeedsCore string
  | HealWorkersInvalid string | HealChunkInvalid string
  | BasicAuthShape | BasicAuthShort

type_synonym environment = "string \<Rightarrow> string option"

text \<open>\<open>v, _ := lookup(k)\<close>; a set but empty variable reads as unset everywhere.\<close>

definition setting :: "environment \<Rightarrow> string \<Rightarrow> string" where
  "setting lookup k = (case lookup k of None \<Rightarrow> '''' | Some v \<Rightarrow> v)"

section \<open>The variables\<close>

definition load_database :: "host \<Rightarrow> environment \<Rightarrow> config_error list \<times> string" where
  "load_database h lookup =
     (let dbURL = setting lookup ''DATABASE_URL''
      in (if dbURL = '''' then [DatabaseMissing]
          else (case parse_url h dbURL of
                  None \<Rightarrow> [DatabaseNotPostgres]
                | Some u \<Rightarrow> if ur_Scheme u \<noteq> ''postgres'' \<and> ur_Scheme u \<noteq> ''postgresql'' then [DatabaseNotPostgres] else []),
          dbURL))"

definition load_network :: "environment \<Rightarrow> config_error list \<times> string" where
  "load_network lookup =
     (let network = setting lookup ''NETWORK''
      in if network = NetworkTestnet \<or> network = NetworkMainnet then ([], network)
         else if network = '''' then ([NetworkMissing], '''')
         else ([NetworkUnsupported network], ''''))"

definition validateAdminToken :: "string \<Rightarrow> config_error option" where
  "validateAdminToken token =
     (if token = '''' then Some TokenMissing
      else if length token < 16 then Some TokenShort
      else if length (remdups (map fst (runes token))) < 6 then Some TokenRepetitive
      else None)"

definition load_token :: "environment \<Rightarrow> config_error list \<times> string" where
  "load_token lookup =
     (let token = setting lookup ''ADMIN_TOKEN''
      in (case validateAdminToken token of None \<Rightarrow> [] | Some e \<Rightarrow> [e], token))"

definition splitURLs :: "string \<Rightarrow> string list" where
  "splitURLs raw = filter (\<lambda>p. p \<noteq> '''') (map TrimSpace (SplitByte CHR '','' raw))"

definition http_url :: "host \<Rightarrow> string \<Rightarrow> bool" where
  "http_url h raw \<longleftrightarrow>
     (case parse_url h raw of
        None \<Rightarrow> False
      | Some u \<Rightarrow> (ur_Scheme u = ''http'' \<or> ur_Scheme u = ''https'') \<and> ur_Host u \<noteq> '''')"

definition load_rpc :: "host \<Rightarrow> environment \<Rightarrow> string \<Rightarrow> config_error list \<times> string list" where
  "load_rpc h lookup network =
     (let given = splitURLs (setting lookup ''RPC_URLS'');
          urls = (if given = [] then defaultRPCURLs network else given)
      in ((if urls = [] \<and> network \<noteq> '''' then [RPCMissing] else [])
          @ map RPCInvalid (filter (\<lambda>raw. \<not> http_url h raw) urls),
          urls))"

definition load_port :: "environment \<Rightarrow> config_error list \<times> int" where
  "load_port lookup =
     (let port = setting lookup ''HTTP_PORT''
      in if port = '''' then ([], 8080)
         else (case ParseInt port of
                 None \<Rightarrow> ([PortInvalid port], 8080)
               | Some p \<Rightarrow> if p < 1 \<or> p > 65535 then ([PortInvalid port], 8080) else ([], p)))"

definition load_start :: "environment \<Rightarrow> config_error list \<times> u32" where
  "load_start lookup =
     (let raw = setting lookup ''START_LEDGER''
      in if raw = '''' then ([], 0)
         else (case ParseUint 4294967295 raw of
                 None \<Rightarrow> ([StartLedgerInvalid raw], 0)
               | Some v \<Rightarrow> if v = 0 then ([StartLedgerInvalid raw], 0) else ([], of_nat v)))"

definition load_core :: "host \<Rightarrow> environment \<Rightarrow> config_error list \<times> string" where
  "load_core h lookup =
     (let bin = setting lookup ''STELLAR_CORE_BINARY''
      in if bin = '''' then ([], '''')
         else (case stat_file h bin of
                 None \<Rightarrow> ([CoreAbsent bin], '''')
               | Some info \<Rightarrow>
                   if fi_IsDir info \<or> fi_Perm info AND 73 = 0 then ([CoreNotExecutable bin], '''') else ([], bin)))"

definition load_archives :: "host \<Rightarrow> environment \<Rightarrow> string \<Rightarrow> string \<Rightarrow> config_error list \<times> string list" where
  "load_archives h lookup network core =
     (let raw = setting lookup ''HISTORY_ARCHIVE_URLS'';
          given = splitURLs raw;
          urls = (if given = [] then defaultArchiveURLs network else given)
      in (map ArchiveInvalid (filter (\<lambda>raw. \<not> http_url h raw) urls)
          @ (if raw \<noteq> '''' \<and> core = '''' then [NeedsCore ''HISTORY_ARCHIVE_URLS''] else []),
          urls))"

definition load_storage :: "host \<Rightarrow> environment \<Rightarrow> string \<Rightarrow> config_error list \<times> string" where
  "load_storage h lookup core =
     (let p = setting lookup ''CAPTIVE_STORAGE_PATH''
      in if p = '''' then ([], temp_dir h)
         else (if core = '''' then [NeedsCore ''CAPTIVE_STORAGE_PATH''] else [], p))"

definition load_workers :: "environment \<Rightarrow> string \<Rightarrow> config_error list \<times> int" where
  "load_workers lookup core =
     (let raw = setting lookup ''HEAL_WORKERS'';
          off = (if core = '''' then [NeedsCore ''HEAL_WORKERS''] else [])
      in if raw = '''' then ([], 0)
         else (case ParseInt raw of
                 None \<Rightarrow> (off @ [HealWorkersInvalid raw], 0)
               | Some v \<Rightarrow> if v < 1 \<or> v > maxHealWorkers then (off @ [HealWorkersInvalid raw], 0) else (off, v)))"

definition load_chunk :: "environment \<Rightarrow> string \<Rightarrow> config_error list \<times> u32" where
  "load_chunk lookup core =
     (let raw = setting lookup ''HEAL_CHUNK_LEDGERS'';
          off = (if core = '''' then [NeedsCore ''HEAL_CHUNK_LEDGERS''] else [])
      in if raw = '''' then ([], 0)
         else (case ParseUint 4294967295 raw of
                 None \<Rightarrow> (off @ [HealChunkInvalid raw], 0)
               | Some v \<Rightarrow> if v < 64 then (off @ [HealChunkInvalid raw], 0) else (off, of_nat v)))"

definition load_basic :: "environment \<Rightarrow> config_error list \<times> string \<times> string" where
  "load_basic lookup =
     (let raw = setting lookup ''HTTP_BASIC_AUTH''
      in if raw = '''' then ([], '''', '''')
         else (case CutByte CHR '':'' raw of
                 None \<Rightarrow> ([BasicAuthShape], '''', '''')
               | Some (user, pass) \<Rightarrow>
                   if user = '''' \<or> pass = '''' then ([BasicAuthShape], '''', '''')
                   else if length pass < 12 then ([BasicAuthShort], '''', '''')
                   else ([], user, pass)))"

definition Load :: "host \<Rightarrow> environment \<Rightarrow> config_error list + Config_boot" where
  "Load h lookup =
     (let (e1, db) = load_database h lookup;
          (e2, network) = load_network lookup;
          (e3, token) = load_token lookup;
          (e4, rpc) = load_rpc h lookup network;
          (e5, port) = load_port lookup;
          (e6, start) = load_start lookup;
          (e7, core) = load_core h lookup;
          (e8, archives) = load_archives h lookup network core;
          (e9, storage) = load_storage h lookup core;
          (e10, workers) = load_workers lookup core;
          (e11, chunk) = load_chunk lookup core;
          (e12, user, pass) = load_basic lookup;
          errs = e1 @ e2 @ e3 @ e4 @ e5 @ e6 @ e7 @ e8 @ e9 @ e10 @ e11 @ e12
      in if errs \<noteq> [] then Inl errs
         else Inr \<lparr>cf_DatabaseURL = db, cf_Network = network, cf_AdminToken = token, cf_RPCURLs = rpc,
                   cf_HTTPPort = port, cf_StartLedger = start, cf_CoreBinary = core, cf_ArchiveURLs = archives,
                   cf_CaptiveStoragePath = storage, cf_HealWorkers = workers, cf_HealChunkLedgers = chunk,
                   cf_BasicAuthUser = user, cf_BasicAuthPassword = pass\<rparr>)"

section \<open>Redaction\<close>

fun Join :: "string \<Rightarrow> string list \<Rightarrow> string" where
  "Join sep [] = ''''"
| "Join sep [s] = s"
| "Join sep (s # t # ss) = s @ sep @ Join sep (t # ss)"

definition origin :: "host \<Rightarrow> string \<Rightarrow> string" where
  "origin h raw = (case parse_url h raw of None \<Rightarrow> ''<invalid>'' | Some u \<Rightarrow> ur_Scheme u @ ''://'' @ ur_Host u)"

definition redacted_database :: "host \<Rightarrow> string \<Rightarrow> string" where
  "redacted_database h db = (case parse_url h db of None \<Rightarrow> db | Some u \<Rightarrow> ur_Redacted u)"

definition Redacted :: "host \<Rightarrow> Config_boot \<Rightarrow> string" where
  "Redacted h c =
     (let archive =
        (if ArchiveEnabled c then
           ''core='' @ cf_CoreBinary c @ '' archives=['' @ Join '' '' (map (origin h) (cf_ArchiveURLs c)) @ '']''
           @ '' heal_chunk='' @ (if cf_HealChunkLedgers c \<noteq> 0 then dec (unat (cf_HealChunkLedgers c)) else ''default'')
           @ '' heal_workers='' @ (if cf_HealWorkers c \<noteq> 0 then dec_int (cf_HealWorkers c) else ''default'')
         else ''off'')
      in ''network='' @ cf_Network c @ '' database='' @ redacted_database h (cf_DatabaseURL c)
         @ '' rpc=['' @ Join '' '' (map (origin h) (cf_RPCURLs c)) @ '']''
         @ '' http_port='' @ dec_int (cf_HTTPPort c) @ '' start_ledger='' @ dec (unat (cf_StartLedger c))
         @ '' archive='' @ archive @ '' basic_auth='' @ (if BasicAuthEnabled c then ''on'' else ''off'')
         @ '' admin_token=<set>'')"

section \<open>What a configuration that loads promises\<close>

definition strong_token :: "string \<Rightarrow> bool" where
  "strong_token token \<longleftrightarrow> 16 \<le> length token \<and> 6 \<le> card (fst ` set (runes token))"

definition executable_file :: "host \<Rightarrow> string \<Rightarrow> bool" where
  "executable_file h bin \<longleftrightarrow>
     (case stat_file h bin of None \<Rightarrow> False | Some info \<Rightarrow> \<not> fi_IsDir info \<and> fi_Perm info AND 73 \<noteq> 0)"

definition postgres_url :: "host \<Rightarrow> string \<Rightarrow> bool" where
  "postgres_url h raw \<longleftrightarrow>
     (case parse_url h raw of None \<Rightarrow> False | Some u \<Rightarrow> ur_Scheme u \<in> {''postgres'', ''postgresql''})"

text \<open>The archive leg: off, with none of its tuning, or on over an executable.\<close>

definition archive_leg_ok :: "host \<Rightarrow> Config_boot \<Rightarrow> bool" where
  "archive_leg_ok h c \<longleftrightarrow>
     (if ArchiveEnabled c
      then executable_file h (cf_CoreBinary c) \<and> cf_HealWorkers c \<in> {0..16}
        \<and> (cf_HealChunkLedgers c = 0 \<or> 64 \<le> uint (cf_HealChunkLedgers c))
      else cf_HealWorkers c = 0 \<and> cf_HealChunkLedgers c = 0 \<and> cf_CaptiveStoragePath c = temp_dir h
        \<and> cf_ArchiveURLs c = defaultArchiveURLs (cf_Network c))"

definition gate_ok :: "Config_boot \<Rightarrow> bool" where
  "gate_ok c \<longleftrightarrow>
     (if BasicAuthEnabled c then CHR '':'' \<notin> set (cf_BasicAuthUser c) \<and> 12 \<le> length (cf_BasicAuthPassword c)
      else cf_BasicAuthPassword c = '''')"

definition runnable :: "host \<Rightarrow> Config_boot \<Rightarrow> bool" where
  "runnable h c \<longleftrightarrow>
     postgres_url h (cf_DatabaseURL c) \<and> Passphrase (cf_Network c) \<noteq> '''' \<and> strong_token (cf_AdminToken c)
     \<and> cf_RPCURLs c \<noteq> [] \<and> list_all (http_url h) (cf_RPCURLs c)
     \<and> cf_ArchiveURLs c \<noteq> [] \<and> list_all (http_url h) (cf_ArchiveURLs c)
     \<and> 1 \<le> cf_HTTPPort c \<and> cf_HTTPPort c \<le> 65535 \<and> archive_leg_ok h c \<and> gate_ok c"

section \<open>Lemmas\<close>

named_theorems settings \<open>what each variable gives when it has no problem\<close>

lemma load_database_ok [settings]:
  "load_database h lookup = ([], v) \<Longrightarrow> postgres_url h v \<and> v = setting lookup ''DATABASE_URL''"
  by (auto simp: load_database_def postgres_url_def Let_def split: if_splits option.splits)

lemma load_network_ok [settings]:
  "load_network lookup = ([], v) \<Longrightarrow> v \<in> {NetworkTestnet, NetworkMainnet}"
  by (auto simp: load_network_def Let_def split: if_splits)

lemma load_token_ok [settings]:
  "load_token lookup = ([], v) \<Longrightarrow> strong_token v \<and> v = setting lookup ''ADMIN_TOKEN''"
  by (auto simp: load_token_def validateAdminToken_def strong_token_def Let_def length_remdups_card_conv
      split: if_splits option.splits)

lemma load_rpc_ok [settings]:
  "load_rpc h lookup n = ([], v) \<Longrightarrow> n \<noteq> '''' \<Longrightarrow>
     v \<noteq> [] \<and> list_all (http_url h) v
     \<and> v = (let g = splitURLs (setting lookup ''RPC_URLS'') in if g = [] then defaultRPCURLs n else g)"
  by (auto simp: load_rpc_def Let_def filter_empty_conv list_all_iff split: if_splits)

lemma load_port_ok [settings]: "load_port lookup = ([], v) \<Longrightarrow> 1 \<le> v \<and> v \<le> 65535"
  by (auto simp: load_port_def Let_def split: if_splits option.splits)

lemma load_core_ok [settings]:
  "load_core h lookup = ([], v) \<Longrightarrow> v = '''' \<or> executable_file h v"
  by (auto simp: load_core_def executable_file_def Let_def split: if_splits option.splits)

lemma splitURLs_Nil [simp]: "splitURLs '''' = []"
  by (simp add: splitURLs_def TrimSpace_def)

lemma load_archives_ok [settings]:
  "load_archives h lookup n core = ([], v) \<Longrightarrow>
     list_all (http_url h) v \<and> (v = [] \<longrightarrow> defaultArchiveURLs n = []) \<and> (core = '''' \<longrightarrow> v = defaultArchiveURLs n)"
  by (auto simp: load_archives_def Let_def filter_empty_conv list_all_iff split: if_splits)

lemma load_storage_ok [settings]:
  "load_storage h lookup core = ([], v) \<Longrightarrow> core = '''' \<Longrightarrow> v = temp_dir h"
  by (auto simp: load_storage_def Let_def split: if_splits)

lemma load_workers_ok [settings]:
  "load_workers lookup core = ([], v) \<Longrightarrow> 0 \<le> v \<and> v \<le> 16 \<and> (core = '''' \<longrightarrow> v = 0)"
  by (auto simp: load_workers_def maxHealWorkers_def Let_def split: if_splits option.splits)

lemma uint_of_parsed: "ParseUint 4294967295 s = Some v \<Longrightarrow> uint (of_nat v :: u32) = int v"
proof -
  assume "ParseUint 4294967295 s = Some v"
  then have "v \<le> 4294967295" by (auto simp: ParseUint_def split: if_splits)
  then show ?thesis by (simp add: uint_nat unat_of_nat)
qed

lemma load_chunk_ok [settings]:
  assumes "load_chunk lookup core = ([], v)"
  shows "(v = 0 \<or> 64 \<le> uint v) \<and> (core = '''' \<longrightarrow> v = 0)"
proof (cases "ParseUint 4294967295 (setting lookup ''HEAL_CHUNK_LEDGERS'')")
  case None
  then show ?thesis using assms by (auto simp: load_chunk_def Let_def split: if_splits)
next
  case (Some n)
  then have "setting lookup ''HEAL_CHUNK_LEDGERS'' \<noteq> '''' \<Longrightarrow> v = of_nat n \<and> 64 \<le> n \<and> core \<noteq> ''''"
    using assms by (auto simp: load_chunk_def Let_def split: if_splits)
  with uint_of_parsed [OF Some] show ?thesis using assms
    by (cases "setting lookup ''HEAL_CHUNK_LEDGERS'' = ''''") (auto simp: load_chunk_def Let_def)
qed

lemma load_basic_ok [settings]:
  "load_basic lookup = ([], u, p) \<Longrightarrow>
     (if u = '''' then p = '''' else CHR '':'' \<notin> set u \<and> 12 \<le> length p)"
  by (auto simp: load_basic_def CutByte_parts Let_def split: if_splits option.splits)

lemma defaults_nonempty: "n \<in> {NetworkTestnet, NetworkMainnet} \<Longrightarrow> defaultArchiveURLs n \<noteq> [] \<and> Passphrase n \<noteq> '''' \<and> n \<noteq> ''''"
  by (auto simp: defaultArchiveURLs_def Passphrase_def NetworkTestnet_def NetworkMainnet_def)

text \<open>The acceptable environments, variable by variable, as the documentation of the variables has them.\<close>

definition number_in :: "int set \<Rightarrow> int option \<Rightarrow> bool" where
  "number_in bounds v \<longleftrightarrow> (case v of None \<Rightarrow> False | Some i \<Rightarrow> i \<in> bounds)"

definition unset_or :: "string \<Rightarrow> bool \<Rightarrow> bool" where
  "unset_or v ok \<longleftrightarrow> v = '''' \<or> ok"

definition given_or :: "string list \<Rightarrow> string \<Rightarrow> string list" where
  "given_or fallback raw = (if splitURLs raw = [] then fallback else splitURLs raw)"

definition core_variables :: "string list" where
  "core_variables = [''HISTORY_ARCHIVE_URLS'', ''CAPTIVE_STORAGE_PATH'', ''HEAL_WORKERS'', ''HEAL_CHUNK_LEDGERS'']"

definition acceptable :: "host \<Rightarrow> environment \<Rightarrow> bool" where
  "acceptable h lookup \<longleftrightarrow>
     (let var = setting lookup in
      var ''DATABASE_URL'' \<noteq> '''' \<and> postgres_url h (var ''DATABASE_URL'')
      \<and> var ''NETWORK'' \<in> {NetworkTestnet, NetworkMainnet}
      \<and> strong_token (var ''ADMIN_TOKEN'')
      \<and> (let urls = given_or (defaultRPCURLs (var ''NETWORK'')) (var ''RPC_URLS'') in urls \<noteq> [] \<and> list_all (http_url h) urls)
      \<and> unset_or (var ''HTTP_PORT'') (number_in {1..65535} (ParseInt (var ''HTTP_PORT'')))
      \<and> unset_or (var ''START_LEDGER'') (number_in {1..} (map_option int (ParseUint 4294967295 (var ''START_LEDGER''))))
      \<and> unset_or (var ''STELLAR_CORE_BINARY'') (executable_file h (var ''STELLAR_CORE_BINARY''))
      \<and> list_all (http_url h) (given_or (defaultArchiveURLs (var ''NETWORK'')) (var ''HISTORY_ARCHIVE_URLS''))
      \<and> (var ''STELLAR_CORE_BINARY'' = '''' \<longrightarrow> list_all (\<lambda>k. var k = '''') core_variables)
      \<and> unset_or (var ''HEAL_WORKERS'') (number_in {1..16} (ParseInt (var ''HEAL_WORKERS'')))
      \<and> unset_or (var ''HEAL_CHUNK_LEDGERS'') (number_in {64..} (map_option int (ParseUint 4294967295 (var ''HEAL_CHUNK_LEDGERS''))))
      \<and> unset_or (var ''HTTP_BASIC_AUTH'')
          (case CutByte CHR '':'' (var ''HTTP_BASIC_AUTH'') of None \<Rightarrow> False | Some (u, p) \<Rightarrow> u \<noteq> '''' \<and> 12 \<le> length p))"

named_theorems problems \<open>when a variable has no problem\<close>

lemma no_problem_database [problems]:
  "fst (load_database h lookup) = [] \<longleftrightarrow> setting lookup ''DATABASE_URL'' \<noteq> '''' \<and> postgres_url h (setting lookup ''DATABASE_URL'')"
  by (auto simp: load_database_def postgres_url_def Let_def split: option.splits)

lemma no_problem_network [problems]:
  "fst (load_network lookup) = [] \<longleftrightarrow> setting lookup ''NETWORK'' \<in> {NetworkTestnet, NetworkMainnet}"
  by (auto simp: load_network_def Let_def)

lemma no_problem_token [problems]:
  "fst (load_token lookup) = [] \<longleftrightarrow> strong_token (setting lookup ''ADMIN_TOKEN'')"
  by (auto simp: load_token_def validateAdminToken_def strong_token_def Let_def length_remdups_card_conv)

lemma no_problem_rpc [problems]:
  "n \<noteq> '''' \<Longrightarrow> fst (load_rpc h lookup n) = [] \<longleftrightarrow>
     given_or (defaultRPCURLs n) (setting lookup ''RPC_URLS'') \<noteq> []
     \<and> list_all (http_url h) (given_or (defaultRPCURLs n) (setting lookup ''RPC_URLS''))"
  by (auto simp: load_rpc_def given_or_def Let_def filter_empty_conv list_all_iff)

lemma no_problem_port [problems]:
  "fst (load_port lookup) = [] \<longleftrightarrow>
     unset_or (setting lookup ''HTTP_PORT'') (number_in {1..65535} (ParseInt (setting lookup ''HTTP_PORT'')))"
  by (auto simp: load_port_def unset_or_def number_in_def Let_def split: option.splits)

lemma no_problem_start [problems]:
  "fst (load_start lookup) = [] \<longleftrightarrow>
     unset_or (setting lookup ''START_LEDGER'')
       (number_in {1..} (map_option int (ParseUint 4294967295 (setting lookup ''START_LEDGER''))))"
  by (auto simp: load_start_def unset_or_def number_in_def Let_def split: option.splits)

lemma no_problem_core [problems]:
  "fst (load_core h lookup) = [] \<longleftrightarrow>
     unset_or (setting lookup ''STELLAR_CORE_BINARY'') (executable_file h (setting lookup ''STELLAR_CORE_BINARY''))"
  by (auto simp: load_core_def unset_or_def executable_file_def Let_def split: option.splits)

lemma no_problem_archives [problems]:
  "fst (load_archives h lookup n core) = [] \<longleftrightarrow>
     list_all (http_url h) (given_or (defaultArchiveURLs n) (setting lookup ''HISTORY_ARCHIVE_URLS''))
     \<and> (core = '''' \<longrightarrow> setting lookup ''HISTORY_ARCHIVE_URLS'' = '''')"
  by (auto simp: load_archives_def given_or_def Let_def filter_empty_conv list_all_iff)

lemma no_problem_storage [problems]:
  "fst (load_storage h lookup core) = [] \<longleftrightarrow> (core = '''' \<longrightarrow> setting lookup ''CAPTIVE_STORAGE_PATH'' = '''')"
  by (auto simp: load_storage_def Let_def)

lemma no_problem_workers [problems]:
  "fst (load_workers lookup core) = [] \<longleftrightarrow>
     unset_or (setting lookup ''HEAL_WORKERS'') (number_in {1..16} (ParseInt (setting lookup ''HEAL_WORKERS'')))
     \<and> (core = '''' \<longrightarrow> setting lookup ''HEAL_WORKERS'' = '''')"
  by (auto simp: load_workers_def maxHealWorkers_def unset_or_def number_in_def Let_def split: option.splits)

lemma no_problem_chunk [problems]:
  "fst (load_chunk lookup core) = [] \<longleftrightarrow>
     unset_or (setting lookup ''HEAL_CHUNK_LEDGERS'')
       (number_in {64..} (map_option int (ParseUint 4294967295 (setting lookup ''HEAL_CHUNK_LEDGERS''))))
     \<and> (core = '''' \<longrightarrow> setting lookup ''HEAL_CHUNK_LEDGERS'' = '''')"
  by (auto simp: load_chunk_def unset_or_def number_in_def Let_def split: option.splits)

lemma no_problem_basic [problems]:
  "fst (load_basic lookup) = [] \<longleftrightarrow>
     unset_or (setting lookup ''HTTP_BASIC_AUTH'')
       (case CutByte CHR '':'' (setting lookup ''HTTP_BASIC_AUTH'') of None \<Rightarrow> False
        | Some (u, p) \<Rightarrow> u \<noteq> '''' \<and> 12 \<le> length p)"
  by (auto simp: load_basic_def unset_or_def Let_def split: option.splits)

lemma loaded_values:
  "fst (load_network lookup) = [] \<Longrightarrow> snd (load_network lookup) = setting lookup ''NETWORK''"
  "fst (load_core h lookup) = [] \<Longrightarrow> snd (load_core h lookup) = setting lookup ''STELLAR_CORE_BINARY''"
  by (auto simp: load_network_def load_core_def Let_def split: if_splits option.splits)

definition all_problems :: "host \<Rightarrow> environment \<Rightarrow> config_error list" where
  "all_problems h lookup =
     (let network = snd (load_network lookup); core = snd (load_core h lookup)
      in fst (load_database h lookup) @ fst (load_network lookup) @ fst (load_token lookup) @ fst (load_rpc h lookup network)
         @ fst (load_port lookup) @ fst (load_start lookup) @ fst (load_core h lookup)
         @ fst (load_archives h lookup network core) @ fst (load_storage h lookup core)
         @ fst (load_workers lookup core) @ fst (load_chunk lookup core) @ fst (load_basic lookup))"

lemma Load_cases: "(case Load h lookup of Inl errs \<Rightarrow> errs = all_problems h lookup \<and> errs \<noteq> [] | Inr _ \<Rightarrow> all_problems h lookup = [])"
  by (simp add: Load_def all_problems_def Let_def split_beta)

lemma no_problems: "all_problems h lookup = [] \<longleftrightarrow> acceptable h lookup"
proof (cases "fst (load_network lookup) = [] \<and> fst (load_core h lookup) = []")
  case True
  then have n: "snd (load_network lookup) = setting lookup ''NETWORK''"
    and c: "snd (load_core h lookup) = setting lookup ''STELLAR_CORE_BINARY''"
    and ne: "setting lookup ''NETWORK'' \<noteq> ''''"
    using defaults_nonempty [of "setting lookup ''NETWORK''"] by (simp_all add: loaded_values no_problem_network)
  show ?thesis
    unfolding all_problems_def acceptable_def Let_def append_is_Nil_conv problems n c no_problem_rpc [OF ne]
    by (auto simp: core_variables_def)
next
  case False
  then show ?thesis by (auto simp: all_problems_def acceptable_def Let_def no_problem_network no_problem_core)
qed

text \<open>The configuration holds what the variables say, or the documented default.\<close>

definition honours :: "host \<Rightarrow> environment \<Rightarrow> Config_boot \<Rightarrow> bool" where
  "honours h lookup c \<longleftrightarrow>
     (let var = setting lookup in
      cf_DatabaseURL c = var ''DATABASE_URL'' \<and> cf_Network c = var ''NETWORK'' \<and> cf_AdminToken c = var ''ADMIN_TOKEN''
      \<and> cf_RPCURLs c = given_or (defaultRPCURLs (var ''NETWORK'')) (var ''RPC_URLS'')
      \<and> Some (cf_HTTPPort c) = (if var ''HTTP_PORT'' = '''' then Some 8080 else ParseInt (var ''HTTP_PORT''))
      \<and> Some (unat (cf_StartLedger c)) = (if var ''START_LEDGER'' = '''' then Some 0 else ParseUint 4294967295 (var ''START_LEDGER''))
      \<and> cf_CoreBinary c = var ''STELLAR_CORE_BINARY''
      \<and> cf_ArchiveURLs c = given_or (defaultArchiveURLs (var ''NETWORK'')) (var ''HISTORY_ARCHIVE_URLS'')
      \<and> cf_CaptiveStoragePath c = (if var ''CAPTIVE_STORAGE_PATH'' = '''' then temp_dir h else var ''CAPTIVE_STORAGE_PATH'')
      \<and> Some (cf_HealWorkers c) = (if var ''HEAL_WORKERS'' = '''' then Some 0 else ParseInt (var ''HEAL_WORKERS''))
      \<and> Some (unat (cf_HealChunkLedgers c))
          = (if var ''HEAL_CHUNK_LEDGERS'' = '''' then Some 0 else ParseUint 4294967295 (var ''HEAL_CHUNK_LEDGERS''))
      \<and> (cf_BasicAuthUser c @ CHR '':'' # cf_BasicAuthPassword c
           = (if var ''HTTP_BASIC_AUTH'' = '''' then '':'' else var ''HTTP_BASIC_AUTH'')))"

lemma parsed_bound: "ParseUint 4294967295 s = Some v \<Longrightarrow> v < 4294967296"
  by (auto simp: ParseUint_def split: if_splits)

lemma parsed_unat: "ParseUint 4294967295 s = Some v \<Longrightarrow> unat (of_nat v :: u32) = v"
  using parsed_bound [of s v] by (simp add: unat_of_nat)

lemma load_port_value:
  "fst (load_port lookup) = [] \<Longrightarrow>
     Some (snd (load_port lookup)) = (if setting lookup ''HTTP_PORT'' = '''' then Some 8080 else ParseInt (setting lookup ''HTTP_PORT''))"
  by (auto simp: load_port_def Let_def split: if_splits option.splits)

lemma load_start_value:
  "fst (load_start lookup) = [] \<Longrightarrow>
     Some (unat (snd (load_start lookup)))
     = (if setting lookup ''START_LEDGER'' = '''' then Some 0 else ParseUint 4294967295 (setting lookup ''START_LEDGER''))"
  by (auto simp: load_start_def Let_def parsed_unat split: if_splits option.splits)

lemma load_workers_value:
  "fst (load_workers lookup core) = [] \<Longrightarrow>
     Some (snd (load_workers lookup core))
     = (if setting lookup ''HEAL_WORKERS'' = '''' then Some 0 else ParseInt (setting lookup ''HEAL_WORKERS''))"
  by (auto simp: load_workers_def Let_def split: if_splits option.splits)

lemma load_chunk_value:
  "fst (load_chunk lookup core) = [] \<Longrightarrow>
     Some (unat (snd (load_chunk lookup core)))
     = (if setting lookup ''HEAL_CHUNK_LEDGERS'' = '''' then Some 0
        else ParseUint 4294967295 (setting lookup ''HEAL_CHUNK_LEDGERS''))"
  by (auto simp: load_chunk_def Let_def parsed_unat split: if_splits option.splits)

lemma load_basic_value:
  "fst (load_basic lookup) = [] \<Longrightarrow>
     fst (snd (load_basic lookup)) @ CHR '':'' # snd (snd (load_basic lookup))
     = (if setting lookup ''HTTP_BASIC_AUTH'' = '''' then '':'' else setting lookup ''HTTP_BASIC_AUTH'')"
  by (auto simp: load_basic_def Let_def dest!: iffD1 [OF CutByte_parts] split: if_splits option.splits)

lemma load_plain_values:
  "snd (load_database h lookup) = setting lookup ''DATABASE_URL''"
  "snd (load_token lookup) = setting lookup ''ADMIN_TOKEN''"
  "snd (load_rpc h lookup n) = given_or (defaultRPCURLs n) (setting lookup ''RPC_URLS'')"
  "snd (load_archives h lookup n core) = given_or (defaultArchiveURLs n) (setting lookup ''HISTORY_ARCHIVE_URLS'')"
  "snd (load_storage h lookup core)
     = (if setting lookup ''CAPTIVE_STORAGE_PATH'' = '''' then temp_dir h else setting lookup ''CAPTIVE_STORAGE_PATH'')"
  by (auto simp: load_database_def load_token_def load_rpc_def load_archives_def load_storage_def given_or_def Let_def)

lemma Load_value:
  assumes "Load h lookup = Inr c"
  shows "c = (let network = snd (load_network lookup); core = snd (load_core h lookup) in
           \<lparr>cf_DatabaseURL = snd (load_database h lookup), cf_Network = network, cf_AdminToken = snd (load_token lookup),
            cf_RPCURLs = snd (load_rpc h lookup network), cf_HTTPPort = snd (load_port lookup),
            cf_StartLedger = snd (load_start lookup), cf_CoreBinary = core,
            cf_ArchiveURLs = snd (load_archives h lookup network core),
            cf_CaptiveStoragePath = snd (load_storage h lookup core), cf_HealWorkers = snd (load_workers lookup core),
            cf_HealChunkLedgers = snd (load_chunk lookup core), cf_BasicAuthUser = fst (snd (load_basic lookup)),
            cf_BasicAuthPassword = snd (snd (load_basic lookup))\<rparr>)"
  using assms by (simp add: Load_def Let_def split_beta split: if_splits)

lemma Load_no_problems: "Load h lookup = Inr c \<Longrightarrow> all_problems h lookup = []"
  using Load_cases [of h lookup] by simp

lemma Load_honours:
  assumes "Load h lookup = Inr c"
  shows "honours h lookup c"
proof -
  let ?network = "setting lookup ''NETWORK''" and ?core = "setting lookup ''STELLAR_CORE_BINARY''"
  note clean = Load_no_problems [OF assms, unfolded all_problems_def Let_def append_is_Nil_conv]
  have n: "snd (load_network lookup) = ?network" and c: "snd (load_core h lookup) = ?core"
    using clean by (simp_all add: loaded_values)
  have v: "fst (load_port lookup) = []" "fst (load_start lookup) = []" "fst (load_workers lookup ?core) = []"
    "fst (load_chunk lookup ?core) = []" "fst (load_basic lookup) = []"
    using clean by (simp_all add: n c)
  note c_is = Load_value [OF assms, unfolded n c load_plain_values Let_def]
  show ?thesis
    unfolding honours_def Let_def c_is using v
    by (simp add: load_port_value load_start_value load_workers_value load_chunk_value load_basic_value)
qed

lemma Load_runnable:
  assumes "Load h lookup = Inr c"
  shows "runnable h c"
proof -
  let ?n = "snd (load_network lookup)" and ?core = "snd (load_core h lookup)"
  note clean = Load_no_problems [OF assms, unfolded all_problems_def Let_def append_is_Nil_conv]
  note held = Load_value [OF assms, unfolded Let_def]
  have "load_network lookup = ([], ?n)" using clean by (simp add: prod_eq_iff)
  then have n: "?n \<in> {NetworkTestnet, NetworkMainnet}" by (rule load_network_ok)
  note d = defaults_nonempty [OF n]
  have "postgres_url h (cf_DatabaseURL c)" "strong_token (cf_AdminToken c)"
    using clean by (simp_all add: held load_plain_values no_problem_database no_problem_token)
  moreover have "cf_RPCURLs c \<noteq> [] \<and> list_all (http_url h) (cf_RPCURLs c)"
    using clean d by (simp add: held load_plain_values no_problem_rpc)
  moreover have "list_all (http_url h) (cf_ArchiveURLs c) \<and> cf_ArchiveURLs c \<noteq> []
      \<and> (?core = '''' \<longrightarrow> cf_ArchiveURLs c = defaultArchiveURLs ?n)"
    using clean d load_archives_ok [of h lookup ?n ?core "cf_ArchiveURLs c"]
    by (simp add: held prod_eq_iff)
  moreover have "1 \<le> cf_HTTPPort c \<and> cf_HTTPPort c \<le> 65535"
    using clean load_port_ok [of lookup "cf_HTTPPort c"] by (simp add: held prod_eq_iff)
  moreover have "?core = '''' \<or> executable_file h ?core"
    using clean load_core_ok [of h lookup ?core] by (simp add: prod_eq_iff)
  moreover have "?core = '''' \<longrightarrow> cf_CaptiveStoragePath c = temp_dir h"
    using clean by (simp add: held load_plain_values no_problem_storage)
  moreover have "0 \<le> cf_HealWorkers c \<and> cf_HealWorkers c \<le> 16 \<and> (?core = '''' \<longrightarrow> cf_HealWorkers c = 0)"
    using clean load_workers_ok [of lookup ?core "cf_HealWorkers c"] by (simp add: held prod_eq_iff)
  moreover have "(cf_HealChunkLedgers c = 0 \<or> 64 \<le> uint (cf_HealChunkLedgers c)) \<and> (?core = '''' \<longrightarrow> cf_HealChunkLedgers c = 0)"
    using clean load_chunk_ok [of lookup ?core "cf_HealChunkLedgers c"] by (simp add: held prod_eq_iff)
  moreover have "gate_ok c"
    using clean load_basic_ok [of lookup "cf_BasicAuthUser c" "cf_BasicAuthPassword c"]
    by (simp add: held gate_ok_def BasicAuthEnabled_def prod_eq_iff split: if_splits)
  moreover have "cf_CoreBinary c = ?core" "cf_Network c = ?n" by (simp_all add: held)
  ultimately show ?thesis using d
    by (auto simp: runnable_def archive_leg_ok_def ArchiveEnabled_def)
qed

section \<open>An environment\<close>

definition demo_host :: host where
  "demo_host =
     \<lparr>parse_url = (\<lambda>s. case CutByte CHR '':'' s of None \<Rightarrow> None
        | Some (scheme, rest) \<Rightarrow> Some \<lparr>ur_Scheme = scheme, ur_Host = takeWhile (\<lambda>x. x \<noteq> CHR ''/'') (drop 2 rest), ur_Redacted = scheme\<rparr>),
      stat_file = (\<lambda>p. if p = ''/bin/core'' then Some \<lparr>fi_IsDir = False, fi_Perm = 493\<rparr> else None),
      temp_dir = ''/tmp''\<rparr>"

definition demo_environment :: environment where
  "demo_environment = map_of
     [(''DATABASE_URL'', ''postgres://db/sierpe''), (''NETWORK'', ''testnet''), (''ADMIN_TOKEN'', ''0123456789abcdef''),
      (''RPC_URLS'', '' https://rpc.one/key , https://rpc.two''), (''HTTP_PORT'', ''+8080''),
      (''STELLAR_CORE_BINARY'', ''/bin/core''), (''HEAL_WORKERS'', ''4''), (''HTTP_BASIC_AUTH'', ''ops:correct-horse'')]"

lemma demo_settings:
  "setting demo_environment ''DATABASE_URL'' = ''postgres://db/sierpe''" "setting demo_environment ''NETWORK'' = ''testnet''"
  "setting demo_environment ''ADMIN_TOKEN'' = ''0123456789abcdef''"
  "setting demo_environment ''RPC_URLS'' = '' https://rpc.one/key , https://rpc.two''"
  "setting demo_environment ''HTTP_PORT'' = ''+8080''" "setting demo_environment ''START_LEDGER'' = ''''"
  "setting demo_environment ''STELLAR_CORE_BINARY'' = ''/bin/core''" "setting demo_environment ''HISTORY_ARCHIVE_URLS'' = ''''"
  "setting demo_environment ''CAPTIVE_STORAGE_PATH'' = ''''" "setting demo_environment ''HEAL_WORKERS'' = ''4''"
  "setting demo_environment ''HEAL_CHUNK_LEDGERS'' = ''''" "setting demo_environment ''HTTP_BASIC_AUTH'' = ''ops:correct-horse''"
  by (simp_all add: setting_def demo_environment_def)

lemma demo_urls:
  "http_url demo_host ''https://rpc.one/key''" "http_url demo_host ''https://rpc.two''"
  "list_all (http_url demo_host) (defaultArchiveURLs ''testnet'')"
  by (simp_all add: http_url_def demo_host_def defaultArchiveURLs_def NetworkTestnet_def)

lemma demo_split: "splitURLs '' https://rpc.one/key , https://rpc.two'' = [''https://rpc.one/key'', ''https://rpc.two'']"
  by (simp add: splitURLs_def TrimSpace_def runes_ascii code_def IsSpace_def)

lemma demo_numbers: "ParseInt ''+8080'' = Some 8080" "ParseInt ''4'' = Some 4"
  by (simp_all add: ParseInt_def digits_def is_digit_def code_def undec_def digit_val_def)

lemma demo_environment_loads:
  "Load demo_host demo_environment =
     Inr \<lparr>cf_DatabaseURL = ''postgres://db/sierpe'', cf_Network = ''testnet'', cf_AdminToken = ''0123456789abcdef'',
          cf_RPCURLs = [''https://rpc.one/key'', ''https://rpc.two''], cf_HTTPPort = 8080, cf_StartLedger = 0,
          cf_CoreBinary = ''/bin/core'', cf_ArchiveURLs = defaultArchiveURLs ''testnet'', cf_CaptiveStoragePath = ''/tmp'',
          cf_HealWorkers = 4, cf_HealChunkLedgers = 0, cf_BasicAuthUser = ''ops'', cf_BasicAuthPassword = ''correct-horse''\<rparr>"
proof -
  have "load_database demo_host demo_environment = ([], ''postgres://db/sierpe'')"
    by (simp add: load_database_def demo_settings demo_host_def)
  moreover have "load_network demo_environment = ([], ''testnet'')"
    by (simp add: load_network_def demo_settings NetworkTestnet_def)
  moreover have "load_token demo_environment = ([], ''0123456789abcdef'')"
    by (simp add: load_token_def demo_settings validateAdminToken_def runes_ascii code_def)
  moreover have "load_rpc demo_host demo_environment ''testnet'' = ([], [''https://rpc.one/key'', ''https://rpc.two''])"
    by (simp add: load_rpc_def demo_settings demo_split demo_urls)
  moreover have "load_port demo_environment = ([], 8080)" "load_start demo_environment = ([], 0)"
    by (simp_all add: load_port_def load_start_def demo_settings demo_numbers)
  moreover have "load_core demo_host demo_environment = ([], ''/bin/core'')"
    by (simp add: load_core_def demo_settings demo_host_def)
  moreover have "load_archives demo_host demo_environment ''testnet'' ''/bin/core'' = ([], defaultArchiveURLs ''testnet'')"
    using demo_urls(3) by (simp add: load_archives_def demo_settings list_all_iff)
  moreover have "load_storage demo_host demo_environment ''/bin/core'' = ([], ''/tmp'')"
    by (simp add: load_storage_def demo_settings demo_host_def)
  moreover have "load_workers demo_environment ''/bin/core'' = ([], 4)" "load_chunk demo_environment ''/bin/core'' = ([], 0)"
    by (simp_all add: load_workers_def load_chunk_def demo_settings demo_numbers maxHealWorkers_def)
  moreover have "load_basic demo_environment = ([], ''ops'', ''correct-horse'')"
    by (simp add: load_basic_def demo_settings)
  ultimately show ?thesis by (simp add: Load_def)
qed

lemma nothing_set_is_refused:
  "Load demo_host (\<lambda>_. None) = Inl [DatabaseMissing, NetworkMissing, TokenMissing]"
  by (simp add: Load_def setting_def load_database_def load_network_def load_token_def load_rpc_def load_port_def load_start_def
      load_core_def load_archives_def load_storage_def load_workers_def load_chunk_def load_basic_def validateAdminToken_def
      NetworkTestnet_def NetworkMainnet_def defaultRPCURLs_def defaultArchiveURLs_def)

section \<open>Properties\<close>

text \<open>C33: \<open>Load\<close> accepts exactly the acceptable environments. A configuration that loads is one the
  process can run with (a Postgres URL, a known network, a token of the required entropy, at least one
  valid endpoint and archive, a real port, an archive leg that is either off and untuned or backed by an
  executable with 1 to 16 workers and chunks of at least a checkpoint, a gate with a real password), and
  it holds what the variables say or the default; an environment that is refused is reported with at
  least one problem.\<close>

theorem configuration_accepted_exactly:
  "case Load h lookup of
     Inl errs \<Rightarrow> errs \<noteq> [] \<and> \<not> acceptable h lookup
   | Inr c \<Rightarrow> acceptable h lookup \<and> runnable h c \<and> honours h lookup c"
proof (cases "Load h lookup")
  case (Inl errs)
  then show ?thesis using Load_cases [of h lookup] by (auto simp: no_problems [symmetric])
next
  case (Inr c)
  then show ?thesis
    using Load_no_problems [OF Inr] by (simp add: Load_runnable Load_honours no_problems [symmetric])
qed

text \<open>The rendering for the logs does not depend on a secret. Changing the admin token, the gate's
  password, the storage path and, by any rewriting that keeps scheme and host, the endpoint and archive
  URLs (whose paths may hold a provider's key), leaves the text as it is. The database URL appears as
  \<open>url.Redacted\<close> renders it.\<close>

theorem redaction_hides_secrets:
  assumes "\<And>u. origin h (rewrite u) = origin h u"
  shows "Redacted h (c\<lparr>cf_AdminToken := token, cf_BasicAuthPassword := password, cf_CaptiveStoragePath := path,
           cf_RPCURLs := map rewrite (cf_RPCURLs c), cf_ArchiveURLs := map rewrite (cf_ArchiveURLs c)\<rparr>)
         = Redacted h c"
  using assms by (simp add: Redacted_def ArchiveEnabled_def BasicAuthEnabled_def comp_def)

theorem redaction_hides_secrets_witness:
  "Redacted demo_host \<lparr>cf_DatabaseURL = ''postgres://db'', cf_Network = ''testnet'', cf_AdminToken = ''rotated'',
     cf_RPCURLs = map (\<lambda>u. if u = ''https://a/k1'' then ''https://a/k2'' else u) [''https://a/k1''], cf_HTTPPort = 80, cf_StartLedger = 0,
     cf_CoreBinary = '''', cf_ArchiveURLs = [], cf_CaptiveStoragePath = ''/x'', cf_HealWorkers = 0, cf_HealChunkLedgers = 0,
     cf_BasicAuthUser = '''', cf_BasicAuthPassword = ''''\<rparr>
   = Redacted demo_host \<lparr>cf_DatabaseURL = ''postgres://db'', cf_Network = ''testnet'', cf_AdminToken = ''secret'',
     cf_RPCURLs = [''https://a/k1''], cf_HTTPPort = 80, cf_StartLedger = 0,
     cf_CoreBinary = '''', cf_ArchiveURLs = [], cf_CaptiveStoragePath = ''/y'', cf_HealWorkers = 0, cf_HealChunkLedgers = 0,
     cf_BasicAuthUser = '''', cf_BasicAuthPassword = ''''\<rparr>"
proof -
  have same: "origin demo_host (if u = ''https://a/k1'' then ''https://a/k2'' else u) = origin demo_host u" for u
    by (simp add: origin_def demo_host_def)
  show ?thesis
    using redaction_hides_secrets [OF same, where c = "\<lparr>cf_DatabaseURL = ''postgres://db'', cf_Network = ''testnet'', cf_AdminToken = ''secret'',
     cf_RPCURLs = [''https://a/k1''], cf_HTTPPort = 80, cf_StartLedger = 0,
     cf_CoreBinary = '''', cf_ArchiveURLs = [], cf_CaptiveStoragePath = ''/y'', cf_HealWorkers = 0, cf_HealChunkLedgers = 0,
     cf_BasicAuthUser = '''', cf_BasicAuthPassword = ''''\<rparr>" and token = "''rotated''" and password = "''''" and path = "''/x''"]
    by simp
qed

end
