(* ===== verification/Cmd.thy ===== *)
theory Cmd
  imports Config Admin Source_Rpc Ingest_Heal Ingest_Loop
begin

text \<open>
  \<^verbatim>\<open>cmd/sierpe/main.go\<close>: the commands and their exit codes, the container probe, the pooler hint, and
  the boot sequence of \<open>run\<close> up to the point where everything is started: what is checked in which
  order, which component gets which setting, and which workers run in which mode. Arguments: the
  environment and file system, the database behind the URL with its migration files, the RPC
  endpoints, and the SDK's captive-core configuration.
\<close>

section \<open>Commands\<close>

datatype command = Version | Healthcheck | Run bool | NotBuilt | UnknownCommand

definition command_of :: "string list \<Rightarrow> command" where
  "command_of args =
     (let cmd = (if length args > 1 then args ! 1 else ''run'')
      in if cmd = ''version'' then Version
         else if cmd = ''healthcheck'' then Healthcheck
         else if cmd = ''run'' then Run True
         else if cmd = ''serve'' then Run False
         else if cmd \<in> {''replay'', ''rederive'', ''reseed''} then NotBuilt
         else UnknownCommand)"

text \<open>The exit code, given whether the probe or the appliance ended without an error.\<close>

definition exit_code :: "command \<Rightarrow> bool \<Rightarrow> nat" where
  "exit_code c ok =
     (case c of
        Version \<Rightarrow> 0
      | Healthcheck \<Rightarrow> if ok then 0 else 1
      | Run _ \<Rightarrow> if ok then 0 else 1
      | NotBuilt \<Rightarrow> 1
      | UnknownCommand \<Rightarrow> 2)"

definition healthcheck_url :: "environment \<Rightarrow> string" where
  "healthcheck_url getenv =
     (let p = setting getenv ''HTTP_PORT''; port = (if p \<noteq> '''' then p else ''8080'')
      in ''http://127.0.0.1:'' @ port @ ''/health'')"

text \<open>\<open>get\<close> answers with a status code, or not at all.\<close>

definition probe :: "(string \<Rightarrow> nat option) \<Rightarrow> string \<Rightarrow> bool" where
  "probe get url = (case get url of None \<Rightarrow> False | Some status \<Rightarrow> status = 200)"

definition healthcheck :: "(string \<Rightarrow> nat option) \<Rightarrow> environment \<Rightarrow> bool" where
  "healthcheck get getenv = probe get (healthcheck_url getenv)"

text \<open>The SQLSTATE of the Postgres error in the chain, if there is one.\<close>

definition poolerHint :: "string option \<Rightarrow> bool" where
  "poolerHint sqlstate =
     (case sqlstate of None \<Rightarrow> False | Some s \<Rightarrow> s = ''26000'' \<or> s = ''42P05'')"

section \<open>Boot\<close>

datatype boot_error =
    Misconfigured "config_error list"
  | DatabaseUnreachable
  | MigrationFailed store_error
  | RegistryUnread
  | PoolEmpty
  | WrongChain client_error
  | ArchiveRefused string

record world =
  w_host :: host
  w_getenv :: environment
  w_open :: "string \<Rightarrow> (string list \<times> db) option"
  w_exec :: "string \<Rightarrow> db \<Rightarrow> store_error + db"
  w_migrations :: "string list"
  w_registry_read :: bool
  w_endpoints :: network
  w_core_toml :: "CaptiveCoreTomlParams \<Rightarrow> string + string"

datatype background =
    FeedStatus string
  | ReloadRegistry string
  | FeedFailovers
  | BackfillWorker string string
  | HealWorker string string "string CaptiveCoreConfig" Healer
  | LoopWorker Ingest_Loop.Config string

record appliance =
  bt_config :: Config_boot
  bt_db :: db
  bt_registry :: Snapshot
  bt_client :: Client
  bt_addr :: string
  bt_workers :: "background list"

definition new_state :: State where
  "new_state = \<lparr>h_ready = False, h_cursor = 0, h_latestKnown = 0, h_tipLagMilli = 0, h_openGaps = 0,
     h_deferredGaps = 0, h_deferredLedgers = 0, h_failovers = 0, h_pendingBackfills = 0, h_archive = None\<rparr>"

definition ingestion_workers :: "world \<Rightarrow> Config_boot \<Rightarrow> db \<Rightarrow> boot_error + background list" where
  "ingestion_workers w cfg d =
     (let network = cf_Network cfg; passphrase = Passphrase network
      in andThen
        (if \<not> ArchiveEnabled cfg then Inr []
         else case NewCaptiveSource (w_core_toml w) \<lparr>cc_BinaryPath = cf_CoreBinary cfg, cc_Passphrase = passphrase,
                cc_ArchiveURLs = cf_ArchiveURLs cfg, cc_StoragePath = cf_CaptiveStoragePath cfg\<rparr> of
                Inl e \<Rightarrow> Inl (ArchiveRefused e)
              | Inr core \<Rightarrow> Inr [HealWorker network passphrase core
                  (NewHealer (cf_HealChunkLedgers cfg) (cf_HealWorkers cfg) NewMetrics new_state d)])
        (\<lambda>healers. Inr ([FeedFailovers, BackfillWorker network passphrase] @ healers
           @ [LoopWorker \<lparr>cfg_Network = network, cfg_StartLedger = cf_StartLedger cfg\<rparr> passphrase])))"

definition boot :: "world \<Rightarrow> bool \<Rightarrow> boot_error + appliance" where
  "boot w withIngestion =
     (case Load (w_host w) (w_getenv w) of
        Inl errs \<Rightarrow> Inl (Misconfigured errs)
      | Inr cfg \<Rightarrow>
     (case w_open w (cf_DatabaseURL cfg) of
        None \<Rightarrow> Inl DatabaseUnreachable
      | Some st \<Rightarrow>
     (case Migrate (w_exec w) (w_migrations w) st of
        Inl e \<Rightarrow> Inl (MigrationFailed e)
      | Inr (_, d) \<Rightarrow>
      if \<not> w_registry_read w then Inl RegistryUnread else
     (let network = cf_Network cfg; reg = Reload network d in
     (case New (cf_RPCURLs cfg) of
        None \<Rightarrow> Inl PoolEmpty
      | Some src \<Rightarrow>
     (case (if withIngestion then (Inr (), src) else VerifyNetwork (w_endpoints w) (Passphrase network) src) of
        (Inl e, _) \<Rightarrow> Inl (WrongChain e)
      | (Inr _, src) \<Rightarrow>
      andThen (if withIngestion then ingestion_workers w cfg d else Inr []) (\<lambda>ingestion.
        Inr \<lparr>bt_config = cfg, bt_db = d, bt_registry = reg, bt_client = src,
             bt_addr = CHR '':'' # dec_int (cf_HTTPPort cfg),
             bt_workers = [FeedStatus network, ReloadRegistry network] @ ingestion\<rparr>)))))))"

text \<open>Whether a request gets past the front of the server.\<close>

definition admitted :: "(string \<Rightarrow> string) \<Rightarrow> appliance \<Rightarrow> string \<Rightarrow> (string \<times> string) option \<Rightarrow> string \<Rightarrow> bool" where
  "admitted sha256 a path basic header \<longleftrightarrow>
     (if BasicAuthEnabled (bt_config a)
      then Wrap sha256 (cf_BasicAuthUser (bt_config a)) (cf_BasicAuthPassword (bt_config a))
             (cf_AdminToken (bt_config a)) path basic header
      else True)"

section \<open>Lemmas\<close>

lemma boot_cases:
  assumes "boot w ingest = Inr a"
  obtains st applied d src where "Load (w_host w) (w_getenv w) = Inr (bt_config a)"
    and "w_open w (cf_DatabaseURL (bt_config a)) = Some st"
    and "Migrate (w_exec w) (w_migrations w) st = Inr (applied, bt_db a)"
    and "New (cf_RPCURLs (bt_config a)) = Some src"
    and "(if ingest then (Inr (), src) else VerifyNetwork (w_endpoints w) (Passphrase (cf_Network (bt_config a))) src)
           = (Inr (), bt_client a)"
    and "(if ingest then ingestion_workers w (bt_config a) (bt_db a) else Inr []) = Inr d"
    and "bt_registry a = Reload (cf_Network (bt_config a)) (bt_db a)"
    and "bt_addr a = CHR '':'' # dec_int (cf_HTTPPort (bt_config a))"
    and "bt_workers a = [FeedStatus (cf_Network (bt_config a)), ReloadRegistry (cf_Network (bt_config a))] @ d"
proof -
  obtain cfg where l: "Load (w_host w) (w_getenv w) = Inr cfg"
    using assms by (cases "Load (w_host w) (w_getenv w)") (simp_all add: boot_def)
  note booted = assms [unfolded boot_def l sum.case]
  obtain st where o: "w_open w (cf_DatabaseURL cfg) = Some st"
    using booted by (cases "w_open w (cf_DatabaseURL cfg)") simp_all
  note booted = booted [unfolded o option.case]
  obtain applied d where m: "Migrate (w_exec w) (w_migrations w) st = Inr (applied, d)"
    using booted by (cases "Migrate (w_exec w) (w_migrations w) st") auto
  note booted = booted [unfolded m sum.case prod.case Let_def]
  obtain src where n: "New (cf_RPCURLs cfg) = Some src"
    using booted by (cases "New (cf_RPCURLs cfg)") (simp_all split: if_splits)
  note booted = booted [unfolded n option.case]
  let ?v = "if ingest then (Inr (), src) else VerifyNetwork (w_endpoints w) (Passphrase (cf_Network cfg)) src"
  obtain r c where rc: "?v = (r, c)" by (cases ?v)
  have "r = Inr ()" using booted [unfolded rc] by (cases r) (auto split: if_splits)
  then have v: "?v = (Inr (), c)" using rc by (simp only:)
  note booted = booted [unfolded v prod.case sum.case]
  obtain ws where i: "(if ingest then ingestion_workers w cfg d else Inr []) = Inr ws"
    using booted by (cases "if ingest then ingestion_workers w cfg d else Inr []") (auto simp: andThen_def split: if_splits)
  have a: "bt_config a = cfg" "bt_db a = d" "bt_registry a = Reload (cf_Network cfg) d" "bt_client a = c"
      "bt_addr a = CHR '':'' # dec_int (cf_HTTPPort cfg)"
      "bt_workers a = [FeedStatus (cf_Network cfg), ReloadRegistry (cf_Network cfg)] @ ws"
    using booted by (auto simp: i andThen_def split: if_splits)
  show thesis by (rule that [of st applied src ws]) (simp_all only: a l o m n v i)
qed

text \<open>A worker is wired to the network of the configuration, to its passphrase, and to its tuning.\<close>

fun wired :: "appliance \<Rightarrow> background \<Rightarrow> bool" where
  "wired a (FeedStatus n) \<longleftrightarrow> n = cf_Network (bt_config a)"
| "wired a (ReloadRegistry n) \<longleftrightarrow> n = cf_Network (bt_config a)"
| "wired a FeedFailovers \<longleftrightarrow> True"
| "wired a (BackfillWorker n p) \<longleftrightarrow> n = cf_Network (bt_config a) \<and> p = Passphrase n"
| "wired a (HealWorker n p core h) \<longleftrightarrow>
     n = cf_Network (bt_config a) \<and> p = Passphrase n \<and> ArchiveEnabled (bt_config a)
     \<and> qc_BinaryPath core = cf_CoreBinary (bt_config a) \<and> qc_NetworkPassphrase core = p
     \<and> qc_HistoryArchiveURLs core = cf_ArchiveURLs (bt_config a)
     \<and> qc_StoragePath core = Join (cf_CaptiveStoragePath (bt_config a)) ''sierpe-captive''
     \<and> 1 \<le> hl_workers h \<and> hl_workers h \<le> maxHealWorkers \<and> 64 \<le> uint (hl_chunk h)
     \<and> \<not> hl_verified h \<and> hl_db h = bt_db a"
| "wired a (LoopWorker cfg p) \<longleftrightarrow>
     cfg = \<lparr>cfg_Network = cf_Network (bt_config a), cfg_StartLedger = cf_StartLedger (bt_config a)\<rparr>
     \<and> p = Passphrase (cf_Network (bt_config a))"

fun ingests :: "background \<Rightarrow> bool" where
  "ingests (FeedStatus _) = False"
| "ingests (ReloadRegistry _) = False"
| "ingests _ = True"

fun heals :: "background \<Rightarrow> bool" where
  "heals (HealWorker _ _ _ _) = True"
| "heals _ = False"

lemma NewHealer_bounds:
  assumes "0 \<le> workers" and "workers \<le> 16" and "chunk = 0 \<or> 64 \<le> uint chunk"
  shows "1 \<le> hl_workers (NewHealer chunk workers m s d) \<and> hl_workers (NewHealer chunk workers m s d) \<le> maxHealWorkers
     \<and> 64 \<le> uint (hl_chunk (NewHealer chunk workers m s d)) \<and> \<not> hl_verified (NewHealer chunk workers m s d)
     \<and> hl_db (NewHealer chunk workers m s d) = d"
  using assms by (auto simp: NewHealer_def maxHealWorkers_def defaultHealChunkLedgers_def)

lemma ingestion_workers_wired:
  assumes "ingestion_workers w (bt_config a) (bt_db a) = Inr ws" and "runnable (w_host w) (bt_config a)"
  shows "list_all (wired a) ws \<and> list_all ingests ws \<and> ws \<noteq> []
     \<and> (list_ex heals ws \<longleftrightarrow> ArchiveEnabled (bt_config a))"
proof (cases "ArchiveEnabled (bt_config a)")
  case True
  then have "1 \<le> hl_workers h \<and> hl_workers h \<le> maxHealWorkers \<and> 64 \<le> uint (hl_chunk h) \<and> \<not> hl_verified h \<and> hl_db h = bt_db a"
    if "h = NewHealer (cf_HealChunkLedgers (bt_config a)) (cf_HealWorkers (bt_config a)) NewMetrics new_state (bt_db a)" for h
    using assms(2) that NewHealer_bounds by (simp add: runnable_def archive_leg_ok_def)
  then show ?thesis
    using assms(1) True by (auto simp: ingestion_workers_def NewCaptiveSource_def andThen_def Let_def split: if_splits sum.splits)
qed (use assms(1) in \<open>auto simp: ingestion_workers_def andThen_def Let_def\<close>)

section \<open>Properties\<close>

text \<open>C34: An appliance that boots runs on a configuration that passed every check, watches the
  registrations of its migrated database, and has every worker wired to the network, passphrase and
  tuning of that configuration. Without ingestion nothing but the status feed and the registry reload
  runs, and the endpoints' network has been verified; with ingestion the gap healer runs exactly when
  the archive leg is configured, unverified, with 1 to 16 workers and chunks of at least a checkpoint.\<close>

theorem boot_wires_the_configuration:
  assumes "boot w ingest = Inr a"
  shows "runnable (w_host w) (bt_config a) \<and> honours (w_host w) (w_getenv w) (bt_config a)
    \<and> bt_registry a = Reload (cf_Network (bt_config a)) (bt_db a)
    \<and> list_all (wired a) (bt_workers a)
    \<and> (list_ex ingests (bt_workers a) \<longleftrightarrow> ingest)
    \<and> (list_ex heals (bt_workers a) \<longleftrightarrow> ingest \<and> ArchiveEnabled (bt_config a))
    \<and> (ingest \<or> (\<exists>src. VerifyNetwork (w_endpoints w) (Passphrase (cf_Network (bt_config a))) src = (Inr (), bt_client a)))"
  using assms
proof (rule boot_cases)
  fix st applied ws src
  assume loaded: "Load (w_host w) (w_getenv w) = Inr (bt_config a)"
    and verified: "(if ingest then (Inr (), src) else VerifyNetwork (w_endpoints w) (Passphrase (cf_Network (bt_config a))) src)
           = (Inr (), bt_client a)"
    and started: "(if ingest then ingestion_workers w (bt_config a) (bt_db a) else Inr []) = Inr ws"
    and reg: "bt_registry a = Reload (cf_Network (bt_config a)) (bt_db a)"
    and workers: "bt_workers a = [FeedStatus (cf_Network (bt_config a)), ReloadRegistry (cf_Network (bt_config a))] @ ws"
  note fit = Load_runnable [OF loaded]
  have "list_all (wired a) ws \<and> (list_ex ingests ws \<longleftrightarrow> ingest) \<and> (list_ex heals ws \<longleftrightarrow> ingest \<and> ArchiveEnabled (bt_config a))"
  proof (cases ingest)
    case True
    with ingestion_workers_wired [OF _ fit] started show ?thesis by (cases ws) auto
  qed (use started in auto)
  then show ?thesis
    using fit Load_honours [OF loaded] reg verified by (auto simp: workers)
qed

definition demo_world :: world where
  "demo_world =
     \<lparr>w_host = demo_host, w_getenv = demo_environment, w_open = (\<lambda>_. Some ([], demo_db)), w_exec = (\<lambda>_ d. Inr d),
      w_migrations = [''001_init.sql''], w_registry_read = True, w_endpoints = (\<lambda>_ _. PostFailed),
      w_core_toml = (\<lambda>_. Inr ''core.toml'')\<rparr>"

lemma demo_boots:
  "\<exists>a. boot demo_world True = Inr a \<and> ArchiveEnabled (bt_config a) \<and> bt_addr a = CHR '':'' # dec_int 8080"
  by (simp add: boot_def demo_world_def demo_environment_loads Migrate_def MigrationNames_def migrate_one_def New_def
      ingestion_workers_def ArchiveEnabled_def NewCaptiveSource_def andThen_def Let_def)

lemma dec_8080: "dec_int 8080 = ''8080''"
proof -
  have "char_of (56::nat) = CHR ''8''" "char_of (48::nat) = CHR ''0''" by code_simp+
  then show ?thesis
    by (simp add: dec_int_def dec.simps [of 8080] dec.simps [of 808] dec.simps [of 80] dec.simps [of 8] digit_char_def)
qed

theorem boot_wires_the_configuration_witness:
  "\<exists>a. boot demo_world True = Inr a \<and> list_ex heals (bt_workers a) \<and> list_all (wired a) (bt_workers a)"
proof -
  obtain a where a: "boot demo_world True = Inr a" "ArchiveEnabled (bt_config a)" using demo_boots by blast
  with boot_wires_the_configuration [OF a(1)] show ?thesis by blast
qed

text \<open>The container probe goes to the port the server listens on when \<open>HTTP_PORT\<close> is written the way
  a number is printed. The server's parser also takes a sign, and then the probe's address is not one a
  client can dial, so the container is unhealthy while the server answers.\<close>

lemma probe_reaches_listener:
  assumes "boot w ingest = Inr a"
    and "w_getenv w ''HTTP_PORT'' = None \<or> (\<exists>n. w_getenv w ''HTTP_PORT'' = Some (dec n))"
  shows "healthcheck_url (w_getenv w) = ''http://127.0.0.1'' @ bt_addr a @ ''/health''"
  using assms(1)
proof (rule boot_cases)
  assume l: "Load (w_host w) (w_getenv w) = Inr (bt_config a)"
    and addr: "bt_addr a = CHR '':'' # dec_int (cf_HTTPPort (bt_config a))"
  note h = Load_honours [OF l, unfolded honours_def Let_def] Load_runnable [OF l, unfolded runnable_def]
  show ?thesis
  proof (cases "w_getenv w ''HTTP_PORT''")
    case None
    then have "cf_HTTPPort (bt_config a) = 8080" using h by (simp add: setting_def)
    then show ?thesis using None addr dec_8080 by (simp add: healthcheck_url_def setting_def)
  next
    case (Some s)
    with assms(2) obtain n where s: "setting (w_getenv w) ''HTTP_PORT'' = dec n" by (auto simp: setting_def)
    then have p: "Some (cf_HTTPPort (bt_config a)) = ParseInt (dec n)" using h by simp
    then have "cf_HTTPPort (bt_config a) = int n"
      using digits_no_sign [OF digits_dec [of n]] by (simp add: ParseInt_def Let_def split: if_splits)
    then show ?thesis using addr s by (simp add: healthcheck_url_def dec_int_def)
  qed
qed

theorem healthcheck_misses_signed_port:
  "\<exists>a. boot demo_world True = Inr a \<and> bt_addr a = '':8080''
     \<and> healthcheck_url (w_getenv demo_world) = ''http://127.0.0.1:+8080/health''"
  using demo_boots by (auto simp: dec_8080 healthcheck_url_def demo_world_def demo_settings)

end
