(* ===== verification/Http.thy ===== *)
theory Http
  imports Http_Mux Cmd Api_Rows
begin

text \<open>
  The HTTP surface of the process: the routes every component mounts on the one multiplexer of
  \<^verbatim>\<open>cmd/sierpe/main.go\<close>, the optional gate in front of it, and what a request is answered with
  and does to the process. A response keeps its status, content type and body as a value; the JSON
  rendering of that value and the metrics text are library code. A database that is gone for the
  whole request is part of the model, and so is one that goes away between the writes of a
  registration.
\<close>

section \<open>Requests and responses\<close>

record request =
  hq_Method :: string
  hq_EscapedPath :: string
  hq_BasicAuth :: "(string \<times> string) option"
  hq_Authorization :: string
  hq_Query :: params
  hq_Body :: string

datatype body =
    Empty
  | Text string
  | Page
  | Location string
  | Allow "string list"
  | Instruments Metrics
  | Status_json Status
  | Error_json string
  | Refused http_error
  | Refused_admin admin_error
  | Registered contractResponse
  | Planned PlanResult
  | Contracts "contractSummary list"
  | Detail contractDetail
  | Events eventsResponse
  | State_page "stateEntryRecord snapshot_response"
  | State_changes "stateChangeRecord history_response"
  | Transfers "transferRecord history_response"
  | Trustlines "trustlineEntryRecord snapshot_response"
  | Trustline_changes "trustlineChangeRecord history_response"
  | Movements "movementRecord history_response"

record response =
  rp_Status :: nat
  rp_Type :: "string option"
  rp_Body :: body

text \<open>A response whose content type the program leaves to the library, and the three it writes.\<close>

definition untyped :: "nat \<Rightarrow> body \<Rightarrow> response" where
  "untyped status b = \<lparr>rp_Status = status, rp_Type = None, rp_Body = b\<rparr>"

definition http_text :: "nat \<Rightarrow> body \<Rightarrow> response" where
  "http_text status b = \<lparr>rp_Status = status, rp_Type = Some ''text/plain; charset=utf-8'', rp_Body = b\<rparr>"

definition writeJSON :: "nat \<Rightarrow> body \<Rightarrow> response" where
  "writeJSON status v = \<lparr>rp_Status = status, rp_Type = Some ''application/json'', rp_Body = v\<rparr>"

definition writeError :: "nat \<Rightarrow> string \<Rightarrow> response" where
  "writeError status msg = writeJSON status (Error_json msg)"

definition serverError :: response where
  "serverError = writeError 500 ''internal error; see server logs''"

section \<open>Routes\<close>

datatype endpoint =
    Health_probe | Ready_probe | Status_page | Metrics_page
  | Admin_register | Admin_delete | Admin_plan
  | Contract_list | Contract_detail | Contract_events
  | State_snapshot | State_history | Transfer_history
  | Trustline_snapshot | Trustline_history | Movement_history
  | Management_page

definition Register_health :: "endpoint mux option \<Rightarrow> endpoint mux option" where
  "Register_health = Handle ''GET /metrics'' Metrics_page \<circ> Handle ''GET /status'' Status_page
     \<circ> Handle ''GET /ready'' Ready_probe \<circ> Handle ''GET /health'' Health_probe"

definition Register_admin :: "endpoint mux option \<Rightarrow> endpoint mux option" where
  "Register_admin = Handle ''POST /v1/admin/gaps/plan'' Admin_plan
     \<circ> Handle ''DELETE /v1/contracts/{id}'' Admin_delete \<circ> Handle ''POST /v1/contracts'' Admin_register"

definition Register_api :: "endpoint mux option \<Rightarrow> endpoint mux option" where
  "Register_api = Handle ''GET /v1/contracts/{id}/events'' Contract_events
     \<circ> Handle ''GET /v1/contracts/{id}'' Contract_detail \<circ> Handle ''GET /v1/contracts'' Contract_list"

definition RegisterState :: "endpoint mux option \<Rightarrow> endpoint mux option" where
  "RegisterState = Handle ''GET /v1/contracts/{id}/state/history'' State_history
     \<circ> Handle ''GET /v1/contracts/{id}/state'' State_snapshot"

definition RegisterTransfers :: "endpoint mux option \<Rightarrow> endpoint mux option" where
  "RegisterTransfers = Handle ''GET /v1/contracts/{id}/transfers'' Transfer_history"

definition RegisterTrustlines :: "endpoint mux option \<Rightarrow> endpoint mux option" where
  "RegisterTrustlines = Handle ''GET /v1/contracts/{id}/trustlines/history'' Trustline_history
     \<circ> Handle ''GET /v1/contracts/{id}/trustlines'' Trustline_snapshot"

definition RegisterMovements :: "endpoint mux option \<Rightarrow> endpoint mux option" where
  "RegisterMovements = Handle ''GET /v1/contracts/{id}/movements'' Movement_history"

definition Register_ui :: "endpoint mux option \<Rightarrow> endpoint mux option" where
  "Register_ui = Handle ''GET /{$}'' Management_page"

text \<open>The multiplexer as \<open>run\<close> fills it, \<open>None\<close> if a registration panics.\<close>

definition process_mux :: "endpoint mux option" where
  "process_mux = (Register_ui \<circ> RegisterMovements \<circ> RegisterTrustlines \<circ> RegisterTransfers \<circ> RegisterState
     \<circ> Register_api \<circ> Register_admin \<circ> Register_health) (Some [])"

definition routes :: "endpoint mux" where
  "routes = map (\<lambda>(k, ps, e). (\<lparr>pt_Method = k, pt_Segs = ps\<rparr>, e))
     [(''GET'', [Lit ''health''], Health_probe), (''GET'', [Lit ''ready''], Ready_probe),
      (''GET'', [Lit ''status''], Status_page), (''GET'', [Lit ''metrics''], Metrics_page),
      (''POST'', [Lit ''v1'', Lit ''contracts''], Admin_register),
      (''DELETE'', [Lit ''v1'', Lit ''contracts'', Wild ''id''], Admin_delete),
      (''POST'', [Lit ''v1'', Lit ''admin'', Lit ''gaps'', Lit ''plan''], Admin_plan),
      (''GET'', [Lit ''v1'', Lit ''contracts''], Contract_list),
      (''GET'', [Lit ''v1'', Lit ''contracts'', Wild ''id''], Contract_detail),
      (''GET'', [Lit ''v1'', Lit ''contracts'', Wild ''id'', Lit ''events''], Contract_events),
      (''GET'', [Lit ''v1'', Lit ''contracts'', Wild ''id'', Lit ''state''], State_snapshot),
      (''GET'', [Lit ''v1'', Lit ''contracts'', Wild ''id'', Lit ''state'', Lit ''history''], State_history),
      (''GET'', [Lit ''v1'', Lit ''contracts'', Wild ''id'', Lit ''transfers''], Transfer_history),
      (''GET'', [Lit ''v1'', Lit ''contracts'', Wild ''id'', Lit ''trustlines''], Trustline_snapshot),
      (''GET'', [Lit ''v1'', Lit ''contracts'', Wild ''id'', Lit ''trustlines'', Lit ''history''], Trustline_history),
      (''GET'', [Lit ''v1'', Lit ''contracts'', Wild ''id'', Lit ''movements''], Movement_history),
      (''GET'', [Lit ''/''], Management_page)]"

lemma process_mux_routes: "process_mux = Some routes"
  by (simp add: process_mux_def Register_health_def Register_admin_def Register_api_def RegisterState_def
      RegisterTransfers_def RegisterTrustlines_def RegisterMovements_def Register_ui_def Handle_def parsePattern_def
      slash_def seg_of_def conflictsWith_def less_seg_def routes_def)

section \<open>Handlers\<close>

text \<open>What stays fixed while the process runs, what the moment of a request brings, and what a request
  reads and writes.\<close>

record outside =
  ou_sha256 :: "string \<Rightarrow> string"
  ou_chain :: chain
  ou_sdk :: sdk
  ou_Version :: string
  ou_StartedAt :: int

record occasion =
  oc_Now :: int
  oc_Database :: database
  oc_Reloads :: bool

record server =
  sv_admin :: admin
  sv_state :: State
  sv_metrics :: Metrics

text \<open>The statements of a read find one state of the database here, since requests and writers follow one
  another; the handlers themselves take one state per statement. The status of a refusal, and the response of an admin handler.\<close>

definition admin_status :: "admin_error \<Rightarrow> nat" where
  "admin_status e = (case e of NoLiveContract _ \<Rightarrow> 404 | ChainUnreachable \<Rightarrow> 502 | _ \<Rightarrow> 400)"

definition admin_response :: "admin_error + response \<Rightarrow> response" where
  "admin_response r =
     (case r of
        Inl Unauthorized \<Rightarrow> writeError 401 ''missing or invalid bearer token''
      | Inl RegistrationFailed \<Rightarrow> writeError 500 ''registration failed; see server logs''
      | Inl (PlanningFailed _) \<Rightarrow> writeError 500 ''planning failed; see server logs''
      | Inl e \<Rightarrow> writeJSON (admin_status e) (Refused_admin e)
      | Inr resp \<Rightarrow> resp)"

definition register_request :: "outside \<Rightarrow> string \<Rightarrow> string \<Rightarrow> occasion \<Rightarrow> admin \<Rightarrow> (admin_error + response) \<times> admin" where
  "register_request ext network body oc s =
     (case handleRegister (ou_chain ext) network body (oc_Now oc) (oc_Database oc) (oc_Reloads oc) s of
        (r, s') \<Rightarrow> (map_sum id (\<lambda>c. writeJSON 200 (Registered c)) r, s'))"

definition delete_request :: "outside \<Rightarrow> string \<Rightarrow> string \<Rightarrow> occasion \<Rightarrow> admin \<Rightarrow> (admin_error + response) \<times> admin" where
  "delete_request ext network cid oc s =
     (if oc_Database oc = Answering then
        (case handleDelete (ou_chain ext) network cid (oc_Reloads oc) s of
           (r, s') \<Rightarrow> (map_sum id (\<lambda>_. untyped 204 Empty) r, s'))
      else if \<not> is_address (ou_chain ext) cid then (Inl (InvalidContract cid), s)
      else (Inr (writeError 500 ''unregistration failed; see server logs''), s))"

definition plan_request :: "string \<Rightarrow> string \<Rightarrow> occasion \<Rightarrow> admin \<Rightarrow> (admin_error + response) \<times> admin" where
  "plan_request network body oc s =
     (if oc_Database oc = Answering then
        (case handlePlan network body (oc_Now oc) s of
           (r, s') \<Rightarrow> (map_sum id (\<lambda>res. writeJSON 200 (Planned res)) r, s'))
      else (case andThen (decode_body maxPlanBodyBytes set_planRequest \<lparr>pq_Replay = [], pq_Padding = None\<rparr> body) check_plan of
              Inl e \<Rightarrow> (Inl e, s)
            | Inr _ \<Rightarrow> (Inr (writeError 500 ''planning failed; see server logs''), s)))"

definition guarded ::
  "outside \<Rightarrow> appliance \<Rightarrow> request \<Rightarrow> (admin \<Rightarrow> (admin_error + response) \<times> admin) \<Rightarrow> server \<Rightarrow> response \<times> server"
where
  "guarded ext a rq h sv =
     (case auth (ou_sha256 ext) (cf_AdminToken (bt_config a)) (hq_Authorization rq) h (sv_admin sv) of
        (r, s) \<Rightarrow> (admin_response r, sv\<lparr>sv_admin := s\<rparr>))"

text \<open>The reads: a refusal, a page, or a 500 when the database does not answer. Whether the path names
  a contract address is asked before the database is.\<close>

definition api_status :: "http_error \<Rightarrow> nat" where
  "api_status e = (case e of BadRequest _ \<Rightarrow> 400 | NotRegistered _ \<Rightarrow> 404)"

definition api_response :: "outside \<Rightarrow> occasion \<Rightarrow> string \<Rightarrow> http_error + 'r \<Rightarrow> ('r \<Rightarrow> body) \<Rightarrow> response" where
  "api_response ext oc cid r f =
     (if oc_Database oc \<noteq> Answering \<and> isAddress (ou_sdk ext) cid then serverError
      else case r of Inl e \<Rightarrow> writeJSON (api_status e) (Refused e) | Inr x \<Rightarrow> writeJSON 200 (f x))"

definition read_endpoint :: "outside \<Rightarrow> appliance \<Rightarrow> occasion \<Rightarrow> endpoint \<Rightarrow> string \<Rightarrow> params \<Rightarrow> server \<Rightarrow> response" where
  "read_endpoint ext a oc e cid p sv =
     (let n = cf_Network (bt_config a); d = ad_db (sv_admin sv); k = ou_sdk ext in
      case e of
        Health_probe \<Rightarrow> untyped 200 Empty
      | Ready_probe \<Rightarrow>
          if ready_status (sv_state sv) = 200 then untyped 200 Empty
          else http_text (ready_status (sv_state sv)) (Text ''catching up'')
      | Status_page \<Rightarrow> writeJSON 200 (Status_json (snapshot (ou_Version ext) n (ou_StartedAt ext) (sv_state sv)))
      | Metrics_page \<Rightarrow> untyped 200 (Instruments (sv_metrics sv))
      | Contract_list \<Rightarrow> if oc_Database oc \<noteq> Answering then serverError else writeJSON 200 (Contracts (handleContractList n d))
      | Contract_detail \<Rightarrow> api_response ext oc cid (handleContract k n cid d) Detail
      | Contract_events \<Rightarrow> api_response ext oc cid (handleEvents k n p cid (quiet d)) Events
      | State_snapshot \<Rightarrow> api_response ext oc cid (handleStateSnapshot k n p cid (quiet d)) State_page
      | State_history \<Rightarrow> api_response ext oc cid (handleStateHistory k n p cid (quiet d)) State_changes
      | Transfer_history \<Rightarrow> api_response ext oc cid (handleTransfers k n p cid (quiet d)) Transfers
      | Trustline_snapshot \<Rightarrow> api_response ext oc cid (handleTrustlineSnapshot k n p cid (quiet d)) Trustlines
      | Trustline_history \<Rightarrow> api_response ext oc cid (handleTrustlineHistory k n p cid (quiet d)) Trustline_changes
      | Movement_history \<Rightarrow> api_response ext oc cid (handleMovements k n p cid (quiet d)) Movements
      | _ \<Rightarrow> \<lparr>rp_Status = 200, rp_Type = Some ''text/html; charset=utf-8'', rp_Body = Page\<rparr>)"

definition serve_endpoint :: "outside \<Rightarrow> appliance \<Rightarrow> occasion \<Rightarrow> endpoint \<Rightarrow> string list \<Rightarrow> request \<Rightarrow> server \<Rightarrow> response \<times> server" where
  "serve_endpoint ext a oc e vals rq sv =
     (let n = cf_Network (bt_config a); cid = concat (take 1 vals) in
      case e of
        Admin_register \<Rightarrow> guarded ext a rq (register_request ext n (hq_Body rq) oc) sv
      | Admin_delete \<Rightarrow> guarded ext a rq (delete_request ext n cid oc) sv
      | Admin_plan \<Rightarrow> guarded ext a rq (plan_request n (hq_Body rq) oc) sv
      | _ \<Rightarrow> (read_endpoint ext a oc e cid (hq_Query rq) sv, sv))"

text \<open>The whole server: the gate, the multiplexer, the handler. A process whose registrations panic does
  not get as far as serving.\<close>

definition mounted :: "endpoint mux" where
  "mounted = (case process_mux of Some m \<Rightarrow> m | None \<Rightarrow> [])"

definition serve :: "outside \<Rightarrow> appliance \<Rightarrow> occasion \<Rightarrow> request \<Rightarrow> server \<Rightarrow> response \<times> server" where
  "serve ext a oc rq sv =
     (if \<not> admitted (ou_sha256 ext) a (unescape (hq_EscapedPath rq)) (hq_BasicAuth rq) (hq_Authorization rq)
      then (http_text 401 (Text ''credentials required''), sv)
      else case findHandler (hq_Method rq) (hq_EscapedPath rq) mounted of
             Redirect to \<Rightarrow> (untyped 301 (Location to), sv)
           | MethodNotAllowed ms \<Rightarrow> (http_text 405 (Allow ms), sv)
           | NotFound \<Rightarrow> (http_text 404 (Text ''404 page not found''), sv)
           | Found e vals \<Rightarrow> serve_endpoint ext a oc e vals rq sv)"

section \<open>Lemmas\<close>

lemma mounted_routes: "mounted = routes"
  by (simp add: mounted_def process_mux_routes)

text \<open>A handler runs only under the method of its route.\<close>

lemma route_methods:
  assumes "(\<lparr>pt_Method = k, pt_Segs = ps\<rparr>, e) \<in> set routes" and "e \<in> {Admin_register, Admin_delete, Admin_plan}"
  shows "k = ''POST'' \<or> k = ''DELETE''"
  using assms by (auto simp: routes_def)

lemma guarded_change:
  assumes "guarded ext a rq h sv = (r, sv')"
  shows "sv_state sv' = sv_state sv \<and> sv_metrics sv' = sv_metrics sv
    \<and> (sv_admin sv' = sv_admin sv
       \<or> (\<exists>tok res. hq_Authorization rq = ''Bearer '' @ tok
            \<and> ou_sha256 ext tok = ou_sha256 ext (cf_AdminToken (bt_config a))
            \<and> h (sv_admin sv) = (res, sv_admin sv') \<and> r = admin_response res))"
proof (cases "CutPrefix (hq_Authorization rq) ''Bearer ''")
  case (Some tok)
  then have "hq_Authorization rq = ''Bearer '' @ tok"
    unfolding CutPrefix_def by (metis append_take_drop_id option.distinct(1) option.inject)
  then show ?thesis
    using assms Some by (auto simp: guarded_def auth_def tokenEqual_def split: if_splits prod.splits)
qed (use assms in \<open>auto simp: guarded_def auth_def\<close>)

text \<open>What the admin handlers leave behind when they do not succeed.\<close>

lemma register_request_failed:
  assumes "register_request ext n body oc s = (res, s')" and "s' \<noteq> s"
  shows "rp_Status (admin_response res) = 200 \<or> oc_Database oc = GoneAfterUpsert"
  using assms
  by (cases "plan_registration (ou_chain ext) body"; cases "oc_Database oc")
    (auto simp: register_request_def handleRegister_def Let_def admin_response_def writeJSON_def split: prod.splits if_splits)

lemma delete_request_failed:
  assumes "delete_request ext n cid oc s = (res, s')" and "s' \<noteq> s"
  shows "rp_Status (admin_response res) = 204"
  using assms
  by (auto simp: delete_request_def handleDelete_def admin_response_def untyped_def split: prod.splits if_splits)

lemma plan_request_failed:
  assumes "plan_request n body oc s = (res, s')" and "s' \<noteq> s"
  shows "rp_Status (admin_response res) = 200"
  using assms
  by (auto simp: plan_request_def handlePlan_def admin_response_def writeJSON_def split: prod.splits if_splits sum.splits)

lemma admin_endpoint:
  assumes "serve_endpoint ext a oc e vals rq sv = (r, sv')" and "e \<in> {Admin_register, Admin_delete, Admin_plan}"
  obtains h where "guarded ext a rq h sv = (r, sv')"
    and "\<forall>t res t'. h t = (res, t') \<longrightarrow> t' \<noteq> t \<longrightarrow>
      rp_Status (admin_response res) \<in> {200, 204} \<or> oc_Database oc = GoneAfterUpsert"
proof -
  let ?n = "cf_Network (bt_config a)" and ?cid = "concat (take 1 vals)"
  consider (register) "guarded ext a rq (register_request ext ?n (hq_Body rq) oc) sv = (r, sv')"
    | (delete) "guarded ext a rq (delete_request ext ?n ?cid oc) sv = (r, sv')"
    | (plan) "guarded ext a rq (plan_request ?n (hq_Body rq) oc) sv = (r, sv')"
    using assms by (auto simp: serve_endpoint_def Let_def)
  then show thesis
  proof cases
    case register
    then show ?thesis by (rule that) (use register_request_failed in blast)
  next
    case delete
    then show ?thesis by (rule that) (use delete_request_failed in blast)
  next
    case plan
    then show ?thesis by (rule that) (use plan_request_failed in blast)
  qed
qed

text \<open>What a request does to the database is what one admin handler does.\<close>

lemma guarded_admin:
  assumes "guarded ext a rq h sv = (r, sv')"
  shows "sv_admin sv' = sv_admin sv \<or> (\<exists>res. h (sv_admin sv) = (res, sv_admin sv'))"
  using guarded_change [OF assms] by blast

lemma serve_admin:
  assumes "serve ext a oc rq sv = (r, sv')"
  shows "sv_admin sv' = sv_admin sv
    \<or> (\<exists>res. register_request ext (cf_Network (bt_config a)) (hq_Body rq) oc (sv_admin sv) = (res, sv_admin sv'))
    \<or> (\<exists>cid res. delete_request ext (cf_Network (bt_config a)) cid oc (sv_admin sv) = (res, sv_admin sv'))
    \<or> (\<exists>res. plan_request (cf_Network (bt_config a)) (hq_Body rq) oc (sv_admin sv) = (res, sv_admin sv'))"
proof (cases "admitted (ou_sha256 ext) a (unescape (hq_EscapedPath rq)) (hq_BasicAuth rq) (hq_Authorization rq)
    \<and> (\<exists>e vals. findHandler (hq_Method rq) (hq_EscapedPath rq) mounted = Found e vals)")
  case True
  then obtain e vals where f: "findHandler (hq_Method rq) (hq_EscapedPath rq) mounted = Found e vals" by blast
  then have s: "serve_endpoint ext a oc e vals rq sv = (r, sv')" using assms True by (simp add: serve_def)
  consider "e = Admin_register" | "e = Admin_delete" | "e = Admin_plan" | "sv' = sv"
    using s by (cases e) (simp_all add: serve_endpoint_def Let_def)
  then show ?thesis
  proof cases
    case 1
    with s guarded_admin show ?thesis by (simp add: serve_endpoint_def Let_def) blast
  next
    case 2
    with s guarded_admin show ?thesis by (simp add: serve_endpoint_def Let_def) blast
  next
    case 3
    with s guarded_admin show ?thesis by (simp add: serve_endpoint_def Let_def) blast
  qed simp
next
  case False
  then have "sv' = sv" using assms by (auto simp: serve_def split: if_splits found.splits)
  then show ?thesis by simp
qed

text \<open>Without credentials only the probes are reached, because the first segment of the path is theirs.\<close>

definition credentials :: "outside \<Rightarrow> appliance \<Rightarrow> request \<Rightarrow> bool" where
  "credentials ext a rq \<longleftrightarrow>
     (\<exists>u p. hq_BasicAuth rq = Some (u, p) \<and> ou_sha256 ext u = ou_sha256 ext (cf_BasicAuthUser (bt_config a))
        \<and> ou_sha256 ext p = ou_sha256 ext (cf_BasicAuthPassword (bt_config a)))
     \<or> (\<exists>tok. hq_Authorization rq = ''Bearer '' @ tok \<and> ou_sha256 ext tok = ou_sha256 ext (cf_AdminToken (bt_config a)))"

lemma admitted_probe:
  assumes "BasicAuthEnabled (bt_config a)" and "\<not> credentials ext a rq"
    and "admitted (ou_sha256 ext) a path (hq_BasicAuth rq) (hq_Authorization rq)"
  shows "path \<in> set probePaths"
proof -
  have "\<exists>tok. hq_Authorization rq = ''Bearer '' @ tok \<and> tok = b" if "CutPrefix (hq_Authorization rq) ''Bearer '' = Some b" for b
    using that unfolding CutPrefix_def by (metis append_take_drop_id option.distinct(1) option.inject)
  then show ?thesis
    using assms by (auto simp: admitted_def Wrap_def credentials_def split: option.splits)
qed

lemma probe_endpoint:
  assumes "unescape path \<in> set probePaths" and "findHandler method path mounted = Found e vals"
  shows "e = Health_probe \<or> e = Ready_probe"
proof -
  obtain k ps where r: "(\<lparr>pt_Method = k, pt_Segs = ps\<rparr>, e) \<in> set routes" and acc: "list_all2 seg_accepts ps (segments path)"
    and m: "k = method \<or> method = ''HEAD'' \<and> k = ''GET''" and clean: "method = ''CONNECT'' \<or> path = cleanPath path"
    using findHandler_sound [OF assms(2)] by (metis mounted_routes)
  obtain p ps' where ps: "ps = p # ps'" and p: "p \<in> Lit ` {''health'', ''ready'', ''status'', ''metrics'', ''v1'', ''/''}"
    and e: "p = Lit ''health'' \<Longrightarrow> e = Health_probe" "p = Lit ''ready'' \<Longrightarrow> e = Ready_probe"
    using r by (auto simp: routes_def)
  have u: "unescape path = slash # ''health'' \<or> unescape path = slash # ''ready''"
    using assms(1) by (auto simp: probePaths_def slash_def)
  note clean
  moreover have "method \<noteq> ''CONNECT''" using m r by (auto simp: routes_def)
  ultimately have "path = cleanPath path" by blast
  then obtain q where path: "path = slash # q" using cleanPath_rooted [of path] by (elim exE) simp
  have q: "q \<noteq> ''''" using u unfolding path by (intro notI) simp
  obtain w ss t where w: "segments path = w # ss" "unescape path = slash # w @ t" "t = '''' \<or> hd t = slash"
    using unescape_first [OF path q] by metis
  then have "p = Lit w" using acc ps p by auto
  moreover have "w @ t = ''health'' \<or> w @ t = ''ready''" using u w(2) by simp
  moreover have "w \<in> {''health'', ''ready'', ''status'', ''metrics'', ''v1'', ''/''}"
    using p by (simp only: \<open>p = Lit w\<close> image_insert image_empty insert_iff seg.inject empty_iff)
  ultimately show ?thesis using e by (elim insertE emptyE) simp_all
qed

text \<open>The responses of the probes say whether the process is ready and nothing else.\<close>

lemma serve_unadmitted:
  assumes "BasicAuthEnabled (bt_config a)" and "\<not> credentials ext a rq"
  shows "snd (serve ext a oc rq sv) = sv
    \<and> (unescape (hq_EscapedPath rq) \<notin> set probePaths \<longrightarrow> serve ext a oc rq sv = (http_text 401 (Text ''credentials required''), sv))
    \<and> (h_ready (sv_state sv) = h_ready (sv_state sv') \<longrightarrow> fst (serve ext a oc rq sv) = fst (serve ext a oc' rq sv'))"
proof (cases "admitted (ou_sha256 ext) a (unescape (hq_EscapedPath rq)) (hq_BasicAuth rq) (hq_Authorization rq)")
  case True
  note probe = probe_endpoint [OF admitted_probe [OF assms True]]
  show ?thesis
  proof (cases "findHandler (hq_Method rq) (hq_EscapedPath rq) mounted")
    case (Found e vals)
    with probe have "e = Health_probe \<or> e = Ready_probe" by blast
    then show ?thesis using True Found admitted_probe [OF assms True]
      by (auto simp: serve_def serve_endpoint_def read_endpoint_def ready_status_def Let_def)
  qed (use True admitted_probe [OF assms True] in \<open>simp_all add: serve_def\<close>)
qed (simp add: serve_def)

text \<open>Which handler a plain path reaches.\<close>

lemma routes_by_method:
  "of_method ''GET'' routes =
     [([Lit ''health''], Health_probe), ([Lit ''ready''], Ready_probe), ([Lit ''status''], Status_page),
      ([Lit ''metrics''], Metrics_page), ([Lit ''v1'', Lit ''contracts''], Contract_list),
      ([Lit ''v1'', Lit ''contracts'', Wild ''id''], Contract_detail),
      ([Lit ''v1'', Lit ''contracts'', Wild ''id'', Lit ''events''], Contract_events),
      ([Lit ''v1'', Lit ''contracts'', Wild ''id'', Lit ''state''], State_snapshot),
      ([Lit ''v1'', Lit ''contracts'', Wild ''id'', Lit ''state'', Lit ''history''], State_history),
      ([Lit ''v1'', Lit ''contracts'', Wild ''id'', Lit ''transfers''], Transfer_history),
      ([Lit ''v1'', Lit ''contracts'', Wild ''id'', Lit ''trustlines''], Trustline_snapshot),
      ([Lit ''v1'', Lit ''contracts'', Wild ''id'', Lit ''trustlines'', Lit ''history''], Trustline_history),
      ([Lit ''v1'', Lit ''contracts'', Wild ''id'', Lit ''movements''], Movement_history),
      ([Lit ''/''], Management_page)]"
  "of_method ''POST'' routes =
     [([Lit ''v1'', Lit ''contracts''], Admin_register),
      ([Lit ''v1'', Lit ''admin'', Lit ''gaps'', Lit ''plan''], Admin_plan)]"
  "of_method ''DELETE'' routes = [([Lit ''v1'', Lit ''contracts'', Wild ''id''], Admin_delete)]"
  by (simp_all add: of_method_def routes_def)

lemma findHandler_plain:
  assumes "ws \<noteq> []" and "list_all plain_segment ws" and "matchPath (of_method k mounted) ws [] = Some (e, vals)"
  shows "findHandler k (path_of ws) mounted = Found e vals"
  using assms by (simp add: findHandler_def matchMethodAndPath_def cleanPath_path segments_path Let_def)

lemma route_reached:
  assumes "(\<lparr>pt_Method = k, pt_Segs = ps\<rparr>, e) \<in> set mounted" and "list_all plain_segment ws" and "list_all2 seg_accepts ps ws"
  shows "ws \<noteq> [] \<and> matchPath (of_method k mounted) ws [] = Some (e, wilds ps ws)"
proof -
  have no_slash: "ws \<noteq> [''/'']" using assms(2) by (auto simp: plain_segment_def slash_def)
  show ?thesis
    using assms(1) [unfolded mounted_routes routes_def] assms(3) no_slash
    by (simp only: list.map prod.case list.set insert_iff empty_iff prod.inject pattern.ext_inject)
      (elim disjE FalseE; clarsimp simp: list_all2_Cons1 mounted_routes routes_by_method by_literal_def by_wildcard_def slash_def)
qed

text \<open>The surface of the process as a table of its own: the paths below a contract, with its id, and the
  others.\<close>

definition below_contract :: "string list \<Rightarrow> (string \<times> string list) option" where
  "below_contract ws =
     (case ws of
        v # c # i # rest \<Rightarrow> if v = ''v1'' \<and> c = ''contracts'' then Some (i, rest) else None
      | _ \<Rightarrow> None)"

definition surface :: "string \<Rightarrow> string list \<Rightarrow> (endpoint \<times> string list) option" where
  "surface method ws =
     (case below_contract ws of
        Some (i, rest) \<Rightarrow>
          map_option (\<lambda>e. (e, [i]))
            (map_of [((''GET'', []), Contract_detail), ((''DELETE'', []), Admin_delete),
               ((''GET'', [''events'']), Contract_events),
               ((''GET'', [''state'']), State_snapshot), ((''GET'', [''state'', ''history'']), State_history),
               ((''GET'', [''transfers'']), Transfer_history),
               ((''GET'', [''trustlines'']), Trustline_snapshot), ((''GET'', [''trustlines'', ''history'']), Trustline_history),
               ((''GET'', [''movements'']), Movement_history)] (method, rest))
      | None \<Rightarrow>
          map_option (\<lambda>e. (e, []))
            (map_of [((''GET'', []), Management_page), ((''GET'', [''health'']), Health_probe), ((''GET'', [''ready'']), Ready_probe),
               ((''GET'', [''status'']), Status_page), ((''GET'', [''metrics'']), Metrics_page),
               ((''GET'', [''v1'', ''contracts'']), Contract_list), ((''POST'', [''v1'', ''contracts'']), Admin_register),
               ((''POST'', [''v1'', ''admin'', ''gaps'', ''plan'']), Admin_plan)] (method, ws)))"

definition request_path :: "string list \<Rightarrow> string" where
  "request_path ws = (if ws = [] then ''/'' else path_of ws)"

lemma below_contract_Some: "below_contract ws = Some (i, rest) \<longleftrightarrow> ws = ''v1'' # ''contracts'' # i # rest"
  by (auto simp: below_contract_def split: list.splits)

lemma surface_mounted:
  assumes "surface k ws = Some (e, vals)" and "ws \<noteq> []" and "list_all plain_segment ws"
  shows "\<exists>ps. (\<lparr>pt_Method = k, pt_Segs = ps\<rparr>, e) \<in> set mounted \<and> list_all2 seg_accepts ps ws \<and> wilds ps ws = vals"
proof (cases "below_contract ws")
  case (Some ir)
  obtain i rest where ir: "ir = (i, rest)" by (cases ir)
  then have ws: "ws = ''v1'' # ''contracts'' # i # rest" using Some by (simp add: below_contract_Some)
  then have i: "i \<noteq> ''/''" using assms(3) by (auto simp: plain_segment_def slash_def)
  have f: "map_of [((''GET'', []), Contract_detail), ((''DELETE'', []), Admin_delete),
               ((''GET'', [''events'']), Contract_events),
               ((''GET'', [''state'']), State_snapshot), ((''GET'', [''state'', ''history'']), State_history),
               ((''GET'', [''transfers'']), Transfer_history),
               ((''GET'', [''trustlines'']), Trustline_snapshot), ((''GET'', [''trustlines'', ''history'']), Trustline_history),
               ((''GET'', [''movements'']), Movement_history)] (k, rest) = Some e" and vals: "vals = [i]"
    using assms(1) Some ir by (auto simp: surface_def)
  have "(\<lparr>pt_Method = k, pt_Segs = Lit ''v1'' # Lit ''contracts'' # Wild ''id'' # map Lit rest\<rparr>, e) \<in> set mounted"
    using map_of_SomeD [OF f]
    by (simp only: list.set insert_iff empty_iff prod.inject) (elim disjE conjE FalseE; simp add: mounted_routes routes_def)
  moreover have "list_all2 seg_accepts (map Lit rest) rest" "wilds (map Lit rest) rest = []" by (induction rest) simp_all
  ultimately show ?thesis using ws i vals by (intro exI [of _ "Lit ''v1'' # Lit ''contracts'' # Wild ''id'' # map Lit rest"])
      (simp add: slash_def)
next
  case None
  have f: "map_of [((''GET'', []), Management_page), ((''GET'', [''health'']), Health_probe), ((''GET'', [''ready'']), Ready_probe),
               ((''GET'', [''status'']), Status_page), ((''GET'', [''metrics'']), Metrics_page),
               ((''GET'', [''v1'', ''contracts'']), Contract_list), ((''POST'', [''v1'', ''contracts'']), Admin_register),
               ((''POST'', [''v1'', ''admin'', ''gaps'', ''plan'']), Admin_plan)] (k, ws) = Some e" and vals: "vals = []"
    using assms(1) None by (auto simp: surface_def)
  have "(\<lparr>pt_Method = k, pt_Segs = map Lit ws\<rparr>, e) \<in> set mounted"
    using map_of_SomeD [OF f] assms(2)
    by (simp only: list.set insert_iff empty_iff prod.inject) (elim disjE conjE FalseE; simp add: mounted_routes routes_def)
  moreover have "list_all2 seg_accepts (map Lit ws) ws" "wilds (map Lit ws) ws = []" by (induction ws) simp_all
  ultimately show ?thesis using vals by blast
qed

lemma mounted_surface:
  assumes "(\<lparr>pt_Method = k, pt_Segs = ps\<rparr>, e) \<in> set mounted" and "list_all2 seg_accepts ps ws" and "list_all plain_segment ws"
  shows "surface k ws \<noteq> None"
proof -
  have no_slash: "ws \<noteq> [''/'']" using assms(3) by (auto simp: plain_segment_def slash_def)
  show ?thesis
    using assms(1) [unfolded mounted_routes routes_def] assms(2) no_slash
    by (simp only: list.map prod.case list.set insert_iff empty_iff prod.inject pattern.ext_inject)
      (elim disjE FalseE; clarsimp simp: list_all2_Cons1 surface_def below_contract_def)
qed

lemma matched_mounted:
  "matchPath (of_method k mounted) ws [] = Some (h, vals) \<Longrightarrow>
     \<exists>ps. (\<lparr>pt_Method = k, pt_Segs = ps\<rparr>, h) \<in> set mounted \<and> list_all2 seg_accepts ps ws"
  using matchPath_sound [of "of_method k mounted" ws "[]" h vals] by (simp add: of_method_set)

lemma match_surface:
  assumes "ws \<noteq> []" and "list_all plain_segment ws"
  shows "matchPath (of_method k mounted) ws [] = surface k ws"
proof (cases "surface k ws")
  case (Some r)
  obtain e vals where r: "r = (e, vals)" by (cases r)
  obtain ps where "(\<lparr>pt_Method = k, pt_Segs = ps\<rparr>, e) \<in> set mounted" "list_all2 seg_accepts ps ws" "wilds ps ws = vals"
    using surface_mounted [OF Some [unfolded r] assms] by blast
  then show ?thesis using route_reached assms(2) Some r by auto
next
  case None
  have "matchPath (of_method k mounted) ws [] \<noteq> Some (h, vals)" for h vals
    using matched_mounted [of k ws h vals] mounted_surface [OF _ _ assms(2)] None by metis
  then show ?thesis using None by (cases "matchPath (of_method k mounted) ws []") auto
qed

text \<open>The root is the page and nothing else.\<close>

lemma match_root:
  "matchPath (of_method k mounted) [[slash]] [] = surface k []"
proof (cases "k = ''GET''")
  case True
  then show ?thesis by (simp add: mounted_routes routes_by_method by_literal_def slash_def surface_def below_contract_def)
next
  case False
  have "surface k [] = None" using False by (simp add: surface_def below_contract_def)
  moreover have "matchPath (of_method k mounted) [[slash]] [] \<noteq> Some (h, vals)" for h vals
  proof
    assume "matchPath (of_method k mounted) [[slash]] [] = Some (h, vals)"
    from matched_mounted [OF this] obtain ps where "(\<lparr>pt_Method = k, pt_Segs = ps\<rparr>, h) \<in> set routes" "list_all2 seg_accepts ps [[slash]]"
      by (auto simp: mounted_routes)
    then show False using False by (auto simp: routes_def slash_def)
  qed
  ultimately show ?thesis by (cases "matchPath (of_method k mounted) [[slash]] []") auto
qed

lemma request_path_read:
  assumes "list_all plain_segment ws"
  shows "cleanPath (request_path ws) = request_path ws"
    and "matchPath (of_method k mounted) (segments (request_path ws)) [] = surface k ws"
proof -
  have "cleanPath ''/'' = ''/''" by (simp add: cleanPath_def Clean_def slash_def clean_step_def)
  then show "cleanPath (request_path ws) = request_path ws" using cleanPath_path assms by (simp add: request_path_def del: path_of_simps)
  have "segments ''/'' = [[slash]]" by (simp add: segments.simps [of "''/''"] slash_def)
  then show "matchPath (of_method k mounted) (segments (request_path ws)) [] = surface k ws"
    using match_root match_surface segments_path assms by (simp add: request_path_def del: path_of_simps)
qed

text \<open>A database that goes away between the two writes of a registration leaves a registration without a
  walk, the state the coverage of the API calls impossible; the client is told to look at the logs, and
  the same request, sent again, completes it.\<close>

theorem interrupted_registration_has_no_walk:
  assumes "register_request ext n body \<lparr>oc_Now = now, oc_Database = GoneAfterUpsert, oc_Reloads = ok\<rparr> s = (res, s')"
    and "plan_registration (ou_chain ext) body = Inr (cid, target, kinds, cls, warnings)"
  shows "rp_Status (admin_response res) = 500 \<and> (\<exists>c. GetContract n cid (ad_db s') = Inr c)
    \<and> t_backfill (ad_db s') = t_backfill (ad_db s)"
proof -
  obtain saved d where up: "UpsertContract (to_register n cid kinds cls) now (ad_db s) = (saved, d)" by fastforce
  then have s': "s' = s\<lparr>ad_db := d\<rparr>" and res: "rp_Status (admin_response res) = 500"
    using assms by (auto simp: register_request_def handleRegister_def to_register_def admin_response_def writeError_def writeJSON_def)
  have "GetContract n cid d = Inr saved" using UpsertContract_saved(1) [OF up] by (simp add: to_register_def)
  moreover have "t_backfill d = t_backfill (ad_db s)"
    using arg_cong [OF UpsertContract_saved(3) [OF up], of t_backfill] by simp
  ultimately show ?thesis using res s' by simp
qed

text \<open>A process with Basic Auth, and its contract unregistered by the admin.\<close>

definition demo_appliance :: appliance where
  "demo_appliance =
     \<lparr>bt_config = \<lparr>cf_DatabaseURL = ''postgres://db/sierpe'', cf_Network = ''testnet'', cf_AdminToken = ''0123456789abcdef'',
        cf_RPCURLs = [], cf_HTTPPort = 8080, cf_StartLedger = 0, cf_CoreBinary = '''', cf_ArchiveURLs = [],
        cf_CaptiveStoragePath = '''', cf_HealWorkers = 0, cf_HealChunkLedgers = 0, cf_BasicAuthUser = ''ops'',
        cf_BasicAuthPassword = ''correct-horse''\<rparr>,
      bt_db = demo_api_db, bt_registry = [], bt_client = demo_client, bt_addr = '':8080'', bt_workers = []\<rparr>"

definition demo_outside :: outside where
  "demo_outside = \<lparr>ou_sha256 = (\<lambda>s. s), ou_chain = demo_lookup, ou_sdk = demo_sdk, ou_Version = ''dev'', ou_StartedAt = 0\<rparr>"

definition demo_server :: server where
  "demo_server = \<lparr>sv_admin = demo_admin, sv_state = new_state, sv_metrics = NewMetrics\<rparr>"

definition demo_request :: "string \<Rightarrow> string list \<Rightarrow> string \<Rightarrow> request" where
  "demo_request k ws header =
     \<lparr>hq_Method = k, hq_EscapedPath = path_of ws, hq_BasicAuth = None, hq_Authorization = header, hq_Query = Map.empty, hq_Body = ''''\<rparr>"

definition demo_occasion :: occasion where
  "demo_occasion = \<lparr>oc_Now = 7, oc_Database = Answering, oc_Reloads = True\<rparr>"

lemma demo_delete:
  "\<exists>r sv'. serve demo_outside demo_appliance demo_occasion
      (demo_request ''DELETE'' [''v1'', ''contracts'', ''C''] ''Bearer 0123456789abcdef'') demo_server = (r, sv')
    \<and> t_contracts (ad_db (sv_admin sv')) = []"
proof -
  have plain: "list_all plain_segment [''v1'', ''contracts'', ''C'']" by (simp add: plain_segment_def slash_def)
  have found: "findHandler ''DELETE'' (path_of [''v1'', ''contracts'', ''C'']) mounted = Found Admin_delete [''C'']"
    by (rule findHandler_plain [OF _ plain]) (simp_all add: mounted_routes routes_by_method by_literal_def by_wildcard_def slash_def)
  show ?thesis
    by (simp add: serve_def demo_request_def found del: path_of_simps)
      (simp add: admitted_def demo_appliance_def demo_outside_def Wrap_def BasicAuthEnabled_def CutPrefix_def serve_endpoint_def
        guarded_def auth_def tokenEqual_def delete_request_def demo_occasion_def handleDelete_def demo_lookup_def demo_server_def
        demo_admin_def DeleteContract_def demo_api_db_def reloadRegistry_def is_contract_def sql_delete_def Let_def)
qed

section \<open>Properties\<close>

text \<open>C40: The surface is the table. No two of the patterns the components mount conflict, so the process does
  not panic while it registers them; and on the root and on every path of plain segments, a method reaches
  exactly the handler the table \<open>surface\<close> gives it, with the contract id of the path handed over (\<open>HEAD\<close>
  what \<open>GET\<close> reaches), and no handler where the table has none.\<close>

theorem routes_reached:
  "process_mux = Some mounted
    \<and> (\<forall>k ws e vals. list_all plain_segment ws \<longrightarrow>
        (findHandler k (request_path ws) mounted = Found e vals \<longleftrightarrow> surface (if k = ''HEAD'' then ''GET'' else k) ws = Some (e, vals)))"
proof (intro conjI allI impI)
  show "process_mux = Some mounted" by (simp add: process_mux_routes mounted_routes)
next
  fix k ws e vals
  assume plain: "list_all plain_segment ws"
  have head: "surface ''HEAD'' ws = None" by (auto simp: surface_def split: option.split)
  have "findHandler k (request_path ws) mounted = Found e vals \<longleftrightarrow> matchMethodAndPath k (request_path ws) mounted = Some (e, vals)"
    by (auto simp: findHandler_def request_path_read(1) [OF plain] Let_def split: option.splits list.splits)
  then show "findHandler k (request_path ws) mounted = Found e vals \<longleftrightarrow> surface (if k = ''HEAD'' then ''GET'' else k) ws = Some (e, vals)"
    by (simp add: matchMethodAndPath_def request_path_read(2) [OF plain] head split: option.split)
qed

theorem routes_reached_witness:
  "findHandler ''GET'' ''/v1/contracts/C7/state/history'' mounted = Found State_history [''C7'']"
proof -
  let ?ws = "[''v1'', ''contracts'', ''C7'', ''state'', ''history'']"
  have "list_all plain_segment ?ws" by (simp add: plain_segment_def slash_def)
  then have "findHandler ''GET'' (request_path ?ws) mounted = Found State_history [''C7'']
      \<longleftrightarrow> surface ''GET'' ?ws = Some (State_history, [''C7''])"
    using routes_reached by simp
  then show ?thesis by (simp add: surface_def below_contract_def request_path_def slash_def)
qed

text \<open>C3: Nothing but the admin token changes the process. Whatever request is sent, the health state and the
  counters are as before, and if the database or the registry snapshot changed at all then the request
  was a POST or a DELETE carrying a bearer token with the digest of the admin token, and it was answered
  with success unless the database went away in the middle of a registration.\<close>

theorem only_the_token_mutates:
  assumes "serve ext a oc rq sv = (r, sv')"
  shows "sv_state sv' = sv_state sv \<and> sv_metrics sv' = sv_metrics sv
    \<and> (sv_admin sv' \<noteq> sv_admin sv \<longrightarrow>
        hq_Method rq \<in> {''POST'', ''DELETE''}
        \<and> (\<exists>tok. hq_Authorization rq = ''Bearer '' @ tok \<and> ou_sha256 ext tok = ou_sha256 ext (cf_AdminToken (bt_config a)))
        \<and> (rp_Status r \<in> {200, 204} \<or> oc_Database oc = GoneAfterUpsert))"
proof (cases "\<exists>e vals. findHandler (hq_Method rq) (hq_EscapedPath rq) mounted = Found e vals \<and> e \<in> {Admin_register, Admin_delete, Admin_plan}
    \<and> serve_endpoint ext a oc e vals rq sv = (r, sv')")
  case True
  then obtain e vals where f: "findHandler (hq_Method rq) (hq_EscapedPath rq) mounted = Found e vals"
    and e: "e \<in> {Admin_register, Admin_delete, Admin_plan}" and s: "serve_endpoint ext a oc e vals rq sv = (r, sv')" by blast
  obtain k ps where k: "(\<lparr>pt_Method = k, pt_Segs = ps\<rparr>, e) \<in> set routes" "k = hq_Method rq \<or> hq_Method rq = ''HEAD'' \<and> k = ''GET''"
    using findHandler_sound [OF f [unfolded mounted_routes]] by metis
  have "hq_Method rq \<in> {''POST'', ''DELETE''}"
    using route_methods [OF k(1) e] k(2) by (elim disjE) simp_all
  moreover obtain h where h: "guarded ext a rq h sv = (r, sv')"
    and fails: "\<And>t res t'. h t = (res, t') \<Longrightarrow> t' \<noteq> t \<Longrightarrow>
      rp_Status (admin_response res) \<in> {200, 204} \<or> oc_Database oc = GoneAfterUpsert"
    using admin_endpoint [OF s e] by metis
  ultimately show ?thesis using guarded_change [OF h] fails by auto
next
  case False
  then have "sv' = sv"
    using assms by (auto simp: serve_def serve_endpoint_def Let_def split: if_splits found.splits endpoint.splits)
  then show ?thesis by simp
qed

theorem only_the_token_mutates_witness:
  "\<exists>r sv'. serve demo_outside demo_appliance demo_occasion
      (demo_request ''DELETE'' [''v1'', ''contracts'', ''C''] ''Bearer 0123456789abcdef'') demo_server = (r, sv')
    \<and> sv_admin sv' \<noteq> sv_admin demo_server \<and> rp_Status r \<in> {200, 204}"
proof -
  let ?rq = "demo_request ''DELETE'' [''v1'', ''contracts'', ''C''] ''Bearer 0123456789abcdef''"
  obtain r sv' where s: "serve demo_outside demo_appliance demo_occasion ?rq demo_server = (r, sv')"
    and t: "t_contracts (ad_db (sv_admin sv')) = []" using demo_delete by blast
  have "sv_admin sv' \<noteq> sv_admin demo_server" using t by (auto simp: demo_server_def demo_admin_def demo_api_db_def)
  with only_the_token_mutates [OF s] s show ?thesis by (auto simp: demo_occasion_def)
qed

text \<open>C4: With Basic Auth configured the whole surface is hidden. A request that carries neither the
  credentials nor the admin token changes nothing, is answered 401 off the two probe paths, and even
  there its answer depends on nothing of the process but whether it is ready: not on the database, the
  counters or the registrations.\<close>

theorem gate_hides_everything:
  assumes "BasicAuthEnabled (bt_config a)" and "\<not> credentials ext a rq"
  shows "snd (serve ext a oc rq sv) = sv
    \<and> (unescape (hq_EscapedPath rq) \<notin> set probePaths \<longrightarrow> rp_Status (fst (serve ext a oc rq sv)) = 401)
    \<and> (h_ready (sv_state sv) = h_ready (sv_state sv') \<longrightarrow> fst (serve ext a oc rq sv) = fst (serve ext a oc' rq sv'))"
  using serve_unadmitted [OF assms, of oc sv sv' oc'] by (simp add: http_text_def)

theorem gate_hides_everything_witness:
  "rp_Status (fst (serve demo_outside demo_appliance demo_occasion (demo_request ''GET'' [''v1''] '''') demo_server)) = 401"
proof -
  let ?rq = "demo_request ''GET'' [''v1''] ''''"
  have "BasicAuthEnabled (bt_config demo_appliance)" by (simp add: demo_appliance_def BasicAuthEnabled_def)
  moreover have "\<not> credentials demo_outside demo_appliance ?rq" by (simp add: credentials_def demo_request_def)
  moreover have "unescape (path_of [''v1'']) = path_of [''v1'']" by (rule unescape_plain) (simp add: slash_def)
  then have "unescape (hq_EscapedPath ?rq) \<notin> set probePaths" by (simp add: demo_request_def probePaths_def slash_def)
  ultimately show ?thesis using gate_hides_everything [of demo_appliance demo_outside ?rq] by blast
qed

end
