(* ===== verification/System.thy ===== *)
theory System
  imports Store_Runs Ingest_Backfill Ingest_Loop Ingest_Heal Http
begin

text \<open>
  The process as a whole on its database: the HTTP server with every request it is sent, the live loop,
  the backfill worker and the healer. What each of them does to the database is shown to be a run of
  store transactions. The transactions of a run carry arbitrary arguments, so what \<open>Store_Runs\<close> proves of
  runs holds however the transactions of different workers interleave; here requests and worker steps
  follow one another. A plan request may meet any gap table, and a heal may have read its gap long before
  it commits; what either can lose is in the run.
\<close>

section \<open>Steps of the process\<close>

text \<open>A heal starts from a row of the gap table as some earlier listing gave it: a well-formed open gap of the
  network, whatever has become of it since.\<close>

inductive system_step ::
  "string \<Rightarrow> (('c, 'd, 'x) lcm \<Rightarrow> Info) \<Rightarrow> db \<Rightarrow> int set \<Rightarrow> db \<Rightarrow> bool"
  for n :: string and infoOf :: "('c, 'd, 'x) lcm \<Rightarrow> Info"
where
  serves: "cf_Network (bt_config a) = n \<Longrightarrow> serve ext a oc rq sv = (r, sv') \<Longrightarrow>
     system_step n infoOf (ad_db (sv_admin sv)) {} (ad_db (sv_admin sv'))"
| ingests: "cfg_Network cfg = n \<Longrightarrow> turn cfg infoOf events an l = Continue l' info \<Longrightarrow>
     system_step n infoOf (lo_db l) {} (lo_db l')"
| walks: "round n ch fuel now b = Some (worked, b') \<Longrightarrow> ch_info ch = infoOf \<Longrightarrow>
     system_step n infoOf (bf_db b) {} (bf_db b')"
| heals: "healChunk n arch fuel snap now (scanGap g) h = Some (Inr (), h') \<Longrightarrow> he_info arch = infoOf \<Longrightarrow>
     wf_gap g \<Longrightarrow> open_gap n g \<Longrightarrow> hl_chunk h \<noteq> 0 \<Longrightarrow>
     system_step n infoOf (hl_db h) {uint (healChunkFrom (hl_chunk h) (scanGap g))..heal_top g} (hl_db h')"

inductive system_run ::
  "string \<Rightarrow> (('c, 'd, 'x) lcm \<Rightarrow> Info) \<Rightarrow> db \<Rightarrow> int set \<Rightarrow> db \<Rightarrow> bool"
  for n :: string and infoOf :: "('c, 'd, 'x) lcm \<Rightarrow> Info"
where
  boots: "system_run n infoOf d {} d"
| continues: "system_run n infoOf d H d' \<Longrightarrow> system_step n infoOf d' H' d'' \<Longrightarrow> system_run n infoOf d (H \<union> H') d''"

section \<open>Each is a run of transactions\<close>

lemma store_run_one: "store_step n d H L d' \<Longrightarrow> store_run n d H L d'"
  using store_run.further [OF store_run.start] by fastforce

lemma store_run_trans: "store_run n d' H' L' d'' \<Longrightarrow> store_run n d H L d' \<Longrightarrow> store_run n d (H \<union> H') (L \<union> L') d''"
proof (induction arbitrary: H L rule: store_run.induct)
  case (further d1 H1 L1 d2 H2 L2 d3)
  from store_run.further [OF further(3) [OF further(4)] further(2)] show ?case by (simp add: Un_assoc)
qed simp

lemma store_run_quiet: "store_run n d {} {} d' \<Longrightarrow> store_run n d' {} {} d'' \<Longrightarrow> store_run n d {} {} d''"
  using store_run_trans [of n d' "{}" "{}" d'' d "{}" "{}"] by simp

lemma record_gaps_run: "store_run n d {} {} (snd (record_gaps n wall now recorded jobs d))"
proof (induction jobs arbitrary: recorded d)
  case (Cons job jobs)
  show ?case
  proof (cases "RecordGap n (b_TargetFrom (j_Backfill job)) (wall - 1) gap_reason now d")
    case (Inr d1)
    have "store_run n d {} {} d1" by (rule store_run_one [OF store_step.record_gap [OF Inr]])
    then show ?thesis using Inr Cons store_run_quiet by (auto simp: Let_def)
  qed (use Cons in \<open>auto simp: Let_def intro: store_run.start\<close>)
qed (simp add: store_run.start)

lemma commit_jobs_run: "store_run n (snd cd) {} {} (snd (commit_jobs n rg clamped parts now jobs cd))"
proof (induction jobs arbitrary: cd)
  case (Cons job jobs)
  obtain k d where cd: "cd = (k, d)" by (cases cd)
  let ?p = "orEmpty (map_of parts (ct_ContractID (j_Contract job)))"
  show ?case
  proof (cases "CommitBackfillChunk n (next_row rg clamped (j_Backfill job)) ?p now d")
    case (Inr d1)
    have "store_run n d {} {} d1" by (rule store_run_one [OF store_step.walk [OF Inr]])
    then show ?thesis using Inr Cons [of "(Suc k, d1)"] cd store_run_quiet by (auto simp: Let_def)
  qed (use Cons [of "(k, d)"] cd in \<open>auto simp: Let_def\<close>)
qed (simp add: store_run.start)

lemma commit_group_run: "store_run n (bf_db b) {} {} (bf_db (snd (commit_group n rg jobs cached clamped res now b)))"
proof -
  let ?cd = "commit_jobs n rg clamped (partitionResult res) now (sort_on (\<lambda>j. ct_ContractID (j_Contract j)) jobs) (0, bf_db b)"
  have "store_run n (bf_db b) {} {} (snd ?cd)" using commit_jobs_run [of n "(0, bf_db b)"] by simp
  then show ?thesis by (simp add: commit_group_def Let_def)
qed

lemma commit_group_after: "store_run n d {} {} (bf_db b) \<Longrightarrow> store_run n d {} {} (bf_db (snd (commit_group n rg jobs cached clamped res now b)))"
  by (rule store_run_quiet [OF _ commit_group_run])

lemma processGroup_run:
  assumes "processGroup n ch fuel now rg jobs ahead b = Some wb"
  shows "store_run n (bf_db b) {} {} (bf_db (snd wb))"
proof -
  have gaps: "store_run n (bf_db b) {} {} (bf_db (b\<lparr>bf_db := snd (record_gaps n wall now [] jobs (bf_db b))\<rparr>))" for wall
    using record_gaps_run by simp
  have remembered: "store_run n (bf_db b) {} {} (bf_db (b\<lparr>bf_lastScan := x\<rparr>))" for x by (simp add: store_run.start)
  show ?thesis
    using assms unfolding processGroup_def Let_def
    by (auto split: option.splits sum.splits if_splits
        intro: commit_group_run store_run.start commit_group_after [OF gaps] commit_group_after [OF remembered] record_gaps_run)
qed

lemma group_jobs_run:
  "store_run n d {} {} (gp_db g) \<Longrightarrow> store_run n d {} {} (gp_db (foldl (group_job n now) g jobs))"
proof (induction jobs arbitrary: g)
  case (Cons job jobs)
  have "store_run n d {} {} (gp_db (group_job n now g job))"
  proof (cases "b_NextTo (j_Backfill job) < b_TargetFrom (j_Backfill job)")
    case True
    show ?thesis
    proof (cases "CommitBackfillChunk n ((j_Backfill job)\<lparr>b_Done := True\<rparr>) no_rows now (gp_db g)")
      case (Inr d1)
      from store_run_quiet [OF Cons.prems store_run_one [OF store_step.walk [OF Inr]]]
      show ?thesis using True Inr by (simp add: group_job_def Let_def)
    qed (use True Cons.prems in \<open>simp add: group_job_def Let_def\<close>)
  qed (use Cons.prems in \<open>simp add: group_job_def Let_def\<close>)
  then show ?case using Cons.IH by simp
qed simp

lemma run_groups_run:
  "run_groups n ch fuel now g order wb = Some wb' \<Longrightarrow> store_run n d {} {} (bf_db (snd wb)) \<Longrightarrow> store_run n d {} {} (bf_db (snd wb'))"
proof (induction order arbitrary: wb)
  case (Cons cell order)
  obtain worked b where wb: "wb = (worked, b)" by (cases wb)
  let ?pg = "processGroup n ch fuel now \<lparr>rg_from = cell, rg_to = gp_tops g cell\<rparr> (group_of g cell) (group_of g (cell + backfillChunkSize)) b"
  obtain w b1 where p: "?pg = Some (w, b1)" using Cons.prems(1) wb by (cases ?pg) (auto simp: Let_def)
  have "store_run n d {} {} (bf_db b1)"
    using store_run_quiet [OF _ processGroup_run [OF p]] Cons.prems(2) wb by simp
  then show ?case using Cons.IH [of "(worked \<or> w, b1)"] Cons.prems(1) wb p by (simp add: Let_def)
qed simp

lemma round_run:
  assumes "round n ch fuel now b = Some (worked, b')"
  shows "store_run n (bf_db b) {} {} (bf_db b')"
proof -
  have "store_run n (bf_db b) {} {} (gp_db (group_jobs n now (bf_db b) jobs))" for jobs
    unfolding group_jobs_def by (rule group_jobs_run) (simp add: empty_grouping_def store_run.start)
  then show ?thesis
    using assms run_groups_run [of n ch fuel now] unfolding round_def Let_def by fastforce
qed

lemma turn_run:
  assumes "turn cfg infoOf events an l = Continue l' info" and "cfg_Network cfg = n"
  shows "store_run n (lo_db l) {} {} (lo_db l')"
proof -
  have tip: "lo_db (markTipReached t k) = lo_db k" for t k
    by (simp add: markTipReached_def Let_def split: sum.splits)
  have ledger: "store_run n (lo_db k) {} {} (lo_db l')" if p: "process_ledger cfg infoOf events an meta k = Continue l' info" for meta k
  proof (cases "events (an_snap an) meta")
    case (Inr res)
    show ?thesis
    proof (cases "CommitLedger n (record_of (infoOf meta)) (rows_of res) (lo_db k)")
      case commit: (Inr d)
      have "store_run n (lo_db k) {} {} d" by (rule store_run_one [OF store_step.live [OF commit]])
      then show ?thesis using p Inr commit assms(2)
        by (auto simp: process_ledger_def Let_def back_off_def store_run.start split: if_splits option.splits)
    qed (use p Inr assms(2) in \<open>auto simp: process_ledger_def Let_def back_off_def store_run.start split: if_splits option.splits\<close>)
  qed (use p in \<open>auto simp: process_ledger_def Let_def back_off_def store_run.start split: if_splits\<close>)
  show ?thesis
  proof (cases "an_ledger an")
    case (Inl e)
    then show ?thesis using assms(1)
      by (cases e) (auto simp: turn_def tip back_off_def intro: store_run.start)
  next
    case (Inr meta)
    then show ?thesis using assms(1) ledger [of meta "l\<lparr>lo_backoff := backoffMin\<rparr>"] by (simp add: turn_def)
  qed
qed

lemma reloadRegistry_db [simp]: "ad_db (reloadRegistry n ok s) = ad_db s"
  by (simp add: reloadRegistry_def)

lemma handleRegister_run:
  assumes "handleRegister env n body now db ok s = (out, s')"
  shows "store_run n (ad_db s) {} {} (ad_db s')"
proof (cases "plan_registration env body")
  case (Inr plan)
  obtain cid target kinds cls warnings where plan: "plan = (cid, target, kinds, cls, warnings)" by (cases plan)
  obtain saved d where up: "UpsertContract (to_register n cid kinds cls) now (ad_db s) = (saved, d)" by fastforce
  have upserted: "store_run n (ad_db s) {} {} d" by (rule store_run_one [OF store_step.upsert [OF up]])
  show ?thesis
  proof (cases db)
    case Answering
    then have s': "EnsureBackfill n cid target (anchor n d) kinds now d = ad_db s'"
      using assms handleRegister_planned [OF Inr [unfolded plan] up, of ok] by auto
    from store_run_quiet [OF upserted store_run_one [OF store_step.ensure [OF s']]] show ?thesis .
  next
    case Gone
    then have "s' = s" using assms by (simp add: handleRegister_def Inr plan)
    then show ?thesis by (simp add: store_run.start)
  next
    case GoneAfterUpsert
    then have "ad_db s' = d" using assms up by (auto simp: handleRegister_def Inr plan to_register_def)
    then show ?thesis using upserted by simp
  qed
qed (use assms in \<open>simp add: handleRegister_def store_run.start\<close>)

lemma handleDelete_run:
  assumes "handleDelete env n cid ok s = (out, s')"
  shows "store_run n (ad_db s) {} {} (ad_db s')"
proof (cases "is_address env cid")
  case True
  obtain existed d where del: "DeleteContract n cid (ad_db s) = (existed, d)" by (cases "DeleteContract n cid (ad_db s)")
  have "ad_db s' = d" using assms True by (auto simp: handleDelete_def del)
  then show ?thesis using store_run_one [OF store_step.delete [OF del]] by simp
qed (use assms in \<open>auto simp: handleDelete_def store_run.start\<close>)

lemma check_plan_ranges:
  assumes "check_plan req = Inr (replay, padding)"
  shows "\<forall>iv\<in>set replay. iv_From iv \<le> iv_To iv"
proof
  fix iv assume "iv \<in> set replay"
  moreover have "find (\<lambda>i. bad_interval (replay ! i)) [0..<length replay] = None"
    using assms by (auto simp: check_plan_def split: if_splits option.splits)
  ultimately have "\<not> bad_interval iv" by (auto simp: find_None_iff in_set_conv_nth)
  then show "iv_From iv \<le> iv_To iv" by (auto simp: bad_interval_def not_less)
qed

lemma handlePlan_run:
  assumes "handlePlan n body now s = (out, s')"
  shows "\<exists>L. store_run n (ad_db s) {} L (ad_db s')"
proof (cases "andThen (decode_body maxPlanBodyBytes set_planRequest \<lparr>pq_Replay = [], pq_Padding = None\<rparr> body) check_plan")
  case (Inr rp)
  obtain replay padding where rp: "rp = (replay, padding)" by (cases rp)
  obtain req where "check_plan req = Inr (replay, padding)" using Inr rp by (auto simp: andThen_Inr)
  note ranges = check_plan_ranges [OF this]
  show ?thesis
  proof (cases "PlanHeal n replay padding now (ad_db s)")
    case plan: (Inr res_d)
    obtain res d where rd: "res_d = (res, d)" by (cases res_d)
    have "ad_db s' = d" using assms Inr rp plan rd by (auto simp: handlePlan_def)
    then show ?thesis using store_run_one [OF store_step.plan [OF ranges plan [unfolded rd]]] by blast
  qed (use assms Inr rp in \<open>auto simp: handlePlan_def intro: store_run.start\<close>)
qed (use assms in \<open>auto simp: handlePlan_def intro: store_run.start\<close>)

lemma request_run:
  assumes "serve ext a oc rq sv = (r, sv')" and "cf_Network (bt_config a) = n"
  shows "\<exists>L. store_run n (ad_db (sv_admin sv)) {} L (ad_db (sv_admin sv'))"
proof -
  let ?s = "sv_admin sv" and ?s' = "sv_admin sv'"
  have register: "store_run n (ad_db ?s) {} {} (ad_db ?s')" if "register_request ext n body oc ?s = (res, ?s')" for body res
    using that by (auto simp: register_request_def split: prod.splits intro: handleRegister_run)
  have delete: "store_run n (ad_db ?s) {} {} (ad_db ?s')" if "delete_request ext n cid oc ?s = (res, ?s')" for cid res
    using that by (auto simp: delete_request_def store_run.start split: prod.splits if_splits intro: handleDelete_run)
  have plan: "\<exists>L. store_run n (ad_db ?s) {} L (ad_db ?s')" if p: "plan_request n body oc ?s = (res, ?s')" for body res
  proof (cases "oc_Database oc = Answering")
    case True
    obtain out where "handlePlan n body (oc_Now oc) ?s = (out, ?s')"
      using p True by (auto simp: plan_request_def split: prod.splits)
    then show ?thesis by (rule handlePlan_run)
  next
    case False
    then have "?s' = ?s" using p by (auto simp: plan_request_def split: sum.splits)
    then show ?thesis by (auto intro: store_run.start)
  qed
  from serve_admin [OF assms(1), unfolded assms(2)] show ?thesis
  proof (elim disjE exE conjE)
    assume "sv_admin sv' = sv_admin sv"
    then show ?thesis by (auto intro: store_run.start)
  qed (use register delete plan in blast)+
qed

lemma system_step_run:
  assumes "system_step n infoOf d H d'"
  shows "\<exists>L. store_run n d H L d'"
  using assms
proof cases
  case (serves a ext oc rq sv r sv')
  then show ?thesis using request_run by blast
next
  case (ingests cfg events an l l' info)
  then show ?thesis using turn_run by blast
next
  case (walks ch fuel now b worked b')
  then show ?thesis using round_run by blast
next
  case (heals arch fuel snap now g h h')
  let ?lo = "healChunkFrom (hl_chunk h) (scanGap g)"
  note cols = scanGap_columns [OF heals(6)]
  obtain rs where c: "CommitHealChunk n (scanGap g) (?lo - 1) (?lo \<le> g_From (scanGap g)) (rows_of (foldl add_result empty_result rs)) now d
      = Inr d'"
    and lo: "uint (?lo - 1) = uint ?lo - 1" "gr_from g \<le> uint ?lo" "uint ?lo \<le> heal_top g"
    using healChunk_commits [OF heals(4,6,7,8)] heals(1,3) by blast
  have "heals_reading n g (?lo - 1) (?lo \<le> g_From (scanGap g))"
    using heals(6,7) lo cols by (auto simp: heals_reading_def open_gap_def u32_le_iff)
  from store_run_one [OF store_step.heal [OF this c]] show ?thesis using heals(2) lo(1) by auto
qed

lemma system_run_store: "system_run n infoOf d H d' \<Longrightarrow> \<exists>L. store_run n d H L d'"
proof (induction rule: system_run.induct)
  case (continues d H d' H' d'')
  then show ?case using system_step_run store_run_trans by meson
qed (auto intro: store_run.start)

section \<open>The endless workers\<close>

text \<open>The worker's life until the context is cancelled, round by round: a round without work is followed
  by a pause. The result has the pauses; \<open>None\<close> is a round that does not end.\<close>

definition backfillIdle :: int where "backfillIdle = 10000000000"

fun Run_backfiller :: "string \<Rightarrow> 'l Ingest_Backfill.chain \<Rightarrow> nat \<Rightarrow> (int \<times> bool) list \<Rightarrow> Backfiller \<Rightarrow> (int list \<times> Backfiller) option" where
  "Run_backfiller network ch fuel [] b = Some ([], b)"
| "Run_backfiller network ch fuel ((now, cancelled) # rounds) b =
     Option.bind (round network ch fuel now b) (\<lambda>(worked, b).
       if cancelled then Some ([], b)
       else map_option (apfst ((#) (if worked then 0 else backfillIdle))) (Run_backfiller network ch fuel rounds b))"

text \<open>One tick of \<open>reloadRegistry\<close> in \<^verbatim>\<open>cmd/sierpe/main.go\<close>: whatever a failed reload left stale, the
  next one that succeeds makes the snapshot that of the database.\<close>

definition reload_tick :: "string \<Rightarrow> bool \<Rightarrow> server \<Rightarrow> server" where
  "reload_tick network ok sv = sv\<lparr>sv_admin := reloadRegistry network ok (sv_admin sv)\<rparr>"

lemma reload_tick_converges:
  "ad_snapshot (sv_admin (reload_tick n True sv)) = Reload n (ad_db (sv_admin sv))
    \<and> ad_db (sv_admin (reload_tick n ok sv)) = ad_db (sv_admin sv)"
  by (simp add: reload_tick_def reloadRegistry_def)

lemma Run_backfiller_run:
  "Run_backfiller n ch fuel rounds b = Some (pauses, b') \<Longrightarrow> store_run n (bf_db b) {} {} (bf_db b')"
proof (induction rounds arbitrary: b pauses)
  case (Cons r rounds)
  obtain now cancelled where r: "r = (now, cancelled)" by (cases r)
  then obtain worked b1 where round: "round n ch fuel now b = Some (worked, b1)"
    using Cons.prems by (cases "round n ch fuel now b") auto
  show ?case
  proof (cases cancelled)
    case False
    then obtain ps where "Run_backfiller n ch fuel rounds b1 = Some (ps, b')"
      using Cons.prems r round by (auto simp: apfst_def)
    from store_run_quiet [OF round_run [OF round] Cons.IH [OF this]] show ?thesis .
  qed (use Cons.prems r round round_run [OF round] in simp)
qed (simp add: store_run.start)

section \<open>Properties\<close>

text \<open>C1: What the process does to its books is accounted for. Any sequence of HTTP requests, turns of the
  live loop, rounds of the backfill worker and heals, each heal from a reading of its gap of any age, is a
  run of store transactions: the gap table stays well formed with its open gaps disjoint, and a ledger that
  was owed is still owed at the end unless a heal of the run replayed it or the run lost it, which only two
  transactions do: a plan, the pieces it cuts with the range of a resolved gap, and a heal, what was owed of
  its gap above the watermark it had read.\<close>

theorem process_keeps_its_promises:
  assumes "system_run n infoOf d H d'" and "wf_gaps (t_gaps d)" and "open_disjoint n (t_gaps d)"
  shows "\<exists>L. store_run n d H L d' \<and> wf_gaps (t_gaps d') \<and> open_disjoint n (t_gaps d')
    \<and> owed n (t_gaps d) \<subseteq> owed n (t_gaps d') \<union> H \<union> L"
  using system_run_store [OF assms(1)] run_keeps_books [OF _ assms(2,3)] by (fastforce simp: books_kept_def)

theorem process_keeps_its_promises_witness:
  "\<exists>H L d'. system_run ''testnet'' (he_info demo_archive) demo_db H d' \<and> H \<noteq> {} \<and> H \<subseteq> {1000..1199}
    \<and> store_run ''testnet'' demo_db H L d' \<and> owed ''testnet'' (t_gaps demo_db) \<subseteq> owed ''testnet'' (t_gaps d') \<union> H \<union> L"
proof -
  let ?r = "demo_gap ''testnet'' 1000 1199" and ?rq = "demo_request ''POST'' [''v1'', ''contracts''] ''Bearer 0123456789abcdef''"
  obtain h' where h': "healChunk ''testnet'' demo_archive 4 [] 7 (scanGap ?r) demo_healer = Some (Inr (), h')"
    using demo_heal by blast
  have db: "hl_db demo_healer = demo_db" "hl_chunk demo_healer = 2" by (simp_all add: demo_healer_def NewHealer_def)
  have r: "wf_gap ?r" "open_gap ''testnet'' ?r" "hl_chunk demo_healer \<noteq> 0"
    using demo_gap_wf [of 1000 1199 "''testnet''"] by (simp_all add: db demo_gap_def open_gap_def)
  note heal = system_step.heals [OF h' refl r]
  define sv where "sv = demo_server\<lparr>sv_admin := \<lparr>ad_db = hl_db h', ad_snapshot = []\<rparr>\<rparr>"
  obtain out sv' where request: "serve demo_outside demo_appliance demo_occasion ?rq sv = (out, sv')"
    by (cases "serve demo_outside demo_appliance demo_occasion ?rq sv")
  have lo: "uint (healChunkFrom (hl_chunk demo_healer) (scanGap ?r)) = 1198" "heal_top ?r = 1199"
    by (simp_all add: db healChunkFrom_def scanGap_def demo_gap_def heal_top_def Let_def)
  have "system_run ''testnet'' (he_info demo_archive) demo_db ({} \<union> {1198..1199}) (hl_db h')"
    using system_run.continues [OF system_run.boots heal, unfolded lo db(1)] .
  moreover have "system_step ''testnet'' (he_info demo_archive) (ad_db (sv_admin sv)) {} (ad_db (sv_admin sv'))"
    by (rule system_step.serves [OF _ request]) (simp add: demo_appliance_def)
  then have "system_step ''testnet'' (he_info demo_archive) (hl_db h') {} (ad_db (sv_admin sv'))" by (simp add: sv_def)
  ultimately have run: "system_run ''testnet'' (he_info demo_archive) demo_db ({} \<union> {1198..1199} \<union> {}) (ad_db (sv_admin sv'))"
    by (rule system_run.continues)
  from process_keeps_its_promises [OF run demo_db_ok(1,2)] obtain L where
    "store_run ''testnet'' demo_db ({} \<union> {1198..1199} \<union> {}) L (ad_db (sv_admin sv'))"
    "owed ''testnet'' (t_gaps demo_db) \<subseteq> owed ''testnet'' (t_gaps (ad_db (sv_admin sv'))) \<union> ({} \<union> {1198..1199} \<union> {}) \<union> L" by blast
  with run show ?thesis
    by (intro exI [of _ "{} \<union> {1198..1199} \<union> {}"] exI [of _ L] exI [of _ "ad_db (sv_admin sv')"]) simp
qed

end
