(* ===== verification/Process.thy ===== *)
theory Process
  imports Http
begin

text \<open>
  The life of the process after its boot (\<open>run\<close> in \<^verbatim>\<open>cmd/sierpe/main.go\<close> and \<open>Loop.Run\<close>): the signal
  that cancels the context, the listener that may fail, the live loop from its network check to its end,
  and the two \<open>select\<close>s that decide when and with what \<open>run\<close> returns. Where several channels are ready
  Go picks any of them, so returning is a relation. A turn of the loop that the signal interrupts is a
  turn before the signal or no turn at all: nothing is written in between.
\<close>

section \<open>State and steps\<close>

datatype loop_end = Cancelled | Unverified client_error | Failed loop_error

datatype loop_status = Serving_only | Starting | Running Loop | Ended loop_end

record process =
  pr_cancelled :: bool
  pr_httpErr :: "string option"
  pr_loop :: loop_status

definition loop_config :: "appliance \<Rightarrow> Config" where
  "loop_config a = \<lparr>cfg_Network = cf_Network (bt_config a), cfg_StartLedger = cf_StartLedger (bt_config a)\<rparr>"

definition started :: "bool \<Rightarrow> process" where
  "started withIngestion =
     \<lparr>pr_cancelled = False, pr_httpErr = None, pr_loop = (if withIngestion then Starting else Serving_only)\<rparr>"

text \<open>\<open>Loop.Run\<close> checks the network, finds its resume point, and looks at the context before every turn.\<close>

inductive process_step ::
  "appliance \<Rightarrow> ('l \<Rightarrow> Info) \<Rightarrow> (Snapshot \<Rightarrow> 'l extractor) \<Rightarrow> process \<Rightarrow> process \<Rightarrow> bool"
  for a :: appliance and infoOf :: "'l \<Rightarrow> Info" and events :: "Snapshot \<Rightarrow> 'l extractor"
where
  signal: "process_step a infoOf events p (p\<lparr>pr_cancelled := True\<rparr>)"
| listener_fails: "process_step a infoOf events p (p\<lparr>pr_httpErr := Some e\<rparr>)"
| unverified: "pr_loop p = Starting \<Longrightarrow> VerifyNetwork net (Passphrase (cf_Network (bt_config a))) c = (Inl e, c') \<Longrightarrow>
     process_step a infoOf events p (p\<lparr>pr_loop := Ended (Unverified e)\<rparr>)"
| unresumed: "pr_loop p = Starting \<Longrightarrow> VerifyNetwork net (Passphrase (cf_Network (bt_config a))) c = (Inr (), c') \<Longrightarrow>
     resumePoint (loop_config a) down d tip = Inl e \<Longrightarrow> process_step a infoOf events p (p\<lparr>pr_loop := Ended (Failed e)\<rparr>)"
| resumes: "pr_loop p = Starting \<Longrightarrow> VerifyNetwork net (Passphrase (cf_Network (bt_config a))) c = (Inr (), c') \<Longrightarrow>
     resumePoint (loop_config a) down d tip = Inr np \<Longrightarrow>
     process_step a infoOf events p (p\<lparr>pr_loop := Running (start_loop d obs inst np)\<rparr>)"
| turns: "pr_loop p = Running l \<Longrightarrow> \<not> pr_cancelled p \<Longrightarrow> turn (loop_config a) infoOf events an l = Continue l' i \<Longrightarrow>
     process_step a infoOf events p (p\<lparr>pr_loop := Running l'\<rparr>)"
| stops: "pr_loop p = Running l \<Longrightarrow> \<not> pr_cancelled p \<Longrightarrow> turn (loop_config a) infoOf events an l = Stop e l' \<Longrightarrow>
     process_step a infoOf events p (p\<lparr>pr_loop := Ended (Failed e)\<rparr>)"
| halts: "pr_loop p = Running l \<Longrightarrow> pr_cancelled p \<Longrightarrow>
     process_step a infoOf events p (p\<lparr>pr_loop := Ended Cancelled\<rparr>)"

inductive process_run ::
  "appliance \<Rightarrow> ('l \<Rightarrow> Info) \<Rightarrow> (Snapshot \<Rightarrow> 'l extractor) \<Rightarrow> bool \<Rightarrow> process \<Rightarrow> bool"
  for a :: appliance and infoOf :: "'l \<Rightarrow> Info" and events :: "Snapshot \<Rightarrow> 'l extractor" and withIngestion :: bool
where
  begins: "process_run a infoOf events withIngestion (started withIngestion)"
| steps: "process_run a infoOf events withIngestion p \<Longrightarrow> process_step a infoOf events p p' \<Longrightarrow>
     process_run a infoOf events withIngestion p'"

text \<open>What \<open>run\<close> returns, and when: serving only, the signal or the listener; ingesting, the loop's end
  (which is also what is waited for after the signal) or the listener.\<close>

datatype outcome = Clean_exit | Loop_error loop_end | Http_error string

definition outcome_of :: "loop_end \<Rightarrow> outcome" where
  "outcome_of e = (if e = Cancelled then Clean_exit else Loop_error e)"

inductive run_returns :: "process \<Rightarrow> outcome \<Rightarrow> bool" where
  served: "pr_loop p = Serving_only \<Longrightarrow> pr_cancelled p \<Longrightarrow> run_returns p Clean_exit"
| ended: "pr_loop p = Ended e \<Longrightarrow> run_returns p (outcome_of e)"
| unheard: "pr_httpErr p = Some e \<Longrightarrow> run_returns p (Http_error e)"

inductive_simps run_returns_iff: "run_returns p x"
inductive_cases process_stepE: "process_step a infoOf events p p'"

section \<open>Lemmas\<close>

text \<open>The loop ends without an error only after the signal, and until it ends it is a run of turns from a
  resume point it was given.\<close>

definition live :: "appliance \<Rightarrow> ('l \<Rightarrow> Info) \<Rightarrow> (Snapshot \<Rightarrow> 'l extractor) \<Rightarrow> process \<Rightarrow> bool" where
  "live a infoOf events p \<longleftrightarrow>
     (pr_loop p = Ended Cancelled \<longrightarrow> pr_cancelled p)
     \<and> (\<forall>l. pr_loop p = Running l \<longrightarrow> (\<exists>down d tip obs inst np is. resumePoint (loop_config a) down d tip = Inr np
          \<and> loop_run (loop_config a) infoOf events (start_loop d obs inst np) is l))"

lemma live_running:
  "live a infoOf events p \<Longrightarrow> pr_loop p = Running l \<Longrightarrow> turn (loop_config a) infoOf events an l = Continue l' i \<Longrightarrow>
     live a infoOf events (p\<lparr>pr_loop := Running l'\<rparr>)"
  by (cases i) (auto simp: live_def intro: loop_run.wait loop_run.commit, metis loop_run.wait, metis loop_run.commit)

lemma process_step_live: "process_step a infoOf events p p' \<Longrightarrow> live a infoOf events p \<Longrightarrow> live a infoOf events p'"
proof (induction rule: process_step.induct)
  case (turns p l an l' i)
  then show ?case by (rule_tac live_running)
next
  case (resumes p net c c' down d tip np obs inst)
  from loop_run.start [of "loop_config a" infoOf events "start_loop d obs inst np"] resumes(3)
  show ?case unfolding live_def by (cases np) (simp, blast)
qed (auto simp: live_def)

lemma process_run_live: "process_run a infoOf events withIngestion p \<Longrightarrow> live a infoOf events p"
proof (induction rule: process_run.induct)
  case begins
  show ?case by (simp add: live_def started_def)
qed (rule process_step_live)

lemma process_run_mode: "process_run a infoOf events withIngestion p \<Longrightarrow> pr_loop p = Serving_only \<longleftrightarrow> \<not> withIngestion"
proof (induction rule: process_run.induct)
  case (steps p p')
  from steps(2) have "pr_loop p' = Serving_only \<longleftrightarrow> pr_loop p = Serving_only" by cases auto
  with steps(3) show ?case by simp
qed (simp add: started_def)

lemma returns_clean: "live a infoOf events p \<Longrightarrow> run_returns p Clean_exit \<Longrightarrow> pr_cancelled p"
  by (auto simp: run_returns_iff live_def outcome_of_def split: if_splits)

lemma exit_code_clean: "exit_code (Run withIngestion) b = 0 \<longleftrightarrow> b"
  by (simp add: exit_code_def)

section \<open>Properties\<close>

text \<open>C39: The process ends when it should and says why. A run that ends with exit code 0 was told to stop; a
  run that was not told to stop and whose listener works goes on until its live loop fails, and then ends
  with the loop's error. After the signal an ingesting run that had reached its loop commits no further
  ledger, and its next step of the loop ends it with exit code 0.\<close>

theorem process_ends_honestly:
  assumes "process_run a infoOf events withIngestion p"
  shows "(\<forall>x. run_returns p x \<and> exit_code (Run withIngestion) (x = Clean_exit) = 0 \<longrightarrow> pr_cancelled p)
    \<and> (\<not> pr_cancelled p \<and> pr_httpErr p = None \<longrightarrow>
        (\<forall>x. run_returns p x \<longleftrightarrow> (\<exists>e. pr_loop p = Ended e \<and> e \<noteq> Cancelled \<and> x = Loop_error e)))
    \<and> (\<forall>l. pr_cancelled p \<and> pr_loop p = Running l \<longrightarrow>
        (\<forall>p'. process_step a infoOf events p p' \<longrightarrow> pr_loop p' = Running l \<or> pr_loop p' = Ended Cancelled)
        \<and> (\<exists>p'. process_step a infoOf events p p' \<and> run_returns p' Clean_exit))"
proof (intro conjI allI impI)
  note live = process_run_live [OF assms]
  fix x assume "run_returns p x \<and> exit_code (Run withIngestion) (x = Clean_exit) = 0"
  then show "pr_cancelled p" using returns_clean [OF live] by (auto simp: exit_code_clean)
next
  note live = process_run_live [OF assms]
  fix x assume "\<not> pr_cancelled p \<and> pr_httpErr p = None"
  then show "run_returns p x \<longleftrightarrow> (\<exists>e. pr_loop p = Ended e \<and> e \<noteq> Cancelled \<and> x = Loop_error e)"
    using live by (auto simp: run_returns_iff live_def outcome_of_def)
next
  fix l p' assume "pr_cancelled p \<and> pr_loop p = Running l" and "process_step a infoOf events p p'"
  then show "pr_loop p' = Running l \<or> pr_loop p' = Ended Cancelled" by (auto elim!: process_stepE)
next
  fix l assume l: "pr_cancelled p \<and> pr_loop p = Running l"
  then have "process_step a infoOf events p (p\<lparr>pr_loop := Ended Cancelled\<rparr>)" by (auto intro: process_step.halts)
  moreover have "run_returns (p\<lparr>pr_loop := Ended Cancelled\<rparr>) Clean_exit"
    using run_returns.ended [of "p\<lparr>pr_loop := Ended Cancelled\<rparr>" Cancelled] by (simp add: outcome_of_def)
  ultimately show "\<exists>p'. process_step a infoOf events p p' \<and> run_returns p' Clean_exit" by blast
qed

theorem process_ends_honestly_witness:
  "\<exists>p p'. process_run demo_appliance demo_info (\<lambda>_ _. Inr empty_result) True p \<and> pr_cancelled p
    \<and> process_step demo_appliance demo_info (\<lambda>_ _. Inr empty_result) p p' \<and> run_returns p' Clean_exit"
proof -
  let ?pass = "Passphrase (cf_Network (bt_config demo_appliance))"
  let ?net = "\<lambda>_ _. Answered 200 10 (ResultDoc \<lparr>rp_sequence = 500, rp_passphrase = ?pass, rp_ledgers = [],
            rp_latestLedger = 500, rp_oldestLedger = 3, rp_entries = []\<rparr>)"
  define p1 where "p1 = (started True)\<lparr>pr_loop := Running (start_loop empty_db demo_health NewMetrics (500, ''''))\<rparr>"
  have "VerifyNetwork ?net ?pass demo_client = (Inr (), demo_client)"
    by (simp add: VerifyNetwork_def call_def demo_client_def callOne_def Let_def)
  moreover have "resumePoint (loop_config demo_appliance) False empty_db (Inr 500) = Inr (500, '''')"
    by (simp add: resumePoint_def loop_config_def demo_appliance_def LoadCursor_def empty_db_def)
  moreover have "pr_loop (started True) = Starting" by (simp add: started_def)
  ultimately have "process_step demo_appliance demo_info (\<lambda>_ _. Inr empty_result) (started True) p1"
    unfolding p1_def by (intro process_step.resumes)
  then have run: "process_run demo_appliance demo_info (\<lambda>_ _. Inr empty_result) True p1"
    by (rule process_run.steps [OF process_run.begins])
  then have run2: "process_run demo_appliance demo_info (\<lambda>_ _. Inr empty_result) True (p1\<lparr>pr_cancelled := True\<rparr>)"
    by (rule process_run.steps) (rule process_step.signal)
  moreover have "pr_loop (p1\<lparr>pr_cancelled := True\<rparr>) = Running (start_loop empty_db demo_health NewMetrics (500, ''''))"
    by (simp add: p1_def)
  ultimately show ?thesis using process_ends_honestly [OF run2] by auto
qed

text \<open>The signal is an error while the loop is still checking its network: the calls it cancels fail, and the
  process that was told to stop ends with exit code 1.\<close>

theorem stop_while_starting_is_an_error:
  "\<exists>p. process_run demo_appliance demo_info (\<lambda>_ _. Inr empty_result) True p \<and> pr_cancelled p \<and> pr_httpErr p = None
    \<and> run_returns p (Loop_error (Unverified AllFailed)) \<and> exit_code (Run True) (Loop_error (Unverified AllFailed) = Clean_exit) = 1"
proof -
  let ?p = "(started True)\<lparr>pr_cancelled := True\<rparr>"
  have run: "process_run demo_appliance demo_info (\<lambda>_ _. Inr empty_result) True ?p"
    by (rule process_run.steps [OF process_run.begins process_step.signal])
  have "VerifyNetwork (\<lambda>_ _. PostFailed) (Passphrase (cf_Network (bt_config demo_appliance))) demo_client = (Inl AllFailed, demo_client)"
    by (simp add: VerifyNetwork_def call_def demo_client_def callOne_def Let_def numeral_2_eq_2)
  then have "process_step demo_appliance demo_info (\<lambda>_ _. Inr empty_result) ?p (?p\<lparr>pr_loop := Ended (Unverified AllFailed)\<rparr>)"
    by (intro process_step.unverified) (simp add: started_def)
  from process_run.steps [OF run this] show ?thesis
    by (intro exI [of _ "?p\<lparr>pr_loop := Ended (Unverified AllFailed)\<rparr>"])
      (simp add: run_returns_iff outcome_of_def exit_code_def started_def)
qed

end
