(* ===== verification/Spec2Isabelle.thy ===== *)
theory Spec2Isabelle
  imports Ingest_Source Ingest_Backfill Ingest_Heal Ingest_Diff Api_Rows Extract_Rows Registration System Process
begin

text \<open>
  A verification development of \<^verbatim>\<open>sierpe\<close>, a self-hosted indexer of Stellar contracts written in Go.
  File names below are relative to \<^verbatim>\<open>src/\<close>.

  \<^bold>\<open>The program.\<close> The live loop (\<^verbatim>\<open>internal/ingest/loop.go\<close>) pulls ledgers from a failover pool of RPC
  endpoints (\<^verbatim>\<open>internal/source/rpc\<close>), extracts the rows of the registered contracts
  (\<^verbatim>\<open>internal/extract\<close> against a snapshot of \<^verbatim>\<open>internal/registry\<close>) and commits them with the cursor
  in one transaction (\<^verbatim>\<open>internal/store\<close>). A registration (\<^verbatim>\<open>internal/admin\<close>, classified from the chain by
  \<^verbatim>\<open>internal/registry/classify.go\<close>) starts a walk down into history, which the backfill worker
  (\<^verbatim>\<open>internal/ingest/backfill.go\<close>) advances in chunks; where the endpoints no longer serve history it declares a
  gap and clamps the walk. The gap healer (\<^verbatim>\<open>internal/ingest/heal.go\<close>) replays gaps from the archives through a
  captive core (\<^verbatim>\<open>internal/source/captive\<close>), once a sample has been found equal to the RPC's copy, and
  lowers the frontier of the clamped walks. The public API (\<^verbatim>\<open>internal/api\<close>) answers pages of rows with
  cursors and says how much of the history they cover. \<^verbatim>\<open>cmd/sierpe\<close> and \<^verbatim>\<open>internal/config\<close> boot all of it.

  \<^bold>\<open>Conventions.\<close> Go's \<open>uint32\<close> is \<open>32 word\<close> and wraps; \<open>bigint\<close> columns, Go \<open>int\<close>s and times are \<open>int\<close>;
  strings and byte slices are lists of bytes (\<open>string\<close>). A table is the list of its rows, a query filters
  and sorts stably, a transaction returns an error or the new database. The clock is an argument
  \<open>now\<close>. Every \<open>return err\<close> is a value of a sum type; a panic that the code recovers from is a value too.
  Code outside the repository (XDR and strkey codecs of the SDK, SHA-256, the endpoints, the core
  process, URL parsing, the file system, Unicode tables beyond ASCII) is an argument of the definitions
  that use it, and what is asked of it is a named predicate in the theorems. A read or write that
  fails for a passing reason (a lost connection) is modelled where the code's reaction to it matters: the live loop's
  start and turns, the failover of the pool, the reload of the snapshot, the healer's gate, the writes of a registration.
  A read request of a row endpoint takes one database state per statement (\<open>reads\<close>), a heal the gap row some earlier
  listing gave it.

  \<^bold>\<open>The theories.\<close>
  \<^item> \<open>Prelude\<close> words as integers, decimals, sums as errors; \<open>Json\<close> base64 and the part of \<open>encoding/json\<close> and
    \<open>strconv\<close> in use; \<open>Go_Strings\<close> runes, trimming, splitting; \<open>Go_Path\<close> slash-separated paths; \<open>Http_Mux\<close> the
    multiplexer of \<open>net/http\<close>.
  \<^item> \<open>Ranges\<close>, \<open>Store_Plan\<close> (\<^verbatim>\<open>store/plan.go\<close>) intervals, checkpoint snapping, \<open>partition\<close>, \<open>PlanHeal\<close>,
    \<open>ReopenGaps\<close>; \<open>Store_Db\<close> the structs and tables; \<open>Store_Gaps\<close> (\<^verbatim>\<open>store/store.go\<close>, \<^verbatim>\<open>store/heal.go\<close>)
    \<open>RecordGap\<close>; \<open>Store_Heal\<close> \<open>CommitHealChunk\<close>; \<open>Store_Ledger\<close> \<open>CommitLedger\<close>, the cursor, \<open>Migrate\<close>;
    \<open>Store_Rows\<close> and \<open>Store_Queries\<close> (\<^verbatim>\<open>store/events.go\<close>, \<^verbatim>\<open>state.go\<close>, \<^verbatim>\<open>transfers.go\<close>, \<^verbatim>\<open>trustlines.go\<close>,
    \<^verbatim>\<open>movements.go\<close>) the row tables; \<open>Store_Backfill\<close> (\<^verbatim>\<open>store/contracts.go\<close>, \<^verbatim>\<open>store/backfill.go\<close>)
    registrations and walks; \<open>Store_Runs\<close> every interleaving of the transactions; \<open>System\<close> the HTTP
    server and the workers as runs of them.
  \<^item> \<open>Registry\<close> (\<^verbatim>\<open>registry/registry.go\<close>) the snapshot; \<open>Registry_Classify\<close> the wasm section walk with its varints,
    the declared names, \<open>Classify\<close>.
  \<^item> \<open>Extract\<close> the five derivations with their counters and the recover frontier; \<open>Extract_Shares\<close> each
    contract's share of a ledger, stated without loops; \<open>Extract_Rows\<close> what holds of every row.
  \<^item> \<open>Ingest_Scan\<close> and \<open>Ingest_Backfill\<close> scans, the wall, groups, rounds; \<open>Ingest_Loop\<close> the live loop, one
    \<open>turn\<close> per iteration; \<open>Ingest_Heal\<close>, \<open>Ingest_Equivalence\<close>, \<open>Ingest_Diff\<close> the healer, its workers, its gate and
    its diagnosis; \<open>Source_Rpc\<close>, \<open>Source_Captive\<close> the two sources; \<open>Ingest_Source\<close> the contract between a scan and its
    source.
  \<^item> \<open>Health\<close> metrics and status; \<open>Api_Cursor\<close>, \<open>Api\<close>, \<open>Api_Rows\<close> cursors, handlers, coverage; \<open>Admin\<close>
    the authenticated surface and \<^verbatim>\<open>internal/httpauth\<close>; \<open>Registration\<close> admin over the real classifier; \<open>Config\<close>,
    \<open>Cmd\<close> configuration and boot; \<open>Http\<close> (\<^verbatim>\<open>cmd/sierpe/main.go\<close> and the \<open>Register\<close> functions) the routes, the
    gate and what a request does; \<open>Process\<close> the life of the process: signal, listener, live loop, exit.

  \<^bold>\<open>Interfaces.\<close> \<open>idempotent_table\<close>, \<open>guarded_snapshot\<close> (row and snapshot tables), \<open>paged_query\<close> (keyset pages),
  \<open>keyed_registrations\<close>, \<open>tagged_payload\<close> (cursor kinds), \<open>row_invariant\<close> and \<open>ledger_invariant\<close> (what one row keeps, the
  whole ledger keeps) and \<open>ledger_source\<close> (bulk reads) are locales; each is interpreted on the code's own
  definitions where these are declared.

  \<^bold>\<open>What is shown.\<close>
  \<^item> Gaps. A ledger is \<open>declared\<close> when an open gap spans it and \<open>owed\<close> when it has still to be replayed. Recording,
    reopening and healing a chunk do to these sets exactly what they should and open gaps stay disjoint. A plan shares
    out what is owed but for the pieces it cuts with the range of a resolved gap (\<open>dropped\<close>); a heal whose reading of its
    gap is stale also discharges what has been owed again above its watermark since (\<open>rewound_since\<close>). Along every run
    of the store, and so of the whole process, an owed ledger leaves only through the heal that replayed it or in
    one of these two ways, which \<open>plan_loses_nothing\<close> and \<open>heal_loses_nothing\<close> exclude under stated conditions. A clamped
    walk waits for an open gap unless its wall stands on such a piece, and a frontier is lowered only over ledgers no
    longer owed.
  \<^item> Rows. Commits are idempotent; snapshots converge to the latest change in any order of arrival, from batches of
    whole ledgers that may overlap; and extraction gives a contract its share of each ledger, whatever else is watched or was cached.
  \<^item> Walks. A scan, over a single source or the failover pool, returns exactly the range or an error; the live
    loop commits a hash-linked, gapless sequence; a walk's chunks tile its history and advance with rows of a completed
    scan, cached or not; a heal stores what it extracted and takes off what is owed exactly what it replayed, and
    only after the gate passed.
  \<^item> Answers. Cursors open only the page they were minted for; a client following them gets every row once;
    \<open>COMPLETE\<close> is said only of rows as they were read, below the live cursor and above a walk's frontier, or of the
    ledger of the live cursor itself.
  \<^item> Boundaries. What registration, heal plans, classification, configuration and boot accept, refuse and do. No
    request changes anything without the admin token, and with Basic Auth a request without credentials
    learns nothing but readiness; the routes are those of an explicit table; the process exits with 0
    only when it was told to stop.

  \<^bold>\<open>Termination and fuel.\<close> Loops whose bound lies outside (source calls, worker pools, spec streams, JSON nesting)
  take fuel and give \<open>None\<close> when it is used up. The theorems give the fuel that suffices: a scan needs one call
  more than the range has ledgers, a spec stream and a JSON text one step more than (twice) their length.
  Everything else is structural recursion or has a termination proof.

  \<^bold>\<open>Where the code falls short of its comments.\<close> Some theorems are counterexamples: \<open>split_onto_resolved_gap_loses_ledgers\<close>,
  \<open>stale_heal_undoes_rewind\<close>, \<open>registration_before_ingestion_claims_history\<close>, \<open>gate_disabled_by_transient_failure\<close>,
  \<open>healthcheck_misses_signed_port\<close>, \<open>interrupted_registration_has_no_walk\<close>, \<open>complete_misses_a_ledger\<close>,
  \<open>complete_without_a_walk\<close> and \<open>stop_while_starting_is_an_error\<close>. The first two are the losses that the runs of
  \<open>Store_Runs\<close> carry along.

  \<^bold>\<open>Not modelled.\<close> The page of the embedded UI (one constant body) and the JSON rendering of response bodies; the
  text of error messages and log lines beyond the fixed ones of refusals; the Prometheus exposition; SQL text,
  connection pool and migration files (the schema's keys and constraints are in the tables); the core process
  behind its configuration; the tickers and the locks (workers appear as interleaved steps, published pointers as
  assignments); what \<open>run\<close> closes on its way out; time-outs other than as a failed call, the context whose
  cancellation keeps \<open>call\<close> from trying the next endpoint, and what an attempt that fails while decoding leaves in the
  result struct the next one fills. The
  contract endpoints without rows, and every request seen as one step of \<open>System\<close>, read one database state. What is left of the
  sources is interfaces, constructors that copy their arguments, and this I/O.
\<close>

end
